(* ===== verification/VL_Prelude.thy ===== *)
theory VL_Prelude
  imports Main "HOL-Library.Word"
begin

text \<open>
  Shared vocabulary of the development: the fixed-width integer types of
  \<^verbatim>\<open><stdint.h>\<close>, byte buffers as lists, the overlay of a byte run on a buffer
  that models \<^verbatim>\<open>memcpy\<close>, bit strings (most significant bit first) that the
  base32 and byte-order proofs are carried out on, and the theorem collections the
  component theories add to.
\<close>

unbundle bit_operations_syntax

named_theorems vl_len "lengths of buffers and encodings"
named_theorems vl_bits "bit strings of words"
named_theorems vl_guard "early returns of the operations"

type_synonym u8 = "8 word"
type_synonym u32 = "32 word"
type_synonym u64 = "64 word"

text \<open>A byte buffer is a list of bytes; a pointer that may be NULL is an option.\<close>

type_synonym bytes = "u8 list"

text \<open>The bytes of a C string literal, without its terminating NUL.\<close>

definition str_bytes :: "string \<Rightarrow> bytes" where
  "str_bytes s = map of_char s"

lemma length_str_bytes [simp, vl_len]: "length (str_bytes s) = length s"
  by (simp add: str_bytes_def)

section \<open>Overlaying a run of bytes on a buffer (memcpy, memset)\<close>

definition overlay :: "'a list \<Rightarrow> nat \<Rightarrow> 'a list \<Rightarrow> 'a list" where
  "overlay buf off xs = take off buf @ xs @ drop (off + length xs) buf"

lemma length_overlay [simp, vl_len]:
  "off + length xs \<le> length buf \<Longrightarrow> length (overlay buf off xs) = length buf"
  by (simp add: overlay_def)

lemma take_overlay_end:
  "off \<le> length buf \<Longrightarrow> take (off + length xs) (overlay buf off xs) = take off buf @ xs"
  by (simp add: overlay_def)

lemma take_overlay_before:
  "n \<le> off \<Longrightarrow> off \<le> length buf \<Longrightarrow> take n (overlay buf off xs) = take n buf"
  by (simp add: overlay_def min_absorb1)

lemma drop_overlay_after:
  "off \<le> length buf \<Longrightarrow> off + length xs \<le> n \<Longrightarrow> drop n (overlay buf off xs) = drop n buf"
  by (simp add: overlay_def)

lemma nth_overlay:
  assumes "off + length xs \<le> length buf" and "i < length buf"
  shows "overlay buf off xs ! i =
    (if i < off then buf ! i else if i < off + length xs then xs ! (i - off) else buf ! i)"
  using assms by (auto simp: overlay_def nth_append min_def)

lemma overlay_Nil [simp]: "overlay buf off [] = buf"
  by (simp add: overlay_def)

lemma overlay_0 [simp]: "length xs = length buf \<Longrightarrow> overlay buf 0 xs = xs"
  by (simp add: overlay_def)

lemma list_update_is_overlay:
  "i < length buf \<Longrightarrow> buf[i := x] = overlay buf i [x]"
  by (simp add: overlay_def upd_conv_take_nth_drop)

text \<open>Writing the next element at the write index extends the written prefix.\<close>

lemma take_Suc_update:
  "k < length xs \<Longrightarrow> take (Suc k) (xs[k := x]) = take k xs @ [x]"
  by (simp add: take_Suc_conv_app_nth)

section \<open>Bit strings, most significant bit first\<close>

definition bv :: "nat \<Rightarrow> 'a::len word \<Rightarrow> bool list" where
  "bv n w = rev (map (bit w) [0..<n])"

lemma length_bv [simp, vl_len]: "length (bv n w) = n"
  by (simp add: bv_def)

lemma bv_0 [simp]: "bv 0 w = []"
  by (simp add: bv_def)

lemma bv_add: "bv (n + k) w = bv n (drop_bit k w) @ bv k w"
proof -
  have "map (bit w) [k..<k + n] = map (bit (drop_bit k w)) [0..<n]"
    by (rule nth_equalityI) (simp_all add: bit_drop_bit_eq ac_simps)
  moreover have "[0..<n + k] = [0..<k] @ [k..<k + n]"
    by (metis add.commute le0 upt_add_eq_append)
  ultimately show ?thesis by (simp only: bv_def map_append rev_append)
qed

lemma bv_eq_iff: "bv n v = bv n w \<longleftrightarrow> (\<forall>i<n. bit v i = bit w i)"
  by (auto simp: bv_def map_eq_conv)

lemma bv_eq_lengthD: "bv LENGTH('a) v = bv LENGTH('a) w \<Longrightarrow> v = (w :: 'a::len word)"
  by (rule bit_word_eqI) (simp add: bv_eq_iff)

lemma bv_cong_low: "take_bit n v = take_bit n w \<Longrightarrow> bv n v = bv n w"
  by (metis bit_take_bit_iff bv_eq_iff)

lemma bv_take_bit [simp]: "bv n (take_bit n w) = bv n w"
  by (rule bv_cong_low) simp

lemma bv_ucast:
  "n \<le> LENGTH('b) \<Longrightarrow> bv n (ucast (w :: 'a::len word) :: 'b::len word) = bv n w"
  by (simp add: bv_def bit_ucast_iff cong: map_cong)

text \<open>
  Shifting \<open>k\<close> fresh low bits into an accumulator appends them to its pending bits;
  the bits that fall off the top were consumed earlier.
\<close>

lemma bv_shift_in:
  assumes "n + k \<le> LENGTH('a)" and "\<And>i. k \<le> i \<Longrightarrow> \<not> bit v i"
  shows "bv (n + k) (push_bit k w OR v :: 'a::len word) = bv n w @ bv k v"
proof -
  have "bv n (drop_bit k (push_bit k w OR v)) = bv n w"
    using assms by (auto simp: bv_eq_iff bit_drop_bit_eq bit_or_iff bit_push_bit_iff)
  moreover have "bv k (push_bit k w OR v) = bv k v"
    by (auto simp: bv_eq_iff bit_or_iff bit_push_bit_iff)
  ultimately show ?thesis by (simp add: bv_add)
qed

lemma bv_zero_iff: "bv n w = replicate n False \<longleftrightarrow> take_bit n w = 0"
proof -
  have "bv n w = replicate n False \<longleftrightarrow> (\<forall>i<n. \<not> bit w i)"
    unfolding bv_def rev_swap rev_replicate
    by (auto simp: list_eq_iff_nth_eq)
  also have "\<dots> \<longleftrightarrow> take_bit n w = 0"
    by (auto simp: bit_eq_iff bit_take_bit_iff dest: bit_imp_le_length)
  finally show ?thesis .
qed

text \<open>Concatenated fixed-width bit strings determine the words.\<close>

definition byte_bits :: "bytes \<Rightarrow> bool list" where
  "byte_bits bs = concat (map (bv 8) bs)"

lemma byte_bits_Nil [simp]: "byte_bits [] = []"
  by (simp add: byte_bits_def)

lemma byte_bits_Cons [simp]: "byte_bits (b # bs) = bv 8 b @ byte_bits bs"
  by (simp add: byte_bits_def)

lemma byte_bits_append [simp]: "byte_bits (xs @ ys) = byte_bits xs @ byte_bits ys"
  by (simp add: byte_bits_def)

lemma length_byte_bits [simp, vl_len]: "length (byte_bits bs) = 8 * length bs"
  by (induction bs) simp_all

lemma byte_bits_inj_append:
  "byte_bits xs @ p = byte_bits ys @ q \<Longrightarrow> length xs = length ys \<Longrightarrow> xs = ys \<and> p = q"
proof (induction xs arbitrary: ys)
  case Nil
  then show ?case by simp
next
  case (Cons x xs)
  then obtain y zs where ys: "ys = y # zs" by (cases ys) auto
  with Cons.prems have "bv 8 x = bv 8 y" by simp
  then have "x = y" using bv_eq_lengthD [where 'a = 8] by simp
  with Cons ys show ?case by simp
qed

section \<open>The low byte of a word\<close>

lemma low_byte64: "(ucast (m AND 0xFF) :: u8) = ucast (m :: u64)"
proof -
  have "m AND 0xFF = take_bit 8 m" by (simp add: take_bit_eq_mask mask_eq_exp_minus_1)
  then show ?thesis by (auto intro!: bit_word_eqI simp: bit_simps)
qed

lemma low_byte32: "(ucast (m AND 0xFF) :: u8) = ucast (m :: u32)"
proof -
  have "m AND 0xFF = take_bit 8 m" by (simp add: take_bit_eq_mask mask_eq_exp_minus_1)
  then show ?thesis by (auto intro!: bit_word_eqI simp: bit_simps)
qed

section \<open>Checking a property of every byte\<close>

lemma all_bytes:
  assumes "list_all (\<lambda>n. P (word_of_nat n :: u8)) [0..<256]"
  shows "P c"
proof -
  have "unat c < 256" using unsigned_less [of c] by simp
  then have "unat c \<in> set [0..<256]" by simp
  with assms have "P (word_of_nat (unat c))" unfolding list_all_iff by blast
  then show ?thesis by simp
qed

section \<open>Lists\<close>

lemma take_map_upt_nth: "n \<le> length xs \<Longrightarrow> map ((!) xs) [0..<n] = take n xs"
  by (rule nth_equalityI) simp_all

lemma fold_invariant_upt:
  assumes "P m s" and "\<And>i s. m \<le> i \<Longrightarrow> i < n \<Longrightarrow> P i s \<Longrightarrow> P (Suc i) (f i s)" and "m \<le> n"
  shows "P n (fold f [m..<n] s)"
  using assms(3) assms(2)
proof (induction n rule: dec_induct)
  case base
  then show ?case by (simp add: assms(1))
next
  case (step n)
  then show ?case by simp
qed

end
