(* ===== verification/VL_Types.thy ===== *)
theory VL_Types
  imports VL_Prelude
begin

text \<open>
  \<^verbatim>\<open>include/vectilicense/vectilicense.h\<close>: the status codes, the sizes, the
  security posture, the HAL as a record of callbacks over a platform state \<open>'s\<close>
  (\<^verbatim>\<open>hal->ctx\<close> and whatever hardware stands behind it; an optional callback that is
  NULL is \<open>None\<close>), the firmware configuration and the verified licence.
\<close>

section \<open>Status codes\<close>

datatype vl_status =
    VL_OK
  | VL_ERR_INVALID_ARG
  | VL_ERR_BUFFER_TOO_SMALL
  | VL_ERR_BAD_FORMAT
  | VL_ERR_BAD_MAGIC
  | VL_ERR_BAD_VERSION
  | VL_ERR_BAD_FAMILY
  | VL_ERR_UNKNOWN_KEY
  | VL_ERR_BAD_SIGNATURE
  | VL_ERR_DEVICE_MISMATCH
  | VL_ERR_NOT_YET_VALID
  | VL_ERR_EXPIRED
  | VL_ERR_REVOKED
  | VL_ERR_CLOCK_ROLLBACK
  | VL_ERR_NO_CLOCK
  | VL_ERR_PLATFORM
  | VL_ERR_NO_MORE_SEGMENTS
  | VL_ERR_NOT_FOUND
  | VL_ERR_INTERNAL

fun status_code :: "vl_status \<Rightarrow> int" where
  "status_code VL_OK = 0"
| "status_code VL_ERR_INVALID_ARG = -1"
| "status_code VL_ERR_BUFFER_TOO_SMALL = -2"
| "status_code VL_ERR_BAD_FORMAT = -3"
| "status_code VL_ERR_BAD_MAGIC = -4"
| "status_code VL_ERR_BAD_VERSION = -5"
| "status_code VL_ERR_BAD_FAMILY = -6"
| "status_code VL_ERR_UNKNOWN_KEY = -7"
| "status_code VL_ERR_BAD_SIGNATURE = -8"
| "status_code VL_ERR_DEVICE_MISMATCH = -9"
| "status_code VL_ERR_NOT_YET_VALID = -10"
| "status_code VL_ERR_EXPIRED = -11"
| "status_code VL_ERR_REVOKED = -12"
| "status_code VL_ERR_CLOCK_ROLLBACK = -13"
| "status_code VL_ERR_NO_CLOCK = -14"
| "status_code VL_ERR_PLATFORM = -15"
| "status_code VL_ERR_NO_MORE_SEGMENTS = -16"
| "status_code VL_ERR_NOT_FOUND = -17"
| "status_code VL_ERR_INTERNAL = -18"

lemma status_code_inj: "status_code a = status_code b \<longleftrightarrow> a = b"
  by (cases a; cases b) simp_all

text \<open>Statuses are ordered by their code, so that the library's order facts apply.\<close>

instantiation vl_status :: linorder
begin

definition less_eq_vl_status :: "vl_status \<Rightarrow> vl_status \<Rightarrow> bool" where
  "less_eq_vl_status a b \<longleftrightarrow> status_code a \<le> status_code b"

definition less_vl_status :: "vl_status \<Rightarrow> vl_status \<Rightarrow> bool" where
  "less_vl_status a b \<longleftrightarrow> status_code a < status_code b"

instance
  by standard (auto simp: less_eq_vl_status_def less_vl_status_def status_code_inj)

end

section \<open>Sizes\<close>

definition VL_MAGIC :: u8 where "VL_MAGIC = 0x56"
definition VL_FORMAT_VERSION :: u8 where "VL_FORMAT_VERSION = 0x01"
definition VL_PAYLOAD_LEN :: nat where "VL_PAYLOAD_LEN = 36"
definition VL_SIG_LEN :: nat where "VL_SIG_LEN = 64"
definition VL_BLOB_BIN_LEN :: nat where "VL_BLOB_BIN_LEN = VL_PAYLOAD_LEN + VL_SIG_LEN"
definition VL_BLOB_STR_LEN :: nat where "VL_BLOB_STR_LEN = 160"
definition VL_BLOB_STR_BUF_LEN :: nat where "VL_BLOB_STR_BUF_LEN = VL_BLOB_STR_LEN + 1"
definition VL_FINGERPRINT_LEN :: nat where "VL_FINGERPRINT_LEN = 32"
definition VL_DEVICE_ID_LEN :: nat where "VL_DEVICE_ID_LEN = 16"
definition VL_DEVICE_ID_STR_LEN :: nat where "VL_DEVICE_ID_STR_LEN = 26"
definition VL_DEVICE_ID_STR_BUF_LEN :: nat where "VL_DEVICE_ID_STR_BUF_LEN = VL_DEVICE_ID_STR_LEN + 1"
definition VL_ID_SEGMENT_MAX :: nat where "VL_ID_SEGMENT_MAX = 255"
definition VL_ID_SEGMENT_COUNT_MAX :: nat where "VL_ID_SEGMENT_COUNT_MAX = 64"

lemmas vl_sizes = VL_PAYLOAD_LEN_def VL_SIG_LEN_def VL_BLOB_BIN_LEN_def VL_BLOB_STR_LEN_def
  VL_BLOB_STR_BUF_LEN_def VL_FINGERPRINT_LEN_def VL_DEVICE_ID_LEN_def VL_DEVICE_ID_STR_LEN_def
  VL_DEVICE_ID_STR_BUF_LEN_def VL_ID_SEGMENT_MAX_def VL_ID_SEGMENT_COUNT_MAX_def

section \<open>Posture\<close>

datatype vl_posture_state = VL_POSTURE_UNKNOWN | VL_POSTURE_OFF | VL_POSTURE_ON

record vl_posture_t =
  secure_boot :: vl_posture_state
  flash_encryption :: vl_posture_state

section \<open>The HAL\<close>

text \<open>
  A callback takes the platform state and returns the new one with its status and its
  outputs. \<open>read_id_segment\<close> gets the caller's buffer (its length is \<^verbatim>\<open>cap\<close>) and
  returns the buffer as the callback left it and the value of \<^verbatim>\<open>*out_len\<close>;
  \<open>blob_load\<close> likewise. \<open>now_epoch\<close> and \<open>hwm_load\<close> return the word they stored,
  which the caller reads only on \<open>VL_OK\<close>.
\<close>

record 's vl_hal =
  read_id_segment :: "(u32 \<Rightarrow> bytes \<Rightarrow> 's \<Rightarrow> vl_status \<times> bytes \<times> nat \<times> 's) option"
  now_epoch :: "('s \<Rightarrow> vl_status \<times> u32 \<times> 's) option"
  hwm_load :: "('s \<Rightarrow> vl_status \<times> u32 \<times> 's) option"
  hwm_store :: "(u32 \<Rightarrow> 's \<Rightarrow> vl_status \<times> 's) option"
  blob_load :: "(bytes \<Rightarrow> 's \<Rightarrow> vl_status \<times> bytes \<times> nat \<times> 's) option"
  blob_store :: "(bytes \<Rightarrow> 's \<Rightarrow> vl_status \<times> 's) option"
  secure_posture :: "(vl_posture_t \<Rightarrow> 's \<Rightarrow> vl_status \<times> vl_posture_t \<times> 's) option"

section \<open>Keys, configuration, licence\<close>

record vl_pubkey =
  pk_key_id :: u8
  pk_key :: bytes

definition VL_FLAG_REQUIRE_CLOCK :: u32 where "VL_FLAG_REQUIRE_CLOCK = 0x00000001"
definition VL_FLAG_ENFORCE_HWM :: u32 where "VL_FLAG_ENFORCE_HWM = 0x00000002"

text \<open>The arrays carry their counts (\<^verbatim>\<open>key_count\<close>, \<^verbatim>\<open>revoked_count\<close>).\<close>

record vl_config =
  keys :: "vl_pubkey list option"
  cfg_family :: u8
  revoked_serials :: "u32 list option"
  flags :: u32

definition VL_CHECKED_SIGNATURE :: u32 where "VL_CHECKED_SIGNATURE = 0x00000001"
definition VL_CHECKED_DEVICE :: u32 where "VL_CHECKED_DEVICE = 0x00000002"
definition VL_CHECKED_TIME :: u32 where "VL_CHECKED_TIME = 0x00000004"
definition VL_CHECKED_REVOCATION :: u32 where "VL_CHECKED_REVOCATION = 0x00000008"
definition VL_CHECKED_HWM :: u32 where "VL_CHECKED_HWM = 0x00000010"

lemmas vl_bits_defs = VL_FLAG_REQUIRE_CLOCK_def VL_FLAG_ENFORCE_HWM_def VL_CHECKED_SIGNATURE_def
  VL_CHECKED_DEVICE_def VL_CHECKED_TIME_def VL_CHECKED_REVOCATION_def VL_CHECKED_HWM_def

record vl_license =
  version :: u8
  key_id :: u8
  family :: u8
  features :: u32
  device_id :: bytes
  not_before :: u32
  not_after :: u32
  serial :: u32
  checked :: u32

text \<open>What \<^verbatim>\<open>memset(lic, 0, sizeof *lic)\<close> leaves.\<close>

definition zero_license :: vl_license where
  "zero_license = \<lparr>version = 0, key_id = 0, family = 0, features = 0,
     device_id = replicate 16 0, not_before = 0, not_after = 0, serial = 0, checked = 0\<rparr>"

end
