(* ===== verification/VL_Base32.thy ===== *)
theory VL_Base32
  imports VL_Prelude
begin

text \<open>
  \<^verbatim>\<open>core/vl_base32.c\<close>: the Crockford base32 codec. The operations are the loops of
  the source on their 32-bit accumulator (which is never masked: bits that were consumed
  stay above the pending ones until they fall off the top) with the output buffer as an
  explicit list updated in place. The abstract contract is a relation between the bits of
  a byte string and the 5-bit symbols of its spelling; the lemmas show that the encoder
  produces a spelling of its input and that the strict decoder accepts a string exactly
  when it spells the bytes it returns.
\<close>

section \<open>The tables and the value of a character\<close>

definition VL_BASE32_MAX_INPUT :: nat where
  "VL_BASE32_MAX_INPUT = 1024"

definition VL_BASE32_CHARS :: "nat \<Rightarrow> nat" where
  "VL_BASE32_CHARS n = (n * 8 + 4) div 5"

definition ENC_ALPHA :: bytes where
  "ENC_ALPHA = str_bytes ''0123456789ABCDEFGHJKMNPQRSTVWXYZ''"

definition A2V :: "int list" where
  "A2V = [10, 11, 12, 13, 14, 15, 16, 17,  1, 18, 19,  1, 20,
          21,  0, 22, 23, 24, 25, 26, -1, 27, 28, 29, 30, 31]"

text \<open>The grouping characters are '-', space, tab, CR and LF.\<close>

definition b32_val :: "u8 \<Rightarrow> int" where
  "b32_val c =
     (if c = 0x2D \<or> c = 0x20 \<or> c = 0x09 \<or> c = 0x0D \<or> c = 0x0A then -2
      else if 0x30 \<le> c \<and> c \<le> 0x39 then uint (c - 0x30)
      else let c' = (if 0x61 \<le> c \<and> c \<le> 0x7A then c - 32 else c)
           in if 0x41 \<le> c' \<and> c' \<le> 0x5A then A2V ! unat (c' - 0x41)
              else -1)"

section \<open>The encoder\<close>

text \<open>The inner loop: emit a symbol while at least five bits are pending.\<close>

fun b32_emit :: "u32 \<Rightarrow> nat \<Rightarrow> bytes \<Rightarrow> nat \<Rightarrow> nat \<times> bytes \<times> nat" where
  "b32_emit buffer bits out k =
     (if 5 \<le> bits
      then b32_emit buffer (bits - 5)
             (out[k := ENC_ALPHA ! unat (drop_bit (bits - 5) buffer AND 0x1F)]) (k + 1)
      else (bits, out, k))"

declare b32_emit.simps [simp del]

fun b32_enc_loop :: "bytes \<Rightarrow> u32 \<Rightarrow> nat \<Rightarrow> bytes \<Rightarrow> nat \<Rightarrow> u32 \<times> nat \<times> bytes \<times> nat" where
  "b32_enc_loop [] buffer bits out k = (buffer, bits, out, k)"
| "b32_enc_loop (x # xs) buffer bits out k =
     (let buffer' = push_bit 8 buffer OR ucast x;
          (bits', out', k') = b32_emit buffer' (bits + 8) out k
      in b32_enc_loop xs buffer' bits' out' k')"

text \<open>
  The result is the return value and the output buffer (whose length is the memory the
  caller owns; the code trusts \<open>out_capacity\<close> not to exceed it).
\<close>

definition vl_base32_encode ::
    "bytes option \<Rightarrow> nat \<Rightarrow> bytes option \<Rightarrow> nat \<Rightarrow> int \<times> bytes option" where
  "vl_base32_encode inp in_len out out_capacity =
     (case (inp, out) of
        (Some src, Some dst) \<Rightarrow>
          if in_len > VL_BASE32_MAX_INPUT div 2 then (-1, out)
          else if out_capacity < VL_BASE32_CHARS in_len + 1 then (-1, out)
          else
            let (buffer, bits, dst1, k) = b32_enc_loop (take in_len src) 0 0 dst 0;
                (dst2, k2) =
                  (if 0 < bits
                   then (dst1[k := ENC_ALPHA ! unat (push_bit (5 - bits) buffer AND 0x1F)], k + 1)
                   else (dst1, k))
            in (int k2, Some (dst2[k2 := 0]))
      | _ \<Rightarrow> (-1, out))"

section \<open>The decoder\<close>

text \<open>
  The scan of a NUL-terminated string: the list holds the characters of the string, ended
  by the first zero byte or by the end of the list, where the terminator stands. \<open>None\<close>
  is an early \<^verbatim>\<open>return -1\<close>; the buffer keeps what was written before it.
\<close>

fun b32_dec_loop :: "nat \<Rightarrow> nat \<Rightarrow> bytes \<Rightarrow> u32 \<Rightarrow> nat \<Rightarrow> bytes \<Rightarrow> nat \<Rightarrow> nat \<Rightarrow>
    (u32 \<times> nat \<times> nat \<times> nat) option \<times> bytes" where
  "b32_dec_loop cap scanned [] buffer bits out k chars = (Some (buffer, bits, k, chars), out)"
| "b32_dec_loop cap scanned (ch # rest) buffer bits out k chars =
     (if ch = 0 then (Some (buffer, bits, k, chars), out)
      else if scanned \<ge> VL_BASE32_MAX_INPUT then (None, out)
      else let v = b32_val ch in
        if v = -2 then b32_dec_loop cap (scanned + 1) rest buffer bits out k chars
        else if v < 0 then (None, out)
        else
          let buffer' = push_bit 5 buffer OR word_of_int v; bits' = bits + 5 in
          if 8 \<le> bits' then
            (if k \<ge> cap then (None, out)
             else b32_dec_loop cap (scanned + 1) rest buffer' (bits' - 8)
                    (out[k := ucast (drop_bit (bits' - 8) buffer' AND 0xFF)]) (k + 1) (chars + 1))
          else b32_dec_loop cap (scanned + 1) rest buffer' bits' out k (chars + 1))"

definition vl_base32_decode ::
    "bytes option \<Rightarrow> bytes option \<Rightarrow> nat \<Rightarrow> nat \<Rightarrow> int \<times> bytes option" where
  "vl_base32_decode inp out out_capacity expect_bytes =
     (case (inp, out) of
        (Some src, Some dst) \<Rightarrow>
          if expect_bytes \<noteq> 0 \<and> out_capacity < expect_bytes then (-1, out)
          else
            (case b32_dec_loop out_capacity 0 src 0 0 dst 0 0 of
               (None, dst') \<Rightarrow> (-1, Some dst')
             | (Some (buffer, bits, k, chars), dst') \<Rightarrow>
                 if 0 < bits \<and> buffer AND (push_bit bits 1 - 1) \<noteq> 0 then (-1, Some dst')
                 else if expect_bytes \<noteq> 0 \<and> chars \<noteq> VL_BASE32_CHARS expect_bytes
                   then (-1, Some dst')
                 else if expect_bytes \<noteq> 0 \<and> k \<noteq> expect_bytes then (-1, Some dst')
                 else (int k, Some dst'))
      | _ \<Rightarrow> (-1, out))"

section \<open>The abstract contract: symbols, spellings and the canonical text\<close>

text \<open>The characters before the terminating NUL, and those that carry a value.\<close>

definition cstr :: "bytes \<Rightarrow> bytes" where
  "cstr s = takeWhile (\<lambda>c. c \<noteq> 0) s"

definition b32_sig :: "bytes \<Rightarrow> bytes" where
  "b32_sig s = filter (\<lambda>c. b32_val c \<noteq> -2) s"

definition sym_bits :: "u8 \<Rightarrow> bool list" where
  "sym_bits c = bv 5 (word_of_int (b32_val c) :: u32)"

definition sym_str :: "bytes \<Rightarrow> bool list" where
  "sym_str s = concat (map sym_bits s)"

text \<open>
  A string spells \<open>bs\<close> when it is short enough to be scanned, holds nothing outside the
  alphabet and the grouping characters, has exactly the symbols the length of \<open>bs\<close> needs,
  and their bits are the bits of \<open>bs\<close> followed by zero padding.
\<close>

definition b32_spells :: "bytes \<Rightarrow> bytes \<Rightarrow> bool" where
  "b32_spells s bs \<longleftrightarrow>
     length (cstr s) \<le> VL_BASE32_MAX_INPUT \<and>
     (\<forall>c \<in> set (cstr s). b32_val c \<noteq> -1) \<and>
     length (b32_sig (cstr s)) = VL_BASE32_CHARS (length bs) \<and>
     sym_str (b32_sig (cstr s)) =
       byte_bits bs @ replicate (5 * VL_BASE32_CHARS (length bs) - 8 * length bs) False"

text \<open>The canonical text: the bits in groups of five, the last one padded with zeros.\<close>

definition bits_val :: "bool list \<Rightarrow> nat" where
  "bits_val xs = foldl (\<lambda>n b. 2 * n + of_bool b) 0 xs"

fun b32_syms :: "bool list \<Rightarrow> bytes" where
  "b32_syms [] = []"
| "b32_syms (x # xs) =
     ENC_ALPHA ! bits_val (take 5 (x # xs @ replicate 4 False)) # b32_syms (drop 4 xs)"

definition b32_text :: "bytes \<Rightarrow> bytes" where
  "b32_text bs = b32_syms (byte_bits bs)"

section \<open>Symbols\<close>

lemma sym_str_simps [simp]:
  "sym_str [] = []" "sym_str (c # s) = sym_bits c @ sym_str s"
  "sym_str (s @ t) = sym_str s @ sym_str t"
  by (simp_all add: sym_str_def)

lemma length_sym_bits [simp, vl_len]: "length (sym_bits c) = 5"
  by (simp add: sym_bits_def)

lemma length_sym_str [simp, vl_len]: "length (sym_str s) = 5 * length s"
  by (induction s) simp_all

lemma length_ENC_ALPHA [simp, vl_len]: "length ENC_ALPHA = 32"
  by (simp add: ENC_ALPHA_def)

lemma A2V_range: "list_all (\<lambda>v. -1 \<le> v \<and> v < 32) A2V"
  by (simp add: A2V_def)

lemma length_A2V: "length A2V = 26"
  by (simp add: A2V_def)

definition val_in_range :: "int \<Rightarrow> bool" where
  "val_in_range v \<longleftrightarrow> -2 \<le> v \<and> v < 32"

lemma val_in_range_if:
  "(b \<Longrightarrow> val_in_range x) \<Longrightarrow> (\<not> b \<Longrightarrow> val_in_range y) \<Longrightarrow> val_in_range (if b then x else y)"
  by simp

lemma val_in_range_digit: "0x30 \<le> c \<and> c \<le> 0x39 \<Longrightarrow> val_in_range (uint (c - 0x30 :: u8))"
proof -
  assume "0x30 \<le> c \<and> c \<le> 0x39"
  then have "unat (c - 0x30) \<le> 9"
    using unat_sub [of "0x30" c] by (simp add: word_le_nat_alt) linarith
  then show ?thesis unfolding val_in_range_def uint_nat by linarith
qed

lemma val_in_range_letter: "0x41 \<le> c \<and> c \<le> 0x5A \<Longrightarrow> val_in_range (A2V ! unat (c - 0x41 :: u8))"
proof -
  assume "0x41 \<le> c \<and> c \<le> 0x5A"
  then have "unat (c - 0x41) < 26"
    using unat_sub [of "0x41" c] by (simp add: word_le_nat_alt) linarith
  then have "A2V ! unat (c - 0x41) \<in> set A2V" by (intro nth_mem) (simp add: length_A2V)
  then show ?thesis using A2V_range unfolding list_all_iff val_in_range_def by force
qed

lemma b32_val_range: "-2 \<le> b32_val c \<and> b32_val c < 32"
proof -
  have "val_in_range (b32_val c)"
    unfolding b32_val_def Let_def
    by (intro val_in_range_if val_in_range_digit val_in_range_letter)
       (assumption | simp add: val_in_range_def)+
  then show ?thesis by (simp add: val_in_range_def)
qed

lemma b32_val_ENC_ALPHA_all: "list_all (\<lambda>v. b32_val (ENC_ALPHA ! v) = int v) [0..<32]"
  by code_simp

lemma b32_val_ENC_ALPHA: "v < 32 \<Longrightarrow> b32_val (ENC_ALPHA ! v) = int v"
  using b32_val_ENC_ALPHA_all by (simp add: list_all_iff)

lemma b32_val_alpha_ge_0: "c \<in> set ENC_ALPHA \<Longrightarrow> 0 \<le> b32_val c"
  by (auto simp: in_set_conv_nth b32_val_ENC_ALPHA)

lemma and_1F: "(x :: u32) AND 0x1F = take_bit 5 x"
  by (simp add: take_bit_eq_mask mask_eq_exp_minus_1)

lemma unat_take_bit_5: "unat (take_bit 5 (x :: u32)) < 32"
  using take_bit_nat_less_exp [of 5 "unat x"] by (simp add: unsigned_take_bit_eq)

lemma sym_bits_ENC_ALPHA: "sym_bits (ENC_ALPHA ! unat (x AND 0x1F)) = bv 5 (x :: u32)"
  by (simp add: sym_bits_def and_1F b32_val_ENC_ALPHA unat_take_bit_5)

lemma ENC_ALPHA_nonzero: "c \<in> set ENC_ALPHA \<Longrightarrow> c \<noteq> 0"
  using b32_val_alpha_ge_0 [of c] by (auto simp: b32_val_def)

text \<open>The symbol bits determine the value, so they determine a canonical character.\<close>

lemma sym_bits_inj:
  assumes "sym_bits c = sym_bits d" and "0 \<le> b32_val c" and "0 \<le> b32_val d"
  shows "b32_val c = b32_val d"
proof -
  have small: "take_bit 5 (b32_val e) = b32_val e" if "0 \<le> b32_val e" for e
    using that b32_val_range [of e] by (simp add: take_bit_int_eq_self)
  have "take_bit 5 (word_of_int (b32_val c) :: u32) = take_bit 5 (word_of_int (b32_val d))"
    using assms(1) unfolding sym_bits_def bv_eq_iff by (auto simp: bit_eq_iff bit_take_bit_iff)
  then have "(word_of_int (b32_val c) :: u32) = word_of_int (b32_val d)"
    using assms(2,3) by (simp add: take_bit_of_int small)
  then have "take_bit 32 (b32_val c) = take_bit 32 (b32_val d)"
    by (simp add: word_of_int_eq_iff)
  moreover have "take_bit 32 (b32_val e) = b32_val e" if "0 \<le> b32_val e" for e
    using that b32_val_range [of e] by (simp add: take_bit_int_eq_self)
  ultimately show ?thesis using assms(2,3) by simp
qed

section \<open>The encoder spells its input\<close>

text \<open>
  The inner loop moves whole groups of five from the pending bits to the output. \<open>canon\<close>
  says that what was written so far is canonical.
\<close>

definition canon :: "bytes \<Rightarrow> bool" where
  "canon s \<longleftrightarrow> set s \<subseteq> set ENC_ALPHA"

lemma ENC_ALPHA_nth_in [simp]: "ENC_ALPHA ! unat (x AND 0x1F :: u32) \<in> set ENC_ALPHA"
  by (rule nth_mem) (simp add: and_1F unat_take_bit_5)

lemma canon_append [simp]: "canon (s @ t) \<longleftrightarrow> canon s \<and> canon t"
  by (auto simp: canon_def)

lemma canon_Nil [simp]: "canon []"
  by (simp add: canon_def)

lemma canon_single [simp]: "canon [c] \<longleftrightarrow> c \<in> set ENC_ALPHA"
  by (simp add: canon_def)

lemma b32_emit_spec:
  assumes "b32_emit buffer bits out k = (bits', out', k')" and "k + bits div 5 \<le> length out"
    and "canon (take k out)"
  shows "sym_str (take k' out') @ bv bits' buffer = sym_str (take k out) @ bv bits buffer \<and>
    bits' = bits mod 5 \<and> k' = k + bits div 5 \<and> length out' = length out \<and>
    drop k' out' = drop k' out \<and> canon (take k' out')"
  using assms
proof (induction buffer bits out k rule: b32_emit.induct)
  case (1 buffer bits out k)
  show ?case
  proof (cases "5 \<le> bits")
    case False
    with 1 show ?thesis by (simp add: b32_emit.simps [of _ bits])
  next
    case True
    define ch where "ch = ENC_ALPHA ! unat (drop_bit (bits - 5) buffer AND 0x1F)"
    from True have div: "bits div 5 = Suc ((bits - 5) div 5)" and md: "(bits - 5) mod 5 = bits mod 5"
      by (simp_all add: le_div_geq le_mod_geq)
    have k: "k < length out" using 1(3) div by simp
    have tk: "take (Suc k) (out[k := ch]) = take k out @ [ch]" using k by (simp add: take_Suc_update)
    have split: "bv bits buffer = sym_bits ch @ bv (bits - 5) buffer"
      using bv_add [of 5 "bits - 5" buffer] True by (simp add: ch_def sym_bits_ENC_ALPHA)
    have call: "b32_emit buffer (bits - 5) (out[k := ch]) (k + 1) = (bits', out', k')"
      using 1(2) True by (simp add: b32_emit.simps [of _ bits] ch_def)
    have canon: "canon (take (k + 1) (out[k := ch]))"
      using 1(4) by (simp add: tk) (simp add: ch_def)
    have IH: "sym_str (take k' out') @ bv bits' buffer
          = sym_str (take (k + 1) (out[k := ch])) @ bv (bits - 5) buffer \<and>
        bits' = (bits - 5) mod 5 \<and> k' = k + 1 + (bits - 5) div 5 \<and>
        length out' = length (out[k := ch]) \<and> drop k' out' = drop k' (out[k := ch]) \<and>
        canon (take k' out')"
      by (rule "1.IH" [OF True, folded ch_def, OF call]) (use canon 1(3) div in simp_all)
    then show ?thesis using div md by (elim conjE) (simp add: tk split)
  qed
qed

lemma b32_enc_loop_spec:
  assumes "b32_enc_loop xs buffer bits out k = (buffer', bits', out', k')"
    and "bits < 5" and "k + (bits + 8 * length xs) div 5 \<le> length out" and "canon (take k out)"
  shows "sym_str (take k' out') @ bv bits' buffer' =
      sym_str (take k out) @ bv bits buffer @ byte_bits xs \<and>
    bits' = (bits + 8 * length xs) mod 5 \<and> k' = k + (bits + 8 * length xs) div 5 \<and>
    length out' = length out \<and> drop k' out' = drop k' out \<and> canon (take k' out')"
  using assms
proof (induction xs arbitrary: buffer bits out k)
  case Nil
  then show ?case by simp
next
  case (Cons x xs)
  define buf1 where "buf1 = push_bit 8 buffer OR (ucast x :: u32)"
  obtain bits1 out1 k1 where em: "b32_emit buf1 (bits + 8) out k = (bits1, out1, k1)"
    by (cases "b32_emit buf1 (bits + 8) out k")
  have rec: "b32_enc_loop xs buf1 bits1 out1 k1 = (buffer', bits', out', k')"
    using Cons.prems(1) em by (simp add: buf1_def)
  have dm: "(bits + 8) div 5 + ((bits + 8) mod 5 + 8 * length xs) div 5
      = (bits + 8 * length (x # xs)) div 5"
    using div_mult_self4 [of 5 "(bits + 8) div 5" "(bits + 8) mod 5 + 8 * length xs"] by simp
  have mm: "((bits + 8) mod 5 + 8 * length xs) mod 5 = (bits + 8 * length (x # xs)) mod 5"
    by (simp add: mod_simps add.assoc)
  have e: "sym_str (take k1 out1) @ bv bits1 buf1 = sym_str (take k out) @ bv (bits + 8) buf1 \<and>
    bits1 = (bits + 8) mod 5 \<and> k1 = k + (bits + 8) div 5 \<and> length out1 = length out \<and>
    drop k1 out1 = drop k1 out \<and> canon (take k1 out1)"
    by (rule b32_emit_spec [OF em]) (use Cons.prems(3,4) dm in simp_all)
  have bits: "bv (bits + 8) buf1 = bv bits buffer @ bv 8 x"
  proof -
    have "bv (bits + 8) buf1 = bv bits buffer @ bv 8 (ucast x :: u32)"
      unfolding buf1_def using Cons.prems(2) by (intro bv_shift_in) (auto simp: bit_ucast_iff dest: bit_imp_le_length)
    then show ?thesis by (simp add: bv_ucast)
  qed
  have IH: "sym_str (take k' out') @ bv bits' buffer' =
      sym_str (take k1 out1) @ bv bits1 buf1 @ byte_bits xs \<and>
    bits' = (bits1 + 8 * length xs) mod 5 \<and> k' = k1 + (bits1 + 8 * length xs) div 5 \<and>
    length out' = length out1 \<and> drop k' out' = drop k' out1 \<and> canon (take k' out')"
    by (rule Cons.IH [OF rec]) (use e Cons.prems(3) dm in auto)
  have dr: "drop k' out' = drop k' out"
    using IH e by (metis drop_drop le_add1 le_add_diff_inverse2)
  have sym: "sym_str (take k' out') @ bv bits' buffer' =
      sym_str (take k out) @ bv bits buffer @ byte_bits (x # xs)"
    using IH e by (metis append_assoc bits byte_bits_Cons)
  have "bits' = (bits + 8 * length (x # xs)) mod 5" "k' = k + (bits + 8 * length (x # xs)) div 5"
    using IH e dm mm by auto
  with sym dr IH e show ?case by metis
qed

lemma b32_bits_chars: "(8 * n) div 5 + (if (8 * n) mod 5 = 0 then 0 else 1) = VL_BASE32_CHARS n"
proof -
  have "m div 5 + (if m mod 5 = 0 then 0 else 1) = (m + 4) div 5" for m :: nat
    by presburger
  then show ?thesis by (simp add: VL_BASE32_CHARS_def mult.commute)
qed

lemma b32_pad_bound: "5 * VL_BASE32_CHARS n - 8 * n < 5" "8 * n \<le> 5 * VL_BASE32_CHARS n"
  by (simp_all add: VL_BASE32_CHARS_def)

text \<open>The canonical text of the abstract contract has the same symbols.\<close>

lemma bits_val_append: "bits_val (xs @ [b]) = 2 * bits_val xs + of_bool b"
  by (simp add: bits_val_def)

lemma bits_val_less: "bits_val xs < 2 ^ length xs"
proof (induction xs rule: rev_induct)
  case Nil
  then show ?case by (simp add: bits_val_def)
next
  case (snoc b xs)
  then show ?case by (cases b) (simp_all add: bits_val_append)
qed

lemma bv_bits_val:
  "length xs \<le> LENGTH('a) \<Longrightarrow> bv (length xs) (word_of_nat (bits_val xs) :: 'a::len word) = xs"
proof (induction xs rule: rev_induct)
  case Nil
  then show ?case by simp
next
  case (snoc b xs)
  let ?w = "word_of_nat (bits_val (xs @ [b])) :: 'a word"
  have w: "?w = push_bit 1 (word_of_nat (bits_val xs)) OR of_bool b"
    by (cases b) (simp_all add: bits_val_append push_bit_eq_mult or_one_eq)
  have "bv (length xs + 1) ?w = bv (length xs) (word_of_nat (bits_val xs) :: 'a word) @ bv 1 (of_bool b :: 'a word)"
    unfolding w using snoc.prems by (intro bv_shift_in) (auto simp: bit_simps)
  moreover have "bv 1 (of_bool b :: 'a word) = [b]" by (simp add: bv_def)
  ultimately show ?case using snoc by simp
qed

lemma sym_bits_bits_val: "length xs = 5 \<Longrightarrow> sym_bits (ENC_ALPHA ! bits_val xs) = xs"
  using bits_val_less [of xs] bv_bits_val [of xs, where 'a = 32]
  by (simp add: sym_bits_def b32_val_ENC_ALPHA)

lemma b32_syms_spec:
  "\<exists>m<5. sym_str (b32_syms xs) = xs @ replicate m False \<and> canon (b32_syms xs)"
proof (induction xs rule: b32_syms.induct)
  case 1
  then show ?case by (intro exI [of _ 0]) simp
next
  case (2 x xs)
  let ?g = "take 5 (x # xs @ replicate 4 False)"
  have len: "length ?g = 5" by simp
  have ch: "canon [ENC_ALPHA ! bits_val ?g]"
    using bits_val_less [of ?g] len by (simp add: nth_mem)
  show ?case
  proof (cases "length xs < 4")
    case True
    then have "drop 4 xs = []" by simp
    moreover have "?g = (x # xs) @ replicate (4 - length xs) False"
      using True by (simp add: take_Cons' )
    ultimately show ?thesis
      using sym_bits_bits_val [OF len] ch True
      by (intro exI [of _ "4 - length xs"]) (simp add: canon_def)
  next
    case False
    from "2.IH" obtain m where m: "m < 5"
      "sym_str (b32_syms (drop 4 xs)) = drop 4 xs @ replicate m False" "canon (b32_syms (drop 4 xs))"
      by blast
    have "?g @ drop 4 xs = x # xs" using False by (simp add: take_Cons')
    with m sym_bits_bits_val [OF len] ch show ?thesis
      by (intro exI [of _ m]) (simp add: canon_def flip: append_assoc)
  qed
qed

lemma b32_text_spec:
  "length (b32_text bs) = VL_BASE32_CHARS (length bs) \<and> canon (b32_text bs) \<and>
   sym_str (b32_text bs) =
     byte_bits bs @ replicate (5 * VL_BASE32_CHARS (length bs) - 8 * length bs) False"
proof -
  obtain m where m: "m < 5" "sym_str (b32_text bs) = byte_bits bs @ replicate m False"
    "canon (b32_text bs)"
    using b32_syms_spec [of "byte_bits bs"] by (auto simp: b32_text_def)
  have len: "5 * length (b32_text bs) = 8 * length bs + m"
    using arg_cong [OF m(2), of length] by simp
  have "length (b32_text bs) = VL_BASE32_CHARS (length bs)"
    using len m(1) by (simp add: VL_BASE32_CHARS_def)
  moreover have "m = 5 * VL_BASE32_CHARS (length bs) - 8 * length bs"
    using len calculation by simp
  ultimately show ?thesis using m by simp
qed

lemma canon_sym_str_inj:
  "canon s \<Longrightarrow> canon t \<Longrightarrow> sym_str s = sym_str t \<Longrightarrow> s = t"
proof (induction s arbitrary: t)
  case Nil
  then show ?case by (metis length_sym_str length_0_conv mult_eq_0_iff zero_neq_numeral)
next
  case (Cons c s)
  then obtain d u where t: "t = d # u"
    by (metis length_sym_str length_0_conv mult_eq_0_iff zero_neq_numeral list.exhaust)
  have split: "sym_bits c @ sym_str s = sym_bits d @ sym_str u" using Cons.prems t by simp
  then have bits: "sym_bits c = sym_bits d" and rest: "sym_str s = sym_str u" by simp_all
  have mem: "c \<in> set ENC_ALPHA" "d \<in> set ENC_ALPHA" using Cons.prems t by (auto simp: canon_def)
  have "b32_val c = b32_val d"
    using sym_bits_inj [OF bits] mem b32_val_alpha_ge_0 by blast
  then have "c = d"
    using mem by (auto simp: in_set_conv_nth b32_val_ENC_ALPHA)
  with Cons t rest show ?case by (simp add: canon_def)
qed

text \<open>The encoder writes exactly the canonical text, its terminating NUL and nothing else.\<close>

lemma vl_base32_encode_text:
  assumes "n \<le> 512" and "n \<le> length src" and "VL_BASE32_CHARS n + 1 \<le> cap" and "cap \<le> length dst"
  shows "vl_base32_encode (Some src) n (Some dst) cap =
    (int (VL_BASE32_CHARS n),
     Some (b32_text (take n src) @ 0 # drop (VL_BASE32_CHARS n + 1) dst))"
proof -
  let ?N = "VL_BASE32_CHARS n"
  obtain buffer bits out k where loop: "b32_enc_loop (take n src) 0 0 dst 0 = (buffer, bits, out, k)"
    by (cases "b32_enc_loop (take n src) 0 0 dst 0")
  have len: "length (take n src) = n" using assms(2) by simp
  have N: "(8 * n) div 5 \<le> ?N" using b32_bits_chars [of n] by (simp split: if_splits)
  have st: "sym_str (take k out) @ bv bits buffer = byte_bits (take n src) \<and>
      bits = (8 * n) mod 5 \<and> k = (8 * n) div 5 \<and> length out = length dst \<and>
      drop k out = drop k dst \<and> canon (take k out)"
    using b32_enc_loop_spec [OF loop] assms(3,4) N len by auto
  define out2 where "out2 = (if 0 < bits
    then out[k := ENC_ALPHA ! unat (push_bit (5 - bits) buffer AND 0x1F)] else out)"
  define k2 where "k2 = (if 0 < bits then k + 1 else k)"
  have k2: "k2 = ?N" using st b32_bits_chars [of n] by (auto simp: k2_def)
  have eight: "8 * n = 5 * k + bits"
    using st by (metis mult.commute div_mult_mod_eq)
  have kl: "k < length out" "k2 < length out2"
    using st k2 assms(3,4) N by (auto simp: out2_def)
  have dr1: "drop (Suc k) out = drop (Suc k) dst"
    using st by (metis drop_Suc tl_drop)
  have dr: "drop k2 out2 = drop k2 dst"
    using st dr1 by (auto simp: out2_def k2_def drop_update_cancel)
  have res: "sym_str (take k2 out2) = byte_bits (take n src) @ replicate (5 * ?N - 8 * n) False \<and>
      canon (take k2 out2)"
  proof (cases "0 < bits")
    case True
    have b5: "bits < 5" using st by simp
    have tk: "take k2 out2 = take k out @ [ENC_ALPHA ! unat (push_bit (5 - bits) buffer AND 0x1F)]"
      using True kl(1) by (simp add: k2_def out2_def take_Suc_update)
    have "bv (bits + (5 - bits)) (push_bit (5 - bits) buffer OR 0) = bv bits buffer @ bv (5 - bits) (0 :: u32)"
      using b5 by (intro bv_shift_in) auto
    then have "bv 5 (push_bit (5 - bits) buffer) = bv bits buffer @ replicate (5 - bits) False"
      using b5 bv_zero_iff [of "5 - bits" "0 :: u32"] by simp
    moreover have "5 - bits = 5 * ?N - 8 * n"
      using eight k2 True b5 unfolding k2_def by simp
    ultimately show ?thesis
      using st by (elim conjE) (simp add: tk sym_bits_ENC_ALPHA flip: append_assoc)
  next
    case False
    then have "5 * ?N - 8 * n = 0"
      using eight k2 unfolding k2_def by simp
    with False st show ?thesis by (elim conjE) (simp add: k2_def out2_def)
  qed
  have canonical: "take k2 out2 = b32_text (take n src)"
    using res b32_text_spec [of "take n src"] len by (intro canon_sym_str_inj) simp_all
  have "out2[k2 := 0] = take k2 out2 @ 0 # drop (k2 + 1) out2"
    using kl(2) by (simp add: upd_conv_take_nth_drop)
  moreover have "drop (k2 + 1) out2 = drop (k2 + 1) dst"
    using arg_cong [OF dr, of "drop 1"] by simp
  ultimately have "out2[k2 := 0] = b32_text (take n src) @ 0 # drop (?N + 1) dst"
    
    using canonical by (simp only: k2)
  then show ?thesis
    using assms(1,3) k2
    by (simp add: vl_base32_encode_def VL_BASE32_MAX_INPUT_def loop out2_def k2_def split: if_splits)
qed

section \<open>The strict decoder accepts exactly the spellings\<close>

text \<open>
  One lemma for the whole scan: whatever the remaining string, the loop either stops with
  an accumulator whose pending bits, together with the bytes written, are the symbols
  read, or it stops early because the string is too long, leaves the alphabet or carries
  more bytes than fit. Neither way touches the buffer before the write index it started at
  or at and beyond the capacity.
\<close>

lemma cstr_simps [simp]:
  "cstr [] = []" "cstr (c # s) = (if c = 0 then [] else c # cstr s)"
  by (simp_all add: cstr_def)

lemma b32_sig_simps [simp]:
  "b32_sig [] = []" "b32_sig (c # s) = (if b32_val c = -2 then b32_sig s else c # b32_sig s)"
  by (simp_all add: b32_sig_def)

lemma bits_high_0: "0 \<le> v \<Longrightarrow> v < 32 \<Longrightarrow> 5 \<le> i \<Longrightarrow> \<not> bit (word_of_int v :: u32) i"
proof -
  assume v: "0 \<le> v" "v < 32" and i: "5 \<le> i"
  then have "take_bit 5 v = v" by (simp add: take_bit_int_eq_self)
  then have "take_bit 5 (word_of_int v :: u32) = word_of_int v" by (simp add: take_bit_of_int)
  with i show ?thesis by (metis bit_take_bit_iff not_le)
qed

lemma b32_dec_shift:
  assumes "0 \<le> b32_val c" and "bits < 8"
  shows "bv (bits + 5) (push_bit 5 buffer OR word_of_int (b32_val c) :: u32)
    = bv bits buffer @ sym_bits c"
  unfolding sym_bits_def using assms b32_val_range [of c]
  by (intro bv_shift_in bits_high_0) simp_all

lemma b32_dec_byte:
  assumes "8 \<le> n" and "n \<le> 13"
  shows "bv n (w :: u32) = bv 8 (ucast (drop_bit (n - 8) w AND 0xFF) :: u8) @ bv (n - 8) w"
proof -
  have "(drop_bit (n - 8) w AND 0xFF) = take_bit 8 (drop_bit (n - 8) w)"
    by (simp add: take_bit_eq_mask mask_eq_exp_minus_1)
  then have "bv 8 (ucast (drop_bit (n - 8) w AND 0xFF) :: u8) = bv 8 (drop_bit (n - 8) w)"
    by (simp add: bv_ucast)
  then show ?thesis using bv_add [of 8 "n - 8" w] assms by simp
qed

definition dec_start :: "nat \<Rightarrow> nat \<Rightarrow> nat \<Rightarrow> bytes \<Rightarrow> nat \<Rightarrow> bool" where
  "dec_start cap scanned bits out k \<longleftrightarrow>
     scanned \<le> VL_BASE32_MAX_INPUT \<and> bits < 8 \<and> k \<le> cap \<and> cap \<le> length out"

definition dec_fits :: "nat \<Rightarrow> nat \<Rightarrow> bytes \<Rightarrow> nat \<Rightarrow> nat \<Rightarrow> bool" where
  "dec_fits cap scanned s bits k \<longleftrightarrow>
     scanned + length (cstr s) \<le> VL_BASE32_MAX_INPUT \<and>
     (\<forall>c \<in> set (cstr s). b32_val c \<noteq> -1) \<and>
     k + (bits + 5 * length (b32_sig (cstr s))) div 8 \<le> cap"

definition dec_result :: "nat \<Rightarrow> nat \<Rightarrow> bytes \<Rightarrow> u32 \<Rightarrow> nat \<Rightarrow> bytes \<Rightarrow> nat \<Rightarrow> nat \<Rightarrow>
    (u32 \<times> nat \<times> nat \<times> nat) option \<Rightarrow> bytes \<Rightarrow> bool" where
  "dec_result cap scanned s buffer bits out k chars r out' \<longleftrightarrow>
     length out' = length out \<and> take k out' = take k out \<and> drop cap out' = drop cap out \<and>
     (case r of
        None \<Rightarrow> \<not> dec_fits cap scanned s bits k
      | Some (buffer', bits', k', chars') \<Rightarrow>
          dec_fits cap scanned s bits k \<and>
          byte_bits (take k' out') @ bv bits' buffer' =
            byte_bits (take k out) @ bv bits buffer @ sym_str (b32_sig (cstr s)) \<and>
          bits' = (bits + 5 * length (b32_sig (cstr s))) mod 8 \<and>
          k' = k + (bits + 5 * length (b32_sig (cstr s))) div 8 \<and>
          chars' = chars + length (b32_sig (cstr s)))"

lemma b32_val_neg: "b32_val c < 0 \<Longrightarrow> b32_val c \<noteq> -2 \<Longrightarrow> b32_val c = -1"
  using b32_val_range [of c] by linarith

lemma b32_val_nonneg: "\<not> b32_val c < 0 \<Longrightarrow> b32_val c \<noteq> -1 \<and> b32_val c \<noteq> -2"
  by auto

lemma dec_fits_stop: "scanned \<le> VL_BASE32_MAX_INPUT \<Longrightarrow> cstr s = [] \<Longrightarrow> bits < 8 \<Longrightarrow> k \<le> cap \<Longrightarrow>
    dec_fits cap scanned s bits k"
  by (simp add: dec_fits_def)

lemma dec_fits_skip: "c \<noteq> 0 \<Longrightarrow> b32_val c = -2 \<Longrightarrow>
    dec_fits cap scanned (c # s) bits k = dec_fits cap (scanned + 1) s bits k"
  by (auto simp: dec_fits_def)

lemma dec_fits_bits: "c \<noteq> 0 \<Longrightarrow> 0 \<le> b32_val c \<Longrightarrow>
    dec_fits cap scanned (c # s) bits k = dec_fits cap (scanned + 1) s (bits + 5) k"
  by (auto simp: dec_fits_def add.assoc)

lemma dec_fits_byte: "8 \<le> bits \<Longrightarrow> dec_fits cap scanned s bits k = dec_fits cap scanned s (bits - 8) (k + 1)"
proof -
  assume "8 \<le> bits"
  then obtain m where m: "bits = 8 + m" using le_Suc_ex by blast
  have "k + (bits + n) div 8 = k + 1 + (bits - 8 + n) div 8" for n
    using div_add_self1 [of 8 "m + n"] by (simp add: m add.assoc)
  then show ?thesis by (simp add: dec_fits_def)
qed

lemma b32_dec_byte_step:
  assumes rec: "dec_result cap (scanned + 1) s w (bits + 5 - 8) out1 (k + 1) (chars + 1) r out'"
    and "c \<noteq> 0" and "b32_val c \<noteq> -2" and "0 \<le> b32_val c" and "k < length out" and "\<not> k \<ge> cap"
    and "8 \<le> bits + 5" and "out1 = out[k := b]" and "take (Suc k) out1 = take k out @ [b]"
    and wb: "bv bits buffer @ sym_bits c = bv 8 b @ bv (bits + 5 - 8) w"
  shows "dec_result cap scanned (c # s) buffer bits out k chars r out'"
proof -
  obtain m where m: "bits + 5 = 8 + m" using assms(7) le_Suc_ex by blast
  then have m': "bits + 5 - 8 = m" by simp
  have dv: "Suc ((m + n) div 8) = (bits + (5 + n)) div 8" for n
    using div_add_self1 [of 8 "m + n"] m by (simp flip: add.assoc)
  have md: "(m + n) mod 8 = (bits + (5 + n)) mod 8" for n
    using mod_add_self1 [of 8 "m + n"] m by (simp flip: add.assoc)
  have fits: "dec_fits cap scanned (c # s) bits k = dec_fits cap (scanned + 1) s (bits + 5 - 8) (k + 1)"
    using assms by (simp add: dec_fits_bits dec_fits_byte)
  have pre: "take k out' = take k out"
  proof -
    have "take k out' = take k (take (k + 1) out')" by simp
    also have "\<dots> = take k (take (Suc k) out1)" using rec by (simp add: dec_result_def)
    also have "\<dots> = take k out" using assms(5,9) by simp
    finally show ?thesis .
  qed
  have wb': "bv bits buffer @ sym_bits c @ t = bv 8 b @ bv m w @ t" for t
    using arg_cong [OF wb, of "\<lambda>u. u @ t"] m' by simp
  show ?thesis
    using rec pre fits assms(2-6,8,9)
    by (auto simp: dec_result_def m' dv md wb' drop_update_cancel split: option.splits)
qed

lemma b32_dec_loop_spec:
  assumes "b32_dec_loop cap scanned s buffer bits out k chars = (r, out')"
    and "scanned \<le> VL_BASE32_MAX_INPUT" and "bits < 8" and "k \<le> cap" and "cap \<le> length out"
  shows "dec_result cap scanned s buffer bits out k chars r out'"
  using assms
proof (induction s arbitrary: scanned buffer bits out k chars)
  case Nil
  then show ?case by (auto simp: dec_result_def dec_fits_def)
next
  case (Cons c s)
  show ?case
  proof (cases "c = 0")
    case True
    with Cons.prems show ?thesis by (auto simp: dec_result_def dec_fits_def)
  next
    case nz: False
    show ?thesis
    proof (cases "scanned \<ge> VL_BASE32_MAX_INPUT \<or> b32_val c = -1")
      case True
      then have "b32_dec_loop cap scanned (c # s) buffer bits out k chars = (None, out)"
        using nz by (cases "scanned \<ge> VL_BASE32_MAX_INPUT") simp_all
      moreover have "\<not> dec_fits cap scanned (c # s) bits k"
        using True nz by (auto simp: dec_fits_def)
      ultimately show ?thesis using Cons.prems(1) by (simp add: dec_result_def)
    next
      case go: False
      show ?thesis
      proof (cases "b32_val c = -2")
        case True
        with Cons.prems nz go have "dec_result cap (scanned + 1) s buffer bits out k chars r out'"
          by (intro Cons.IH) (simp_all add: Let_def)
        with True nz show ?thesis
          by (simp add: dec_result_def dec_fits_skip split: option.splits prod.splits)
      next
        case False
        define w where "w = push_bit 5 buffer OR (word_of_int (b32_val c) :: u32)"
        have pos: "0 \<le> b32_val c" using False go b32_val_neg by fastforce
        have w: "bv (bits + 5) w = bv bits buffer @ sym_bits c"
          unfolding w_def using pos Cons.prems(3) by (rule b32_dec_shift)
        note sig = nz False pos
        show ?thesis
        proof (cases "8 \<le> bits + 5")
          case short: False
          with Cons.prems go sig have "dec_result cap (scanned + 1) s w (bits + 5) out k (chars + 1) r out'"
            by (intro Cons.IH) (simp_all add: Let_def w_def)
          then show ?thesis using sig
            by (simp add: dec_result_def dec_fits_bits w add.assoc split: option.splits prod.splits)
        next
          case byte: True
          show ?thesis
          proof (cases "k \<ge> cap")
            case True
            have "\<not> dec_fits cap scanned (c # s) bits k"
              using True byte by (simp add: dec_fits_def sig) linarith
            with True Cons.prems go sig byte show ?thesis
              by (simp add: dec_result_def Let_def)
          next
            case room: False
            define b where "b = (ucast (drop_bit (bits + 5 - 8) w AND 0xFF) :: u8)"
            define out1 where "out1 = out[k := b]"
            have kl: "k < length out" using room Cons.prems(5) by simp
            have rec: "dec_result cap (scanned + 1) s w (bits + 5 - 8) out1 (k + 1) (chars + 1) r out'"
              using Cons.prems go sig byte room
              by (intro Cons.IH) (simp_all add: Let_def w_def out1_def b_def)
            have tk: "take (Suc k) out1 = take k out @ [b]"
              using kl by (simp add: out1_def take_Suc_update)
            have wb: "bv bits buffer @ sym_bits c = bv 8 b @ bv (bits + 5 - 8) w"
              using b32_dec_byte [of "bits + 5" w] byte Cons.prems(3) by (simp add: b_def w)
            show ?thesis
              using rec sig kl room byte
              by (rule b32_dec_byte_step) (use tk wb in \<open>simp_all add: out1_def\<close>)
          qed
        qed
      qed
    qed
  qed
qed

lemma mask_is_take_bit: "(buffer :: u32) AND (push_bit n 1 - 1) = take_bit n buffer"
  by (simp add: take_bit_eq_mask mask_eq_exp_minus_1 push_bit_of_1)

lemma pad_div_mod:
  "5 * VL_BASE32_CHARS n div 8 = n" "5 * VL_BASE32_CHARS n mod 8 = 5 * VL_BASE32_CHARS n - 8 * n"
proof -
  obtain m where m: "5 * VL_BASE32_CHARS n = 8 * n + m" "m < 5"
    using b32_pad_bound [of n] le_Suc_ex by (metis diff_add_inverse)
  then show "5 * VL_BASE32_CHARS n div 8 = n" "5 * VL_BASE32_CHARS n mod 8 = 5 * VL_BASE32_CHARS n - 8 * n"
    by simp_all
qed

lemma decode_unfold:
  assumes "0 < n" and "n \<le> cap"
  shows "vl_base32_decode (Some s) (Some dst) cap n =
    (case b32_dec_loop cap 0 s 0 0 dst 0 0 of
       (None, dst') \<Rightarrow> (-1, Some dst')
     | (Some (buffer, bits, k, chars), dst') \<Rightarrow>
         if take_bit bits buffer = 0 \<and> chars = VL_BASE32_CHARS n \<and> k = n then (int n, Some dst')
         else (-1, Some dst'))"
  using assms unfolding vl_base32_decode_def mask_is_take_bit
  by (auto split: option.splits prod.splits)

lemma decode_result:
  assumes "0 < n" and "n \<le> cap" and "cap \<le> length dst"
  obtains r out' where "b32_dec_loop cap 0 s 0 0 dst 0 0 = (r, out')"
    and "dec_result cap 0 s 0 0 dst 0 0 r out'"
  using b32_dec_loop_spec [of cap 0 s 0 0 dst 0 0] assms
  by (metis le0 surj_pair zero_less_numeral)

lemma vl_base32_decode_spells:
  assumes "0 < n" and "n \<le> cap" and "cap \<le> length dst"
    and "b32_spells s bs" and "length bs = n"
  shows "\<exists>dst'. vl_base32_decode (Some s) (Some dst) cap n = (int n, Some dst') \<and>
    take n dst' = bs \<and> length dst' = length dst \<and> drop cap dst' = drop cap dst"
proof -
  obtain r out' where loop: "b32_dec_loop cap 0 s 0 0 dst 0 0 = (r, out')"
    and res: "dec_result cap 0 s 0 0 dst 0 0 r out'"
    using decode_result assms(1-3) by blast
  note sp = assms(4)[unfolded b32_spells_def assms(5)]
  have "dec_fits cap 0 s 0 0"
    using sp assms(2) by (simp add: dec_fits_def pad_div_mod)
  with res obtain buffer bits k chars where r: "r = Some (buffer, bits, k, chars)"
    by (auto simp: dec_result_def split: option.splits)
  have st: "byte_bits (take k out') @ bv bits buffer = byte_bits bs @ replicate (5 * VL_BASE32_CHARS n - 8 * n) False"
    "k = n" "bits = 5 * VL_BASE32_CHARS n - 8 * n" "chars = VL_BASE32_CHARS n" "length out' = length dst"
    "drop cap out' = drop cap dst"
    using res sp by (auto simp: r dec_result_def pad_div_mod)
  have "take k out' = bs \<and> bv bits buffer = replicate bits False"
    using byte_bits_inj_append [OF st(1)] st assms(2,3,5) by simp
  with st show ?thesis
    using assms(1,2) by (simp add: decode_unfold loop r bv_zero_iff)
qed

lemma vl_base32_decode_strict:
  assumes "0 < n" and "n \<le> cap" and "cap \<le> length dst"
  shows "vl_base32_decode (Some s) (Some dst) cap n = (int n, Some dst') \<Longrightarrow>
    b32_spells s (take n dst') \<and> length dst' = length dst \<and> drop cap dst' = drop cap dst"
proof -
  assume ok: "vl_base32_decode (Some s) (Some dst) cap n = (int n, Some dst')"
  obtain r out' where loop: "b32_dec_loop cap 0 s 0 0 dst 0 0 = (r, out')"
    and res: "dec_result cap 0 s 0 0 dst 0 0 r out'"
    using decode_result assms by blast
  from ok obtain buffer bits k chars where r: "r = Some (buffer, bits, k, chars)"
    and z: "take_bit bits buffer = 0" "chars = VL_BASE32_CHARS n" "k = n" "out' = dst'"
    using assms(1,2) by (auto simp: decode_unfold loop split: option.splits if_splits)
  have len: "length (b32_sig (cstr s)) = VL_BASE32_CHARS n"
    using res z(2) by (auto simp: r dec_result_def)
  have st: "dec_fits cap 0 s 0 0"
    "sym_str (b32_sig (cstr s)) = byte_bits (take n dst') @ bv bits buffer"
    "bits = 5 * VL_BASE32_CHARS n - 8 * n" "length dst' = length dst" "drop cap dst' = drop cap dst"
    using res z(2-) by (auto simp: r dec_result_def len pad_div_mod)
  have "bv bits buffer = replicate bits False" using z(1) by (simp add: bv_zero_iff)
  with st len show ?thesis
    using assms(2,3) by (simp add: b32_spells_def dec_fits_def min_absorb2)
qed

text \<open>Any other answer is -1: the strict decoder has no third outcome.\<close>

lemma vl_base32_decode_dichotomy:
  assumes "0 < n" and "n \<le> cap"
  shows "\<exists>dst'. vl_base32_decode (Some s) (Some dst) cap n \<in> {(int n, Some dst'), (-1, Some dst')}"
  using assms by (auto simp: decode_unfold split: option.splits prod.splits)

lemma b32_spells_unique: "b32_spells s bs \<Longrightarrow> b32_spells s cs \<Longrightarrow> length bs = length cs \<Longrightarrow> bs = cs"
  unfolding b32_spells_def using byte_bits_inj_append by metis

section \<open>The canonical text is a spelling\<close>

lemma canon_cstr: "canon s \<Longrightarrow> cstr (s @ 0 # t) = s"
  unfolding cstr_def canon_def using ENC_ALPHA_nonzero
  by (subst takeWhile_append2) auto

lemma canon_cstr': "canon s \<Longrightarrow> cstr s = s"
  unfolding cstr_def canon_def using ENC_ALPHA_nonzero by (subst takeWhile_eq_all_conv) auto

lemma canon_sig: "canon s \<Longrightarrow> b32_sig s = s"
  unfolding b32_sig_def canon_def using b32_val_alpha_ge_0 by (intro filter_True) force

lemma canon_valid: "canon s \<Longrightarrow> c \<in> set s \<Longrightarrow> b32_val c \<noteq> -1"
  unfolding canon_def using b32_val_alpha_ge_0 by force

lemma b32_spells_text:
  assumes "VL_BASE32_CHARS (length bs) \<le> VL_BASE32_MAX_INPUT"
  shows "b32_spells (b32_text bs @ 0 # t) bs" and "b32_spells (b32_text bs) bs"
  using assms b32_text_spec [of bs] canon_valid [of "b32_text bs"]
  by (auto simp: b32_spells_def canon_cstr canon_cstr' canon_sig)

section \<open>Properties\<close>

text \<open>C17. What the encoder writes the strict decoder reads back: for every non-empty input of
  at most 512 bytes the encoder writes its canonical text with a terminating NUL, inside the
  capacity it was given, and the decoder asked for that length recovers the bytes.\<close>

theorem base32_roundtrip:
  assumes "0 < n" and "n \<le> 512" and "n = length bs" and "VL_BASE32_CHARS n + 1 \<le> cap" and "cap \<le> length dst"
    and "n \<le> cap2" and "cap2 \<le> length dst2"
  shows "\<exists>text dst2'. vl_base32_encode (Some bs) n (Some dst) cap = (int (VL_BASE32_CHARS n), Some text) \<and>
    drop cap text = drop cap dst \<and>
    vl_base32_decode (Some text) (Some dst2) cap2 n = (int n, Some dst2') \<and>
    take n dst2' = bs \<and> drop cap2 dst2' = drop cap2 dst2"
proof -
  let ?text = "b32_text bs @ 0 # drop (VL_BASE32_CHARS n + 1) dst"
  have enc: "vl_base32_encode (Some bs) n (Some dst) cap = (int (VL_BASE32_CHARS n), Some ?text)"
    using vl_base32_encode_text [of n bs cap dst] assms by simp
  have "length (b32_text bs) = VL_BASE32_CHARS n" using b32_text_spec [of bs] assms(3) by simp
  then have rest: "drop cap ?text = drop cap dst"
    using assms(4) by (simp add: drop_Cons')
  have "b32_spells ?text bs"
    using assms(2,3) by (intro b32_spells_text) (simp add: VL_BASE32_CHARS_def VL_BASE32_MAX_INPUT_def)
  from vl_base32_decode_spells [OF assms(1,6,7) this] enc rest assms(3) show ?thesis by auto
qed

lemma base32_roundtrip_witness:
  "\<exists>text dst2'. vl_base32_encode (Some [0xDE, 0xAD, 0xBE]) 3 (Some (replicate 8 0)) 8 = (int (VL_BASE32_CHARS 3), Some text) \<and>
    drop 8 text = drop 8 (replicate 8 0) \<and>
    vl_base32_decode (Some text) (Some [0, 0, 0]) 3 3 = (3, Some dst2') \<and>
    take 3 dst2' = [0xDE, 0xAD, 0xBE] \<and> drop 3 dst2' = drop 3 [0, 0, 0]"
  using base32_roundtrip [of 3 "[0xDE, 0xAD, 0xBE]" 8 "replicate 8 0" 3 "[0, 0, 0]"]
  by (simp add: VL_BASE32_CHARS_def)



end
