(* ===== verification/VL_Stream.thy ===== *)
theory VL_Stream
  imports VL_Prelude
begin

text \<open>
  What \<^verbatim>\<open>vl_sha256.c\<close> and \<^verbatim>\<open>vl_sha512.c\<close> share: a streaming hash that keeps a
  chaining state, a partial block and its fill level. The functions \<open>md_update\<close> and
  \<open>md_pad_last\<close> are the shape both files give to their update and final operations; the
  locale \<open>md_stream\<close> states that shape as the law a hash provides, and proves once that a
  context represents the message absorbed so far whatever way it was cut into calls;
  \<open>md_hash\<close> adds the final operation and proves that it digests the padded message.
\<close>

section \<open>The common shape of the operations\<close>

definition md_update :: "('h \<Rightarrow> bytes \<Rightarrow> 'h) \<Rightarrow> ('h \<Rightarrow> bytes \<Rightarrow> 'h \<times> bytes) \<Rightarrow> nat \<Rightarrow>
    'h \<times> bytes \<times> nat \<Rightarrow> bytes \<Rightarrow> 'h \<times> bytes \<times> nat" where
  "md_update f blocks B v p =
     (let (h, b, n) = v;
          (h1, b1, n1, p1) =
            (if 0 < n then
               let tk = min (B - n) (length p); b1 = overlay b n (take tk p)
               in if n + tk = B then (f h b1, b1, 0, drop tk p) else (h, b1, n + tk, drop tk p)
             else (h, b, n, p));
          (h2, p2) = blocks h1 p1
      in if 0 < length p2 then (h2, overlay b1 0 p2, length p2) else (h2, b1, n1))"

text \<open>
  The end of a message: a marker byte, zeros up to the length field of \<open>L\<close> bytes (through
  an extra block when the marker leaves no room for it), the length field.
\<close>

definition md_pad_last :: "('h \<Rightarrow> bytes \<Rightarrow> 'h) \<Rightarrow> nat \<Rightarrow> nat \<Rightarrow> bytes \<Rightarrow> 'h \<times> bytes \<times> nat \<Rightarrow> 'h" where
  "md_pad_last f B L lenb v =
     (let (h, b, n) = v;
          b1 = b[n := 0x80]; n1 = n + 1;
          (h2, b2, n2) =
            (if n1 > B - L then
               let b' = overlay b1 n1 (replicate (B - n1) 0) in (f h b', b', 0)
             else (h, b1, n1));
          b3 = overlay b2 n2 (replicate (B - L - n2) 0);
          b4 = overlay b3 (B - L) lenb
      in f h2 b4)"

text \<open>The zeros a message of \<open>n\<close> bytes needs after the marker.\<close>

definition pad_zeros :: "nat \<Rightarrow> nat \<Rightarrow> nat \<Rightarrow> nat" where
  "pad_zeros B L n = (let r = n mod B in if r < B - L then B - L - 1 - r else 2 * B - L - 1 - r)"

definition md_padding :: "nat \<Rightarrow> nat \<Rightarrow> nat \<Rightarrow> bytes" where
  "md_padding B L n = 0x80 # replicate (pad_zeros B L n) 0"

lemma padded_length_aligned:
  assumes "L < B" shows "(n + length (md_padding B L n) + L) mod B = 0"
proof -
  have B: "0 < B" using assms by simp
  define r where "r = n mod B"
  have r: "r < B" using B by (simp add: r_def)
  have "(n + length (md_padding B L n) + L) mod B = (r + (length (md_padding B L n) + L)) mod B"
    by (simp add: r_def mod_add_left_eq add.assoc)
  also have "r + (length (md_padding B L n) + L) = (if r < B - L then B else 2 * B)"
    using assms r by (auto simp: md_padding_def pad_zeros_def Let_def simp flip: r_def)
  finally show ?thesis by simp
qed

text \<open>The whole blocks of a message.\<close>

definition slices :: "nat \<Rightarrow> 'b list \<Rightarrow> 'b list list" where
  "slices B m = map (\<lambda>i. take B (drop (i * B) m)) [0..<length m div B]"

lemma slices_short: "length m < B \<Longrightarrow> slices B m = []"
  by (simp add: slices_def)

lemma slices_block:
  assumes "0 < B" and "B \<le> length m"
  shows "slices B m = take B m # slices B (drop B m)"
proof -
  have "length m div B = Suc ((length m - B) div B)" using assms by (simp add: le_div_geq)
  then have "slices B m = take B m # map (\<lambda>i. take B (drop (i * B) m)) [Suc 0..<Suc ((length m - B) div B)]"
    by (simp add: slices_def upt_conv_Cons del: upt_Suc)
  also have "map (\<lambda>i. take B (drop (i * B) m)) [Suc 0..<Suc ((length m - B) div B)] = slices B (drop B m)"
    by (simp add: slices_def map_Suc_upt [symmetric] add.commute del: upt_Suc)
  finally show ?thesis .
qed

lemma slices_length: "x \<in> set (slices B m) \<Longrightarrow> length x = B"
proof -
  assume "x \<in> set (slices B m)"
  then obtain i where i: "i < length m div B" "x = take B (drop (i * B) m)" by (auto simp: slices_def)
  then have "(i + 1) * B \<le> length m div B * B" by (intro mult_le_mono1) simp
  also have "\<dots> \<le> length m" by (simp add: div_times_less_eq_dividend)
  finally show "length x = B" using i by simp
qed

section \<open>Streaming\<close>

locale md_stream =
  fixes B :: nat
    and f :: "'h \<Rightarrow> bytes \<Rightarrow> 'h"
    and blocks :: "'h \<Rightarrow> bytes \<Rightarrow> 'h \<times> bytes"
    and view :: "'c \<Rightarrow> 'h \<times> bytes \<times> nat"
    and absorb :: "'c \<Rightarrow> bytes \<Rightarrow> 'c"
  assumes B_pos: "0 < B"
    and blocks_eq: "blocks h p = (if B \<le> length p then blocks (f h (take B p)) (drop B p) else (h, p))"
    and absorb_view: "xs \<noteq> [] \<Longrightarrow> view (absorb c xs) = md_update f blocks B (view c) xs"
    and absorb_Nil: "absorb c [] = c"
begin

lemma blocks_short: "length p < B \<Longrightarrow> blocks h p = (h, p)"
  by (subst blocks_eq) simp

lemma blocks_block: "length b = B \<Longrightarrow> blocks h (b @ p) = blocks (f h b) p"
  by (subst blocks_eq) simp

lemma blocks_rest: "length (snd (blocks h p)) = length p mod B"
proof (induction "length p" arbitrary: h p rule: less_induct)
  case less
  show ?case
  proof (cases "B \<le> length p")
    case True
    then have "length (snd (blocks (f h (take B p)) (drop B p))) = length (drop B p) mod B"
      using B_pos by (intro less) simp
    with True show ?thesis by (subst blocks_eq) (simp add: le_mod_geq)
  next
    case False
    then show ?thesis by (simp add: blocks_short)
  qed
qed

lemma blocks_slices: "fst (blocks h p) = foldl f h (slices B p)"
proof (induction "length p" arbitrary: h p rule: less_induct)
  case less
  show ?case
  proof (cases "B \<le> length p")
    case True
    then show ?thesis
      using less [of "drop B p" "f h (take B p)"] B_pos blocks_eq [of h p] slices_block [OF B_pos True] by simp
  next
    case False
    then show ?thesis by (simp add: blocks_short slices_short)
  qed
qed

text \<open>Cutting a message anywhere gives the same state and the same partial block.\<close>

lemma blocks_append: "blocks h (p @ q) = blocks (fst (blocks h p)) (snd (blocks h p) @ q)"
proof (induction "length p" arbitrary: h p rule: less_induct)
  case less
  show ?case
  proof (cases "B \<le> length p")
    case True
    then have "blocks h (p @ q) = blocks (f h (take B p)) (drop B p @ q)"
      by (subst blocks_eq) simp
    also have "\<dots> = blocks (fst (blocks h p)) (snd (blocks h p) @ q)"
      using True B_pos less [of "drop B p" "f h (take B p)"] by (simp add: blocks_eq [of h p])
    finally show ?thesis .
  next
    case False
    then show ?thesis by (simp add: blocks_short)
  qed
qed

definition rep :: "'h \<Rightarrow> bytes \<Rightarrow> 'h \<times> bytes \<times> nat \<Rightarrow> bool" where
  "rep h0 msg v \<longleftrightarrow>
     (case v of (h, b, n) \<Rightarrow> length b = B \<and> blocks h0 msg = (h, take n b) \<and> n < B)"

lemma rep_start: "length b = B \<Longrightarrow> rep h0 [] (h0, b, 0)"
  by (simp add: rep_def blocks_short B_pos)

lemma md_update_rep:
  assumes "rep h0 msg v" and "xs \<noteq> []"
  shows "rep h0 (msg @ xs) (md_update f blocks B v xs)"
proof -
  obtain h b n where v: "v = (h, b, n)" by (cases v)
  have b: "length b = B" and msg: "blocks h0 msg = (h, take n b)" and n: "n < B"
    using assms(1) by (simp_all add: rep_def v)
  have all: "blocks h0 (msg @ xs) = blocks h (take n b @ xs)"
    using blocks_append [of h0 msg xs] msg by simp
  have tail: "rep h0 (msg @ xs) (if 0 < length p2 then (h2, overlay b' 0 p2, length p2) else (h2, b', 0))"
    if "blocks h0 (msg @ xs) = blocks h' p" "blocks h' p = (h2, p2)" "length b' = B" for h' p h2 p2 b'
    using that blocks_rest [of h' p] B_pos by (auto simp: rep_def overlay_def)
  show ?thesis
  proof (cases "n = 0")
    case True
    obtain h2 p2 where bl: "blocks h xs = (h2, p2)" by (cases "blocks h xs")
    show ?thesis
      using tail [of h xs h2 p2 b] all True bl b by (simp add: md_update_def v Let_def)
  next
    case False
    define tk where "tk = min (B - n) (length xs)"
    have fill: "overlay b n (take tk xs) = take n b @ take tk xs @ drop (n + tk) b"
      by (simp add: overlay_def tk_def min_absorb2)
    show ?thesis
    proof (cases "n + tk = B")
      case True
      obtain h2 p2 where bl: "blocks (f h (take n b @ take tk xs)) (drop tk xs) = (h2, p2)"
        by (cases "blocks (f h (take n b @ take tk xs)) (drop tk xs)")
      have "length (take n b @ take tk xs) = B" using True b n by (simp add: tk_def)
      then have "blocks h0 (msg @ xs) = blocks (f h (take n b @ take tk xs)) (drop tk xs)"
        unfolding all by (subst blocks_block [symmetric]) simp_all
      moreover have "md_update f blocks B v xs =
          (if 0 < length p2 then (h2, overlay (take n b @ take tk xs) 0 p2, length p2)
           else (h2, take n b @ take tk xs, 0))"
        using True False bl b n by (simp add: md_update_def v Let_def fill flip: tk_def)
      ultimately show ?thesis
        using tail [OF _ bl, of "take n b @ take tk xs"] True b n by (simp add: tk_def)
    next
      case short: False
      then have tk: "tk = length xs" and lt: "n + length xs < B" using n by (auto simp: tk_def)
      have "blocks h0 (msg @ xs) = (h, take n b @ xs)"
        unfolding all using lt b by (intro blocks_short) simp
      then show ?thesis
        using short False lt b n tk B_pos
        by (simp add: md_update_def v Let_def take_overlay_end blocks_short rep_def flip: tk_def)
    qed
  qed
qed

lemma absorb_rep: "rep h0 msg (view c) \<Longrightarrow> rep h0 (msg @ xs) (view (absorb c xs))"
  by (cases "xs = []") (simp_all add: absorb_Nil absorb_view md_update_rep)

text \<open>
  Absorbing in pieces is absorbing at once, up to the dead part of the buffer.
\<close>

lemma absorb_pieces:
  assumes "rep h0 [] (view c)"
  shows "rep h0 (concat xss) (view (foldl absorb c xss))"
  using assms
proof (induction xss rule: rev_induct)
  case Nil
  then show ?case by simp
next
  case (snoc xs xss)
  then show ?case by (simp add: absorb_rep)
qed

end

section \<open>Finishing\<close>

locale md_hash = md_stream B f blocks view absorb
  for B :: nat and f :: "'h \<Rightarrow> bytes \<Rightarrow> 'h" and blocks :: "'h \<Rightarrow> bytes \<Rightarrow> 'h \<times> bytes"
    and view :: "'c \<Rightarrow> 'h \<times> bytes \<times> nat" and absorb :: "'c \<Rightarrow> bytes \<Rightarrow> 'c" +
  fixes L :: nat
    and lenb :: "'c \<Rightarrow> bytes"
    and finish :: "'c \<Rightarrow> 'h"
  assumes L_fits: "0 < L" "L < B"
    and lenb_length: "length (lenb c) = L"
    and finish_eq: "view c = (h, b, n) \<Longrightarrow> length b = B \<Longrightarrow> n < B \<Longrightarrow>
      finish c = md_pad_last f B L (lenb c) (h, b, n)"
begin

lemma finish_pads:
  assumes "rep h0 msg (view c)"
  shows "blocks h0 (msg @ md_padding B L (length msg) @ lenb c) = (finish c, [])"
proof -
  obtain h b n where v: "view c = (h, b, n)" by (cases "view c")
  have b: "length b = B" and msg: "blocks h0 msg = (h, take n b)" and n: "n < B"
    using assms by (simp_all add: rep_def v)
  have r: "length msg mod B = n" using blocks_rest [of h0 msg] msg b n by simp
  have all: "blocks h0 (msg @ q) = blocks h (take n b @ q)" for q
    using blocks_append [of h0 msg q] msg by simp
  have one: "blocks h' p = (f h' p, [])" if "length p = B" for h' p
    using that B_pos blocks_block [of p h' "[]"] by (simp add: blocks_short)
  have mark: "b[n := 0x80] = take n b @ 0x80 # drop (n + 1) b"
    using b n by (simp add: upd_conv_take_nth_drop)
  let ?l = "lenb c"
  show ?thesis
  proof (cases "n < B - L")
    case True
    let ?last = "take n b @ 0x80 # replicate (B - L - 1 - n) 0 @ ?l"
    have "md_pad_last f B L ?l (h, b, n) = f h ?last"
      using True b n lenb_length [of c] L_fits
      by (simp add: md_pad_last_def Let_def mark overlay_def)
    moreover have "length ?last = B" using True b n lenb_length [of c] L_fits by simp
    ultimately show ?thesis
      using True by (simp add: finish_eq [OF v b n] md_padding_def pad_zeros_def r all one)
  next
    case False
    let ?b1 = "take n b @ 0x80 # replicate (B - (n + 1)) 0"
    let ?b2 = "replicate (B - L) 0 @ ?l"
    have "md_pad_last f B L ?l (h, b, n) = f (f h ?b1) ?b2"
      using False b n lenb_length [of c] L_fits
      by (simp add: md_pad_last_def Let_def mark overlay_def)
    moreover have len: "length ?b1 = B" "length ?b2 = B" using b n lenb_length [of c] L_fits by simp_all
    moreover have "replicate (2 * B - L - 1 - n) 0 = replicate (B - (n + 1)) 0 @ replicate (B - L) (0 :: u8)"
      using False n L_fits by (simp flip: replicate_add)
    ultimately show ?thesis
      using False blocks_block [OF len(1), of h ?b2] one [OF len(2)]
      by (simp add: finish_eq [OF v b n] md_padding_def pad_zeros_def r all)
  qed
qed

end

end
