(* ===== verification/VL_Util.thy ===== *)
theory VL_Util
  imports VL_Prelude
begin

text \<open>
  \<^verbatim>\<open>core/vl_util.c\<close>: the secure wipe and the constant-time comparison. The wipe is
  the effect of \<^verbatim>\<open>memset(p, 0, len)\<close> on the buffer (that the compiler may not remove
  it is a property of the volatile function pointer, outside a functional model); the
  comparison is the code's accumulate-and-shift arithmetic, which the lemmas show to be
  equality of the two prefixes.
\<close>

definition vl_secure_wipe :: "bytes option \<Rightarrow> nat \<Rightarrow> bytes option" where
  "vl_secure_wipe p len =
     (case p of None \<Rightarrow> None
      | Some buf \<Rightarrow> Some (if len = 0 then buf else overlay buf 0 (replicate len 0)))"

definition ct_diff :: "bytes \<Rightarrow> bytes \<Rightarrow> nat \<Rightarrow> u8" where
  "ct_diff pa pb len = fold (\<lambda>i diff. diff OR (pa ! i XOR pb ! i)) [0..<len] 0"

definition vl_ct_eq :: "bytes option \<Rightarrow> bytes option \<Rightarrow> nat \<Rightarrow> int" where
  "vl_ct_eq a b len =
     (case (a, b) of
        (Some pa, Some pb) \<Rightarrow>
          if len = 0 then 0
          else uint (drop_bit 8 ((ucast (ct_diff pa pb len) :: u32) - 1) AND 1)
      | _ \<Rightarrow> 0)"

section \<open>The wipe clears the prefix and nothing else\<close>

lemma vl_secure_wipe_Some:
  "len \<le> length buf \<Longrightarrow> vl_secure_wipe (Some buf) len = Some (replicate len 0 @ drop len buf)"
  by (simp add: vl_secure_wipe_def overlay_def)

lemma vl_secure_wipe_all: "vl_secure_wipe (Some buf) (length buf) = Some (replicate (length buf) 0)"
  by (simp add: vl_secure_wipe_Some)

section \<open>The comparison decides equality of the prefixes\<close>

lemma xor_eq_0_iff_word: "(a :: 'a::len word) XOR b = 0 \<longleftrightarrow> a = b"
  by (auto simp: bit_eq_iff bit_xor_iff)

lemma ct_diff_0_iff: "ct_diff pa pb len = 0 \<longleftrightarrow> (\<forall>i<len. pa ! i = pb ! i)"
proof (induction len)
  case 0
  then show ?case by (simp add: ct_diff_def)
next
  case (Suc len)
  have "ct_diff pa pb (Suc len) = ct_diff pa pb len OR (pa ! len XOR pb ! len)"
    by (simp add: ct_diff_def)
  then show ?case using Suc by (auto simp: or_eq_0_iff xor_eq_0_iff_word less_Suc_eq)
qed

text \<open>
  The branch-free verdict: subtracting one from the accumulated difference borrows into
  the bits above the low byte exactly when the difference is zero.
\<close>

lemma ct_verdict:
  "uint (drop_bit 8 ((ucast (d :: u8) :: u32) - 1) AND 1) = (if d = 0 then 1 else 0)"
proof (cases "d = 0")
  case True
  then show ?thesis by (simp add: drop_bit_eq_div and_one_eq)
next
  case False
  then have pos: "0 < unat d" by (simp add: unat_gt_0)
  have lt: "unat d < 256" using unsigned_less [of d] by simp
  have "unat ((ucast d :: u32) - 1) = unat d - 1"
  proof -
    have "unat (ucast d :: u32) = unat d" by (simp add: unsigned_ucast_eq take_bit_nat_eq_self_iff less_trans [OF lt])
    with pos show ?thesis by (simp add: unat_minus_one unat_gt_0 flip: unat_gt_0)
  qed
  with lt have "unat (drop_bit 8 ((ucast d :: u32) - 1)) = 0"
    by (simp add: drop_bit_eq_div unat_div)
  then have "drop_bit 8 ((ucast d :: u32) - 1) = 0" by (simp add: unat_eq_zero)
  with False show ?thesis by simp
qed

lemma vl_ct_eq_Some:
  assumes "len \<le> length pa" and "len \<le> length pb"
  shows "vl_ct_eq (Some pa) (Some pb) len =
    (if 0 < len \<and> take len pa = take len pb then 1 else 0)"
proof -
  have "(\<forall>i<len. pa ! i = pb ! i) \<longleftrightarrow> take len pa = take len pb"
    using assms by (auto simp: list_eq_iff_nth_eq)
  then show ?thesis by (simp add: vl_ct_eq_def ct_verdict ct_diff_0_iff)
qed

lemma vl_ct_eq_full:
  "length pa = n \<Longrightarrow> length pb = n \<Longrightarrow> 0 < n \<Longrightarrow> vl_ct_eq (Some pa) (Some pb) n = (if pa = pb then 1 else 0)"
  by (simp add: vl_ct_eq_Some)

lemma vl_ct_eq_fail_closed [vl_guard]:
  "vl_ct_eq None b len = 0" "vl_ct_eq a None len = 0" "vl_ct_eq a b 0 = 0"
  by (simp_all add: vl_ct_eq_def split: option.splits)

section \<open>Properties\<close>

text \<open>\<open>vl_ct_eq\<close> decides equality: it returns 1 exactly when both pointers are
  there, the length is not zero and the two prefixes agree in every byte, and 0 otherwise.\<close>

theorem ct_eq_decides:
  assumes "\<forall>x. a = Some x \<longrightarrow> len \<le> length x" and "\<forall>y. b = Some y \<longrightarrow> len \<le> length y"
  shows "vl_ct_eq a b len =
    (if 0 < len \<and> (\<exists>x y. a = Some x \<and> b = Some y \<and> take len x = take len y) then 1 else 0)"
  using assms vl_ct_eq_Some by (cases a; cases b) (auto simp: vl_guard)

lemma ct_eq_decides_witness:
  "vl_ct_eq (Some [1, 2, 3]) (Some [1, 2, 9]) 2 = 1 \<and> vl_ct_eq (Some [1, 2, 3]) (Some [1, 2, 9]) 3 = 0"
  using ct_eq_decides [of "Some [1, 2, 3]" 2 "Some [1, 2, 9]"]
    ct_eq_decides [of "Some [1, 2, 3]" 3 "Some [1, 2, 9]"] by simp

end
