(* ===== verification/VL_Sha256.thy ===== *)
theory VL_Sha256
  imports VL_Stream VL_Util
begin

text \<open>
  \<^verbatim>\<open>core/vl_sha256.c\<close>: SHA-256. The compression function, the context and the three
  operations are those of the source; the \<open>md_hash\<close> interpretation shows that they digest
  the padded message, however it was cut into updates.
\<close>

section \<open>Compression\<close>

definition K256 :: "u32 list" where
  "K256 =
     [0x428a2f98, 0x71374491, 0xb5c0fbcf, 0xe9b5dba5] @
     [0x3956c25b, 0x59f111f1, 0x923f82a4, 0xab1c5ed5] @
     [0xd807aa98, 0x12835b01, 0x243185be, 0x550c7dc3] @
     [0x72be5d74, 0x80deb1fe, 0x9bdc06a7, 0xc19bf174] @
     [0xe49b69c1, 0xefbe4786, 0x0fc19dc6, 0x240ca1cc] @
     [0x2de92c6f, 0x4a7484aa, 0x5cb0a9dc, 0x76f988da] @
     [0x983e5152, 0xa831c66d, 0xb00327c8, 0xbf597fc7] @
     [0xc6e00bf3, 0xd5a79147, 0x06ca6351, 0x14292967] @
     [0x27b70a85, 0x2e1b2138, 0x4d2c6dfc, 0x53380d13] @
     [0x650a7354, 0x766a0abb, 0x81c2c92e, 0x92722c85] @
     [0xa2bfe8a1, 0xa81a664b, 0xc24b8b70, 0xc76c51a3] @
     [0xd192e819, 0xd6990624, 0xf40e3585, 0x106aa070] @
     [0x19a4c116, 0x1e376c08, 0x2748774c, 0x34b0bcb5] @
     [0x391c0cb3, 0x4ed8aa4a, 0x5b9cca4f, 0x682e6ff3] @
     [0x748f82ee, 0x78a5636f, 0x84c87814, 0x8cc70208] @
     [0x90befffa, 0xa4506ceb, 0xbef9a3f7, 0xc67178f2]"

definition rotr32 :: "u32 \<Rightarrow> nat \<Rightarrow> u32" where
  "rotr32 x n = drop_bit n x OR push_bit (32 - n) x"

definition sha256_word :: "bytes \<Rightarrow> nat \<Rightarrow> u32" where
  "sha256_word block i =
     push_bit 24 (ucast (block ! (i * 4 + 0))) OR push_bit 16 (ucast (block ! (i * 4 + 1))) OR
     push_bit 8 (ucast (block ! (i * 4 + 2))) OR ucast (block ! (i * 4 + 3))"

definition sha256_extend :: "nat \<Rightarrow> u32 list \<Rightarrow> u32 list" where
  "sha256_extend i w =
     (let s0 = rotr32 (w ! (i - 15)) 7 XOR rotr32 (w ! (i - 15)) 18 XOR drop_bit 3 (w ! (i - 15));
          s1 = rotr32 (w ! (i - 2)) 17 XOR rotr32 (w ! (i - 2)) 19 XOR drop_bit 10 (w ! (i - 2))
      in w @ [w ! (i - 16) + s0 + w ! (i - 7) + s1])"

definition sha256_schedule :: "bytes \<Rightarrow> u32 list" where
  "sha256_schedule block = fold sha256_extend [16..<64] (map (sha256_word block) [0..<16])"

type_synonym sha256_regs = "u32 \<times> u32 \<times> u32 \<times> u32 \<times> u32 \<times> u32 \<times> u32 \<times> u32"

definition sha256_round :: "u32 list \<Rightarrow> nat \<Rightarrow> sha256_regs \<Rightarrow> sha256_regs" where
  "sha256_round w i r =
     (case r of (a, b, c, d, e, f, g, h) \<Rightarrow>
        let S1 = rotr32 e 6 XOR rotr32 e 11 XOR rotr32 e 25;
            ch = (e AND f) XOR (NOT e AND g);
            t1 = h + S1 + ch + K256 ! i + w ! i;
            S0 = rotr32 a 2 XOR rotr32 a 13 XOR rotr32 a 22;
            maj = (a AND b) XOR (a AND c) XOR (b AND c);
            t2 = S0 + maj
        in (t1 + t2, a, b, c, d + t1, e, f, g))"

definition sha256_compress :: "u32 list \<Rightarrow> bytes \<Rightarrow> u32 list" where
  "sha256_compress st block =
     (case fold (sha256_round (sha256_schedule block)) [0..<64]
             (st ! 0, st ! 1, st ! 2, st ! 3, st ! 4, st ! 5, st ! 6, st ! 7) of
        (a, b, c, d, e, f, g, h) \<Rightarrow>
          [st ! 0 + a, st ! 1 + b, st ! 2 + c, st ! 3 + d,
           st ! 4 + e, st ! 5 + f, st ! 6 + g, st ! 7 + h])"

section \<open>The context and its operations\<close>

definition VL_SHA256_BLOCK_LEN :: nat where "VL_SHA256_BLOCK_LEN = 64"
definition VL_SHA256_DIGEST_LEN :: nat where "VL_SHA256_DIGEST_LEN = 32"

record sha256_ctx =
  s256_state :: "u32 list"
  s256_bit_count :: u64
  s256_buffer :: bytes
  s256_buffer_len :: nat

definition sha256_iv :: "u32 list" where
  "sha256_iv = [0x6a09e667, 0xbb67ae85, 0x3c6ef372, 0xa54ff53a,
     0x510e527f, 0x9b05688c, 0x1f83d9ab, 0x5be0cd19]"

definition vl_sha256_init :: "sha256_ctx option \<Rightarrow> sha256_ctx option" where
  "vl_sha256_init c = map_option
     (\<lambda>ctx. ctx\<lparr>s256_state := sha256_iv, s256_bit_count := 0, s256_buffer_len := 0\<rparr>) c"

text \<open>The loop over whole blocks of the data.\<close>

function sha256_blocks :: "u32 list \<Rightarrow> bytes \<Rightarrow> u32 list \<times> bytes" where
  "sha256_blocks st p =
     (if VL_SHA256_BLOCK_LEN \<le> length p
      then sha256_blocks (sha256_compress st (take VL_SHA256_BLOCK_LEN p)) (drop VL_SHA256_BLOCK_LEN p)
      else (st, p))"
  by pat_completeness auto
termination
  by (relation "measure (\<lambda>(st, p). length p)") (auto simp: VL_SHA256_BLOCK_LEN_def)

declare sha256_blocks.simps [simp del]

text \<open>The body of the update, for a context and the \<open>len\<close> bytes at the data pointer.\<close>

definition sha256_absorb :: "sha256_ctx \<Rightarrow> bytes \<Rightarrow> sha256_ctx" where
  "sha256_absorb ctx p =
     (if p = [] then ctx
      else
        let ctx0 = ctx\<lparr>s256_bit_count := s256_bit_count ctx + word_of_nat (length p) * 8\<rparr>;
            (ctx1, p1) =
              (if 0 < s256_buffer_len ctx0 then
                 let tk = min (VL_SHA256_BLOCK_LEN - s256_buffer_len ctx0) (length p);
                     b = overlay (s256_buffer ctx0) (s256_buffer_len ctx0) (take tk p);
                     c = ctx0\<lparr>s256_buffer := b, s256_buffer_len := s256_buffer_len ctx0 + tk\<rparr>
                 in (if s256_buffer_len c = VL_SHA256_BLOCK_LEN
                     then c\<lparr>s256_state := sha256_compress (s256_state c) (s256_buffer c), s256_buffer_len := 0\<rparr>
                     else c, drop tk p)
               else (ctx0, p));
            (st2, p2) = sha256_blocks (s256_state ctx1) p1;
            ctx2 = ctx1\<lparr>s256_state := st2\<rparr>
        in if 0 < length p2
           then ctx2\<lparr>s256_buffer := overlay (s256_buffer ctx2) 0 p2, s256_buffer_len := length p2\<rparr>
           else ctx2)"

definition vl_sha256_update :: "sha256_ctx option \<Rightarrow> bytes option \<Rightarrow> nat \<Rightarrow> sha256_ctx option" where
  "vl_sha256_update c data len =
     (case (c, data) of
        (None, _) \<Rightarrow> None
      | (Some ctx, None) \<Rightarrow> Some ctx
      | (Some ctx, Some p) \<Rightarrow> Some (sha256_absorb ctx (take len p)))"

text \<open>The eight length bytes, stored from the end of the block.\<close>

definition sha256_put_length :: "bytes \<Rightarrow> u64 \<Rightarrow> bytes" where
  "sha256_put_length buf bits =
     fst (fold (\<lambda>i (b, n). (b[63 - i := ucast (n AND 0xFF)], drop_bit 8 n)) [0..<8] (buf, bits))"

definition sha256_finish :: "sha256_ctx \<Rightarrow> u32 list" where
  "sha256_finish ctx =
     (let b1 = (s256_buffer ctx)[s256_buffer_len ctx := 0x80]; n1 = s256_buffer_len ctx + 1;
          (st2, b2, n2) =
            (if n1 > 56 then
               let b' = overlay b1 n1 (replicate (VL_SHA256_BLOCK_LEN - n1) 0)
               in (sha256_compress (s256_state ctx) b', b', 0)
             else (s256_state ctx, b1, n1));
          b3 = overlay b2 n2 (replicate (56 - n2) 0)
      in sha256_compress st2 (sha256_put_length b3 (s256_bit_count ctx)))"

definition sha256_digest_bytes :: "u32 list \<Rightarrow> bytes" where
  "sha256_digest_bytes st = concat (map (\<lambda>i.
     [ucast (drop_bit 24 (st ! i)), ucast (drop_bit 16 (st ! i)),
      ucast (drop_bit 8 (st ! i)), ucast (st ! i)]) [0..<8])"

definition sha256_zero_ctx :: sha256_ctx where
  "sha256_zero_ctx = \<lparr>s256_state = replicate 8 0, s256_bit_count = 0,
     s256_buffer = replicate 64 0, s256_buffer_len = 0\<rparr>"

text \<open>Result: the caller's digest buffer and the wiped context.\<close>

definition vl_sha256_final :: "sha256_ctx option \<Rightarrow> bytes option \<Rightarrow> bytes option \<times> sha256_ctx option" where
  "vl_sha256_final c out =
     (case (c, out) of
        (Some ctx, Some buf) \<Rightarrow>
          (Some (overlay buf 0 (sha256_digest_bytes (sha256_finish ctx))), Some sha256_zero_ctx)
      | _ \<Rightarrow> (out, c))"

text \<open>
  The local context of the one-shot function is not initialised before \<open>init\<close>; the
  lemmas below show that what it held does not matter.
\<close>

definition vl_sha256 :: "sha256_ctx \<Rightarrow> bytes option \<Rightarrow> nat \<Rightarrow> bytes option \<Rightarrow> bytes option" where
  "vl_sha256 raw data len out =
     fst (vl_sha256_final (vl_sha256_update (vl_sha256_init (Some raw)) data len) out)"

section \<open>The reference: padding and blocks\<close>

definition be64_bytes :: "u64 \<Rightarrow> bytes" where
  "be64_bytes n = map (\<lambda>i. ucast (drop_bit (8 * (7 - i)) n)) [0..<8]"

definition sha256_spec :: "bytes \<Rightarrow> bytes" where
  "sha256_spec msg =
     sha256_digest_bytes (fst (sha256_blocks sha256_iv
       (msg @ md_padding 64 8 (length msg) @ be64_bytes (word_of_nat (8 * length msg)))))"

section \<open>The context represents the message absorbed\<close>

definition s256_view :: "sha256_ctx \<Rightarrow> u32 list \<times> bytes \<times> nat" where
  "s256_view c = (s256_state c, s256_buffer c, s256_buffer_len c)"

definition s256_lenb :: "sha256_ctx \<Rightarrow> bytes" where
  "s256_lenb c = be64_bytes (s256_bit_count c)"

lemma length_be64_bytes [simp, vl_len]: "length (be64_bytes n) = 8"
  by (simp add: be64_bytes_def)

lemma sha256_put_length_overlay:
  assumes "length b = 64"
  shows "sha256_put_length b n = overlay b 56 (be64_bytes n)"
proof -
  have "sha256_put_length b n =
      b[63 := ucast n, 62 := ucast (drop_bit 8 n), 61 := ucast (drop_bit 16 n),
        60 := ucast (drop_bit 24 n), 59 := ucast (drop_bit 32 n), 58 := ucast (drop_bit 40 n),
        57 := ucast (drop_bit 48 n), 56 := ucast (drop_bit 56 n)]"
    by (simp add: sha256_put_length_def upt_rec low_byte64)
  also have "\<dots> = overlay b 56 (be64_bytes n)"
    using assms
    by (intro nth_equalityI) (auto simp: nth_overlay nth_list_update be64_bytes_def upt_rec nth_Cons')
  finally show ?thesis .
qed

interpretation s256: md_hash 64 sha256_compress sha256_blocks s256_view sha256_absorb 8 s256_lenb sha256_finish
proof
  fix h p
  show "sha256_blocks h p = (if 64 \<le> length p then sha256_blocks (sha256_compress h (take 64 p)) (drop 64 p) else (h, p))"
    by (subst sha256_blocks.simps) (simp add: VL_SHA256_BLOCK_LEN_def)
next
  fix xs :: bytes and c
  assume "xs \<noteq> []"
  then show "s256_view (sha256_absorb c xs) = md_update sha256_compress sha256_blocks 64 (s256_view c) xs"
    by (simp add: sha256_absorb_def md_update_def s256_view_def VL_SHA256_BLOCK_LEN_def Let_def
        split: prod.split)
next
  fix c h b n
  assume v: "s256_view c = (h, b, n)" and b: "length b = 64" and n: "n < (64 :: nat)"
  have st: "s256_state c = h" "s256_buffer c = b" "s256_buffer_len c = n"
    using v by (simp_all add: s256_view_def)
  show "sha256_finish c = md_pad_last sha256_compress 64 8 (s256_lenb c) (h, b, n)"
    using b n by (simp add: sha256_finish_def md_pad_last_def Let_def st VL_SHA256_BLOCK_LEN_def
        sha256_put_length_overlay s256_lenb_def)
qed (simp_all add: sha256_absorb_def s256_lenb_def)

lemma sha256_absorb_count:
  "s256_bit_count (sha256_absorb c xs) = s256_bit_count c + word_of_nat (8 * length xs)"
  by (simp add: sha256_absorb_def Let_def mult.commute split: prod.split)

text \<open>
  \<open>sha256_rep c msg\<close>: the context is that of a hash that has absorbed \<open>msg\<close>.
\<close>

definition sha256_rep :: "sha256_ctx \<Rightarrow> bytes \<Rightarrow> bool" where
  "sha256_rep c msg \<longleftrightarrow>
     s256.rep sha256_iv msg (s256_view c) \<and> s256_bit_count c = word_of_nat (8 * length msg)"

lemma sha256_rep_init:
  "length (s256_buffer raw) = 64 \<Longrightarrow> vl_sha256_init (Some raw) = Some c \<Longrightarrow> sha256_rep c []"
  using s256.rep_start [of "s256_buffer raw" sha256_iv]
  by (auto simp: sha256_rep_def vl_sha256_init_def s256_view_def)

lemma sha256_rep_absorb: "sha256_rep c msg \<Longrightarrow> sha256_rep (sha256_absorb c xs) (msg @ xs)"
  by (simp add: sha256_rep_def s256.absorb_rep sha256_absorb_count distrib_left)

lemma sha256_rep_update:
  assumes "sha256_rep c msg" and "len \<le> length p"
  shows "\<exists>c'. vl_sha256_update (Some c) (Some p) len = Some c' \<and> sha256_rep c' (msg @ take len p)"
  using sha256_rep_absorb [OF assms(1)] by (simp add: vl_sha256_update_def)

lemma sha256_rep_finish: "sha256_rep c msg \<Longrightarrow> sha256_digest_bytes (sha256_finish c) = sha256_spec msg"
  using s256.finish_pads [of sha256_iv msg c]
  by (simp add: sha256_rep_def sha256_spec_def s256_lenb_def)

lemma length_sha256_digest_bytes [simp, vl_len]: "length (sha256_digest_bytes st) = 32"
  by (simp add: sha256_digest_bytes_def upt_rec)

lemma length_sha256_spec [simp, vl_len]: "length (sha256_spec msg) = 32"
  by (simp add: sha256_spec_def)

lemma vl_sha256_final_rep:
  assumes "sha256_rep c msg" and "length out = 32"
  shows "vl_sha256_final (Some c) (Some out) = (Some (sha256_spec msg), Some sha256_zero_ctx)"
  using sha256_rep_finish [OF assms(1)] assms(2) by (simp add: vl_sha256_final_def)

end
