(* ===== verification/VL_Field.thy ===== *)
theory VL_Field
  imports VL_Util
begin

text \<open>
  The field part of \<^verbatim>\<open>core/vl_ed25519.c\<close>: elements of GF(2^255-19) as sixteen
  signed limbs of radix 2^16. An \<^verbatim>\<open>i64\<close> limb is an \<open>int\<close>; signed overflow
  is undefined in C, so instead of wrapping, the bounds lemmas of \<open>VL_Field_Correct\<close>
  show that no intermediate value leaves the 64-bit range. A right shift of a signed limb is the
  arithmetic shift, \<open>div\<close> by a power of two.
\<close>

type_synonym gf = "int list"

definition gf0 :: gf where "gf0 = replicate 16 0"
definition gf1 :: gf where "gf1 = 1 # replicate 15 0"

definition gf_D :: gf where
  "gf_D = [0x78a3, 0x1359, 0x4dca, 0x75eb, 0xd8ab, 0x4141, 0x0a4d, 0x0070,
           0xe898, 0x7779, 0x4079, 0x8cc7, 0xfe73, 0x2b6f, 0x6cee, 0x5203]"

definition gf_D2 :: gf where
  "gf_D2 = [0xf159, 0x26b2, 0x9b94, 0xebd6, 0xb156, 0x8283, 0x149a, 0x00e0,
            0xd130, 0xeef3, 0x80f2, 0x198e, 0xfce7, 0x56df, 0xd9dc, 0x2406]"

definition gf_X :: gf where
  "gf_X = [0xd51a, 0x8f25, 0x2d60, 0xc956, 0xa7b2, 0x9525, 0xc760, 0x692c,
           0xdc5c, 0xfdd6, 0xe231, 0xc0a4, 0x53fe, 0xcd6e, 0x36d3, 0x2169]"

definition gf_Y :: gf where
  "gf_Y = [0x6658, 0x6666, 0x6666, 0x6666, 0x6666, 0x6666, 0x6666, 0x6666,
           0x6666, 0x6666, 0x6666, 0x6666, 0x6666, 0x6666, 0x6666, 0x6666]"

definition gf_I :: gf where
  "gf_I = [0xa0b0, 0x4a0e, 0x1b27, 0xc4ee, 0xe478, 0xad2f, 0x1806, 0x2f43,
           0xd7a7, 0x3dfb, 0x0099, 0x2b4d, 0xdf0b, 0x4fc1, 0x2480, 0x2b83]"

definition set25519 :: "gf \<Rightarrow> gf" where
  "set25519 a = map (\<lambda>i. a ! i) [0..<16]"

section \<open>Carry\<close>

definition car_step :: "nat \<Rightarrow> gf \<Rightarrow> gf" where
  "car_step i o1 =
     (let o2 = o1[i := o1 ! i + 65536];
          c = (o2 ! i) div 65536;
          k = (if i < 15 then i + 1 else 0);
          o3 = o2[k := o2 ! k + (c - 1 + (if i = 15 then 37 * (c - 1) else 0))]
      in o3[i := o3 ! i - c * 65536])"

definition car25519 :: "gf \<Rightarrow> gf" where
  "car25519 a = fold car_step [0..<16] a"

section \<open>Constant-time select\<close>

definition sel_limb :: "int \<Rightarrow> int \<Rightarrow> int \<Rightarrow> int \<times> int" where
  "sel_limb c x y = (let t = c AND (x XOR y) in (x XOR t, y XOR t))"

definition sel25519 :: "gf \<Rightarrow> gf \<Rightarrow> int \<Rightarrow> gf \<times> gf" where
  "sel25519 p q b =
     (let c = NOT (b - 1); r = map2 (sel_limb c) p q in (map fst r, map snd r))"

section \<open>Packing\<close>

text \<open>
  One conditional subtraction of the prime. The scratch element \<open>m\<close> enters with
  whatever it held; each limb is written before it is read.
\<close>

definition pack_borrow :: "gf \<Rightarrow> nat \<Rightarrow> gf \<Rightarrow> gf" where
  "pack_borrow t i m =
     (let m1 = m[i := t ! i - 0xffff - ((m ! (i - 1)) div 65536 AND 1)]
      in m1[i - 1 := m1 ! (i - 1) AND 0xffff])"

definition pack_sub :: "gf \<times> gf \<Rightarrow> gf \<times> gf" where
  "pack_sub s =
     (let (t, m) = s;
          m0 = m[0 := t ! 0 - 0xffed];
          m1 = fold (pack_borrow t) [1..<15] m0;
          m2 = m1[15 := t ! 15 - 0x7fff - ((m1 ! 14) div 65536 AND 1)];
          b = (m2 ! 15) div 65536 AND 1;
          m3 = m2[14 := m2 ! 14 AND 0xffff]
      in sel25519 t m3 (1 - b))"

definition pack_bytes :: "gf \<Rightarrow> bytes" where
  "pack_bytes t = concat (map (\<lambda>i. [word_of_int (t ! i AND 0xff), word_of_int ((t ! i) div 256)]) [0..<16])"

definition pack25519 :: "gf \<Rightarrow> bytes" where
  "pack25519 n =
     (let t = car25519 (car25519 (car25519 (map (\<lambda>i. n ! i) [0..<16])))
      in pack_bytes (fst (pack_sub (pack_sub (t, gf0)))))"

definition neq25519 :: "gf \<Rightarrow> gf \<Rightarrow> bool" where
  "neq25519 a b \<longleftrightarrow> vl_ct_eq (Some (pack25519 a)) (Some (pack25519 b)) 32 = 0"

definition par25519 :: "gf \<Rightarrow> u8" where
  "par25519 a = pack25519 a ! 0 AND 1"

definition unpack25519 :: "bytes \<Rightarrow> gf" where
  "unpack25519 n =
     (let o1 = map (\<lambda>i. uint (n ! (2 * i)) + push_bit 8 (uint (n ! (2 * i + 1)))) [0..<16]
      in o1[15 := o1 ! 15 AND 0x7fff])"

section \<open>Arithmetic\<close>

definition fA :: "gf \<Rightarrow> gf \<Rightarrow> gf" where
  "fA a b = map (\<lambda>i. a ! i + b ! i) [0..<16]"

definition fZ :: "gf \<Rightarrow> gf \<Rightarrow> gf" where
  "fZ a b = map (\<lambda>i. a ! i - b ! i) [0..<16]"

definition mul_row :: "gf \<Rightarrow> gf \<Rightarrow> nat \<Rightarrow> gf \<Rightarrow> gf" where
  "mul_row a b i t = fold (\<lambda>j t. t[i + j := t ! (i + j) + a ! i * b ! j]) [0..<16] t"

definition fM :: "gf \<Rightarrow> gf \<Rightarrow> gf" where
  "fM a b =
     (let t0 = replicate 31 0;
          t1 = fold (mul_row a b) [0..<16] t0;
          t2 = fold (\<lambda>i t. t[i := t ! i + 38 * t ! (i + 16)]) [0..<15] t1
      in car25519 (car25519 (map (\<lambda>i. t2 ! i) [0..<16])))"

definition fS :: "gf \<Rightarrow> gf" where
  "fS a = fM a a"

definition inv25519 :: "gf \<Rightarrow> gf" where
  "inv25519 x = fold (\<lambda>a c. let c = fS c in if a \<noteq> 2 \<and> a \<noteq> 4 then fM c x else c)
     (rev [0..<254]) (map (\<lambda>i. x ! i) [0..<16])"

definition pow2523 :: "gf \<Rightarrow> gf" where
  "pow2523 x = fold (\<lambda>a c. let c = fS c in if a \<noteq> 1 then fM c x else c)
     (rev [0..<251]) (map (\<lambda>i. x ! i) [0..<16])"

end
