(* ===== verification/VL_Sha512.thy ===== *)
theory VL_Sha512
  imports VL_Stream VL_Util
begin

text \<open>
  \<^verbatim>\<open>core/vl_sha512.c\<close>: SHA-512, in the order of the source: compression, context,
  init, update, final. It interprets the same \<open>md_hash\<close> contract as SHA-256, with 128-byte
  blocks and the 128-bit length the final operation assembles from the byte count.
\<close>

section \<open>Compression\<close>

definition K512 :: "u64 list" where
  "K512 =
     [0x428a2f98d728ae22, 0x7137449123ef65cd, 0xb5c0fbcfec4d3b2f, 0xe9b5dba58189dbbc] @
     [0x3956c25bf348b538, 0x59f111f1b605d019, 0x923f82a4af194f9b, 0xab1c5ed5da6d8118] @
     [0xd807aa98a3030242, 0x12835b0145706fbe, 0x243185be4ee4b28c, 0x550c7dc3d5ffb4e2] @
     [0x72be5d74f27b896f, 0x80deb1fe3b1696b1, 0x9bdc06a725c71235, 0xc19bf174cf692694] @
     [0xe49b69c19ef14ad2, 0xefbe4786384f25e3, 0x0fc19dc68b8cd5b5, 0x240ca1cc77ac9c65] @
     [0x2de92c6f592b0275, 0x4a7484aa6ea6e483, 0x5cb0a9dcbd41fbd4, 0x76f988da831153b5] @
     [0x983e5152ee66dfab, 0xa831c66d2db43210, 0xb00327c898fb213f, 0xbf597fc7beef0ee4] @
     [0xc6e00bf33da88fc2, 0xd5a79147930aa725, 0x06ca6351e003826f, 0x142929670a0e6e70] @
     [0x27b70a8546d22ffc, 0x2e1b21385c26c926, 0x4d2c6dfc5ac42aed, 0x53380d139d95b3df] @
     [0x650a73548baf63de, 0x766a0abb3c77b2a8, 0x81c2c92e47edaee6, 0x92722c851482353b] @
     [0xa2bfe8a14cf10364, 0xa81a664bbc423001, 0xc24b8b70d0f89791, 0xc76c51a30654be30] @
     [0xd192e819d6ef5218, 0xd69906245565a910, 0xf40e35855771202a, 0x106aa07032bbd1b8] @
     [0x19a4c116b8d2d0c8, 0x1e376c085141ab53, 0x2748774cdf8eeb99, 0x34b0bcb5e19b48a8] @
     [0x391c0cb3c5c95a63, 0x4ed8aa4ae3418acb, 0x5b9cca4f7763e373, 0x682e6ff3d6b2b8a3] @
     [0x748f82ee5defb2fc, 0x78a5636f43172f60, 0x84c87814a1f0ab72, 0x8cc702081a6439ec] @
     [0x90befffa23631e28, 0xa4506cebde82bde9, 0xbef9a3f7b2c67915, 0xc67178f2e372532b] @
     [0xca273eceea26619c, 0xd186b8c721c0c207, 0xeada7dd6cde0eb1e, 0xf57d4f7fee6ed178] @
     [0x06f067aa72176fba, 0x0a637dc5a2c898a6, 0x113f9804bef90dae, 0x1b710b35131c471b] @
     [0x28db77f523047d84, 0x32caab7b40c72493, 0x3c9ebe0a15c9bebc, 0x431d67c49c100d4c] @
     [0x4cc5d4becb3e42b6, 0x597f299cfc657e2a, 0x5fcb6fab3ad6faec, 0x6c44198c4a475817]"

definition rotr64 :: "u64 \<Rightarrow> nat \<Rightarrow> u64" where
  "rotr64 x n = drop_bit n x OR push_bit (64 - n) x"

definition sha512_word :: "bytes \<Rightarrow> nat \<Rightarrow> u64" where
  "sha512_word block i = fold (\<lambda>j v. push_bit 8 v OR ucast (block ! (i * 8 + j))) [0..<8] 0"

definition sha512_extend :: "nat \<Rightarrow> u64 list \<Rightarrow> u64 list" where
  "sha512_extend i w =
     (let s0 = rotr64 (w ! (i - 15)) 1 XOR rotr64 (w ! (i - 15)) 8 XOR drop_bit 7 (w ! (i - 15));
          s1 = rotr64 (w ! (i - 2)) 19 XOR rotr64 (w ! (i - 2)) 61 XOR drop_bit 6 (w ! (i - 2))
      in w @ [w ! (i - 16) + s0 + w ! (i - 7) + s1])"

definition sha512_schedule :: "bytes \<Rightarrow> u64 list" where
  "sha512_schedule block = fold sha512_extend [16..<80] (map (sha512_word block) [0..<16])"

type_synonym sha512_regs = "u64 \<times> u64 \<times> u64 \<times> u64 \<times> u64 \<times> u64 \<times> u64 \<times> u64"

definition sha512_round :: "u64 list \<Rightarrow> nat \<Rightarrow> sha512_regs \<Rightarrow> sha512_regs" where
  "sha512_round w i r =
     (case r of (a, b, c, d, e, f, g, h) \<Rightarrow>
        let S1 = rotr64 e 14 XOR rotr64 e 18 XOR rotr64 e 41;
            ch = (e AND f) XOR (NOT e AND g);
            t1 = h + S1 + ch + K512 ! i + w ! i;
            S0 = rotr64 a 28 XOR rotr64 a 34 XOR rotr64 a 39;
            maj = (a AND b) XOR (a AND c) XOR (b AND c);
            t2 = S0 + maj
        in (t1 + t2, a, b, c, d + t1, e, f, g))"

definition sha512_compress :: "u64 list \<Rightarrow> bytes \<Rightarrow> u64 list" where
  "sha512_compress st block =
     (case fold (sha512_round (sha512_schedule block)) [0..<80]
             (st ! 0, st ! 1, st ! 2, st ! 3, st ! 4, st ! 5, st ! 6, st ! 7) of
        (a, b, c, d, e, f, g, h) \<Rightarrow>
          [st ! 0 + a, st ! 1 + b, st ! 2 + c, st ! 3 + d,
           st ! 4 + e, st ! 5 + f, st ! 6 + g, st ! 7 + h])"

section \<open>The context and its operations\<close>

definition VL_SHA512_BLOCK_LEN :: nat where "VL_SHA512_BLOCK_LEN = 128"
definition VL_SHA512_DIGEST_LEN :: nat where "VL_SHA512_DIGEST_LEN = 64"

record sha512_ctx =
  s512_state :: "u64 list"
  s512_byte_count :: u64
  s512_buffer :: bytes
  s512_buffer_len :: nat

definition sha512_iv :: "u64 list" where
  "sha512_iv = [0x6a09e667f3bcc908, 0xbb67ae8584caa73b, 0x3c6ef372fe94f82b, 0xa54ff53a5f1d36f1,
     0x510e527fade682d1, 0x9b05688c2b3e6c1f, 0x1f83d9abfb41bd6b, 0x5be0cd19137e2179]"

definition vl_sha512_init :: "sha512_ctx option \<Rightarrow> sha512_ctx option" where
  "vl_sha512_init c = map_option
     (\<lambda>ctx. ctx\<lparr>s512_state := sha512_iv, s512_byte_count := 0, s512_buffer_len := 0\<rparr>) c"

function sha512_blocks :: "u64 list \<Rightarrow> bytes \<Rightarrow> u64 list \<times> bytes" where
  "sha512_blocks st p =
     (if VL_SHA512_BLOCK_LEN \<le> length p
      then sha512_blocks (sha512_compress st (take VL_SHA512_BLOCK_LEN p)) (drop VL_SHA512_BLOCK_LEN p)
      else (st, p))"
  by pat_completeness auto
termination
  by (relation "measure (\<lambda>(st, p). length p)") (auto simp: VL_SHA512_BLOCK_LEN_def)

declare sha512_blocks.simps [simp del]

definition sha512_absorb :: "sha512_ctx \<Rightarrow> bytes \<Rightarrow> sha512_ctx" where
  "sha512_absorb ctx p =
     (if p = [] then ctx
      else
        let ctx0 = ctx\<lparr>s512_byte_count := s512_byte_count ctx + word_of_nat (length p)\<rparr>;
            (ctx1, p1) =
              (if 0 < s512_buffer_len ctx0 then
                 let tk = min (VL_SHA512_BLOCK_LEN - s512_buffer_len ctx0) (length p);
                     b = overlay (s512_buffer ctx0) (s512_buffer_len ctx0) (take tk p);
                     c = ctx0\<lparr>s512_buffer := b, s512_buffer_len := s512_buffer_len ctx0 + tk\<rparr>
                 in (if s512_buffer_len c = VL_SHA512_BLOCK_LEN
                     then c\<lparr>s512_state := sha512_compress (s512_state c) (s512_buffer c), s512_buffer_len := 0\<rparr>
                     else c, drop tk p)
               else (ctx0, p));
            (st2, p2) = sha512_blocks (s512_state ctx1) p1;
            ctx2 = ctx1\<lparr>s512_state := st2\<rparr>
        in if 0 < length p2
           then ctx2\<lparr>s512_buffer := overlay (s512_buffer ctx2) 0 p2, s512_buffer_len := length p2\<rparr>
           else ctx2)"

definition vl_sha512_update :: "sha512_ctx option \<Rightarrow> bytes option \<Rightarrow> nat \<Rightarrow> sha512_ctx option" where
  "vl_sha512_update c data len =
     (case (c, data) of
        (None, _) \<Rightarrow> None
      | (Some ctx, None) \<Rightarrow> Some ctx
      | (Some ctx, Some p) \<Rightarrow> Some (sha512_absorb ctx (take len p)))"

text \<open>The sixteen length bytes, high and low word interleaved as the loop stores them.\<close>

definition sha512_put_length :: "bytes \<Rightarrow> u64 \<Rightarrow> u64 \<Rightarrow> bytes" where
  "sha512_put_length buf hi lo =
     fst (fold (\<lambda>i (b, h, l).
            (b[119 - i := ucast (h AND 0xFF), 127 - i := ucast (l AND 0xFF)], drop_bit 8 h, drop_bit 8 l))
          [0..<8] (buf, hi, lo))"

definition sha512_finish :: "sha512_ctx \<Rightarrow> u64 list" where
  "sha512_finish ctx =
     (let lo = push_bit 3 (s512_byte_count ctx); hi = drop_bit 61 (s512_byte_count ctx);
          b1 = (s512_buffer ctx)[s512_buffer_len ctx := 0x80]; n1 = s512_buffer_len ctx + 1;
          (st2, b2, n2) =
            (if n1 > 112 then
               let b' = overlay b1 n1 (replicate (VL_SHA512_BLOCK_LEN - n1) 0)
               in (sha512_compress (s512_state ctx) b', b', 0)
             else (s512_state ctx, b1, n1));
          b3 = overlay b2 n2 (replicate (112 - n2) 0)
      in sha512_compress st2 (sha512_put_length b3 hi lo))"

definition sha512_digest_bytes :: "u64 list \<Rightarrow> bytes" where
  "sha512_digest_bytes st =
     concat (map (\<lambda>i. map (\<lambda>j. ucast (drop_bit (56 - 8 * j) (st ! i))) [0..<8]) [0..<8])"

definition sha512_zero_ctx :: sha512_ctx where
  "sha512_zero_ctx = \<lparr>s512_state = replicate 8 0, s512_byte_count = 0,
     s512_buffer = replicate 128 0, s512_buffer_len = 0\<rparr>"

definition vl_sha512_final :: "sha512_ctx option \<Rightarrow> bytes option \<Rightarrow> bytes option \<times> sha512_ctx option" where
  "vl_sha512_final c out =
     (case (c, out) of
        (Some ctx, Some buf) \<Rightarrow>
          (Some (overlay buf 0 (sha512_digest_bytes (sha512_finish ctx))), Some sha512_zero_ctx)
      | _ \<Rightarrow> (out, c))"

definition vl_sha512 :: "sha512_ctx \<Rightarrow> bytes option \<Rightarrow> nat \<Rightarrow> bytes option \<Rightarrow> bytes option" where
  "vl_sha512 raw data len out =
     fst (vl_sha512_final (vl_sha512_update (vl_sha512_init (Some raw)) data len) out)"

section \<open>The reference: padding and blocks\<close>

text \<open>The 128-bit big-endian length of a message of \<open>n\<close> bits.\<close>

definition be128_bytes :: "nat \<Rightarrow> bytes" where
  "be128_bytes n = map (\<lambda>i. word_of_nat (n div 2 ^ (8 * (15 - i)))) [0..<16]"

definition sha512_spec :: "bytes \<Rightarrow> bytes" where
  "sha512_spec msg =
     sha512_digest_bytes (fst (sha512_blocks sha512_iv
       (msg @ md_padding 128 16 (length msg) @ be128_bytes (8 * length msg))))"

section \<open>The context represents the message absorbed\<close>

definition s512_view :: "sha512_ctx \<Rightarrow> u64 list \<times> bytes \<times> nat" where
  "s512_view c = (s512_state c, s512_buffer c, s512_buffer_len c)"

definition s512_lenb :: "sha512_ctx \<Rightarrow> bytes" where
  "s512_lenb c = be128_bytes (8 * unat (s512_byte_count c))"

lemma length_be128_bytes [simp, vl_len]: "length (be128_bytes n) = 16"
  by (simp add: be128_bytes_def)


text \<open>
  The two words the final operation stores are the halves of the message's bit count:
  the low word is the byte count shifted left by three, the high word the three bits that
  shift pushed out.
\<close>

lemma bit_count_byte:
  fixes n :: u64
  assumes "k < 16"
  shows "word_of_nat (8 * unat n div 2 ^ (8 * k)) =
    (if k < 8 then ucast (drop_bit (8 * k) (push_bit 3 n)) else ucast (drop_bit (8 * (k - 8)) (drop_bit 61 n)) :: u8)"
proof (rule bit_word_eqI)
  fix i assume i: "i < LENGTH(8)"
  have "bit (word_of_nat (8 * unat n div 2 ^ (8 * k)) :: u8) i \<longleftrightarrow> bit (8 * unat n) (i + 8 * k)"
    using i by (transfer) (simp add: bit_take_bit_iff bit_of_nat_iff bit_drop_bit_eq ac_simps flip: drop_bit_eq_div)
  moreover have "bit (8 * unat n) j \<longleftrightarrow> 3 \<le> j \<and> bit n (j - 3)" for j
  proof -
    have "8 * unat n = push_bit 3 (unat n)" by (simp add: push_bit_eq_mult)
    then show ?thesis by (simp only: bit_push_bit_iff) (simp add: bit_unsigned_iff)
  qed
  ultimately have l: "bit (word_of_nat (8 * unat n div 2 ^ (8 * k)) :: u8) i \<longleftrightarrow>
      3 \<le> i + 8 * k \<and> bit n (i + 8 * k - 3)" by simp
  show "bit (word_of_nat (8 * unat n div 2 ^ (8 * k)) :: u8) i =
    bit (if k < 8 then ucast (drop_bit (8 * k) (push_bit 3 n)) else ucast (drop_bit (8 * (k - 8)) (drop_bit 61 n)) :: u8) i"
  proof (cases "k < 8")
    case True
    then show ?thesis using i unfolding l
      by (auto simp: bit_ucast_iff bit_drop_bit_eq bit_push_bit_iff ac_simps)
  next
    case False
    then have "61 + (i + 8 * (k - 8)) = i + 8 * k - 3" by simp
    then show ?thesis using i False unfolding l
      by (simp add: bit_ucast_iff bit_drop_bit_eq ac_simps)
  qed
qed

lemma sha512_put_length_overlay:
  assumes "length b = 128"
  shows "sha512_put_length b (drop_bit 61 n) (push_bit 3 n) = overlay b 112 (be128_bytes (8 * unat n))"
proof -
  let ?h = "drop_bit 61 n" and ?l = "push_bit 3 n"
  let ?v = "[ucast (drop_bit 56 ?h), ucast (drop_bit 48 ?h), ucast (drop_bit 40 ?h), ucast (drop_bit 32 ?h),
     ucast (drop_bit 24 ?h), ucast (drop_bit 16 ?h), ucast (drop_bit 8 ?h), ucast ?h,
     ucast (drop_bit 56 ?l), ucast (drop_bit 48 ?l), ucast (drop_bit 40 ?l), ucast (drop_bit 32 ?l),
     ucast (drop_bit 24 ?l), ucast (drop_bit 16 ?l), ucast (drop_bit 8 ?l), ucast ?l :: u8]"
  have gen: "sha512_put_length b h l =
      b[119 := ucast h, 127 := ucast l, 118 := ucast (drop_bit 8 h), 126 := ucast (drop_bit 8 l),
        117 := ucast (drop_bit 16 h), 125 := ucast (drop_bit 16 l), 116 := ucast (drop_bit 24 h), 124 := ucast (drop_bit 24 l),
        115 := ucast (drop_bit 32 h), 123 := ucast (drop_bit 32 l), 114 := ucast (drop_bit 40 h), 122 := ucast (drop_bit 40 l),
        113 := ucast (drop_bit 48 h), 121 := ucast (drop_bit 48 l), 112 := ucast (drop_bit 56 h), 120 := ucast (drop_bit 56 l)]" for h l
    by (simp add: sha512_put_length_def upt_rec low_byte64)
  have "be128_bytes (8 * unat n) =
      map (\<lambda>i. if 15 - i < 8 then ucast (drop_bit (8 * (15 - i)) ?l)
        else ucast (drop_bit (8 * (15 - i - 8)) ?h)) [0..<16]"
    unfolding be128_bytes_def by (rule map_cong [OF refl]) (simp only: set_upt bit_count_byte less_Suc_eq_le
        diff_le_self le_less_trans [OF diff_le_self, of 15 16] rel_simps)
  then have "be128_bytes (8 * unat n) = ?v" by (simp add: upt_rec)
  moreover have "sha512_put_length b ?h ?l = overlay b 112 ?v"
    unfolding gen using assms
    by (intro nth_equalityI) (auto simp: nth_overlay nth_list_update nth_Cons')
  ultimately show ?thesis by simp
qed

interpretation s512: md_hash 128 sha512_compress sha512_blocks s512_view sha512_absorb 16 s512_lenb sha512_finish
proof
  fix h p
  show "sha512_blocks h p = (if 128 \<le> length p then sha512_blocks (sha512_compress h (take 128 p)) (drop 128 p) else (h, p))"
    by (subst sha512_blocks.simps) (simp add: VL_SHA512_BLOCK_LEN_def)
next
  fix xs :: bytes and c
  assume "xs \<noteq> []"
  then show "s512_view (sha512_absorb c xs) = md_update sha512_compress sha512_blocks 128 (s512_view c) xs"
    by (simp add: sha512_absorb_def md_update_def s512_view_def VL_SHA512_BLOCK_LEN_def Let_def
        split: prod.split)
next
  fix c h b n
  assume v: "s512_view c = (h, b, n)" and b: "length b = 128" and n: "n < (128 :: nat)"
  have st: "s512_state c = h" "s512_buffer c = b" "s512_buffer_len c = n"
    using v by (simp_all add: s512_view_def)
  show "sha512_finish c = md_pad_last sha512_compress 128 16 (s512_lenb c) (h, b, n)"
    using b n by (simp add: sha512_finish_def md_pad_last_def Let_def st VL_SHA512_BLOCK_LEN_def
        sha512_put_length_overlay s512_lenb_def)
qed (simp_all add: sha512_absorb_def s512_lenb_def)

lemma sha512_absorb_count:
  "s512_byte_count (sha512_absorb c xs) = s512_byte_count c + word_of_nat (length xs)"
  by (simp add: sha512_absorb_def Let_def split: prod.split)

definition sha512_rep :: "sha512_ctx \<Rightarrow> bytes \<Rightarrow> bool" where
  "sha512_rep c msg \<longleftrightarrow>
     s512.rep sha512_iv msg (s512_view c) \<and> s512_byte_count c = word_of_nat (length msg)"

lemma sha512_rep_init:
  "length (s512_buffer raw) = 128 \<Longrightarrow> vl_sha512_init (Some raw) = Some c \<Longrightarrow> sha512_rep c []"
  using s512.rep_start [of "s512_buffer raw" sha512_iv]
  by (auto simp: sha512_rep_def vl_sha512_init_def s512_view_def)

lemma sha512_rep_absorb: "sha512_rep c msg \<Longrightarrow> sha512_rep (sha512_absorb c xs) (msg @ xs)"
  by (simp add: sha512_rep_def s512.absorb_rep sha512_absorb_count)

lemma sha512_rep_update:
  assumes "sha512_rep c msg" and "len \<le> length p"
  shows "\<exists>c'. vl_sha512_update (Some c) (Some p) len = Some c' \<and> sha512_rep c' (msg @ take len p)"
  using sha512_rep_absorb [OF assms(1)] by (simp add: vl_sha512_update_def)

lemma sha512_rep_finish:
  assumes "sha512_rep c msg" and "length msg < 2 ^ 64"
  shows "sha512_digest_bytes (sha512_finish c) = sha512_spec msg"
proof -
  have "unat (s512_byte_count c) = length msg"
    using assms by (simp add: sha512_rep_def unat_of_nat)
  then show ?thesis
    using s512.finish_pads [of sha512_iv msg c] assms(1)
    by (simp add: sha512_rep_def sha512_spec_def s512_lenb_def)
qed

lemma length_sha512_digest_bytes [simp, vl_len]: "length (sha512_digest_bytes st) = 64"
  by (simp add: sha512_digest_bytes_def upt_rec)

lemma length_sha512_spec [simp, vl_len]: "length (sha512_spec msg) = 64"
  by (simp add: sha512_spec_def)

lemma vl_sha512_final_rep:
  assumes "sha512_rep c msg" and "length msg < 2 ^ 64" and "length out = 64"
  shows "vl_sha512_final (Some c) (Some out) = (Some (sha512_spec msg), Some sha512_zero_ctx)"
  using sha512_rep_finish [OF assms(1,2)] assms(3) by (simp add: vl_sha512_final_def)

end
