(* ===== verification/VL_Ed25519.thy ===== *)
theory VL_Ed25519
  imports VL_Field VL_Sha512
begin

text \<open>
  The group and the verification of \<^verbatim>\<open>core/vl_ed25519.c\<close>: points in extended
  coordinates (X, Y, Z, T) as four field elements, the ladder, the reduction of the hash
  modulo the group order, the decoding of the public key with its canonicity and small-order
  checks, and the verification equation. The reduction keeps its sixty-four \<^verbatim>\<open>i64\<close>
  limbs as integers, like the field.
\<close>

type_synonym point = "gf \<times> gf \<times> gf \<times> gf"

definition ed_L :: "int list" where
  "ed_L = [
     0xed, 0xd3, 0xf5, 0x5c, 0x1a, 0x63, 0x12, 0x58,
     0xd6, 0x9c, 0xf7, 0xa2, 0xde, 0xf9, 0xde, 0x14,
     0, 0, 0, 0, 0, 0, 0, 0,
     0, 0, 0, 0, 0, 0, 0, 0x10]"

section \<open>The group\<close>

text \<open>The result replaces the first operand, also where the two operands are the same array.\<close>

definition ed_add :: "point \<Rightarrow> point \<Rightarrow> point" where
  "ed_add p q =
     (case (p, q) of ((p0, p1, p2, p3), (q0, q1, q2, q3)) \<Rightarrow>
        let a = fZ p1 p0; t = fZ q1 q0; a = fM a t;
            b = fA p0 p1; t = fA q0 q1; b = fM b t;
            c = fM p3 q3; c = fM c gf_D2;
            d = fM p2 q2; d = fA d d;
            e = fZ b a; f = fZ d c; g = fA d c; h = fA b a
        in (fM e f, fM h g, fM g f, fM e h))"

definition cswap :: "point \<Rightarrow> point \<Rightarrow> u8 \<Rightarrow> point \<times> point" where
  "cswap p q b =
     (case (p, q) of ((p0, p1, p2, p3), (q0, q1, q2, q3)) \<Rightarrow>
        let s0 = sel25519 p0 q0 (uint b); s1 = sel25519 p1 q1 (uint b);
            s2 = sel25519 p2 q2 (uint b); s3 = sel25519 p3 q3 (uint b)
        in ((fst s0, fst s1, fst s2, fst s3), (snd s0, snd s1, snd s2, snd s3)))"

definition ed_pack :: "point \<Rightarrow> bytes" where
  "ed_pack p =
     (case p of (p0, p1, p2, p3) \<Rightarrow>
        let zi = inv25519 p2; tx = fM p0 zi; ty = fM p1 zi; r = pack25519 ty
        in r[31 := r ! 31 XOR push_bit 7 (par25519 tx)])"

definition scalar_bit :: "bytes \<Rightarrow> nat \<Rightarrow> u8" where
  "scalar_bit s i = drop_bit (i mod 8) (s ! (i div 8)) AND 1"

definition ladder_step :: "bytes \<Rightarrow> nat \<Rightarrow> point \<times> point \<Rightarrow> point \<times> point" where
  "ladder_step s i pq =
     (let b = scalar_bit s i;
          (p, q) = cswap (fst pq) (snd pq) b;
          q = ed_add q p;
          p = ed_add p p
      in cswap p q b)"

definition scalarmult :: "point \<Rightarrow> bytes \<Rightarrow> point \<times> point" where
  "scalarmult q s =
     fold (ladder_step s) (rev [0..<256])
       ((set25519 gf0, set25519 gf1, set25519 gf1, set25519 gf0), q)"

definition scalarbase :: "bytes \<Rightarrow> point" where
  "scalarbase s = fst (scalarmult (set25519 gf_X, set25519 gf_Y, set25519 gf1, fM gf_X gf_Y) s)"

section \<open>The scalar field\<close>

definition modL_cell :: "nat \<Rightarrow> nat \<Rightarrow> int list \<times> int \<Rightarrow> int list \<times> int" where
  "modL_cell i j xc =
     (case xc of (x, carry) \<Rightarrow>
        let x1 = x[j := x ! j + (carry - 16 * x ! i * ed_L ! (j - (i - 32)))];
            carry1 = (x1 ! j + 128) div 256
        in (x1[j := x1 ! j - carry1 * 256], carry1))"

definition modL_row :: "nat \<Rightarrow> int list \<Rightarrow> int list" where
  "modL_row i x =
     (let (x1, carry) = fold (modL_cell i) [i - 32..<i - 12] (x, 0);
          x2 = x1[i - 12 := x1 ! (i - 12) + carry]
      in x2[i := 0])"

definition modL_low :: "nat \<Rightarrow> int list \<times> int \<Rightarrow> int list \<times> int" where
  "modL_low j xc =
     (case xc of (x, carry) \<Rightarrow>
        let x1 = x[j := x ! j + (carry - ((x ! 31) div 16) * ed_L ! j)];
            carry1 = (x1 ! j) div 256
        in (x1[j := x1 ! j AND 255], carry1))"

definition modL_out :: "nat \<Rightarrow> int list \<times> bytes \<Rightarrow> int list \<times> bytes" where
  "modL_out i xr =
     (case xr of (x, r) \<Rightarrow>
        let x1 = x[i + 1 := x ! (i + 1) + (x ! i) div 256]
        in (x1, r[i := word_of_int (x1 ! i AND 255)]))"

definition modL :: "bytes \<Rightarrow> int list \<Rightarrow> bytes" where
  "modL r x =
     (let x1 = fold modL_row (rev [32..<64]) x;
          (x2, carry) = fold modL_low [0..<32] (x1, 0);
          x3 = fold (\<lambda>j x. x[j := x ! j - carry * ed_L ! j]) [0..<32] x2
      in snd (fold modL_out [0..<32] (x3, r)))"

definition ed_reduce :: "bytes \<Rightarrow> bytes" where
  "ed_reduce r = modL (replicate 64 0) (map (\<lambda>i. uint (r ! i)) [0..<64])"

section \<open>Decoding the public key\<close>

definition ed_identity :: bytes where
  "ed_identity = 1 # replicate 31 0"

definition is_low_order :: "point \<Rightarrow> bool" where
  "is_low_order p =
     (case p of (p0, p1, p2, p3) \<Rightarrow>
        let t = (set25519 p0, set25519 p1, set25519 p2, set25519 p3);
            t = ed_add t t;
            t = ed_add t t;
            t = ed_add t t
        in vl_ct_eq (Some (ed_pack t)) (Some ed_identity) 32 \<noteq> 0)"

text \<open>\<open>None\<close> is the return value -1, \<open>Some r\<close> the value 0 with the point written.\<close>

definition unpackneg :: "bytes \<Rightarrow> point option" where
  "unpackneg p =
     (let r2 = set25519 gf1;
          r1 = unpack25519 p;
          canon = pack25519 r1;
          canon = canon[31 := canon ! 31 OR (p ! 31 AND 0x80)]
      in if vl_ct_eq (Some canon) (Some p) 32 = 0 then None
      else
        let num = fS r1; den = fM num gf_D; num = fZ num r2; den = fA r2 den;
            den2 = fS den; den4 = fS den2; den6 = fM den4 den2;
            t = fM den6 num; t = fM t den;
            t = pow2523 t; t = fM t num; t = fM t den; t = fM t den;
            r0 = fM t den;
            chk = fS r0; chk = fM chk den;
            r0 = (if neq25519 chk num then fM r0 gf_I else r0);
            chk = fS r0; chk = fM chk den
        in if neq25519 chk num then None
        else
          let r0 = (if par25519 r0 = drop_bit 7 (p ! 31) then fZ gf0 r0 else r0);
              r3 = fM r0 r1
          in if is_low_order (r0, r1, r2, r3) then None else Some (r0, r1, r2, r3))"

text \<open>The bytes of \<open>s\<close> and of the order compared from the top down.\<close>

primrec scalar_less :: "bytes \<Rightarrow> nat \<Rightarrow> bool" where
  "scalar_less s 0 = False"
| "scalar_less s (Suc i) =
     (if uint (s ! i) < ed_L ! i then True
      else if uint (s ! i) > ed_L ! i then False
      else scalar_less s i)"

definition scalar_is_reduced :: "bytes \<Rightarrow> bool" where
  "scalar_is_reduced s = scalar_less s 32"

section \<open>Verification\<close>

definition ed_hash :: "bytes \<Rightarrow> bytes \<Rightarrow> bytes option \<Rightarrow> nat \<Rightarrow> bytes option" where
  "ed_hash sig pk msg msg_len =
     (let sh = vl_sha512_init (Some sha512_zero_ctx);
          sh = vl_sha512_update sh (Some sig) 32;
          sh = vl_sha512_update sh (Some pk) 32;
          sh = vl_sha512_update sh msg msg_len
      in fst (vl_sha512_final sh (Some (replicate 64 0))))"

definition vl_ed25519_verify :: "bytes option \<Rightarrow> bytes option \<Rightarrow> nat \<Rightarrow> bytes option \<Rightarrow> int" where
  "vl_ed25519_verify sig msg msg_len pk =
     (case (sig, pk) of
        (Some sg, Some key) \<Rightarrow>
          if msg = None \<and> msg_len \<noteq> 0 then 0
          else if \<not> scalar_is_reduced (drop 32 sg) then 0
          else (case unpackneg key of
              None \<Rightarrow> 0
            | Some q \<Rightarrow>
                let h = ed_reduce (the (ed_hash sg key msg msg_len));
                    p = fst (scalarmult q h);
                    q = scalarbase (drop 32 sg);
                    t = ed_pack (ed_add p q)
                in vl_ct_eq (Some sg) (Some t) 32)
      | _ \<Rightarrow> 0)"

end
