(* ===== verification/VL_Core.thy ===== *)
theory VL_Core
  imports VL_Types VL_Base32 VL_Sha256 VL_Ed25519
begin

text \<open>
  \<^verbatim>\<open>core/vl_core.c\<close>: status strings, posture, the device fingerprint, the
  encoded device id and \<open>vl_verify\<close>. The platform state \<open>'s\<close> is threaded through
  every callback in the order the code calls them, so a statement about the final state is a
  statement about which callbacks ran. \<open>vl_verify_with\<close> takes the signature check as an
  argument; \<open>vl_verify\<close> is its instance at \<open>vl_ed25519_verify\<close>.
\<close>

section \<open>Constants and small helpers\<close>

definition VL_SIGN_PREFIX :: bytes where "VL_SIGN_PREFIX = str_bytes ''vectilicense:v1''"
definition VL_SIGN_PREFIX_LEN :: nat where "VL_SIGN_PREFIX_LEN = 15"
definition VL_SIGN_MSG_LEN :: nat where "VL_SIGN_MSG_LEN = VL_SIGN_PREFIX_LEN + 1 + VL_PAYLOAD_LEN"
definition VL_FP_DOMAIN :: bytes where "VL_FP_DOMAIN = str_bytes ''vectilicense:fingerprint:v1''"
definition VL_FP_DOMAIN_LEN :: nat where "VL_FP_DOMAIN_LEN = 27"

definition OFF_MAGIC :: nat where "OFF_MAGIC = 0"
definition OFF_VERSION :: nat where "OFF_VERSION = 1"
definition OFF_KEY_ID :: nat where "OFF_KEY_ID = 2"
definition OFF_FAMILY :: nat where "OFF_FAMILY = 3"
definition OFF_FEATURES :: nat where "OFF_FEATURES = 4"
definition OFF_DEVICE_ID :: nat where "OFF_DEVICE_ID = 8"
definition OFF_NOT_BEFORE :: nat where "OFF_NOT_BEFORE = 24"
definition OFF_NOT_AFTER :: nat where "OFF_NOT_AFTER = 28"
definition OFF_SERIAL :: nat where "OFF_SERIAL = 32"

lemmas vl_offsets = OFF_MAGIC_def OFF_VERSION_def OFF_KEY_ID_def OFF_FAMILY_def OFF_FEATURES_def
  OFF_DEVICE_ID_def OFF_NOT_BEFORE_def OFF_NOT_AFTER_def OFF_SERIAL_def
  VL_SIGN_PREFIX_LEN_def VL_SIGN_MSG_LEN_def VL_FP_DOMAIN_LEN_def

definition rd_le32 :: "bytes \<Rightarrow> u32" where
  "rd_le32 p = ucast (p ! 0) OR push_bit 8 (ucast (p ! 1)) OR
     push_bit 16 (ucast (p ! 2)) OR push_bit 24 (ucast (p ! 3))"

text \<open>The argument is any value of the C enum's underlying integer.\<close>

definition vl_status_str :: "int \<Rightarrow> string" where
  "vl_status_str status =
     (if status = status_code VL_OK then ''ok''
      else if status = status_code VL_ERR_INVALID_ARG then ''invalid argument''
      else if status = status_code VL_ERR_BUFFER_TOO_SMALL then ''output buffer too small''
      else if status = status_code VL_ERR_BAD_FORMAT then ''licence blob is malformed''
      else if status = status_code VL_ERR_BAD_MAGIC then ''not a VectiLicense blob''
      else if status = status_code VL_ERR_BAD_VERSION then ''licence format is newer than this firmware''
      else if status = status_code VL_ERR_BAD_FAMILY then ''licence is for a different product''
      else if status = status_code VL_ERR_UNKNOWN_KEY then ''licence signed by an unknown key''
      else if status = status_code VL_ERR_BAD_SIGNATURE then ''signature did not verify''
      else if status = status_code VL_ERR_DEVICE_MISMATCH then ''licence is for a different device''
      else if status = status_code VL_ERR_NOT_YET_VALID then ''licence is not valid yet''
      else if status = status_code VL_ERR_EXPIRED then ''licence has expired''
      else if status = status_code VL_ERR_REVOKED then ''licence has been revoked''
      else if status = status_code VL_ERR_CLOCK_ROLLBACK then ''clock is behind the recorded high-water mark''
      else if status = status_code VL_ERR_NO_CLOCK then ''no clock available to check the validity window''
      else if status = status_code VL_ERR_PLATFORM then ''platform callback failed''
      else if status = status_code VL_ERR_NO_MORE_SEGMENTS then ''no more identity segments''
      else if status = status_code VL_ERR_NOT_FOUND then ''no licence stored''
      else if status = status_code VL_ERR_INTERNAL then ''internal error''
      else ''unknown status'')"

definition vl_version_str :: string where
  "vl_version_str = ''vectilicense/1.0.0''"

definition vl_has_feature :: "vl_license option \<Rightarrow> nat \<Rightarrow> int" where
  "vl_has_feature lic n =
     (case lic of None \<Rightarrow> 0
      | Some l \<Rightarrow> if n > 31 then 0 else uint (drop_bit n (features l) AND 1))"

definition posture_unknown :: "vl_posture_t \<Rightarrow> vl_posture_t" where
  "posture_unknown p = p\<lparr>secure_boot := VL_POSTURE_UNKNOWN, flash_encryption := VL_POSTURE_UNKNOWN\<rparr>"

definition vl_posture :: "'s vl_hal option \<Rightarrow> vl_posture_t option \<Rightarrow> 's \<Rightarrow>
    vl_status \<times> vl_posture_t option \<times> 's" where
  "vl_posture hal out s =
     (case out of None \<Rightarrow> (VL_ERR_INVALID_ARG, None, s)
      | Some o0 \<Rightarrow>
          let o1 = posture_unknown o0 in
          (case hal of None \<Rightarrow> (VL_OK, Some o1, s)
           | Some h \<Rightarrow>
               (case secure_posture h of None \<Rightarrow> (VL_OK, Some o1, s)
                | Some f \<Rightarrow>
                    (case f o1 s of (st, o2, s') \<Rightarrow>
                       if st \<noteq> VL_OK then (VL_ERR_PLATFORM, Some (posture_unknown o2), s')
                       else (VL_OK, Some o2, s')))))"

section \<open>The fingerprint\<close>

text \<open>
  The loop over identity segments. \<open>seg\<close> is the segment buffer, \<open>ctx\<close> the hash
  context; the result is the status the loop leaves in \<open>rc\<close>, the context, the buffer,
  the number of segments accepted and the platform state.
\<close>

function fp_loop :: "(u32 \<Rightarrow> bytes \<Rightarrow> 's \<Rightarrow> vl_status \<times> bytes \<times> nat \<times> 's) \<Rightarrow> nat \<Rightarrow>
    sha256_ctx option \<Rightarrow> bytes \<Rightarrow> nat \<Rightarrow> 's \<Rightarrow>
    vl_status \<times> sha256_ctx option \<times> bytes \<times> nat \<times> 's" where
  "fp_loop rd idx ctx seg accepted s =
     (if idx < VL_ID_SEGMENT_COUNT_MAX then
        (case rd (word_of_nat idx) seg s of (st, seg', seg_len, s') \<Rightarrow>
           if st = VL_ERR_NO_MORE_SEGMENTS then (VL_OK, ctx, seg', accepted, s')
           else if st \<noteq> VL_OK then (st, ctx, seg', accepted, s')
           else if seg_len > VL_ID_SEGMENT_MAX then (VL_ERR_PLATFORM, ctx, seg', accepted, s')
           else
             let length_byte = word_of_nat seg_len;
                 ctx = vl_sha256_update ctx (Some [length_byte]) 1;
                 ctx = (if seg_len > 0 then vl_sha256_update ctx (Some seg') seg_len else ctx)
             in fp_loop rd (idx + 1) ctx seg' (accepted + 1) s')
      else (VL_OK, ctx, seg, accepted, s))"
  by pat_completeness auto
termination
  by (relation "measure (\<lambda>(rd, idx, ctx, seg, accepted, s). VL_ID_SEGMENT_COUNT_MAX - idx)") auto

declare fp_loop.simps [simp del]

definition vl_compute_fingerprint :: "'s vl_hal option \<Rightarrow> bytes option \<Rightarrow> 's \<Rightarrow>
    vl_status \<times> bytes option \<times> 's" where
  "vl_compute_fingerprint hal out s =
     (case (hal, out) of
        (Some h, Some buf) \<Rightarrow>
          (case read_id_segment h of None \<Rightarrow> (VL_ERR_INVALID_ARG, out, s)
           | Some rd \<Rightarrow>
               let ctx = vl_sha256_init (Some sha256_zero_ctx);
                   ctx = vl_sha256_update ctx (Some VL_FP_DOMAIN) VL_FP_DOMAIN_LEN;
                   (rc, ctx, seg, accepted, s') =
                     fp_loop rd 0 ctx (replicate VL_ID_SEGMENT_MAX 0) 0 s;
                   rc = (if rc = VL_OK \<and> accepted = 0 then VL_ERR_PLATFORM else rc)
               in if rc = VL_OK then (VL_OK, fst (vl_sha256_final ctx out), s')
                  else (rc, vl_secure_wipe out VL_FINGERPRINT_LEN, s'))
      | _ \<Rightarrow> (VL_ERR_INVALID_ARG, out, s))"

definition vl_encode_device_id :: "bytes option \<Rightarrow> bytes option \<Rightarrow> nat \<Rightarrow> vl_status \<times> bytes option" where
  "vl_encode_device_id fingerprint out out_capacity =
     (if fingerprint = None \<or> out = None then (VL_ERR_INVALID_ARG, out)
      else if out_capacity < VL_DEVICE_ID_STR_BUF_LEN then (VL_ERR_BUFFER_TOO_SMALL, out)
      else (case vl_base32_encode fingerprint VL_DEVICE_ID_LEN out out_capacity of (n, out') \<Rightarrow>
        if n \<noteq> int VL_DEVICE_ID_STR_LEN then (VL_ERR_INTERNAL, out') else (VL_OK, out')))"

section \<open>Key lookup and deny-list\<close>

definition find_key :: "vl_pubkey list \<Rightarrow> u8 \<Rightarrow> vl_pubkey option" where
  "find_key ks kid = find (\<lambda>k. pk_key_id k = kid) ks"

definition is_revoked :: "vl_config \<Rightarrow> u32 \<Rightarrow> bool" where
  "is_revoked cfg n =
     (case revoked_serials cfg of None \<Rightarrow> False
      | Some rs \<Rightarrow> if length rs = 0 then False else list_ex (\<lambda>r. r = n) rs)"

section \<open>Verification\<close>

type_synonym sigcheck = "bytes option \<Rightarrow> bytes option \<Rightarrow> nat \<Rightarrow> bytes option \<Rightarrow> int"

definition parse_license :: "bytes \<Rightarrow> vl_license" where
  "parse_license bin = zero_license\<lparr>
     version := bin ! OFF_VERSION,
     key_id := bin ! OFF_KEY_ID,
     family := bin ! OFF_FAMILY,
     features := rd_le32 (drop OFF_FEATURES bin),
     not_before := rd_le32 (drop OFF_NOT_BEFORE bin),
     not_after := rd_le32 (drop OFF_NOT_AFTER bin),
     serial := rd_le32 (drop OFF_SERIAL bin),
     device_id := take VL_DEVICE_ID_LEN (drop OFF_DEVICE_ID bin)\<rparr>"

definition sign_msg :: "bytes \<Rightarrow> bytes" where
  "sign_msg bin = take VL_SIGN_PREFIX_LEN VL_SIGN_PREFIX @ [0x00] @ take VL_PAYLOAD_LEN bin"

definition mark_checked :: "u32 \<Rightarrow> vl_license \<Rightarrow> vl_license" where
  "mark_checked b lic = lic\<lparr>checked := checked lic OR b\<rparr>"

text \<open>
  Step 6, from the licence as the earlier steps left it: the window against the clock, then
  the high-water mark. The result is the status, the licence and the platform state.
\<close>

definition verify_hwm :: "'s vl_hal \<Rightarrow> u32 \<Rightarrow> vl_license \<Rightarrow> 's \<Rightarrow> vl_status \<times> vl_license \<times> 's" where
  "verify_hwm hal now lic s =
     (case (hwm_load hal, hwm_store hal) of
        (Some load, Some store) \<Rightarrow>
          (case load s of (st, mark, s1) \<Rightarrow>
             if st \<noteq> VL_OK then (VL_ERR_PLATFORM, lic, s1)
             else if now < mark then (VL_ERR_CLOCK_ROLLBACK, lic, s1)
             else if now > mark then
               (case store now s1 of (st2, s2) \<Rightarrow>
                  if st2 \<noteq> VL_OK then (VL_ERR_PLATFORM, lic, s2)
                  else (VL_OK, mark_checked VL_CHECKED_HWM lic, s2))
             else (VL_OK, mark_checked VL_CHECKED_HWM lic, s1))
      | _ \<Rightarrow> (VL_ERR_INVALID_ARG, lic, s))"

definition verify_time :: "u32 \<Rightarrow> 's vl_hal \<Rightarrow> vl_license \<Rightarrow> 's \<Rightarrow> vl_status \<times> vl_license \<times> 's" where
  "verify_time fl hal lic s =
     (case now_epoch hal of
        None \<Rightarrow> if fl AND VL_FLAG_REQUIRE_CLOCK \<noteq> 0 then (VL_ERR_NO_CLOCK, lic, s) else (VL_OK, lic, s)
      | Some clk \<Rightarrow>
          (case clk s of (st, now, s1) \<Rightarrow>
             if st \<noteq> VL_OK then (VL_ERR_PLATFORM, lic, s1)
             else if not_before lic \<noteq> 0 \<and> now < not_before lic then (VL_ERR_NOT_YET_VALID, lic, s1)
             else if not_after lic \<noteq> 0 \<and> now > not_after lic then (VL_ERR_EXPIRED, lic, s1)
             else
               let lic1 = mark_checked VL_CHECKED_TIME lic in
               if fl AND VL_FLAG_ENFORCE_HWM \<noteq> 0 then verify_hwm hal now lic1 s1
               else (VL_OK, lic1, s1)))"

text \<open>Steps 3 to 6, once the header has selected the key.\<close>

definition verify_signed :: "sigcheck \<Rightarrow> vl_config \<Rightarrow> 's vl_hal \<Rightarrow> bytes \<Rightarrow> vl_pubkey \<Rightarrow> 's \<Rightarrow>
    vl_status \<times> vl_license \<times> 's" where
  "verify_signed sigcheck cfg hal bin pk s =
     (let lic = parse_license bin; msg = sign_msg bin in
      if sigcheck (Some (drop VL_PAYLOAD_LEN bin)) (Some msg) VL_SIGN_MSG_LEN (Some (pk_key pk)) = 0
      then (VL_ERR_BAD_SIGNATURE, lic, s)
      else
        let lic = mark_checked VL_CHECKED_SIGNATURE lic in
        (case vl_compute_fingerprint (Some hal) (Some (replicate VL_FINGERPRINT_LEN 0)) s of
           (rc, fp, s1) \<Rightarrow>
             if rc \<noteq> VL_OK then (rc, lic, s1)
             else if vl_ct_eq fp (Some (device_id lic)) VL_DEVICE_ID_LEN = 0
             then (VL_ERR_DEVICE_MISMATCH, lic, s1)
             else
               let lic = mark_checked VL_CHECKED_DEVICE lic in
               (case revoked_serials cfg of
                  Some rs \<Rightarrow>
                    if length rs > 0 then
                      (if is_revoked cfg (serial lic) then (VL_ERR_REVOKED, lic, s1)
                       else verify_time (flags cfg) hal (mark_checked VL_CHECKED_REVOCATION lic) s1)
                    else verify_time (flags cfg) hal lic s1
                | None \<Rightarrow> verify_time (flags cfg) hal lic s1)))"

text \<open>Step 2 and the rest, once the arguments are good.\<close>

definition verify_blob :: "sigcheck \<Rightarrow> bytes \<Rightarrow> vl_config \<Rightarrow> 's vl_hal \<Rightarrow> vl_pubkey list \<Rightarrow> 's \<Rightarrow>
    vl_status \<times> vl_license \<times> 's" where
  "verify_blob sigcheck blob cfg hal ks s =
     (case vl_base32_decode (Some blob) (Some (replicate VL_BLOB_BIN_LEN 0)) VL_BLOB_BIN_LEN VL_BLOB_BIN_LEN of
        (decoded, bin') \<Rightarrow>
          let bin = the bin' in
          if decoded \<noteq> int VL_BLOB_BIN_LEN then (VL_ERR_BAD_FORMAT, zero_license, s)
          else if bin ! OFF_MAGIC \<noteq> VL_MAGIC then (VL_ERR_BAD_MAGIC, zero_license, s)
          else if bin ! OFF_VERSION \<noteq> VL_FORMAT_VERSION then (VL_ERR_BAD_VERSION, zero_license, s)
          else if bin ! OFF_FAMILY \<noteq> cfg_family cfg then (VL_ERR_BAD_FAMILY, parse_license bin, s)
          else (case find_key ks (bin ! OFF_KEY_ID) of
              None \<Rightarrow> (VL_ERR_UNKNOWN_KEY, parse_license bin, s)
            | Some pk \<Rightarrow> verify_signed sigcheck cfg hal bin pk s))"

definition vl_verify_with :: "sigcheck \<Rightarrow> bytes option \<Rightarrow> vl_config option \<Rightarrow> 's vl_hal option \<Rightarrow>
    vl_license option \<Rightarrow> 's \<Rightarrow> vl_status \<times> vl_license option \<times> 's" where
  "vl_verify_with sigcheck blob cfg hal out s =
     (let out0 = map_option (\<lambda>_. zero_license) out in
      case (blob, cfg, hal) of
        (Some b, Some c, Some h) \<Rightarrow>
          (case keys c of
             None \<Rightarrow> (VL_ERR_INVALID_ARG, out0, s)
           | Some ks \<Rightarrow>
               if length ks = 0 then (VL_ERR_INVALID_ARG, out0, s)
               else if read_id_segment h = None then (VL_ERR_INVALID_ARG, out0, s)
               else if flags c AND VL_FLAG_ENFORCE_HWM \<noteq> 0 \<and>
                   (now_epoch h = None \<or> hwm_load h = None \<or> hwm_store h = None)
               then (VL_ERR_INVALID_ARG, out0, s)
               else (case verify_blob sigcheck b c h ks s of (rc, lic, s1) \<Rightarrow>
                 if rc = VL_OK then (VL_OK, map_option (\<lambda>_. lic) out0, s1)
                 else (rc, map_option (\<lambda>_. zero_license) out0, s1)))
      | _ \<Rightarrow> (VL_ERR_INVALID_ARG, out0, s))"

definition vl_verify :: "bytes option \<Rightarrow> vl_config option \<Rightarrow> 's vl_hal option \<Rightarrow>
    vl_license option \<Rightarrow> 's \<Rightarrow> vl_status \<times> vl_license option \<times> 's" where
  "vl_verify = vl_verify_with vl_ed25519_verify"

end
