(* ===== verification/VL_Fingerprint.thy ===== *)
theory VL_Fingerprint
  imports VL_Core
begin

text \<open>
  The device fingerprint as a function of the hardware identity alone. The locale
  \<open>id_source\<close> is the contract of the HAL's segment callback (\<^verbatim>\<open>vl_hal_t\<close> in
  \<^verbatim>\<open>vectilicense.h\<close>): it keeps the caller's buffer its size, and what it reports does
  not depend on what the buffer held. Under it the streamed computation of
  \<open>vl_compute_fingerprint\<close> is SHA-256 of the domain and the framed segments. The HAL
  theories interpret it on each platform's callback.
\<close>

section \<open>The segments of a source and their framing\<close>

function id_segments :: "(u32 \<Rightarrow> bytes \<Rightarrow> 's \<Rightarrow> vl_status \<times> bytes \<times> nat \<times> 's) \<Rightarrow> nat \<Rightarrow> 's \<Rightarrow>
    (vl_status + bytes list) \<times> 's" where
  "id_segments rd idx s =
     (if idx < VL_ID_SEGMENT_COUNT_MAX then
        (case rd (word_of_nat idx) (replicate VL_ID_SEGMENT_MAX 0) s of (st, b, n, s') \<Rightarrow>
           if st = VL_ERR_NO_MORE_SEGMENTS then (Inr [], s')
           else if st \<noteq> VL_OK then (Inl st, s')
           else if n > VL_ID_SEGMENT_MAX then (Inl VL_ERR_PLATFORM, s')
           else (case id_segments rd (idx + 1) s' of
                (Inl e, s'') \<Rightarrow> (Inl e, s'')
              | (Inr xs, s'') \<Rightarrow> (Inr (take n b # xs), s'')))
      else (Inr [], s))"
  by pat_completeness auto
termination
  by (relation "measure (\<lambda>(rd, idx, s). VL_ID_SEGMENT_COUNT_MAX - idx)") auto

declare id_segments.simps [simp del]

definition frame_segment :: "bytes \<Rightarrow> bytes" where
  "frame_segment x = word_of_nat (length x) # x"

definition frame_segments :: "bytes list \<Rightarrow> bytes" where
  "frame_segments xs = concat (map frame_segment xs)"

definition fingerprint_of :: "bytes list \<Rightarrow> bytes" where
  "fingerprint_of xs = sha256_spec (VL_FP_DOMAIN @ frame_segments xs)"

lemma frame_segments_simps [simp]:
  "frame_segments [] = []" "frame_segments (x # xs) = word_of_nat (length x) # x @ frame_segments xs"
  by (simp_all add: frame_segments_def frame_segment_def)

lemma length_fingerprint_of [simp, vl_len]: "length (fingerprint_of xs) = 32"
  by (simp add: fingerprint_of_def)

text \<open>The length bytes make the framing unambiguous.\<close>

lemma frame_segments_inj:
  "frame_segments xs = frame_segments ys \<Longrightarrow> \<forall>x \<in> set xs. length x \<le> 255 \<Longrightarrow> \<forall>y \<in> set ys. length y \<le> 255 \<Longrightarrow>
    xs = ys"
proof (induction xs arbitrary: ys)
  case Nil
  then show ?case by (cases ys) simp_all
next
  case (Cons x xs)
  then obtain y zs where ys: "ys = y # zs" by (cases ys) simp_all
  have "(word_of_nat (length x) :: u8) = word_of_nat (length y)" using Cons.prems(1) by (simp add: ys)
  then have "length x mod 256 = length y mod 256"
    by (simp add: word_of_nat_eq_iff take_bit_eq_mod)
  then have "length x = length y" using Cons.prems(2,3) by (simp add: ys)
  then show ?case using Cons.prems Cons.IH [of zs] by (simp add: ys)
qed

text \<open>A source never reports success with the error it stops on.\<close>

lemma id_segments_error: "id_segments rd idx s = (Inl e, s') \<Longrightarrow> e \<noteq> VL_OK \<and> e \<noteq> VL_ERR_NO_MORE_SEGMENTS"
proof (induction rd idx s rule: id_segments.induct)
  case (1 rd idx s)
  then show ?case
    by (subst (asm) (2) id_segments.simps)
      (auto split: if_splits prod.splits sum.splits)
qed

lemma id_segments_lengths:
  "id_segments rd idx s = (Inr xs, s') \<Longrightarrow> (\<forall>x \<in> set xs. length x \<le> 255) \<and> idx + length xs \<le> max idx 64"
proof (induction rd idx s arbitrary: xs rule: id_segments.induct)
  case (1 rd idx s)
  then show ?case
    by (subst (asm) (2) id_segments.simps)
      (fastforce simp: vl_sizes split: if_splits prod.splits sum.splits)
qed

section \<open>The contract of a segment callback\<close>

locale id_source =
  fixes rd :: "u32 \<Rightarrow> bytes \<Rightarrow> 's \<Rightarrow> vl_status \<times> bytes \<times> nat \<times> 's"
  assumes keeps: "rd i b s = (st, c, n, s') \<Longrightarrow> length c = length b"
    and blind: "length b1 = length b2 \<Longrightarrow> rd i b1 s = (st, c1, n, s') \<Longrightarrow>
      \<exists>c2. rd i b2 s = (st, c2, n, s') \<and>
        (st = VL_OK \<and> n \<le> length b1 \<longrightarrow> take n c2 = take n c1)"
begin

lemma fp_loop_spec:
  assumes "length seg = VL_ID_SEGMENT_MAX" and "sha256_rep c msg"
  shows "case id_segments rd idx s of
      (Inl e, s') \<Rightarrow> \<exists>ctx seg' a. fp_loop rd idx (Some c) seg acc s = (e, ctx, seg', a, s')
    | (Inr xs, s') \<Rightarrow> \<exists>c' seg'. fp_loop rd idx (Some c) seg acc s = (VL_OK, Some c', seg', acc + length xs, s') \<and>
        sha256_rep c' (msg @ frame_segments xs)"
  using assms
proof (induction "VL_ID_SEGMENT_COUNT_MAX - idx" arbitrary: idx c seg msg acc s)
  case 0
  then show ?case
    by (subst id_segments.simps, subst fp_loop.simps) simp
next
  case (Suc k)
  then have lt: "idx < VL_ID_SEGMENT_COUNT_MAX" by simp
  obtain st b n s' where r0: "rd (word_of_nat idx) (replicate VL_ID_SEGMENT_MAX 0) s = (st, b, n, s')"
    by (cases "rd (word_of_nat idx) (replicate VL_ID_SEGMENT_MAX 0) s")
  obtain c2 where r: "rd (word_of_nat idx) seg s = (st, c2, n, s')"
    and same: "st = VL_OK \<and> n \<le> VL_ID_SEGMENT_MAX \<longrightarrow> take n c2 = take n b"
    using blind [OF _ r0, of seg] Suc.prems(1) by auto
  have len: "length c2 = VL_ID_SEGMENT_MAX" "length b = VL_ID_SEGMENT_MAX"
    using keeps [OF r] keeps [OF r0] Suc.prems(1) by simp_all
  show ?case
  proof (cases "st = VL_OK \<and> n \<le> VL_ID_SEGMENT_MAX")
    case False
    then show ?thesis
      using lt Suc.prems
      by (auto simp: id_segments.simps [of rd idx s] fp_loop.simps [of rd idx "Some c" seg acc s] r r0)
  next
    case True
    define ctx1 where "ctx1 = sha256_absorb c [word_of_nat n]"
    define ctx2 where "ctx2 = sha256_absorb ctx1 (take n c2)"
    have rep: "sha256_rep ctx2 ((msg @ [word_of_nat n]) @ take n c2)"
      unfolding ctx2_def ctx1_def by (intro sha256_rep_absorb Suc.prems)
    have nil: "sha256_absorb x [] = x" for x by (simp add: sha256_absorb_def)
    have step: "fp_loop rd idx (Some c) seg acc s = fp_loop rd (idx + 1) (Some ctx2) c2 (acc + 1) s'"
      using True lt by (subst fp_loop.simps)
        (auto simp: r vl_sha256_update_def Let_def ctx2_def ctx1_def nil)
    have ids: "id_segments rd idx s = (case id_segments rd (idx + 1) s' of
        (Inl e, s'') \<Rightarrow> (Inl e, s'') | (Inr xs, s'') \<Rightarrow> (Inr (take n b # xs), s''))"
      using True lt by (subst id_segments.simps) (simp add: r0)
    have "k = VL_ID_SEGMENT_COUNT_MAX - (idx + 1)" using Suc.hyps(2) by simp
    from Suc.hyps(1) [OF this len(1) rep, of "acc + 1" s']
    show ?thesis
      unfolding step ids using True same len
      by (auto split: prod.splits sum.splits)
  qed
qed

lemma fingerprint_spec:
  assumes "read_id_segment h = Some rd" and "length out = VL_FINGERPRINT_LEN"
  shows "vl_compute_fingerprint (Some h) (Some out) s =
    (case id_segments rd 0 s of
       (Inl e, s') \<Rightarrow> (e, Some (replicate 32 0), s')
     | (Inr xs, s') \<Rightarrow>
         if xs = [] then (VL_ERR_PLATFORM, Some (replicate 32 0), s')
         else (VL_OK, Some (fingerprint_of xs), s'))"
proof -
  obtain c0 where c0: "vl_sha256_init (Some sha256_zero_ctx) = Some c0"
    by (simp add: vl_sha256_init_def)
  have "sha256_rep c0 []"
    by (rule sha256_rep_init [OF _ c0]) (simp add: sha256_zero_ctx_def)
  then have rep: "sha256_rep (sha256_absorb c0 VL_FP_DOMAIN) VL_FP_DOMAIN"
    using sha256_rep_absorb [of c0 "[]"] by simp
  have upd: "vl_sha256_update (Some c0) (Some VL_FP_DOMAIN) VL_FP_DOMAIN_LEN = Some (sha256_absorb c0 VL_FP_DOMAIN)"
    by (simp add: vl_sha256_update_def VL_FP_DOMAIN_LEN_def VL_FP_DOMAIN_def)
  have wipe: "vl_secure_wipe (Some out) VL_FINGERPRINT_LEN = Some (replicate 32 0)"
    using assms(2) vl_secure_wipe_all [of out] by (simp add: vl_sizes)
  note loop = fp_loop_spec [OF length_replicate rep, where idx = 0 and s = s and acc = 0]
  show ?thesis
  proof (cases "id_segments rd 0 s")
    case (Pair r s')
    show ?thesis
    proof (cases r)
      case (Inl e)
      then obtain ctx seg' a where "fp_loop rd 0 (Some (sha256_absorb c0 VL_FP_DOMAIN)) (replicate VL_ID_SEGMENT_MAX 0) 0 s
          = (e, ctx, seg', a, s')" using loop [of 0] Pair by auto
      then show ?thesis
        using Inl Pair id_segments_error [of rd 0 s e s']
        by (auto simp: vl_compute_fingerprint_def assms(1) c0 upd wipe)
    next
      case (Inr xs)
      then obtain c' seg' where l: "fp_loop rd 0 (Some (sha256_absorb c0 VL_FP_DOMAIN)) (replicate VL_ID_SEGMENT_MAX 0) 0 s
          = (VL_OK, Some c', seg', length xs, s')" and rp: "sha256_rep c' (VL_FP_DOMAIN @ frame_segments xs)"
        using loop [of 0] Pair by auto
      show ?thesis
        using vl_sha256_final_rep [OF rp, of out] assms(2) [unfolded VL_FINGERPRINT_LEN_def] Pair Inr
        by (auto simp: vl_compute_fingerprint_def assms(1) c0 upd wipe l fingerprint_of_def)
    qed
  qed
qed

end

section \<open>Failure leaves no digest behind\<close>

lemma vl_compute_fingerprint_fails_wiped:
  assumes "vl_compute_fingerprint (Some h) (Some out) s = (st, out', s')" and "st \<noteq> VL_OK"
    and "read_id_segment h \<noteq> None" and "length out = VL_FINGERPRINT_LEN"
  shows "out' = Some (replicate 32 0)"
  using assms vl_secure_wipe_all [of out]
  by (auto simp: vl_compute_fingerprint_def vl_sizes split: prod.splits if_splits)

end
