(* ===== verification/VL_Verify.thy ===== *)
theory VL_Verify
  imports VL_Fingerprint
begin

text \<open>
  What \<open>vl_verify\<close> decides. \<open>admits\<close> is the acceptance condition written over the
  licence's bytes, the configuration and the HAL's answers; the lemmas carry the code's six
  steps to it, give the licence an accepted blob returns, the status a rejected one gets, and
  what a check may change in the platform state.
\<close>

section \<open>The blob\<close>

definition blob_decode :: "bytes \<Rightarrow> int \<times> bytes option" where
  "blob_decode b = vl_base32_decode (Some b) (Some (replicate VL_BLOB_BIN_LEN 0)) VL_BLOB_BIN_LEN VL_BLOB_BIN_LEN"

lemma blob_decode_spells:
  assumes "b32_spells b bin" and "length bin = 100"
  shows "blob_decode b = (100, Some bin)"
  using vl_base32_decode_spells [of 100 100 "replicate 100 0" b bin] assms
  by (auto simp: blob_decode_def vl_sizes)

lemma blob_decode_cases:
  obtains (good) bin where "blob_decode b = (100, Some bin)" "b32_spells b bin" "length bin = 100"
  | (bad) bin' where "blob_decode b = (-1, bin')" "\<And>bin. length bin = 100 \<Longrightarrow> \<not> b32_spells b bin"
proof -
  obtain dst' where d: "blob_decode b \<in> {(100, Some dst'), (-1, Some dst')}"
    using vl_base32_decode_dichotomy [of 100 100 b "replicate 100 0"]
    by (auto simp: blob_decode_def vl_sizes)
  show ?thesis
  proof (cases "blob_decode b = (100, Some dst')")
    case True
    then have "b32_spells b (take 100 dst') \<and> length dst' = length (replicate 100 (0 :: u8)) \<and>
        drop 100 dst' = drop 100 (replicate 100 0)"
      by (intro vl_base32_decode_strict) (simp_all add: blob_decode_def vl_sizes)
    then have *: "b32_spells b (take 100 dst')" and len: "length dst' = 100" unfolding length_replicate by blast+
    have "take 100 dst' = dst'" using len by simp
    with * have sp: "b32_spells b dst'" by metis
    show ?thesis by (rule good [OF True sp len])
  next
    case False
    with d have *: "blob_decode b = (-1, Some dst')" by blast
    show ?thesis
    proof (rule bad [OF *])
      fix bin :: bytes assume "length bin = 100"
      then show "\<not> b32_spells b bin" using * blob_decode_spells [of b bin] by auto
    qed
  qed
qed

section \<open>The acceptance condition\<close>

text \<open>The first configured key with the payload's key id.\<close>

definition selects :: "vl_pubkey list \<Rightarrow> u8 \<Rightarrow> vl_pubkey \<Rightarrow> bool" where
  "selects ks kid pk \<longleftrightarrow>
     (\<exists>pre post. ks = pre @ pk # post \<and> pk_key_id pk = kid \<and> (\<forall>k \<in> set pre. pk_key_id k \<noteq> kid))"

lemma find_key_selects: "find_key ks kid = Some pk \<longleftrightarrow> selects ks kid pk"
proof (induction ks)
  case Nil
  then show ?case by (simp add: find_key_def selects_def)
next
  case (Cons k ks)
  show ?case
  proof (cases "pk_key_id k = kid")
    case True
    then show ?thesis by (auto simp: find_key_def selects_def Cons_eq_append_conv)
  next
    case False
    then have "selects (k # ks) kid pk \<longleftrightarrow> selects ks kid pk"
      unfolding selects_def by (auto simp: Cons_eq_append_conv) (metis set_ConsD)
    with Cons False show ?thesis by (simp add: find_key_def)
  qed
qed

lemma find_key_None: "find_key ks kid = None \<longleftrightarrow> kid \<notin> pk_key_id ` set ks"
  by (auto simp: find_key_def find_None_iff)

definition denied :: "vl_config \<Rightarrow> u32 set" where
  "denied cfg = (case revoked_serials cfg of None \<Rightarrow> {} | Some rs \<Rightarrow> set rs)"

lemma is_revoked_denied: "is_revoked cfg n \<longleftrightarrow> n \<in> denied cfg"
  by (auto simp: is_revoked_def denied_def list_ex_iff split: option.splits)

definition args_ok :: "vl_config \<Rightarrow> 's vl_hal \<Rightarrow> bool" where
  "args_ok cfg hal \<longleftrightarrow>
     keys cfg \<noteq> None \<and> keys cfg \<noteq> Some [] \<and> read_id_segment hal \<noteq> None \<and>
     (flags cfg AND VL_FLAG_ENFORCE_HWM \<noteq> 0 \<longrightarrow>
        now_epoch hal \<noteq> None \<and> hwm_load hal \<noteq> None \<and> hwm_store hal \<noteq> None)"

definition header_ok :: "vl_config \<Rightarrow> bytes \<Rightarrow> bool" where
  "header_ok cfg bin \<longleftrightarrow> bin ! 0 = 0x56 \<and> bin ! 1 = 1 \<and> bin ! 3 = cfg_family cfg"

definition in_window :: "vl_license \<Rightarrow> u32 \<Rightarrow> bool" where
  "in_window lic now \<longleftrightarrow>
     (not_before lic = 0 \<or> not_before lic \<le> now) \<and> (not_after lic = 0 \<or> now \<le> not_after lic)"

definition hwm_ok :: "'s vl_hal \<Rightarrow> u32 \<Rightarrow> 's \<Rightarrow> bool" where
  "hwm_ok hal now s \<longleftrightarrow>
     (\<exists>load store mark s1. hwm_load hal = Some load \<and> hwm_store hal = Some store \<and>
        load s = (VL_OK, mark, s1) \<and> mark \<le> now \<and> (mark < now \<longrightarrow> fst (store now s1) = VL_OK))"

definition clock_ok :: "vl_config \<Rightarrow> 's vl_hal \<Rightarrow> vl_license \<Rightarrow> 's \<Rightarrow> bool" where
  "clock_ok cfg hal lic s \<longleftrightarrow>
     (case now_epoch hal of
        None \<Rightarrow> flags cfg AND VL_FLAG_REQUIRE_CLOCK = 0
      | Some clk \<Rightarrow> \<exists>now s1. clk s = (VL_OK, now, s1) \<and> in_window lic now \<and>
          (flags cfg AND VL_FLAG_ENFORCE_HWM \<noteq> 0 \<longrightarrow> hwm_ok hal now s1))"

definition signed_by :: "sigcheck \<Rightarrow> bytes \<Rightarrow> vl_pubkey \<Rightarrow> bool" where
  "signed_by V bin pk \<longleftrightarrow>
     V (Some (drop 36 bin)) (Some (VL_SIGN_PREFIX @ 0 # take 36 bin)) 52 (Some (pk_key pk)) \<noteq> 0"

definition bound_to :: "bytes \<Rightarrow> bytes list \<Rightarrow> bool" where
  "bound_to bin segs \<longleftrightarrow> segs \<noteq> [] \<and> take 16 (fingerprint_of segs) = take 16 (drop 8 bin)"

definition admits :: "sigcheck \<Rightarrow> bytes \<Rightarrow> vl_config \<Rightarrow> 's vl_hal \<Rightarrow> 's \<Rightarrow> bytes \<Rightarrow> bool" where
  "admits V b cfg hal s bin \<longleftrightarrow>
     args_ok cfg hal \<and> length bin = 100 \<and> b32_spells b bin \<and> header_ok cfg bin \<and>
     (\<exists>pk. selects (the (keys cfg)) (bin ! 2) pk \<and> signed_by V bin pk) \<and>
     (\<exists>segs s1. id_segments (the (read_id_segment hal)) 0 s = (Inr segs, s1) \<and> bound_to bin segs \<and>
        serial (parse_license bin) \<notin> denied cfg \<and> clock_ok cfg hal (parse_license bin) s1)"

text \<open>The licence an accepted blob returns: the fields, and the bits of the checks that ran.\<close>

definition checks_run :: "vl_config \<Rightarrow> 's vl_hal \<Rightarrow> u32" where
  "checks_run cfg hal =
     VL_CHECKED_SIGNATURE OR VL_CHECKED_DEVICE OR
     (if denied cfg \<noteq> {} then VL_CHECKED_REVOCATION else 0) OR
     (if now_epoch hal \<noteq> None then VL_CHECKED_TIME else 0) OR
     (if now_epoch hal \<noteq> None \<and> flags cfg AND VL_FLAG_ENFORCE_HWM \<noteq> 0 then VL_CHECKED_HWM else 0)"

lemma admits_unique: "admits V b cfg hal s x \<Longrightarrow> admits V b cfg hal s y \<Longrightarrow> x = y"
  using b32_spells_unique [of b x y] by (simp add: admits_def)

section \<open>The steps\<close>

lemma parse_license_simps [simp]:
  "checked (parse_license bin) = 0"
  "device_id (parse_license bin) = take 16 (drop 8 bin)"
  "not_before (parse_license bin) = rd_le32 (drop 24 bin)"
  "not_after (parse_license bin) = rd_le32 (drop 28 bin)"
  "serial (parse_license bin) = rd_le32 (drop 32 bin)"
  by (simp_all add: parse_license_def zero_license_def vl_offsets VL_DEVICE_ID_LEN_def)

lemma mark_checked_simps [simp]:
  "not_before (mark_checked b lic) = not_before lic" "not_after (mark_checked b lic) = not_after lic"
  "serial (mark_checked b lic) = serial lic" "device_id (mark_checked b lic) = device_id lic"
  "checked (mark_checked b lic) = checked lic OR b"
  "mark_checked b (mark_checked c lic) = mark_checked (c OR b) lic"
  by (simp_all add: mark_checked_def or.assoc)

lemma in_window_mark [simp]: "in_window (mark_checked b lic) now = in_window lic now"
  by (simp add: in_window_def)

lemma clock_ok_mark [simp]: "clock_ok cfg hal (mark_checked b lic) s = clock_ok cfg hal lic s"
  by (simp add: clock_ok_def split: option.split)

lemma sign_msg_eq: "length bin = 100 \<Longrightarrow> sign_msg bin = VL_SIGN_PREFIX @ 0 # take 36 bin"
  by (simp add: sign_msg_def VL_SIGN_PREFIX_def VL_SIGN_PREFIX_LEN_def VL_PAYLOAD_LEN_def)

lemma verify_hwm_spec:
  assumes "verify_hwm hal now lic s = (st, lic', s')"
    and "hwm_load hal \<noteq> None" and "hwm_store hal \<noteq> None"
  shows "(st = VL_OK \<longleftrightarrow> hwm_ok hal now s) \<and> (st = VL_OK \<longrightarrow> lic' = mark_checked VL_CHECKED_HWM lic)"
  using assms
  by (auto simp: verify_hwm_def hwm_ok_def split: option.splits prod.splits if_splits)

lemma verify_time_spec:
  assumes t: "verify_time (flags cfg) hal lic s = (st, lic', s')" and a: "args_ok cfg hal"
  shows "(st = VL_OK \<longleftrightarrow> clock_ok cfg hal lic s) \<and>
    (st = VL_OK \<longrightarrow> lic' = mark_checked
      ((if now_epoch hal \<noteq> None then VL_CHECKED_TIME else 0) OR
       (if now_epoch hal \<noteq> None \<and> flags cfg AND VL_FLAG_ENFORCE_HWM \<noteq> 0 then VL_CHECKED_HWM else 0)) lic)"
proof (cases "now_epoch hal")
  case None
  with t show ?thesis
    by (auto simp: verify_time_def clock_ok_def mark_checked_def split: if_splits)
next
  case (Some clk)
  obtain cs now s1 where c: "clk s = (cs, now, s1)" by (cases "clk s")
  show ?thesis
  proof (cases "cs = VL_OK \<and> in_window lic now")
    case False
    then show ?thesis
      using t by (auto simp: verify_time_def clock_ok_def Some c in_window_def not_less not_le split: if_splits)
  next
    case True
    then have w: "\<not> (not_before lic \<noteq> 0 \<and> now < not_before lic)" "\<not> (not_after lic \<noteq> 0 \<and> now > not_after lic)"
      by (auto simp: in_window_def)
    show ?thesis
    proof (cases "flags cfg AND VL_FLAG_ENFORCE_HWM = 0")
      case True': True
      then show ?thesis using t True w by (auto simp: verify_time_def clock_ok_def Some c)
    next
      case False
      then have "verify_hwm hal now (mark_checked VL_CHECKED_TIME lic) s1 = (st, lic', s')"
        using t True w by (auto simp: verify_time_def Some c Let_def)
      from verify_hwm_spec [OF this] show ?thesis
        using a False True by (auto simp: args_ok_def clock_ok_def Some c)
    qed
  qed
qed

text \<open>A blob with the right header that a configured key has signed.\<close>

definition authentic :: "sigcheck \<Rightarrow> bytes \<Rightarrow> vl_config \<Rightarrow> bytes \<Rightarrow> bool" where
  "authentic V b cfg bin \<longleftrightarrow> length bin = 100 \<and> b32_spells b bin \<and> header_ok cfg bin \<and>
     (\<exists>pk. selects (the (keys cfg)) (bin ! 2) pk \<and> signed_by V bin pk)"

text \<open>Steps 4 to 6 after the device's segments have been read, for a good signature.\<close>

definition after_device :: "vl_config \<Rightarrow> 's vl_hal \<Rightarrow> bytes \<Rightarrow> 's \<Rightarrow> vl_status \<times> vl_license \<times> 's" where
  "after_device cfg hal bin s1 =
     (let l = mark_checked (VL_CHECKED_SIGNATURE OR VL_CHECKED_DEVICE) (parse_license bin) in
      if denied cfg = {} then verify_time (flags cfg) hal l s1
      else if serial (parse_license bin) \<in> denied cfg then (VL_ERR_REVOKED, l, s1)
      else verify_time (flags cfg) hal (mark_checked VL_CHECKED_REVOCATION l) s1)"

section \<open>Verification against the acceptance condition\<close>

context id_source
begin

text \<open>The device step: what the fingerprint computation and its comparison amount to.\<close>

lemma device_step:
  assumes "read_id_segment hal = Some rd" and "length bin = 100"
  shows "(case vl_compute_fingerprint (Some hal) (Some (replicate VL_FINGERPRINT_LEN 0)) s of
      (rc, fp, s1) \<Rightarrow> if rc \<noteq> VL_OK then F1 rc s1
        else if vl_ct_eq fp (Some (take 16 (drop 8 bin))) VL_DEVICE_ID_LEN = 0 then F2 s1 else G s1) =
    (case id_segments rd 0 s of
       (Inl e, s1) \<Rightarrow> F1 e s1
     | (Inr xs, s1) \<Rightarrow> if xs = [] then F1 VL_ERR_PLATFORM s1 else if bound_to bin xs then G s1 else F2 s1)"
proof -
  have ct: "vl_ct_eq (Some (fingerprint_of xs)) (Some (take 16 (drop 8 bin))) VL_DEVICE_ID_LEN = 0
      \<longleftrightarrow> take 16 (fingerprint_of xs) \<noteq> take 16 (drop 8 bin)" for xs
    using assms(2) by (simp add: vl_ct_eq_Some VL_DEVICE_ID_LEN_def)
  show ?thesis
    using id_segments_error [of rd 0 s]
    by (auto simp: fingerprint_spec [OF assms(1)] ct bound_to_def split: prod.split sum.split)
qed

lemma verify_signed_steps:
  assumes "signed_by V bin pk" and "read_id_segment hal = Some rd" and "length bin = 100"
  shows "verify_signed V cfg hal bin pk s =
    (let sg = mark_checked VL_CHECKED_SIGNATURE (parse_license bin) in
     case id_segments rd 0 s of
       (Inl e, s1) \<Rightarrow> (e, sg, s1)
     | (Inr xs, s1) \<Rightarrow> if xs = [] then (VL_ERR_PLATFORM, sg, s1)
         else if bound_to bin xs then after_device cfg hal bin s1 else (VL_ERR_DEVICE_MISMATCH, sg, s1))"
proof -
  let ?sg = "mark_checked VL_CHECKED_SIGNATURE (parse_license bin)"
  have "verify_signed V cfg hal bin pk s =
    (case vl_compute_fingerprint (Some hal) (Some (replicate VL_FINGERPRINT_LEN 0)) s of
      (rc, fp, s1) \<Rightarrow> if rc \<noteq> VL_OK then (rc, ?sg, s1)
        else if vl_ct_eq fp (Some (take 16 (drop 8 bin))) VL_DEVICE_ID_LEN = 0 then (VL_ERR_DEVICE_MISMATCH, ?sg, s1)
        else after_device cfg hal bin s1)"
    using assms(1,3)
    by (simp add: verify_signed_def signed_by_def sign_msg_eq VL_PAYLOAD_LEN_def VL_SIGN_MSG_LEN_def after_device_def
        VL_SIGN_PREFIX_LEN_def Let_def is_revoked_denied denied_def split: prod.split option.split)
  then show ?thesis by (simp add: device_step [OF assms(2,3)] Let_def)
qed

lemma verify_signed_spec:
  assumes v: "verify_signed V cfg hal bin pk s = (st, lic', s')"
    and "read_id_segment hal = Some rd" and "length bin = 100" and a: "args_ok cfg hal"
  shows "(st = VL_OK \<longleftrightarrow> signed_by V bin pk \<and>
      (\<exists>segs s1. id_segments rd 0 s = (Inr segs, s1) \<and> bound_to bin segs \<and>
        serial (parse_license bin) \<notin> denied cfg \<and> clock_ok cfg hal (parse_license bin) s1)) \<and>
    (st = VL_OK \<longrightarrow> lic' = mark_checked (checks_run cfg hal) (parse_license bin))"
proof (cases "signed_by V bin pk")
  case False
  then show ?thesis
    using v assms(3) by (simp add: verify_signed_def signed_by_def sign_msg_eq VL_PAYLOAD_LEN_def VL_SIGN_MSG_LEN_def VL_SIGN_PREFIX_LEN_def)
next
  case True
  let ?l = "mark_checked (VL_CHECKED_SIGNATURE OR VL_CHECKED_DEVICE) (parse_license bin)"
  have t: "(st = VL_OK \<longleftrightarrow> serial (parse_license bin) \<notin> denied cfg \<and> clock_ok cfg hal (parse_license bin) s1) \<and>
    (st = VL_OK \<longrightarrow> lic' = mark_checked (checks_run cfg hal) (parse_license bin))"
    if "after_device cfg hal bin s1 = (st, lic', s')" for s1
    using that [unfolded after_device_def Let_def] verify_time_spec [of cfg hal ?l s1 st lic' s', OF _ a]
      verify_time_spec [of cfg hal "mark_checked VL_CHECKED_REVOCATION ?l" s1 st lic' s', OF _ a]
    by (simp add: checks_run_def or.assoc split: if_splits)
  show ?thesis
    using v t True unfolding verify_signed_steps [OF True assms(2,3)] Let_def
    by (auto simp: bound_to_def dest: id_segments_error split: prod.splits sum.splits if_splits)
qed

lemma verify_blob_spec:
  assumes v: "verify_blob V b cfg hal (the (keys cfg)) s = (st, lic', s')"
    and r: "read_id_segment hal = Some rd" and a: "args_ok cfg hal"
  shows "(st = VL_OK \<longleftrightarrow> (\<exists>bin. admits V b cfg hal s bin)) \<and>
    (st = VL_OK \<longrightarrow> (\<exists>bin. admits V b cfg hal s bin \<and>
       lic' = mark_checked (checks_run cfg hal) (parse_license bin)))"
proof (cases rule: blob_decode_cases [of b])
  case (bad bin')
  then have "st = VL_ERR_BAD_FORMAT"
    using v unfolding verify_blob_def blob_decode_def [symmetric] by (simp add: vl_sizes)
  with bad show ?thesis by (auto simp: admits_def)
next
  case (good bin)
  have uniq: "admits V b cfg hal s x \<longleftrightarrow> x = bin \<and> admits V b cfg hal s bin" for x
    using good b32_spells_unique [of b bin x] by (auto simp: admits_def)
  show ?thesis
  proof (cases "header_ok cfg bin \<and> find_key (the (keys cfg)) (bin ! 2) \<noteq> None")
    case False
    then have "\<not> admits V b cfg hal s bin" by (auto simp: admits_def simp flip: find_key_selects)
    moreover have "st \<noteq> VL_OK"
      using v good False
      unfolding verify_blob_def blob_decode_def [symmetric]
      by (auto simp: vl_offsets VL_MAGIC_def VL_FORMAT_VERSION_def header_ok_def vl_sizes
          split: if_splits option.splits)
    ultimately show ?thesis using uniq by blast
  next
    case True
    then obtain pk where pk: "find_key (the (keys cfg)) (bin ! 2) = Some pk" by blast
    have "verify_signed V cfg hal bin pk s = (st, lic', s')"
      using v good True pk
      unfolding verify_blob_def blob_decode_def [symmetric]
      by (simp add: vl_offsets VL_MAGIC_def VL_FORMAT_VERSION_def header_ok_def vl_sizes)
    from verify_signed_spec [OF this r good(3) a] show ?thesis
      using True pk r a good uniq by (auto simp: admits_def simp flip: find_key_selects)
  qed
qed

lemma vl_verify_spec:
  assumes v: "vl_verify_with V (Some b) (Some cfg) (Some hal) out s = (st, out', s')"
    and r: "read_id_segment hal = Some rd"
  shows "st = VL_OK \<longleftrightarrow> (\<exists>bin. admits V b cfg hal s bin)"
    and "st = VL_OK \<Longrightarrow> admits V b cfg hal s bin \<Longrightarrow>
      out' = map_option (\<lambda>_. mark_checked (checks_run cfg hal) (parse_license bin)) out"
proof -
  have "(st = VL_OK \<longleftrightarrow> (\<exists>bin. admits V b cfg hal s bin)) \<and> (st = VL_OK \<longrightarrow> (\<exists>bin. admits V b cfg hal s bin \<and>
      out' = map_option (\<lambda>_. mark_checked (checks_run cfg hal) (parse_license bin)) out))"
  proof (cases "args_ok cfg hal")
    case False
    then have "st = VL_ERR_INVALID_ARG"
      using v by (auto simp: vl_verify_with_def Let_def args_ok_def split: option.splits if_splits)
    with False show ?thesis by (auto simp: admits_def)
  next
    case True
    obtain rc lic s1 where b: "verify_blob V b cfg hal (the (keys cfg)) s = (rc, lic, s1)"
      by (metis surj_pair)
    have "st = rc \<and> (st = VL_OK \<longrightarrow> out' = map_option (\<lambda>_. lic) out)"
      using v True b by (auto simp: vl_verify_with_def Let_def args_ok_def option.map_comp comp_def split: option.splits if_splits)
    with verify_blob_spec [OF b r True] show ?thesis by auto
  qed
  note * = this
  from * show "st = VL_OK \<longleftrightarrow> (\<exists>bin. admits V b cfg hal s bin)" by (rule conjunct1)
  assume "st = VL_OK" and bin: "admits V b cfg hal s bin"
  with * obtain x where x: "admits V b cfg hal s x"
    and o: "out' = map_option (\<lambda>_. mark_checked (checks_run cfg hal) (parse_license x)) out" by blast
  from o show "out' = map_option (\<lambda>_. mark_checked (checks_run cfg hal) (parse_license bin)) out"
    unfolding admits_unique [OF x bin] .
qed

text \<open>The status of an authentic blob, as the first check that fails.\<close>

lemma authentic_status:
  assumes hal: "read_id_segment hal = Some rd" "now_epoch hal = Some clk"
    "hwm_load hal = Some load" "hwm_store hal = Some store"
    and a: "args_ok cfg hal" and auth: "authentic V b cfg bin"
    and ids: "id_segments rd 0 s = (Inr segs, s1)" "segs \<noteq> []"
    and clk: "clk s1 = (VL_OK, now, s2)" and ld: "load s2 = (VL_OK, mark, s3)"
  shows "fst (vl_verify_with V (Some b) (Some cfg) (Some hal) out s) =
    (let lic = parse_license bin in
     if \<not> bound_to bin segs then VL_ERR_DEVICE_MISMATCH
     else if serial lic \<in> denied cfg then VL_ERR_REVOKED
     else if not_before lic \<noteq> 0 \<and> now < not_before lic then VL_ERR_NOT_YET_VALID
     else if not_after lic \<noteq> 0 \<and> not_after lic < now then VL_ERR_EXPIRED
     else if flags cfg AND VL_FLAG_ENFORCE_HWM = 0 then VL_OK
     else if now < mark then VL_ERR_CLOCK_ROLLBACK
     else if mark < now \<and> fst (store now s3) \<noteq> VL_OK then VL_ERR_PLATFORM
     else VL_OK)"
proof -
  let ?lic = "parse_license bin"
  obtain pk where pk: "find_key (the (keys cfg)) (bin ! 2) = Some pk" "signed_by V bin pk"
    using auth by (auto simp: authentic_def simp flip: find_key_selects)
  have bin: "blob_decode b = (100, Some bin)" "length bin = 100" "header_ok cfg bin"
    using auth blob_decode_spells by (auto simp: authentic_def)
  have "verify_blob V b cfg hal (the (keys cfg)) s = verify_signed V cfg hal bin pk s"
    using bin pk(1) unfolding verify_blob_def blob_decode_def [symmetric]
    by (simp add: vl_offsets VL_MAGIC_def VL_FORMAT_VERSION_def header_ok_def vl_sizes)
  then have top: "fst (vl_verify_with V (Some b) (Some cfg) (Some hal) out s) = fst (verify_signed V cfg hal bin pk s)"
    using a hal by (auto simp: vl_verify_with_def args_ok_def Let_def split: prod.split option.split)
  have time: "fst (verify_time (flags cfg) hal l s1) =
      (if not_before l \<noteq> 0 \<and> now < not_before l then VL_ERR_NOT_YET_VALID
       else if not_after l \<noteq> 0 \<and> not_after l < now then VL_ERR_EXPIRED
       else if flags cfg AND VL_FLAG_ENFORCE_HWM = 0 then VL_OK
       else if now < mark then VL_ERR_CLOCK_ROLLBACK
       else if mark < now \<and> fst (store now s3) \<noteq> VL_OK then VL_ERR_PLATFORM else VL_OK)" for l
    by (auto simp: verify_time_def verify_hwm_def hal clk ld Let_def split: prod.split)
  have "verify_signed V cfg hal bin pk s =
      (if bound_to bin segs then after_device cfg hal bin s1
       else (VL_ERR_DEVICE_MISMATCH, mark_checked VL_CHECKED_SIGNATURE (parse_license bin), s1))"
    using ids(2) by (simp add: verify_signed_steps [OF pk(2) hal(1) bin(2)] ids(1) Let_def)
  then show ?thesis unfolding top by (auto simp: after_device_def time Let_def)
qed

end

section \<open>Facts that need no contract\<close>

text \<open>A failing check hands back the all-zero licence, whatever the caller's held.\<close>

lemma vl_verify_fails_zero:
  "vl_verify_with V blob cfg hal out s = (st, out', s') \<Longrightarrow> st \<noteq> VL_OK \<Longrightarrow>
   out' = map_option (\<lambda>_. zero_license) out"
  by (auto simp: vl_verify_with_def Let_def option.map_comp comp_def split: option.splits if_splits prod.splits)

text \<open>Nothing of the platform runs before the signature has been accepted.\<close>

lemma vl_verify_unsigned:
  assumes "\<And>sig msg n pk. V sig msg n pk = 0"
  shows "\<exists>st. st \<noteq> VL_OK \<and> vl_verify_with V blob cfg hal out s = (st, map_option (\<lambda>_. zero_license) out, s)"
  using assms
  by (auto simp: vl_verify_with_def verify_blob_def verify_signed_def Let_def option.map_comp comp_def
      split: option.splits prod.splits)

text \<open>The decision depends on the spelled bytes, not on the spelling.\<close>

lemma vl_verify_respelled:
  fixes hal :: "'s vl_hal option"
  assumes "b32_spells b bin" and "b32_spells b' bin" and "length bin = 100"
  shows "vl_verify_with V (Some b) cfg hal out s = vl_verify_with V (Some b') cfg hal out s"
proof -
  have "verify_blob V b c h ks s = verify_blob V b' c h ks s" for c and h :: "'s vl_hal" and ks s
    using blob_decode_spells [OF assms(1,3)] blob_decode_spells [OF assms(2,3)]
    unfolding verify_blob_def blob_decode_def [symmetric] by simp
  then show ?thesis by (auto simp: vl_verify_with_def Let_def split: option.split)
qed

lemma admits_respelled:
  "admits V b cfg hal s bin \<Longrightarrow> b32_spells b' bin \<Longrightarrow> admits V b' cfg hal s bin"
  by (simp add: admits_def)

section \<open>Devices whose reads have no effect\<close>

text \<open>
  On most platforms reading the identity, the clock and the mark leaves everything as it
  was; then the only trace a check can leave is the mark it stores.
\<close>

definition pure_reads :: "'s vl_hal \<Rightarrow> 's \<Rightarrow> bool" where
  "pure_reads hal s \<longleftrightarrow>
     (\<forall>rd i b. read_id_segment hal = Some rd \<longrightarrow> snd (snd (snd (rd i b s))) = s) \<and>
     (\<forall>clk. now_epoch hal = Some clk \<longrightarrow> snd (snd (clk s)) = s) \<and>
     (\<forall>load. hwm_load hal = Some load \<longrightarrow> snd (snd (load s)) = s)"

lemma fp_loop_pure:
  assumes "\<And>i b. snd (snd (snd (rd i b s))) = s"
  shows "snd (snd (snd (snd (fp_loop rd idx ctx seg a s)))) = s"
proof (induction "VL_ID_SEGMENT_COUNT_MAX - idx" arbitrary: idx ctx seg a)
  case 0
  then show ?case by (subst fp_loop.simps) simp
next
  case (Suc k)
  obtain st b n s' where r: "rd (word_of_nat idx) seg s = (st, b, n, s')"
    by (cases "rd (word_of_nat idx) seg s")
  have "s' = s" using assms [of "word_of_nat idx" seg] r by simp
  moreover have "k = VL_ID_SEGMENT_COUNT_MAX - (idx + 1)" using Suc.hyps(2) by simp
  ultimately show ?case
    using Suc.hyps(1) r by (subst fp_loop.simps) (auto simp: Let_def)
qed

lemma fingerprint_pure:
  assumes "pure_reads hal s" and "vl_compute_fingerprint (Some hal) out s = (st, out', s')"
  shows "s' = s"
proof -
  have "snd (snd (snd (snd (fp_loop rd idx ctx seg a s)))) = s" if "read_id_segment hal = Some rd" for rd idx ctx seg a
    using assms(1) that by (intro fp_loop_pure) (simp add: pure_reads_def)
  then show ?thesis
    using assms(2)
    by (auto simp: vl_compute_fingerprint_def Let_def split: option.splits prod.splits if_splits)
      (metis snd_conv)+
qed

definition only_marked :: "vl_config \<Rightarrow> 's vl_hal \<Rightarrow> vl_status \<Rightarrow> 's \<Rightarrow> 's \<Rightarrow> bool" where
  "only_marked cfg hal st s s' \<longleftrightarrow> s' = s \<or>
     st \<in> {VL_OK, VL_ERR_PLATFORM} \<and> flags cfg AND VL_FLAG_ENFORCE_HWM \<noteq> 0 \<and>
     (\<exists>store now. hwm_store hal = Some store \<and> s' = snd (store now s) \<and>
        (st = VL_OK \<longleftrightarrow> fst (store now s) = VL_OK))"

lemma only_marked_refl [simp]: "only_marked cfg hal st s s"
  by (simp add: only_marked_def)

lemma verify_hwm_pure:
  assumes "pure_reads hal s" and "verify_hwm hal now lic s = (st, lic', s')" and "flags cfg AND VL_FLAG_ENFORCE_HWM \<noteq> 0"
  shows "only_marked cfg hal st s s'"
proof (cases "\<exists>load store. hwm_load hal = Some load \<and> hwm_store hal = Some store")
  case False
  then show ?thesis using assms(2) by (auto simp: verify_hwm_def split: option.splits)
next
  case True
  then obtain load store where h: "hwm_load hal = Some load" "hwm_store hal = Some store" by blast
  obtain e m s1 where l: "load s = (e, m, s1)" by (metis surj_pair)
  obtain e2 s2 where w: "store now s = (e2, s2)" by fastforce
  have "s1 = s" using assms(1) h l by (auto simp: pure_reads_def)
  then have "st \<in> {VL_OK, VL_ERR_PLATFORM} \<and> s' = snd (store now s) \<and> (st = VL_OK \<longleftrightarrow> fst (store now s) = VL_OK) \<or> s' = s"
    using assms(2) h l w by (auto simp: verify_hwm_def split: if_splits)
  then show ?thesis using assms(3) h by (auto simp: only_marked_def)
qed

lemma verify_time_pure:
  assumes p: "pure_reads hal s" and v: "verify_time (flags cfg) hal lic s = (st, lic', s')"
  shows "only_marked cfg hal st s s'"
proof (cases "now_epoch hal")
  case None
  then show ?thesis using v by (auto simp: verify_time_def split: if_splits)
next
  case (Some clk)
  obtain cs now s1 where c: "clk s = (cs, now, s1)" by (cases "clk s")
  then have s1: "s1 = s" using p Some by (auto simp: pure_reads_def)
  show ?thesis
    using v verify_hwm_pure [OF p] by (auto simp: verify_time_def Some c s1 Let_def split: if_splits)
qed

lemma verify_signed_pure:
  assumes p: "pure_reads hal s" and v: "verify_signed V cfg hal bin pk s = (st, lic', s')"
  shows "only_marked cfg hal st s s'"
proof -
  obtain rc fp s1 where f: "vl_compute_fingerprint (Some hal) (Some (replicate VL_FINGERPRINT_LEN 0)) s = (rc, fp, s1)"
    by (metis surj_pair)
  have "s1 = s" by (rule fingerprint_pure [OF p f])
  then show ?thesis
    using v f by (auto simp: verify_signed_def Let_def split: if_splits option.splits dest: verify_time_pure [OF p])
qed

lemma verify_blob_pure:
  "pure_reads hal s \<Longrightarrow> verify_blob V b cfg hal ks s = (st, lic', s') \<Longrightarrow> only_marked cfg hal st s s'"
  by (auto simp: verify_blob_def Let_def split: option.splits if_splits prod.splits dest: verify_signed_pure)

lemma vl_verify_pure:
  "pure_reads h s \<Longrightarrow> vl_verify_with V blob (Some cfg) (Some h) out s = (st, out', s') \<Longrightarrow> only_marked cfg h st s s'"
  by (auto simp: vl_verify_with_def Let_def split: option.splits if_splits prod.splits dest: verify_blob_pure)

text \<open>A refusal other than a platform failure leaves no trace at all.\<close>

lemma vl_verify_refusal_pure:
  "pure_reads h s \<Longrightarrow> vl_verify_with V blob (Some cfg) (Some h) out s = (st, out', s') \<Longrightarrow>
   st \<noteq> VL_OK \<Longrightarrow> st \<noteq> VL_ERR_PLATFORM \<Longrightarrow> s' = s"
  using vl_verify_pure by (fastforce simp: only_marked_def)

lemma id_segments_pure:
  assumes "\<And>i b. snd (snd (snd (rd i b s))) = s"
  shows "snd (id_segments rd idx s) = s"
proof (induction "VL_ID_SEGMENT_COUNT_MAX - idx" arbitrary: idx)
  case 0
  then show ?case by (subst id_segments.simps) simp
next
  case (Suc k)
  obtain st b n s' where r: "rd (word_of_nat idx) (replicate VL_ID_SEGMENT_MAX 0) s = (st, b, n, s')"
    by (cases "rd (word_of_nat idx) (replicate VL_ID_SEGMENT_MAX 0) s")
  have "s' = s" using assms [of "word_of_nat idx" "replicate VL_ID_SEGMENT_MAX 0"] r by simp
  moreover have "k = VL_ID_SEGMENT_COUNT_MAX - (idx + 1)" using Suc.hyps(2) by simp
  then have "snd (id_segments rd (idx + 1) s) = s" by (rule Suc.hyps(1))
  ultimately show ?case
    using r by (subst id_segments.simps) (auto split: prod.split sum.split)
qed

end
