(* ===== verification/VL_Hal.thy ===== *)
theory VL_Hal
  imports VL_Verify
begin

text \<open>
  The contracts of the HAL's storage callbacks (\<^verbatim>\<open>vl_hal_t\<close> in
  \<^verbatim>\<open>vectilicense.h\<close>), as the platform files under \<^verbatim>\<open>hal/\<close> keep them:
  \<open>hwm_device\<close>, a device whose high-water mark survives every callback but its own
  store, and \<open>blob_storage\<close>, a licence slot that gives back what was put in. What
  \<open>vl_verify\<close> does to the mark is proved once in the first, for every platform.
\<close>

section \<open>Words as bytes\<close>

definition put_le32 :: "u32 \<Rightarrow> bytes" where
  "put_le32 w = [ucast w, ucast (drop_bit 8 w), ucast (drop_bit 16 w), ucast (drop_bit 24 w)]"

lemma length_put_le32 [simp, vl_len]: "length (put_le32 w) = 4"
  by (simp add: put_le32_def)

lemma rd_put_le32 [simp]: "rd_le32 (put_le32 w @ xs) = w"
proof (rule bit_word_eqI)
  fix n assume "n < LENGTH(32)"
  then have n: "n < 32" by simp
  have b: "bit (rd_le32 (put_le32 w @ xs)) n \<longleftrightarrow>
      (n < 8 \<and> bit w n) \<or> (8 \<le> n \<and> n - 8 < 8 \<and> bit w (8 + (n - 8))) \<or>
      (16 \<le> n \<and> n - 16 < 8 \<and> bit w (16 + (n - 16))) \<or> (24 \<le> n \<and> n - 24 < 8 \<and> bit w (24 + (n - 24)))"
    using n by (simp add: rd_le32_def put_le32_def bit_or_iff bit_push_bit_iff bit_ucast_iff bit_drop_bit_eq) auto
  show "bit (rd_le32 (put_le32 w @ xs)) n = bit w n"
  proof (cases "n < 8")
    case True
    then show ?thesis unfolding b by simp
  next
    case ge8: False
    show ?thesis
    proof (cases "n < 16")
      case True
      then show ?thesis unfolding b using ge8 by auto
    next
      case ge16: False
      then show ?thesis unfolding b using ge8 n by (cases "n < 24") auto
    qed
  qed
qed

lemma rd_put_le32' [simp]: "rd_le32 (put_le32 w) = w"
  using rd_put_le32 [of w "[]"] by simp

section \<open>The high-water mark\<close>

text \<open>
  \<open>ok\<close> singles out the platform states in which the storage answers; \<open>mark\<close> is the
  mark it holds, zero when none was written.
\<close>

locale hwm_device = id_source rd
  for rd :: "u32 \<Rightarrow> bytes \<Rightarrow> 's \<Rightarrow> vl_status \<times> bytes \<times> nat \<times> 's" +
  fixes clk :: "'s \<Rightarrow> vl_status \<times> u32 \<times> 's"
    and load :: "'s \<Rightarrow> vl_status \<times> u32 \<times> 's"
    and store :: "u32 \<Rightarrow> 's \<Rightarrow> vl_status \<times> 's"
    and ok :: "'s \<Rightarrow> bool"
    and mark :: "'s \<Rightarrow> u32"
  assumes rd_keeps: "ok s \<Longrightarrow> rd i b s = (st, c, n, s') \<Longrightarrow> ok s' \<and> mark s' = mark s"
    and clk_keeps: "ok s \<Longrightarrow> clk s = (st, t, s') \<Longrightarrow> ok s' \<and> mark s' = mark s"
    and load_keeps: "ok s \<Longrightarrow> load s = (st, m, s') \<Longrightarrow> ok s' \<and> mark s' = mark s"
    and load_mark: "ok s \<Longrightarrow> load s = (VL_OK, m, s') \<Longrightarrow> m = mark s"
    and store_mark: "ok s \<Longrightarrow> store v s = (VL_OK, s') \<Longrightarrow> mark s' = v"
begin

lemma id_segments_keeps:
  "id_segments rd idx s = (r, s') \<Longrightarrow> ok s \<Longrightarrow> ok s' \<and> mark s' = mark s"
proof (induction "VL_ID_SEGMENT_COUNT_MAX - idx" arbitrary: idx s r s')
  case 0
  then show ?case by (simp add: id_segments.simps [of rd idx s])
next
  case (Suc k)
  obtain st b n s1 where r: "rd (word_of_nat idx) (replicate VL_ID_SEGMENT_MAX 0) s = (st, b, n, s1)"
    by (cases "rd (word_of_nat idx) (replicate VL_ID_SEGMENT_MAX 0) s")
  have k: "k = VL_ID_SEGMENT_COUNT_MAX - (idx + 1)" "idx < VL_ID_SEGMENT_COUNT_MAX" using Suc.hyps(2) by simp_all
  have s1: "ok s1" "mark s1 = mark s" using rd_keeps [OF Suc.prems(2) r] by simp_all
  obtain r2 s2 where i: "id_segments rd (idx + 1) s1 = (r2, s2)" by fastforce
  have "ok s2" "mark s2 = mark s" using Suc.hyps(1) [OF k(1) i s1(1)] s1(2) by simp_all
  then show ?case
    using Suc.prems(1) k(2) r s1 i
    by (auto simp: id_segments.simps [of rd idx s] split: if_splits sum.splits)
qed

lemma verify_hwm_mark:
  assumes "ok s" and "hwm_load hal = Some load" and "hwm_store hal = Some store"
    and "verify_hwm hal now lic s = (st, lic', s')"
  shows "(st = VL_OK \<longrightarrow> mark s \<le> now \<and> mark s' = now) \<and>
    (st \<noteq> VL_OK \<and> st \<noteq> VL_ERR_PLATFORM \<longrightarrow> mark s' = mark s)"
  using assms load_keeps [OF assms(1)] load_mark [OF assms(1)] store_mark
  by (fastforce simp: verify_hwm_def split: prod.splits if_splits)

lemma verify_time_mark:
  assumes "ok s" and "now_epoch hal = Some clk" and "hwm_load hal = Some load" and "hwm_store hal = Some store"
    and v: "verify_time fl hal lic s = (st, lic', s')"
  shows "(st = VL_OK \<longrightarrow> mark s \<le> mark s' \<and>
      (\<exists>now s1. clk s = (VL_OK, now, s1) \<and>
         (if fl AND VL_FLAG_ENFORCE_HWM \<noteq> 0 then mark s \<le> now \<and> mark s' = now else mark s' = mark s))) \<and>
    (st \<noteq> VL_OK \<and> st \<noteq> VL_ERR_PLATFORM \<longrightarrow> mark s' = mark s)"
proof -
  obtain cs now s1 where c: "clk s = (cs, now, s1)" by (cases "clk s")
  have k: "ok s1" "mark s1 = mark s" using clk_keeps [OF assms(1) c] by simp_all
  show ?thesis
  proof (cases "verify_hwm hal now (mark_checked VL_CHECKED_TIME lic) s1")
    case (fields st1 l1 s2)
    from verify_hwm_mark [OF k(1) assms(3,4) this] show ?thesis
      using v c k fields assms(2) by (auto simp: verify_time_def split: if_splits)
  qed
qed

lemma verify_signed_mark:
  assumes "ok s" and "read_id_segment hal = Some rd" and "now_epoch hal = Some clk"
    and "hwm_load hal = Some load" and "hwm_store hal = Some store" and "length bin = 100"
    and v: "verify_signed V cfg hal bin pk s = (st, lic', s')"
  shows "(st = VL_OK \<longrightarrow> mark s \<le> mark s' \<and>
      (\<exists>segs s1 now s2. id_segments rd 0 s = (Inr segs, s1) \<and> clk s1 = (VL_OK, now, s2) \<and>
         (if flags cfg AND VL_FLAG_ENFORCE_HWM \<noteq> 0 then mark s \<le> now \<and> mark s' = now else mark s' = mark s))) \<and>
    (st \<noteq> VL_OK \<and> st \<noteq> VL_ERR_PLATFORM \<longrightarrow> mark s' = mark s)"
proof -
  obtain r s1 where i: "id_segments rd 0 s = (r, s1)" by fastforce
  have k: "ok s1" "mark s1 = mark s" using id_segments_keeps [OF i assms(1)] by simp_all
  note t = verify_time_mark [OF k(1) assms(3,4,5)]
  consider (sig) "st = VL_ERR_BAD_SIGNATURE" "s' = s"
    | (early) "s' = s1" "st \<noteq> VL_OK"
    | (time) lic segs where "verify_time (flags cfg) hal lic s1 = (st, lic', s')" "r = Inr segs"
    using v id_segments_error [of rd 0 s] i unfolding verify_signed_def Let_def
    by (auto simp: fingerprint_spec [OF assms(2)] split: if_splits prod.splits sum.splits option.splits)
  then show ?thesis
  proof cases
    case time
    then show ?thesis using t [OF time(1)] k i by auto
  qed (use k in auto)
qed

text \<open>
  Every check keeps the mark or moves it up to the clock; a check that fails for another
  reason than the platform leaves it alone.
\<close>

lemma vl_verify_mark:
  assumes "ok s" and h: "read_id_segment hal = Some rd" "now_epoch hal = Some clk"
    "hwm_load hal = Some load" "hwm_store hal = Some store"
    and v: "vl_verify_with V blob (Some cfg) (Some hal) out s = (st, out', s')"
  shows "(st = VL_OK \<longrightarrow> mark s \<le> mark s' \<and>
      (\<exists>segs s1 now s2. id_segments rd 0 s = (Inr segs, s1) \<and> clk s1 = (VL_OK, now, s2) \<and>
         (if flags cfg AND VL_FLAG_ENFORCE_HWM \<noteq> 0 then mark s \<le> now \<and> mark s' = now else mark s' = mark s))) \<and>
    (st \<noteq> VL_OK \<and> st \<noteq> VL_ERR_PLATFORM \<longrightarrow> mark s' = mark s)"
proof -
  consider (early) "s' = s" "st \<noteq> VL_OK"
    | (blob) b ks lic where "verify_blob V b cfg hal ks s = (st, lic, s')"
    using v unfolding vl_verify_with_def Let_def
    by (auto split: option.splits if_splits prod.splits)
  then show ?thesis
  proof cases
    case early
    then show ?thesis by simp
  next
    case blob
    show ?thesis
    proof (cases rule: blob_decode_cases [of b])
      case (bad bin')
      then show ?thesis
        using blob unfolding verify_blob_def blob_decode_def [symmetric] by (auto simp: vl_sizes)
    next
      case (good bin)
      consider "s' = s" "st \<noteq> VL_OK" | pk where "verify_signed V cfg hal bin pk s = (st, lic, s')"
        using blob good unfolding verify_blob_def blob_decode_def [symmetric]
        by (auto simp: vl_sizes Let_def split: if_splits option.splits)
      then show ?thesis
      proof cases
        case 1
        then show ?thesis by simp
      next
        case 2
        show ?thesis by (rule verify_signed_mark [OF assms(1) h good(3) 2])
      qed
    qed
  qed
qed

end

section \<open>The licence slot\<close>

text \<open>
  \<open>slot\<close> is the licence string held, empty when there is none. \<open>load\<close> gets the
  caller's buffer; on success it has written the string and a terminating NUL.
\<close>

locale blob_storage =
  fixes load :: "bytes \<Rightarrow> 's \<Rightarrow> vl_status \<times> bytes \<times> nat \<times> 's"
    and store :: "bytes \<Rightarrow> 's \<Rightarrow> vl_status \<times> 's"
    and ok :: "'s \<Rightarrow> bool"
    and fits :: "bytes \<Rightarrow> bool"
    and slot :: "'s \<Rightarrow> bytes"
  assumes store_slot: "ok s \<Longrightarrow> fits b \<Longrightarrow> store b s = (VL_OK, s') \<Longrightarrow> slot s' = b \<and> ok s'"
    and load_slot: "ok s \<Longrightarrow> slot s \<noteq> [] \<Longrightarrow> length (slot s) + 1 \<le> length buf \<Longrightarrow>
      \<exists>rest s'. load buf s = (VL_OK, slot s @ 0 # rest, length (slot s), s') \<and> slot s' = slot s \<and> ok s'"
    and load_empty: "ok s \<Longrightarrow> slot s = [] \<Longrightarrow> 2 \<le> length buf \<Longrightarrow> \<exists>c n s'. load buf s = (VL_ERR_NOT_FOUND, c, n, s')"
begin

lemma store_load:
  assumes "ok s" and "fits b" and "b \<noteq> []" and "store b s = (VL_OK, s')" and "length b + 1 \<le> length buf"
  shows "\<exists>rest s''. load buf s' = (VL_OK, b @ 0 # rest, length b, s'')"
  using load_slot [of s' buf] store_slot [OF assms(1,2,4)] assms(3,5) by auto

lemma store_clear:
  assumes "ok s" and "fits []" and "store [] s = (VL_OK, s')" and "2 \<le> length buf"
  shows "\<exists>c n s''. load buf s' = (VL_ERR_NOT_FOUND, c, n, s'')"
  using load_empty [of s' buf] store_slot [OF assms(1,2,3)] assms(4) by auto

end

end
