(* ===== verification/VL_Hal_Posix.thy ===== *)
theory VL_Hal_Posix
  imports VL_Hal
begin

text \<open>
  \<^verbatim>\<open>hal/posix/vl_hal_posix.c\<close>, the shared part and the Linux identity. The machine
  is the record \<open>posix\<close>: the static context the file keeps (interface name and state
  path), the files with who may read or write them and how many bytes a write may store, the
  entries of \<^verbatim>\<open>/sys/class/net\<close> in \<^verbatim>\<open>readdir\<close> order, and the clock. Paths
  and names are byte strings without their NUL. The macOS identity (IOKit, \<^verbatim>\<open>getifaddrs\<close>)
  is not modelled.
\<close>

section \<open>The machine\<close>

definition VL_POSIX_PATH_MAX :: nat where "VL_POSIX_PATH_MAX = 192"

record posix =
  px_iface :: bytes
  px_state :: bytes
  px_files :: "bytes \<Rightarrow> bytes option"
  px_readable :: "bytes \<Rightarrow> bool"
  px_writable :: "bytes \<Rightarrow> bool"
  px_room :: "bytes \<Rightarrow> nat"
  px_netdir :: "bytes list option"
  px_time :: int

text \<open>
  \<^verbatim>\<open>fopen(path, "rb")\<close> and what can be read from the stream. \<open>px_readable\<close> is whether the open succeeds,
  for whatever reason it may not. A stream that breaks off is a shorter file.
\<close>

definition fopen_rb :: "posix \<Rightarrow> bytes \<Rightarrow> bytes option" where
  "fopen_rb s path = (if px_readable s path then px_files s path else None)"

text \<open>
  \<^verbatim>\<open>fopen(path, "wb")\<close>, \<^verbatim>\<open>fwrite\<close> and \<^verbatim>\<open>fclose\<close>: the file is truncated, what the
  device takes is stored, and the count or the close tells whether all of it was.
\<close>

definition write_file :: "bytes \<Rightarrow> bytes \<Rightarrow> posix \<Rightarrow> vl_status \<times> posix" where
  "write_file path raw s =
     (if \<not> px_writable s path then (VL_ERR_PLATFORM, s)
      else
        let n = min (px_room s path) (length raw);
            s1 = s\<lparr>px_files := (px_files s)(path \<mapsto> take n raw)\<rparr>
        in if n \<noteq> length raw then (VL_ERR_PLATFORM, s1) else (VL_OK, s1))"

section \<open>Small file helpers\<close>

definition is_ws :: "u8 \<Rightarrow> bool" where
  "is_ws c \<longleftrightarrow> c = 0x0A \<or> c = 0x0D \<or> c = 0x20 \<or> c = 0x09"

primrec trim_len :: "bytes \<Rightarrow> nat \<Rightarrow> nat" where
  "trim_len out 0 = 0"
| "trim_len out (Suc n) = (if is_ws (out ! n) then trim_len out n else Suc n)"

text \<open>\<open>None\<close> is the return value -1; otherwise the buffer and the trimmed length.\<close>

definition read_text_file :: "posix \<Rightarrow> bytes \<Rightarrow> bytes \<Rightarrow> nat \<Rightarrow> (bytes \<times> nat) option" where
  "read_text_file s path out cap =
     (case fopen_rb s path of None \<Rightarrow> None
      | Some contents \<Rightarrow>
          let got = take cap contents; out' = overlay out 0 got
          in Some (out', trim_len out' (length got)))"

definition state_path :: "posix \<Rightarrow> bytes \<Rightarrow> nat \<Rightarrow> bytes option" where
  "state_path s suffix cap =
     (let base = length (px_state s); suf = length suffix
      in if base = 0 \<or> base + suf + 1 > cap then None else Some (px_state s @ suffix))"

section \<open>Identity (Linux)\<close>

definition mac_is_meaningful :: "bytes \<Rightarrow> nat \<Rightarrow> bool" where
  "mac_is_meaningful m n = list_ex (\<lambda>i. m ! i \<noteq> 0x30 \<and> m ! i \<noteq> 0x3A) [0..<n]"

definition read_iface_mac :: "posix \<Rightarrow> bytes \<Rightarrow> bytes \<Rightarrow> nat \<Rightarrow> (bytes \<times> nat) option" where
  "read_iface_mac s iface out cap =
     (let path = str_bytes ''/sys/class/net/'' @ iface @ str_bytes ''/address''
      in if length path \<ge> 256 then None else read_text_file s path out cap)"

definition starts :: "bytes \<Rightarrow> string \<Rightarrow> bool" where
  "starts n p \<longleftrightarrow> take (length p) n = str_bytes p"

definition iface_score :: "bytes \<Rightarrow> int" where
  "iface_score n =
     (if starts n ''eth'' then 100
      else if starts n ''en'' then 90
      else if starts n ''wlan'' then 50
      else if starts n ''wlp'' then 50
      else 1)"

definition iface_skipped :: "bytes \<Rightarrow> bool" where
  "iface_skipped n \<longleftrightarrow> starts n ''.'' \<or> n = str_bytes ''lo'' \<or> starts n ''docker'' \<or>
     starts n ''br-'' \<or> starts n ''veth'' \<or> starts n ''virbr''"

definition pick_step :: "posix \<Rightarrow> bytes \<Rightarrow> bytes \<times> int \<Rightarrow> bytes \<times> int" where
  "pick_step s n b =
     (case b of (best, best_score) \<Rightarrow>
        if iface_skipped n then b
        else (case read_iface_mac s n (replicate 32 0) 32 of
            None \<Rightarrow> b
          | Some (mac, mac_len) \<Rightarrow>
              if mac_len < 17 then b
              else if \<not> mac_is_meaningful mac mac_len then b
              else if iface_score n > best_score then (take 63 n, iface_score n)
              else b))"

definition pick_iface :: "posix \<Rightarrow> nat \<Rightarrow> bytes option" where
  "pick_iface s cap =
     (case px_netdir s of None \<Rightarrow> None
      | Some names \<Rightarrow>
          (case fold (pick_step s) names ([], -1) of (best, best_score) \<Rightarrow>
             if best_score < 0 then None
             else if length best \<ge> cap then None
             else Some best))"

definition read_machine_id :: "posix \<Rightarrow> bytes \<Rightarrow> nat \<Rightarrow> (bytes \<times> nat) option" where
  "read_machine_id s out cap =
     (case read_text_file s (str_bytes ''/etc/machine-id'') out cap of
        Some (o1, n1) \<Rightarrow>
          if n1 > 0 then Some (o1, n1)
          else (case read_text_file s (str_bytes ''/var/lib/dbus/machine-id'') o1 cap of
              Some (o2, n2) \<Rightarrow> if n2 > 0 then Some (o2, n2) else None
            | None \<Rightarrow> None)
      | None \<Rightarrow>
          (case read_text_file s (str_bytes ''/var/lib/dbus/machine-id'') out cap of
              Some (o2, n2) \<Rightarrow> if n2 > 0 then Some (o2, n2) else None
            | None \<Rightarrow> None))"

text \<open>
  The lines \<^verbatim>\<open>fgets(line, 256, f)\<close> delivers: up to and including a newline, at most
  255 bytes at a time.
\<close>

function fgets_lines :: "bytes \<Rightarrow> bytes list" where
  "fgets_lines f =
     (if f = [] then []
      else
        let upto = length (takeWhile (\<lambda>c. c \<noteq> 0x0A) f) + 1; n = min 255 upto
        in take n f # fgets_lines (drop n f))"
  by pat_completeness auto
termination
  by (relation "measure length") (auto simp: min_def Let_def)

declare fgets_lines.simps [simp del]

text \<open>The value of a \<^verbatim>\<open>Serial\<close> line, a C string.\<close>

definition serial_value :: "bytes \<Rightarrow> bytes option" where
  "serial_value line =
     (if \<not> starts line ''Serial'' then None
      else (case dropWhile (\<lambda>c. c \<noteq> 0x3A) line of
          [] \<Rightarrow> None
        | _ # rest \<Rightarrow>
            Some (takeWhile (\<lambda>c. c \<noteq> 0x0A \<and> c \<noteq> 0x0D) (dropWhile (\<lambda>c. c = 0x20 \<or> c = 0x09) rest))))"

fun cpuinfo_serial :: "bytes list \<Rightarrow> bytes option" where
  "cpuinfo_serial [] = None"
| "cpuinfo_serial (l # ls) =
     (case serial_value (cstr l) of Some v \<Rightarrow> Some v | None \<Rightarrow> cpuinfo_serial ls)"

definition read_board_serial :: "posix \<Rightarrow> bytes \<Rightarrow> nat \<Rightarrow> bytes \<times> nat" where
  "read_board_serial s out cap =
     (let (o1, n1) =
        (case fopen_rb s (str_bytes ''/proc/cpuinfo'') of
           None \<Rightarrow> (out, 0)
         | Some f \<Rightarrow>
             (case cpuinfo_serial (fgets_lines f) of
                None \<Rightarrow> (out, 0)
              | Some v \<Rightarrow> (overlay out 0 (take cap v), length (take cap v))))
      in if n1 = 0 then
           (case read_text_file s (str_bytes ''/sys/class/dmi/id/product_uuid'') o1 cap of
              Some r \<Rightarrow> r
            | None \<Rightarrow> (o1, 0))
         else (o1, n1))"

definition px_deliver :: "bytes \<Rightarrow> bytes \<times> nat \<Rightarrow> posix \<Rightarrow> vl_status \<times> bytes \<times> nat \<times> posix" where
  "px_deliver out r s =
     (case r of (buf, len) \<Rightarrow>
        if len > length out then (VL_ERR_BUFFER_TOO_SMALL, out, 0, s)
        else (VL_OK, overlay out 0 (take len buf), len, s))"

definition px_read_id_segment :: "u32 \<Rightarrow> bytes \<Rightarrow> posix \<Rightarrow> vl_status \<times> bytes \<times> nat \<times> posix" where
  "px_read_id_segment idx out s =
     (if idx = 0 then
        (case (if px_iface s = [] then pick_iface s 64 else Some (px_iface s)) of
           None \<Rightarrow> (VL_ERR_PLATFORM, out, 0, s)
         | Some iface \<Rightarrow>
             let s1 = s\<lparr>px_iface := iface\<rparr> in
             (case read_iface_mac s1 iface (replicate 256 0) 256 of
                None \<Rightarrow> (VL_ERR_PLATFORM, out, 0, s1)
              | Some (buf, len) \<Rightarrow>
                  if len = 0 then (VL_ERR_PLATFORM, out, 0, s1) else px_deliver out (buf, len) s1))
      else if idx = 1 then
        (case read_machine_id s (replicate 256 0) 256 of
           None \<Rightarrow> (VL_ERR_PLATFORM, out, 0, s)
         | Some r \<Rightarrow> px_deliver out r s)
      else if idx = 2 then px_deliver out (read_board_serial s (replicate 256 0) 256) s
      else (VL_ERR_NO_MORE_SEGMENTS, out, 0, s))"

section \<open>Clock and storage\<close>

definition px_now_epoch :: "posix \<Rightarrow> vl_status \<times> u32 \<times> posix" where
  "px_now_epoch s =
     (let t = px_time s in
      if t < 0 \<or> t > 0xFFFFFFFF then (VL_ERR_NO_CLOCK, 0, s) else (VL_OK, word_of_int t, s))"

definition px_hwm_load :: "posix \<Rightarrow> vl_status \<times> u32 \<times> posix" where
  "px_hwm_load s =
     (case state_path s (str_bytes ''.hwm'') (VL_POSIX_PATH_MAX + 8) of
        None \<Rightarrow> (VL_ERR_PLATFORM, 0, s)
      | Some path \<Rightarrow>
          (case read_text_file s path (replicate 4 0) 4 of
             None \<Rightarrow> (VL_OK, 0, s)
           | Some (raw, len) \<Rightarrow>
               if len \<noteq> 4 then (VL_ERR_PLATFORM, 0, s) else (VL_OK, rd_le32 raw, s)))"

definition px_hwm_store :: "u32 \<Rightarrow> posix \<Rightarrow> vl_status \<times> posix" where
  "px_hwm_store value s =
     (case state_path s (str_bytes ''.hwm'') (VL_POSIX_PATH_MAX + 8) of
        None \<Rightarrow> (VL_ERR_PLATFORM, s)
      | Some path \<Rightarrow>
          write_file path
            [ucast (value AND 0xFF), ucast (drop_bit 8 value AND 0xFF),
             ucast (drop_bit 16 value AND 0xFF), ucast (drop_bit 24 value AND 0xFF)] s)"

definition px_blob_load :: "bytes \<Rightarrow> posix \<Rightarrow> vl_status \<times> bytes \<times> nat \<times> posix" where
  "px_blob_load out s =
     (if length out < 2 then (VL_ERR_INVALID_ARG, out, 0, s)
      else (case state_path s (str_bytes ''.blob'') (VL_POSIX_PATH_MAX + 8) of
          None \<Rightarrow> (VL_ERR_PLATFORM, out, 0, s)
        | Some path \<Rightarrow>
            (case read_text_file s path out (length out - 1) of
               None \<Rightarrow> (VL_ERR_NOT_FOUND, out, 0, s)
             | Some (out', len) \<Rightarrow>
                 if len = 0 then (VL_ERR_NOT_FOUND, out', 0, s)
                 else (VL_OK, out'[len := 0], len, s))))"

definition px_blob_store :: "bytes \<Rightarrow> posix \<Rightarrow> vl_status \<times> posix" where
  "px_blob_store blob s =
     (if length blob > VL_BLOB_STR_LEN then (VL_ERR_BUFFER_TOO_SMALL, s)
      else (case state_path s (str_bytes ''.blob'') (VL_POSIX_PATH_MAX + 8) of
          None \<Rightarrow> (VL_ERR_PLATFORM, s)
        | Some path \<Rightarrow> write_file path blob s))"

definition px_hal :: "posix vl_hal" where
  "px_hal =
     \<lparr>read_id_segment = Some px_read_id_segment, now_epoch = Some px_now_epoch,
      hwm_load = Some px_hwm_load, hwm_store = Some px_hwm_store,
      blob_load = Some px_blob_load, blob_store = Some px_blob_store, secure_posture = None\<rparr>"

text \<open>The entry point fills the static context; \<open>None\<close> is the NULL it returns.\<close>

definition vl_hal_posix :: "bytes option \<Rightarrow> bytes option \<Rightarrow> posix \<Rightarrow> posix vl_hal option \<times> posix" where
  "vl_hal_posix iface state_path_base s =
     (let s0 = s\<lparr>px_iface := [], px_state := []\<rparr>;
          named = (case iface of Some n \<Rightarrow> n | None \<Rightarrow> []);
          base = (case state_path_base of Some b \<Rightarrow> (if b = [] then str_bytes ''/var/lib/vectilicense/state'' else b)
                  | None \<Rightarrow> str_bytes ''/var/lib/vectilicense/state'')
      in if length named \<ge> 64 then (None, s0)
         else
           let s1 = s0\<lparr>px_iface := named\<rparr>
           in if length base \<ge> VL_POSIX_PATH_MAX then (None, s1)
              else (Some px_hal, s1\<lparr>px_state := base\<rparr>))"


section \<open>Trimming\<close>

definition trim_ws :: "bytes \<Rightarrow> bytes" where
  "trim_ws c = rev (dropWhile is_ws (rev c))"

lemma trim_ws_simps [simp]: "trim_ws [] = []" "trim_ws (c @ [x]) = (if is_ws x then trim_ws c else c @ [x])"
  by (simp_all add: trim_ws_def)

lemma length_trim_ws: "length (trim_ws c) \<le> length c"
  using length_dropWhile_le [of is_ws "rev c"] by (simp add: trim_ws_def)

lemma trim_len_spec: "trim_len (c @ rest) (length c) = length (trim_ws c) \<and> take (length (trim_ws c)) c = trim_ws c"
proof (induction c arbitrary: rest rule: rev_induct)
  case Nil
  then show ?case by simp
next
  case (snoc x c)
  then show ?case using snoc [of "x # rest"] length_trim_ws [of c] by (simp add: nth_append)
qed

lemma trim_ws_id: "c = [] \<or> \<not> is_ws (last c) \<Longrightarrow> trim_ws c = c"
  by (cases c rule: rev_cases) simp_all

lemma read_text_file_spec:
  assumes "cap \<le> length out"
  shows "read_text_file s path out cap =
    map_option (\<lambda>c. (take cap c @ drop (length (take cap c)) out, length (trim_ws (take cap c)))) (fopen_rb s path)"
  using trim_len_spec [of "take cap c" for c]
  by (auto simp: read_text_file_def overlay_def Let_def split: option.splits)

text \<open>Trailing whitespace beyond the read does not matter once the trimmed text fits.\<close>

lemma trim_ws_dropped: "\<exists>w. c = trim_ws c @ w \<and> (\<forall>x \<in> set w. is_ws x)"
proof -
  have "rev c = takeWhile is_ws (rev c) @ dropWhile is_ws (rev c)" by simp
  then have "c = rev (dropWhile is_ws (rev c)) @ rev (takeWhile is_ws (rev c))"
    by (metis rev_append rev_rev_ident)
  moreover have "\<forall>x \<in> set (rev (takeWhile is_ws (rev c))). is_ws x" by (auto dest: set_takeWhileD)
  ultimately show ?thesis unfolding trim_ws_def by blast
qed

lemma trim_ws_all_ws: "\<forall>x \<in> set w. is_ws x \<Longrightarrow> trim_ws (c @ w) = trim_ws c"
  by (induction w rule: rev_induct) (simp_all flip: append_assoc)

lemma trim_ws_idem [simp]: "trim_ws (trim_ws c) = trim_ws c"
  by (metis trim_ws_all_ws trim_ws_dropped)

lemma trim_ws_take: "length (trim_ws c) \<le> k \<Longrightarrow> trim_ws (take k c) = trim_ws c"
proof -
  assume k: "length (trim_ws c) \<le> k"
  obtain w where w: "c = trim_ws c @ w" "\<forall>x \<in> set w. is_ws x" using trim_ws_dropped by blast
  have "take k c = trim_ws c @ take (k - length (trim_ws c)) w"
    by (subst w(1)) (use k in simp)
  then show ?thesis using w(2) by (metis trim_ws_all_ws trim_ws_idem in_set_takeD)
qed

section \<open>The contracts\<close>

lemma px_deliver_length: "px_deliver out r s = (st, c, n, s') \<Longrightarrow> length (fst r) = 256 \<Longrightarrow> snd r \<le> 256 \<Longrightarrow> length c = length out"
  by (auto simp: px_deliver_def split: if_splits prod.splits)

lemma read_text_file_256:
  "read_text_file s path out cap = Some r \<Longrightarrow> length out = 256 \<Longrightarrow> cap \<le> 256 \<Longrightarrow> length (fst r) = 256 \<and> snd r \<le> 256"
  using length_trim_ws [of "take cap (the (fopen_rb s path))"]
  by (auto simp: read_text_file_spec)

lemma read_machine_id_256:
  "read_machine_id s (replicate 256 0) 256 = Some r \<Longrightarrow> length (fst r) = 256 \<and> snd r \<le> 256"
  by (auto simp: read_machine_id_def split: option.splits if_splits prod.splits dest!: read_text_file_256)

lemma read_board_serial_256:
  "length (fst (read_board_serial s (replicate 256 0) 256)) = 256 \<and> snd (read_board_serial s (replicate 256 0) 256) \<le> 256"
  by (auto simp: read_board_serial_def split: option.splits prod.splits if_splits dest!: read_text_file_256)

text \<open>What the callback finds, before it is copied to the caller's buffer.\<close>

definition px_identity :: "u32 \<Rightarrow> posix \<Rightarrow> (vl_status + bytes \<times> nat) \<times> posix" where
  "px_identity idx s =
     (if idx = 0 then
        (case (if px_iface s = [] then pick_iface s 64 else Some (px_iface s)) of
           None \<Rightarrow> (Inl VL_ERR_PLATFORM, s)
         | Some iface \<Rightarrow>
             let s1 = s\<lparr>px_iface := iface\<rparr> in
             (case read_iface_mac s1 iface (replicate 256 0) 256 of
                None \<Rightarrow> (Inl VL_ERR_PLATFORM, s1)
              | Some (buf, len) \<Rightarrow>
                  if len = 0 then (Inl VL_ERR_PLATFORM, s1) else (Inr (buf, len), s1)))
      else if idx = 1 then
        (case read_machine_id s (replicate 256 0) 256 of
           None \<Rightarrow> (Inl VL_ERR_PLATFORM, s)
         | Some r \<Rightarrow> (Inr r, s))
      else if idx = 2 then (Inr (read_board_serial s (replicate 256 0) 256), s)
      else (Inl VL_ERR_NO_MORE_SEGMENTS, s))"

lemma px_read_is_identity:
  "px_read_id_segment idx out s =
     (case px_identity idx s of
        (Inl e, s') \<Rightarrow> (e, out, 0, s')
      | (Inr r, s') \<Rightarrow> px_deliver out r s')"
  by (auto simp: px_read_id_segment_def px_identity_def Let_def split: option.splits)

lemma px_identity_256: "px_identity idx s = (Inr r, s') \<Longrightarrow> length (fst r) = 256 \<and> snd r \<le> 256"
  using read_board_serial_256 [of s] read_machine_id_256 [of s]
  by (auto simp: px_identity_def read_iface_mac_def Let_def split: if_splits option.splits
      dest!: read_text_file_256)

lemma px_identity_state: "px_identity idx s = (r, s') \<Longrightarrow> \<exists>i. s' = s\<lparr>px_iface := i\<rparr>"
  by (auto simp: px_identity_def Let_def split: if_splits option.splits intro: exI [of _ "px_iface s"])

lemma px_id_source: "id_source px_read_id_segment"
proof
  fix i b s st c n s'
  assume "px_read_id_segment i b s = (st, c, n, s')"
  then show "length c = length b"
    by (auto simp: px_read_is_identity split: prod.splits sum.splits dest!: px_identity_256 px_deliver_length)
next
  fix b1 b2 :: bytes and i s st c1 n s'
  assume "length b1 = length b2" and "px_read_id_segment i b1 s = (st, c1, n, s')"
  then show "\<exists>c2. px_read_id_segment i b2 s = (st, c2, n, s') \<and>
      (st = VL_OK \<and> n \<le> length b1 \<longrightarrow> take n c2 = take n c1)"
    by (auto simp: px_read_is_identity px_deliver_def overlay_def split: prod.splits sum.splits if_splits dest!: px_identity_256)
qed

text \<open>
  The state path as \<open>vl_hal_posix\<close> leaves it, and when the storage answers: if the two state files
  cannot be opened, \<open>hwm_load\<close> and \<open>blob_load\<close> take them for never written.
\<close>

definition px_path_ok :: "posix \<Rightarrow> bool" where
  "px_path_ok s \<longleftrightarrow> px_state s \<noteq> [] \<and> length (px_state s) < VL_POSIX_PATH_MAX"

definition px_ok :: "posix \<Rightarrow> bool" where
  "px_ok s \<longleftrightarrow> px_path_ok s \<and> px_readable s (px_state s @ str_bytes ''.hwm'') \<and>
     px_readable s (px_state s @ str_bytes ''.blob'')"

definition px_mark :: "posix \<Rightarrow> u32" where
  "px_mark s = (case px_files s (px_state s @ str_bytes ''.hwm'') of None \<Rightarrow> 0 | Some c \<Rightarrow> rd_le32 (take 4 c))"

definition px_slot :: "posix \<Rightarrow> bytes" where
  "px_slot s = (case px_files s (px_state s @ str_bytes ''.blob'') of None \<Rightarrow> [] | Some c \<Rightarrow> trim_ws c)"

lemma state_path_usable:
  "px_path_ok s \<Longrightarrow> length suffix \<le> 5 \<Longrightarrow> state_path s suffix (VL_POSIX_PATH_MAX + 8) = Some (px_state s @ suffix)"
  by (simp add: px_path_ok_def state_path_def VL_POSIX_PATH_MAX_def)

lemma state_path_ok:
  "px_ok s \<Longrightarrow> length suffix \<le> 5 \<Longrightarrow> state_path s suffix (VL_POSIX_PATH_MAX + 8) = Some (px_state s @ suffix)"
  by (simp add: px_ok_def state_path_usable)

lemma px_raw_le32: "[ucast (v AND 0xFF), ucast (drop_bit 8 v AND 0xFF),
    ucast (drop_bit 16 v AND 0xFF), ucast (drop_bit 24 v AND 0xFF)] = put_le32 v"
  by (simp add: put_le32_def low_byte32)

lemma write_file_ok: "write_file p raw s = (VL_OK, s') \<Longrightarrow> s' = s\<lparr>px_files := (px_files s)(p \<mapsto> raw)\<rparr>"
  by (auto simp: write_file_def Let_def split: if_splits)

lemma px_hwm_store_ok:
  assumes "px_path_ok s" and "px_hwm_store v s = (VL_OK, s')"
  shows "s' = s\<lparr>px_files := (px_files s)(px_state s @ str_bytes ''.hwm'' \<mapsto> put_le32 v)\<rparr>"
  using assms by (auto simp: px_hwm_store_def state_path_usable px_raw_le32 dest: write_file_ok)

text \<open>
  The mark is stored as four raw bytes and read back through the helper for text files, so
  a mark whose top byte is a whitespace character comes back short and is refused.
\<close>

lemma px_hwm_load_stored:
  assumes "px_ok s" and "px_hwm_store v s = (VL_OK, s')"
  shows "px_hwm_load s' = (if is_ws (ucast (drop_bit 24 v)) then (VL_ERR_PLATFORM, 0, s') else (VL_OK, v, s'))"
proof -
  have s': "s' = s\<lparr>px_files := (px_files s)(px_state s @ str_bytes ''.hwm'' \<mapsto> put_le32 v)\<rparr>"
    using assms by (intro px_hwm_store_ok) (simp_all add: px_ok_def)
  have ok: "px_ok s'" using assms(1) by (simp add: s' px_ok_def px_path_ok_def)
  have "fopen_rb s' (px_state s' @ str_bytes ''.hwm'') = Some (put_le32 v)"
    using assms(1) by (simp add: s' fopen_rb_def px_ok_def)
  moreover have "put_le32 v = take 3 (put_le32 v) @ [ucast (drop_bit 24 v)]" by (simp add: put_le32_def)
  then have "trim_ws (put_le32 v) = (if is_ws (ucast (drop_bit 24 v)) then trim_ws (take 3 (put_le32 v)) else put_le32 v)"
    using trim_ws_simps(2) [of "take 3 (put_le32 v)"] by metis
  then have "length (trim_ws (put_le32 v)) = 4 \<longleftrightarrow> \<not> is_ws (ucast (drop_bit 24 v))"
    using length_trim_ws [of "take 3 (put_le32 v)"] by auto
  ultimately show ?thesis
    by (simp add: px_hwm_load_def state_path_ok [OF ok] read_text_file_spec)
qed


lemma px_hwm_load_mark: "px_ok s \<Longrightarrow> px_hwm_load s = (VL_OK, m, s') \<Longrightarrow> m = px_mark s"
proof -
  assume ok: "px_ok s" and l: "px_hwm_load s = (VL_OK, m, s')"
  show "m = px_mark s"
  proof (cases "px_files s (px_state s @ str_bytes ''.hwm'')")
    case None
    then show ?thesis
      using ok l by (auto simp: px_hwm_load_def state_path_ok read_text_file_spec fopen_rb_def px_mark_def px_ok_def)
  next
    case (Some c)
    have "length (take 4 c) = 4" if "length (trim_ws (take 4 c)) = 4"
      using length_trim_ws [of "take 4 c"] that by simp
    then show ?thesis
      using ok l Some
      by (auto simp: px_hwm_load_def state_path_ok read_text_file_spec fopen_rb_def px_mark_def px_ok_def
          split: if_splits)
  qed
qed

interpretation px_id: id_source px_read_id_segment
  by (rule px_id_source)

interpretation px_hwm: hwm_device px_read_id_segment px_now_epoch px_hwm_load px_hwm_store px_ok px_mark
proof unfold_locales
  fix s i b st c n s'
  assume ok: "px_ok s" and r: "px_read_id_segment i b s = (st, c, n, s')"
  obtain q s1 where q: "px_identity i s = (q, s1)" by fastforce
  then have "s' = s1" using r by (cases q) (auto simp: px_read_is_identity px_deliver_def split: if_splits prod.splits)
  with px_identity_state [OF q] ok show "px_ok s' \<and> px_mark s' = px_mark s"
    by (auto simp: px_ok_def px_path_ok_def px_mark_def)
next
  fix s st t s'
  assume "px_ok s" and "px_now_epoch s = (st, t, s')"
  then show "px_ok s' \<and> px_mark s' = px_mark s" by (auto simp: px_now_epoch_def Let_def split: if_splits)
next
  fix s st m s'
  assume "px_ok s" and "px_hwm_load s = (st, m, s')"
  then show "px_ok s' \<and> px_mark s' = px_mark s"
    by (auto simp: px_hwm_load_def split: option.splits if_splits prod.splits)
next
  fix s m s'
  assume "px_ok s" and "px_hwm_load s = (VL_OK, m, s')"
  then show "m = px_mark s" by (rule px_hwm_load_mark)
next
  fix s v s'
  assume "px_ok s" and "px_hwm_store v s = (VL_OK, s')"
  then have "s' = s\<lparr>px_files := (px_files s)(px_state s @ str_bytes ''.hwm'' \<mapsto> put_le32 v)\<rparr>"
    by (intro px_hwm_store_ok) (simp_all add: px_ok_def)
  then show "px_mark s' = v" by (simp add: px_mark_def)
qed

text \<open>The slot is the file without its trailing whitespace.\<close>

lemma px_blob_load_spec:
  assumes "px_ok s" and "2 \<le> length buf" and "length (px_slot s) + 1 \<le> length buf"
  shows "if px_slot s = [] then \<exists>c n. px_blob_load buf s = (VL_ERR_NOT_FOUND, c, n, s)
    else \<exists>rest. px_blob_load buf s = (VL_OK, px_slot s @ 0 # rest, length (px_slot s), s)"
proof (cases "px_files s (px_state s @ str_bytes ''.blob'')")
  case None
  then show ?thesis
    using assms by (auto simp: px_blob_load_def state_path_ok read_text_file_spec fopen_rb_def px_slot_def px_ok_def)
next
  case (Some c)
  let ?k = "length buf - 1" and ?t = "trim_ws c"
  have slot: "px_slot s = ?t" by (simp add: px_slot_def Some)
  have fit: "length ?t \<le> ?k" using assms(3) slot by simp
  have trim: "trim_ws (take ?k c) = ?t" using fit by (intro trim_ws_take) simp
  let ?out = "take ?k c @ drop (length (take ?k c)) buf"
  have load: "px_blob_load buf s = (if ?t = [] then (VL_ERR_NOT_FOUND, ?out, 0, s)
      else (VL_OK, ?out[length ?t := 0], length ?t, s))"
    using assms Some trim
    by (auto simp: px_blob_load_def state_path_ok read_text_file_spec fopen_rb_def px_ok_def)
  have "take (length ?t) ?out = ?t"
  proof -
    obtain w where "take ?k c = ?t @ w" using trim trim_ws_dropped [of "take ?k c"] by metis
    then show ?thesis by simp
  qed
  moreover have "length ?t < length ?out" using fit assms(2) by simp
  ultimately have "?out[length ?t := 0] = ?t @ 0 # drop (Suc (length ?t)) ?out"
    by (simp add: upd_conv_take_nth_drop)
  with load show ?thesis unfolding slot by auto
qed

interpretation px_blob: blob_storage px_blob_load px_blob_store px_ok "\<lambda>b. b = [] \<or> \<not> is_ws (last b)" px_slot
proof
  fix s b s'
  assume ok: "px_ok s" and b: "b = [] \<or> \<not> is_ws (last b)" and st: "px_blob_store b s = (VL_OK, s')"
  have "s' = s\<lparr>px_files := (px_files s)(px_state s @ str_bytes ''.blob'' \<mapsto> b)\<rparr>"
    using ok st by (auto simp: px_blob_store_def state_path_ok split: if_splits dest: write_file_ok)
  then show "px_slot s' = b \<and> px_ok s'" using b ok
    by (simp add: px_slot_def px_ok_def px_path_ok_def trim_ws_id)
next
  fix s and buf :: bytes
  assume "px_ok s" and "px_slot s \<noteq> []" and "length (px_slot s) + 1 \<le> length buf"
  moreover from this have "2 \<le> length buf" by (cases "px_slot s") simp_all
  ultimately show "\<exists>rest s'. px_blob_load buf s = (VL_OK, px_slot s @ 0 # rest, length (px_slot s), s') \<and>
      px_slot s' = px_slot s \<and> px_ok s'"
    using px_blob_load_spec [of s buf] by auto
next
  fix s and buf :: bytes
  assume "px_ok s" and "px_slot s = []" and "2 \<le> length buf"
  then show "\<exists>c n s'. px_blob_load buf s = (VL_ERR_NOT_FOUND, c, n, s')"
    using px_blob_load_spec [of s buf] by fastforce
qed

end
