(* ===== verification/VL_Rollback.thy ===== *)
theory VL_Rollback
  imports VL_Hal_Posix
begin

text \<open>
  The high-water mark over the life of a machine: a history of checks between which the clock, the
  files, who may read or write them and the room on the disk may change in any way, except that nothing
  but the checks writes the mark file. \<open>px_guard t\<close> is the lower bound that protects what has been
  accepted: the mark file, if it holds a mark, holds one not below \<open>t\<close>. A store that fails half-way
  leaves a file that holds none and that the next check refuses, so the bound survives it. A check that
  cannot open the mark file takes it for never written, so the bound does not protect that check.
\<close>

lemma px_pure:
  assumes "px_iface s \<noteq> []"
  shows "pure_reads px_hal s"
proof -
  have "snd (px_identity i s) = s" for i
    using assms by (auto simp: px_identity_def Let_def split: option.splits)
  then have "snd (snd (snd (px_read_id_segment i b s))) = s" for i b
  proof -
    obtain r s' where r: "px_identity i s = (r, s')" by (cases "px_identity i s")
    then have "s' = s" using \<open>\<And>i. snd (px_identity i s) = s\<close> [of i] by simp
    then show ?thesis using r by (simp add: px_read_is_identity px_deliver_def split: sum.splits prod.splits)
  qed
  moreover have "snd (snd (px_now_epoch s)) = s" by (simp add: px_now_epoch_def Let_def)
  moreover have "snd (snd (px_hwm_load s)) = s"
    by (auto simp: px_hwm_load_def split: option.splits prod.splits)
  ultimately show ?thesis by (simp add: pure_reads_def px_hal_def)
qed

section \<open>An accepted check and the mark\<close>

text \<open>\<open>s'\<close> is \<open>s\<close> with its mark, which was not above \<open>now\<close>, moved up to \<open>now\<close>.\<close>

definition moved_up :: "('s \<Rightarrow> vl_status \<times> u32 \<times> 's) \<Rightarrow> (u32 \<Rightarrow> 's \<Rightarrow> vl_status \<times> 's) \<Rightarrow> u32 \<Rightarrow> 's \<Rightarrow> 's \<Rightarrow> bool" where
  "moved_up load store now s s' \<longleftrightarrow>
     (\<exists>m. load s = (VL_OK, m, s) \<and> m \<le> now \<and> (if m < now then store now s = (VL_OK, s') else s' = s))"

lemma verify_hwm_accepts:
  assumes "pure_reads hal s" and "hwm_load hal = Some load" and "hwm_store hal = Some store"
    and "verify_hwm hal now lic s = (VL_OK, lic', s')"
  shows "moved_up load store now s s'"
proof -
  obtain e m s1 where l: "load s = (e, m, s1)" by (metis surj_pair)
  have "s1 = s" using assms(1,2) l by (auto simp: pure_reads_def)
  then show ?thesis
    using assms(2-4) l by (auto simp: verify_hwm_def moved_up_def split: if_splits prod.splits)
qed

lemma verify_time_accepts:
  assumes p: "pure_reads hal s" and fl: "fl AND VL_FLAG_ENFORCE_HWM \<noteq> 0" and clk: "now_epoch hal = Some clk"
    and h: "hwm_load hal = Some load" "hwm_store hal = Some store"
    and v: "verify_time fl hal lic s = (VL_OK, lic', s')"
  shows "\<exists>now. clk s = (VL_OK, now, s) \<and> moved_up load store now s s'"
proof -
  obtain cs now s1 where c: "clk s = (cs, now, s1)" by (cases "clk s")
  then have "s1 = s" using p clk by (auto simp: pure_reads_def)
  then show ?thesis
    using v fl c verify_hwm_accepts [OF p h] by (auto simp: verify_time_def clk Let_def split: if_splits)
qed

lemma verify_signed_accepts:
  assumes p: "pure_reads hal s" and h: "flags cfg AND VL_FLAG_ENFORCE_HWM \<noteq> 0" "now_epoch hal = Some clk"
    "hwm_load hal = Some load" "hwm_store hal = Some store"
    and v: "verify_signed V cfg hal bin pk s = (VL_OK, lic', s')"
  shows "\<exists>now. clk s = (VL_OK, now, s) \<and> moved_up load store now s s'"
proof -
  obtain rc fp s1 where f: "vl_compute_fingerprint (Some hal) (Some (replicate VL_FINGERPRINT_LEN 0)) s = (rc, fp, s1)"
    by (metis surj_pair)
  have "s1 = s" by (rule fingerprint_pure [OF p f])
  then show ?thesis
    using v f by (auto simp: verify_signed_def Let_def split: if_splits option.splits dest: verify_time_accepts [OF p h])
qed

lemma vl_verify_accepts:
  assumes p: "pure_reads hal s" and h: "flags cfg AND VL_FLAG_ENFORCE_HWM \<noteq> 0" "now_epoch hal = Some clk"
    "hwm_load hal = Some load" "hwm_store hal = Some store"
    and v: "vl_verify_with V blob (Some cfg) (Some hal) out s = (VL_OK, out', s')"
  shows "\<exists>now. clk s = (VL_OK, now, s) \<and> moved_up load store now s s'"
proof -
  obtain b ks lic where "verify_blob V b cfg hal ks s = (VL_OK, lic, s')"
    using v by (auto simp: vl_verify_with_def Let_def split: option.splits if_splits prod.splits)
  then show ?thesis
    by (auto simp: verify_blob_def Let_def split: option.splits if_splits prod.splits
        dest: verify_signed_accepts [OF p h])
qed

section \<open>The lower bound\<close>

definition px_guard :: "u32 \<Rightarrow> posix \<Rightarrow> bool" where
  "px_guard t s \<longleftrightarrow>
     (case px_files s (px_state s @ str_bytes ''.hwm'') of None \<Rightarrow> t = 0
      | Some c \<Rightarrow> length (trim_ws (take 4 c)) = 4 \<longrightarrow> t \<le> rd_le32 (take 4 c))"

lemma px_guard_0 [simp]: "px_guard 0 s"
  by (simp add: px_guard_def split: option.split)

lemma px_guard_mono: "px_guard t s \<Longrightarrow> u \<le> t \<Longrightarrow> px_guard u s"
  by (auto simp: px_guard_def split: option.splits)

text \<open>What the callback answers when the file can be opened, and when it cannot.\<close>

lemma px_hwm_load_opened:
  assumes "px_path_ok s" and "px_readable s (px_state s @ str_bytes ''.hwm'')" and "px_hwm_load s = (VL_OK, m, s')"
  shows "px_guard t s \<longleftrightarrow> t \<le> m"
proof (cases "px_files s (px_state s @ str_bytes ''.hwm'')")
  case None
  then show ?thesis
    using assms by (auto simp: px_hwm_load_def state_path_usable read_text_file_spec fopen_rb_def px_guard_def)
next
  case (Some c)
  have "length (take 4 c) = 4" if "length (trim_ws (take 4 c)) = 4"
    using length_trim_ws [of "take 4 c"] that by simp
  then show ?thesis
    using assms Some
    by (auto simp: px_hwm_load_def state_path_usable read_text_file_spec fopen_rb_def px_guard_def split: if_splits)
qed

lemma px_hwm_load_unopened:
  "px_path_ok s \<Longrightarrow> \<not> px_readable s (px_state s @ str_bytes ''.hwm'') \<Longrightarrow> px_hwm_load s = (VL_OK, 0, s)"
  by (simp add: px_hwm_load_def state_path_usable read_text_file_def fopen_rb_def)

text \<open>A store that succeeds sets the bound; one that fails changes nothing or leaves less than four bytes.\<close>

lemma px_store_frame:
  "px_path_ok (snd (px_hwm_store v s)) = px_path_ok s \<and> px_iface (snd (px_hwm_store v s)) = px_iface s \<and>
   px_state (snd (px_hwm_store v s)) = px_state s"
  by (simp add: px_hwm_store_def write_file_def px_path_ok_def Let_def split: option.splits)

lemma px_guard_stored:
  assumes "px_path_ok s" and "px_hwm_store v s = (VL_OK, s')"
  shows "px_guard v s'"
  using px_hwm_store_ok [OF assms] by (simp add: px_guard_def)

lemma px_guard_failed_store:
  assumes ok: "px_path_ok s" and bad: "fst (px_hwm_store v s) \<noteq> VL_OK" and g: "px_guard t s"
  shows "px_guard t (snd (px_hwm_store v s))"
proof -
  let ?p = "px_state s @ str_bytes ''.hwm''"
  have path: "state_path s (str_bytes ''.hwm'') (VL_POSIX_PATH_MAX + 8) = Some ?p"
    using state_path_usable [OF ok] by simp
  show ?thesis
  proof (cases "px_writable s ?p")
    case False
    then show ?thesis using g path by (simp add: px_hwm_store_def write_file_def)
  next
    case True
    have "min (px_room s ?p) 4 < 4" using bad True path by (auto simp: px_hwm_store_def write_file_def Let_def split: if_splits)
    moreover have "px_files (snd (px_hwm_store v s)) ?p = Some (take (min (px_room s ?p) 4) (put_le32 v))"
      using True path by (auto simp: px_hwm_store_def write_file_def Let_def px_raw_le32)
    ultimately obtain n where n: "n < 4" "px_files (snd (px_hwm_store v s)) ?p = Some (take n (put_le32 v))" by metis
    have "length (trim_ws (take 4 (take n (put_le32 v)))) \<noteq> 4"
      using length_trim_ws [of "take 4 (take n (put_le32 v))"] n(1) by simp
    then show ?thesis using n px_store_frame [of v s] by (simp add: px_guard_def)
  qed
qed

section \<open>One check\<close>

lemma px_check_guard:
  assumes ok: "px_path_ok s" and iface: "px_iface s \<noteq> []" and fl: "flags cfg AND VL_FLAG_ENFORCE_HWM \<noteq> 0"
    and v: "vl_verify_with V (Some b) (Some cfg) (Some px_hal) out s = (st, out', s')"
  shows "px_path_ok s' \<and> px_iface s' \<noteq> [] \<and> px_state s' = px_state s"
    and "st \<noteq> VL_OK \<Longrightarrow> px_guard t s \<Longrightarrow> px_guard t s'"
    and "st = VL_OK \<Longrightarrow> 0 \<le> px_time s \<and> px_time s \<le> 0xFFFFFFFF \<and> px_guard (word_of_int (px_time s)) s'"
    and "st = VL_OK \<Longrightarrow> px_readable s (px_state s @ str_bytes ''.hwm'') \<Longrightarrow> px_guard t s \<Longrightarrow> t \<le> word_of_int (px_time s)"
proof -
  have hal: "now_epoch px_hal = Some px_now_epoch" "hwm_load px_hal = Some px_hwm_load" "hwm_store px_hal = Some px_hwm_store"
    by (simp_all add: px_hal_def)
  note pure = vl_verify_pure [OF px_pure [OF iface] v]
  show "px_path_ok s' \<and> px_iface s' \<noteq> [] \<and> px_state s' = px_state s"
    using pure ok iface px_store_frame by (auto simp: only_marked_def hal)
  show "px_guard t s'" if "st \<noteq> VL_OK" "px_guard t s"
    using pure that px_guard_failed_store [OF ok] by (auto simp: only_marked_def hal)
  have acc: "0 \<le> px_time s \<and> px_time s \<le> 0xFFFFFFFF \<and> moved_up px_hwm_load px_hwm_store (word_of_int (px_time s)) s s'"
    if "st = VL_OK"
    using vl_verify_accepts [OF px_pure [OF iface] fl hal v [unfolded that]]
    by (auto simp: px_now_epoch_def Let_def split: if_splits)
  show "t \<le> word_of_int (px_time s)" if "st = VL_OK" "px_readable s (px_state s @ str_bytes ''.hwm'')" "px_guard t s"
    using acc [OF that(1)] px_hwm_load_opened [OF ok that(2)] that(3) by (auto simp: moved_up_def)
  show "0 \<le> px_time s \<and> px_time s \<le> 0xFFFFFFFF \<and> px_guard (word_of_int (px_time s)) s'" if accepted: "st = VL_OK"
  proof -
    obtain m where m: "px_hwm_load s = (VL_OK, m, s)" "m \<le> word_of_int (px_time s)"
      and s': "if m < word_of_int (px_time s) then px_hwm_store (word_of_int (px_time s)) s = (VL_OK, s') else s' = s"
      using acc [OF accepted] by (auto simp: moved_up_def)
    have "px_guard m s"
      using m(1) px_hwm_load_opened [OF ok _ m(1), of m] px_hwm_load_unopened [OF ok] by fastforce
    then show ?thesis
      using acc [OF accepted] s' m(2) px_guard_stored [OF ok] by (auto split: if_splits)
  qed
qed

section \<open>Histories\<close>

text \<open>
  At each check the surroundings are those of some machine \<open>e\<close>: its clock, files, permissions, room and
  network interfaces. What stays is what the process keeps and the mark file.
\<close>

definition px_env :: "posix \<Rightarrow> posix \<Rightarrow> posix" where
  "px_env e s =
     (let p = px_state s @ str_bytes ''.hwm''
      in e\<lparr>px_iface := px_iface s, px_state := px_state s, px_files := (px_files e)(p := px_files s p)\<rparr>)"

lemma px_env_simps [simp]:
  "px_iface (px_env e s) = px_iface s" "px_state (px_env e s) = px_state s" "px_time (px_env e s) = px_time e"
  "px_path_ok (px_env e s) = px_path_ok s" "px_guard t (px_env e s) = px_guard t s"
  by (simp_all add: px_env_def px_path_ok_def px_guard_def Let_def)

text \<open>The machine at each check and the status of the check.\<close>

fun px_history :: "sigcheck \<Rightarrow> vl_config \<Rightarrow> (posix \<times> bytes) list \<Rightarrow> posix \<Rightarrow> (posix \<times> vl_status) list" where
  "px_history V cfg [] s = []"
| "px_history V cfg ((e, b) # es) s =
     (case vl_verify_with V (Some b) (Some cfg) (Some px_hal) None (px_env e s) of
        (st, _, s') \<Rightarrow> (px_env e s, st) # px_history V cfg es s')"

text \<open>A check that accepts a clock below \<open>t\<close> without having been able to open the mark file that is there.\<close>

definition mark_unread :: "bytes \<Rightarrow> int \<Rightarrow> posix \<times> vl_status \<Rightarrow> bool" where
  "mark_unread p t c \<longleftrightarrow>
     snd c = VL_OK \<and> px_time (fst c) < t \<and> px_files (fst c) p \<noteq> None \<and> \<not> px_readable (fst c) p"

lemma uint_time: "0 \<le> t \<Longrightarrow> t \<le> 0xFFFFFFFF \<Longrightarrow> uint (word_of_int t :: u32) = t"
  by (simp add: uint_word_of_int)

text \<open>Below the bound, only such a check accepts.\<close>

lemma px_history_below:
  assumes "px_path_ok s" and "px_iface s \<noteq> []" and fl: "flags cfg AND VL_FLAG_ENFORCE_HWM \<noteq> 0" and "px_guard t s"
    and "j < length (px_history V cfg es s)" and "snd (px_history V cfg es s ! j) = VL_OK"
    and "px_time (fst (px_history V cfg es s ! j)) < uint t"
  shows "\<exists>k \<le> j. mark_unread (px_state s @ str_bytes ''.hwm'') (uint t) (px_history V cfg es s ! k)"
  using assms(1,2,4-7)
proof (induction es arbitrary: s j)
  case Nil
  then show ?case by simp
next
  case (Cons x es)
  obtain e b where x: "x = (e, b)" by fastforce
  obtain st out' s' where v: "vl_verify_with V (Some b) (Some cfg) (Some px_hal) None (px_env e s) = (st, out', s')"
    by (metis surj_pair)
  let ?p = "px_state s @ str_bytes ''.hwm''"
  note g = px_check_guard [OF _ _ fl v, simplified, OF Cons.prems(1,2)]
  have h: "px_history V cfg (x # es) s = (px_env e s, st) # px_history V cfg es s'" by (simp add: x v)
  show ?case
  proof (cases "mark_unread ?p (uint t) (px_env e s, st)")
    case True
    then show ?thesis by (intro exI [of _ 0]) (simp add: h)
  next
    case False
    have at_least: "uint t \<le> px_time e" if "st = VL_OK"
    proof (cases "px_readable (px_env e s) ?p")
      case True
      then show ?thesis using g(3) g(4) [where t = t] that Cons.prems(3) uint_time [of "px_time e"] by (simp add: word_le_def)
    next
      case unread: False
      show ?thesis
      proof (cases "px_files s ?p")
        case None
        then show ?thesis using g(3) that Cons.prems(3) by (simp add: px_guard_def)
      next
        case (Some c)
        then have "px_files (px_env e s) ?p \<noteq> None" by (simp add: px_env_def)
        then show ?thesis using False unread that by (simp add: mark_unread_def)
      qed
    qed
    have "px_guard t s'"
      using g(2) [where t = t] g(3) Cons.prems(3) at_least uint_time [of "px_time e"] px_guard_mono
      by (cases "st = VL_OK") (auto simp: word_le_def)
    moreover obtain j' where "j = Suc j'" using Cons.prems(4-6) at_least by (cases j) (auto simp: h)
    ultimately obtain k where "k \<le> j'" "mark_unread ?p (uint t) (px_history V cfg es s' ! k)"
      using Cons.IH [of s' j'] Cons.prems(4-6) g(1) by (auto simp: h)
    then show ?thesis using \<open>j = Suc j'\<close> by (intro exI [of _ "Suc k"]) (simp add: h)
  qed
qed

text \<open>So if a later check accepts an earlier clock, one of those after the first did.\<close>

lemma px_history_back:
  assumes "px_path_ok s" and "px_iface s \<noteq> []" and fl: "flags cfg AND VL_FLAG_ENFORCE_HWM \<noteq> 0"
    and "i < j" and "j < length (px_history V cfg es s)"
    and "snd (px_history V cfg es s ! i) = VL_OK" and "snd (px_history V cfg es s ! j) = VL_OK"
    and "px_time (fst (px_history V cfg es s ! j)) < px_time (fst (px_history V cfg es s ! i))"
  shows "\<exists>k. i < k \<and> k \<le> j \<and>
    mark_unread (px_state s @ str_bytes ''.hwm'') (px_time (fst (px_history V cfg es s ! i))) (px_history V cfg es s ! k)"
  using assms(1,2,4-8)
proof (induction es arbitrary: s i j)
  case Nil
  then show ?case by simp
next
  case (Cons x es)
  obtain e b where x: "x = (e, b)" by fastforce
  obtain st out' s' where v: "vl_verify_with V (Some b) (Some cfg) (Some px_hal) None (px_env e s) = (st, out', s')"
    by (metis surj_pair)
  note g = px_check_guard [OF _ _ fl v, simplified, OF Cons.prems(1,2)]
  have h: "px_history V cfg (x # es) s = (px_env e s, st) # px_history V cfg es s'" by (simp add: x v)
  obtain j' where j: "j = Suc j'" using Cons.prems(3) by (cases j) auto
  show ?case
  proof (cases i)
    case 0
    have t: "0 \<le> px_time e" "px_time e \<le> 0xFFFFFFFF" "px_guard (word_of_int (px_time e)) s'"
      using g(3) Cons.prems(5) by (auto simp: h 0)
    have "\<exists>k \<le> j'. mark_unread (px_state s' @ str_bytes ''.hwm'') (uint (word_of_int (px_time e) :: u32)) (px_history V cfg es s' ! k)"
      using Cons.prems(4,6,7) g(1) t by (intro px_history_below [OF _ _ fl t(3)]) (auto simp: h 0 j uint_time)
    then obtain k where "k \<le> j'" "mark_unread (px_state s @ str_bytes ''.hwm'') (px_time e) (px_history V cfg es s' ! k)"
      using g(1) uint_time [OF t(1,2)] by auto
    then show ?thesis by (intro exI [of _ "Suc k"]) (simp add: h 0 j)
  next
    case (Suc i')
    then obtain k where "i' < k" "k \<le> j'"
      "mark_unread (px_state s @ str_bytes ''.hwm'') (px_time (fst (px_history V cfg es s' ! i'))) (px_history V cfg es s' ! k)"
      using Cons.IH [of s' i' j'] Cons.prems(3-7) g(1) by (auto simp: h j)
    then show ?thesis by (intro exI [of _ "Suc k"]) (simp add: h Suc j)
  qed
qed

end
