(* ===== verification/VL_Hal_Rp2040.thy ===== *)
theory VL_Hal_Rp2040
  imports VL_Hal
begin

text \<open>
  \<^verbatim>\<open>hal/rp2040/vl_hal_rp2040.c\<close>: identity and storage on one flash page. The pico-sdk
  is a parameter, the record \<open>rp_sdk\<close> of the calls the file makes over a board state:
  the bytes mapped at the reserved offset, erase, program and the unique board id. The
  record lies in flash as the little-endian ARM ABI lays the struct out, three bytes of tail
  padding included. Nothing is assumed of erase and program: the read-back in
  \<open>record_write\<close> makes a reported success a fact about the flash.
\<close>

section \<open>The sdk and the record\<close>

definition FLASH_PAGE_SIZE :: nat where "FLASH_PAGE_SIZE = 256"
definition FLASH_SECTOR_SIZE :: nat where "FLASH_SECTOR_SIZE = 4096"
definition PICO_UNIQUE_BOARD_ID_SIZE_BYTES :: nat where "PICO_UNIQUE_BOARD_ID_SIZE_BYTES = 8"
definition VL_RP_MAGIC :: u32 where "VL_RP_MAGIC = 0x564C3031"

record 's rp_sdk =
  xip :: "'s \<Rightarrow> nat \<Rightarrow> u8"
  flash_range_erase :: "nat \<Rightarrow> 's \<Rightarrow> 's"
  flash_range_program :: "bytes \<Rightarrow> 's \<Rightarrow> 's"
  get_board_id :: "'s \<Rightarrow> nat \<Rightarrow> u8"

record vl_rp_record =
  rp_magic :: u32
  rp_hwm :: u32
  rp_blob_len :: u32
  rp_blob :: bytes
  rp_pad :: bytes

definition VL_RP_RECORD_SIZE :: nat where "VL_RP_RECORD_SIZE = 12 + VL_BLOB_STR_BUF_LEN + 3"

definition xip_bytes :: "'s rp_sdk \<Rightarrow> 's \<Rightarrow> nat \<Rightarrow> bytes" where
  "xip_bytes d s n = map (xip d s) [0..<n]"

definition rp_decode :: "bytes \<Rightarrow> vl_rp_record" where
  "rp_decode m =
     \<lparr>rp_magic = rd_le32 m, rp_hwm = rd_le32 (drop 4 m), rp_blob_len = rd_le32 (drop 8 m),
      rp_blob = take VL_BLOB_STR_BUF_LEN (drop 12 m),
      rp_pad = take 3 (drop (12 + VL_BLOB_STR_BUF_LEN) m)\<rparr>"

definition rp_encode :: "vl_rp_record \<Rightarrow> bytes" where
  "rp_encode r = put_le32 (rp_magic r) @ put_le32 (rp_hwm r) @ put_le32 (rp_blob_len r) @ rp_blob r @ rp_pad r"

definition rp_zero :: vl_rp_record where
  "rp_zero = \<lparr>rp_magic = 0, rp_hwm = 0, rp_blob_len = 0,
     rp_blob = replicate VL_BLOB_STR_BUF_LEN 0, rp_pad = replicate 3 0\<rparr>"

section \<open>Reading and writing the record\<close>

definition record_read :: "'s rp_sdk \<Rightarrow> 's \<Rightarrow> vl_rp_record" where
  "record_read d s =
     (let rec = rp_decode (xip_bytes d s VL_RP_RECORD_SIZE);
          rec = (if rp_magic rec \<noteq> VL_RP_MAGIC \<or> unat (rp_blob_len rec) > VL_BLOB_STR_LEN
                 then rp_zero\<lparr>rp_magic := VL_RP_MAGIC\<rparr> else rec)
      in rec\<lparr>rp_blob := (rp_blob rec)[VL_BLOB_STR_LEN := 0]\<rparr>)"

definition record_write :: "'s rp_sdk \<Rightarrow> vl_rp_record \<Rightarrow> 's \<Rightarrow> vl_status \<times> 's" where
  "record_write d rec s =
     (if VL_RP_RECORD_SIZE > FLASH_PAGE_SIZE then (VL_ERR_INTERNAL, s)
      else
        let page = overlay (replicate FLASH_PAGE_SIZE 0xFF) 0 (rp_encode rec);
            s1 = flash_range_erase d FLASH_SECTOR_SIZE s;
            s2 = flash_range_program d page s1
        in if xip_bytes d s2 FLASH_PAGE_SIZE \<noteq> page then (VL_ERR_PLATFORM, s2) else (VL_OK, s2))"

section \<open>The callbacks\<close>

definition rp_read_id_segment :: "'s rp_sdk \<Rightarrow> u32 \<Rightarrow> bytes \<Rightarrow> 's \<Rightarrow> vl_status \<times> bytes \<times> nat \<times> 's" where
  "rp_read_id_segment d idx out s =
     (if idx \<noteq> 0 then (VL_ERR_NO_MORE_SEGMENTS, out, 0, s)
      else if length out < PICO_UNIQUE_BOARD_ID_SIZE_BYTES then (VL_ERR_BUFFER_TOO_SMALL, out, 0, s)
      else
        let uid = map (get_board_id d s) [0..<PICO_UNIQUE_BOARD_ID_SIZE_BYTES];
            any = fold (\<lambda>b a. a OR b) uid 0;
            all = fold (\<lambda>b a. a AND b) uid 0xFF
        in if any = 0 then (VL_ERR_PLATFORM, out, 0, s)
           else if all = 0xFF then (VL_ERR_PLATFORM, out, 0, s)
           else (VL_OK, overlay out 0 uid, PICO_UNIQUE_BOARD_ID_SIZE_BYTES, s))"

definition rp_hwm_load :: "'s rp_sdk \<Rightarrow> 's \<Rightarrow> vl_status \<times> u32 \<times> 's" where
  "rp_hwm_load d s = (VL_OK, rp_hwm (record_read d s), s)"

definition rp_hwm_store :: "'s rp_sdk \<Rightarrow> u32 \<Rightarrow> 's \<Rightarrow> vl_status \<times> 's" where
  "rp_hwm_store d value s =
     (let rec = record_read d s in
      if rp_hwm rec = value then (VL_OK, s)
      else record_write d (rec\<lparr>rp_hwm := value\<rparr>) s)"

definition rp_blob_load :: "'s rp_sdk \<Rightarrow> bytes \<Rightarrow> 's \<Rightarrow> vl_status \<times> bytes \<times> nat \<times> 's" where
  "rp_blob_load d out s =
     (if length out = 0 then (VL_ERR_INVALID_ARG, out, 0, s)
      else
        let rec = record_read d s; n = unat (rp_blob_len rec) in
        if rp_blob_len rec = 0 then (VL_ERR_NOT_FOUND, out, 0, s)
        else if n + 1 > length out then (VL_ERR_BUFFER_TOO_SMALL, out, 0, s)
        else (VL_OK, overlay (overlay out 0 (take n (rp_blob rec))) n [0], n, s))"

text \<open>\<open>blob\<close> holds the \<^verbatim>\<open>len\<close> bytes of the call.\<close>

definition rp_blob_store :: "'s rp_sdk \<Rightarrow> bytes \<Rightarrow> 's \<Rightarrow> vl_status \<times> 's" where
  "rp_blob_store d blob s =
     (if length blob > VL_BLOB_STR_LEN then (VL_ERR_BUFFER_TOO_SMALL, s)
      else
        let rec = record_read d s;
            rec = rec\<lparr>rp_blob := overlay (replicate VL_BLOB_STR_BUF_LEN 0) 0 blob,
                       rp_blob_len := word_of_nat (length blob)\<rparr>
        in record_write d rec s)"

definition vl_hal_rp2040 :: "'s rp_sdk \<Rightarrow> 's vl_hal" where
  "vl_hal_rp2040 d =
     \<lparr>read_id_segment = Some (rp_read_id_segment d), now_epoch = None,
      hwm_load = Some (rp_hwm_load d), hwm_store = Some (rp_hwm_store d),
      blob_load = Some (rp_blob_load d), blob_store = Some (rp_blob_store d),
      secure_posture = None\<rparr>"

section \<open>A written record is read back\<close>

definition rp_wf :: "vl_rp_record \<Rightarrow> bool" where
  "rp_wf r \<longleftrightarrow> rp_magic r = VL_RP_MAGIC \<and> unat (rp_blob_len r) \<le> VL_BLOB_STR_LEN \<and>
     length (rp_blob r) = VL_BLOB_STR_BUF_LEN \<and> rp_blob r ! VL_BLOB_STR_LEN = 0 \<and> length (rp_pad r) = 3"

lemma length_xip_bytes [simp]: "length (xip_bytes d s n) = n"
  by (simp add: xip_bytes_def)

lemma take_xip_bytes: "k \<le> n \<Longrightarrow> take k (xip_bytes d s n) = xip_bytes d s k"
  by (simp add: xip_bytes_def take_map take_upt)

lemma record_read_wf: "rp_wf (record_read d s)"
  by (auto simp: record_read_def rp_wf_def rp_decode_def rp_zero_def VL_RP_RECORD_SIZE_def vl_sizes Let_def)

lemma length_rp_encode: "rp_wf r \<Longrightarrow> length (rp_encode r) = VL_RP_RECORD_SIZE"
  by (simp add: rp_encode_def rp_wf_def VL_RP_RECORD_SIZE_def)

lemma rp_decode_encode: "rp_wf r \<Longrightarrow> rp_decode (rp_encode r) = r"
  by (simp add: rp_decode_def rp_encode_def rp_wf_def)

text \<open>Nothing but the read-back is used: a success is a record that reads back.\<close>

lemma record_write_ok:
  assumes "record_write d r s = (VL_OK, s')" and "rp_wf r"
  shows "record_read d s' = r"
proof -
  let ?page = "overlay (replicate FLASH_PAGE_SIZE 0xFF) 0 (rp_encode r)"
  have "xip_bytes d s' FLASH_PAGE_SIZE = ?page"
    using assms(1) by (auto simp: record_write_def Let_def split: if_splits)
  moreover have "VL_RP_RECORD_SIZE \<le> FLASH_PAGE_SIZE"
    by (simp add: VL_RP_RECORD_SIZE_def FLASH_PAGE_SIZE_def vl_sizes)
  ultimately have "xip_bytes d s' VL_RP_RECORD_SIZE = take VL_RP_RECORD_SIZE ?page"
    by (metis take_xip_bytes)
  also have "\<dots> = rp_encode r"
    using assms(2) length_rp_encode [OF assms(2)] by (simp add: overlay_def)
  finally show ?thesis
    using assms(2) list_update_id [of "rp_blob r" VL_BLOB_STR_LEN]
    by (simp add: record_read_def rp_decode_encode rp_wf_def Let_def)
qed


lemma rp_hwm_store_ok:
  assumes "rp_hwm_store d v s = (VL_OK, s')"
  shows "record_read d s' = (record_read d s)\<lparr>rp_hwm := v\<rparr>"
proof (cases "rp_hwm (record_read d s) = v")
  case True
  then show ?thesis using assms by (auto simp: rp_hwm_store_def Let_def)
next
  case False
  then have "record_write d ((record_read d s)\<lparr>rp_hwm := v\<rparr>) s = (VL_OK, s')"
    using assms by (simp add: rp_hwm_store_def Let_def)
  then show ?thesis using record_read_wf [of d s] by (intro record_write_ok) (simp_all add: rp_wf_def)
qed

lemma rp_blob_store_ok:
  assumes "rp_blob_store d b s = (VL_OK, s')"
  shows "length b \<le> VL_BLOB_STR_LEN \<and> record_read d s' = (record_read d s)
    \<lparr>rp_blob := b @ replicate (VL_BLOB_STR_BUF_LEN - length b) 0, rp_blob_len := word_of_nat (length b)\<rparr>"
proof -
  have l: "length b \<le> VL_BLOB_STR_LEN" using assms by (auto simp: rp_blob_store_def split: if_splits)
  have ov: "overlay (replicate VL_BLOB_STR_BUF_LEN 0) 0 b = b @ replicate (VL_BLOB_STR_BUF_LEN - length b) (0 :: u8)"
    by (simp add: overlay_def)
  have "record_write d ((record_read d s)\<lparr>rp_blob := b @ replicate (VL_BLOB_STR_BUF_LEN - length b) 0,
      rp_blob_len := word_of_nat (length b)\<rparr>) s = (VL_OK, s')"
    using assms l by (simp add: rp_blob_store_def Let_def ov)
  moreover have "rp_wf ((record_read d s)\<lparr>rp_blob := b @ replicate (VL_BLOB_STR_BUF_LEN - length b) 0,
      rp_blob_len := word_of_nat (length b)\<rparr>)"
    using record_read_wf [of d s] l by (simp add: rp_wf_def vl_sizes unat_of_nat nth_append)
  ultimately show ?thesis using l by (simp add: record_write_ok)
qed

section \<open>The contracts\<close>

lemma rp_id_source: "id_source (rp_read_id_segment d)"
proof
  fix i b s st c n s'
  assume "rp_read_id_segment d i b s = (st, c, n, s')"
  then show "length c = length b"
    by (auto simp: rp_read_id_segment_def Let_def PICO_UNIQUE_BOARD_ID_SIZE_BYTES_def split: if_splits)
next
  fix b1 b2 :: bytes and i s st c1 n s'
  assume "length b1 = length b2" and "rp_read_id_segment d i b1 s = (st, c1, n, s')"
  then show "\<exists>c2. rp_read_id_segment d i b2 s = (st, c2, n, s') \<and>
      (st = VL_OK \<and> n \<le> length b1 \<longrightarrow> take n c2 = take n c1)"
    by (auto simp: rp_read_id_segment_def Let_def PICO_UNIQUE_BOARD_ID_SIZE_BYTES_def overlay_def split: if_splits)
qed

interpretation rp_id: id_source "rp_read_id_segment d" for d
  by (rule rp_id_source)

text \<open>The slot is the record's string; the board has no clock, so a clock is an argument.\<close>

definition rp_slot :: "'s rp_sdk \<Rightarrow> 's \<Rightarrow> bytes" where
  "rp_slot d s = take (unat (rp_blob_len (record_read d s))) (rp_blob (record_read d s))"

interpretation rp_blob: blob_storage "rp_blob_load d" "rp_blob_store d" "\<lambda>_. True" "\<lambda>_. True" "rp_slot d" for d
proof
  fix s b s'
  assume "rp_blob_store d b s = (VL_OK, s')"
  from rp_blob_store_ok [OF this] show "rp_slot d s' = b \<and> True"
    by (simp add: rp_slot_def vl_sizes unat_of_nat)
next
  fix s :: 's and buf :: bytes and d :: "'s rp_sdk"
  let ?r = "record_read d s"
  assume ne: "rp_slot d s \<noteq> []" and room: "length (rp_slot d s) + 1 \<le> length buf"
  have n: "unat (rp_blob_len ?r) \<le> length (rp_blob ?r)"
    using record_read_wf [of d s] by (simp add: rp_wf_def vl_sizes)
  then have len: "length (rp_slot d s) = unat (rp_blob_len ?r)" by (simp add: rp_slot_def)
  have "rp_blob_len ?r \<noteq> 0" using ne by (auto simp: rp_slot_def)
  then have "rp_blob_load d buf s =
      (VL_OK, rp_slot d s @ 0 # drop (length (rp_slot d s) + 1) buf, length (rp_slot d s), s)"
    using room n by (auto simp: rp_blob_load_def Let_def len overlay_def rp_slot_def [symmetric])
  then show "\<exists>rest s'. rp_blob_load d buf s = (VL_OK, rp_slot d s @ 0 # rest, length (rp_slot d s), s') \<and>
      rp_slot d s' = rp_slot d s \<and> True" by blast
next
  fix s :: 's and buf :: bytes and d :: "'s rp_sdk"
  assume "rp_slot d s = []" and "2 \<le> length buf"
  moreover have "rp_blob (record_read d s) \<noteq> []"
    using record_read_wf [of d s] by (auto simp: rp_wf_def vl_sizes)
  ultimately show "\<exists>c n s'. rp_blob_load d buf s = (VL_ERR_NOT_FOUND, c, n, s')"
    by (auto simp: rp_blob_load_def rp_slot_def Let_def unat_eq_zero)
qed

interpretation rp_hwm: hwm_device "rp_read_id_segment d" "\<lambda>s. (VL_OK, clk s, s)" "rp_hwm_load d" "rp_hwm_store d"
    "\<lambda>_. True" "\<lambda>s. rp_hwm (record_read d s)" for d and clk :: "'s \<Rightarrow> u32"
  by unfold_locales
    (auto simp: rp_read_id_segment_def Let_def rp_hwm_load_def dest: rp_hwm_store_ok split: if_splits)

text \<open>
  Each store keeps what the other one holds.
\<close>

lemma rp_stores_independent:
  "rp_hwm_store d v s = (VL_OK, s') \<Longrightarrow> rp_slot d s' = rp_slot d s"
  "rp_blob_store d b s = (VL_OK, s') \<Longrightarrow> rp_hwm (record_read d s') = rp_hwm (record_read d s)"
  using rp_hwm_store_ok [of d v s s'] rp_blob_store_ok [of d b s s'] by (simp_all add: rp_slot_def)

text \<open>
  An erased or corrupt page reads as an empty record: the mark is zero and there is no
  licence. A write interrupted between erase and program leaves exactly that.
\<close>

lemma record_read_corrupt:
  assumes "rd_le32 (xip_bytes d s VL_RP_RECORD_SIZE) \<noteq> VL_RP_MAGIC"
  shows "rp_hwm (record_read d s) = 0 \<and> rp_slot d s = []"
  using assms by (simp add: record_read_def rp_slot_def rp_decode_def rp_zero_def Let_def)

end
