(* ===== verification/VL_Hal_Mcu.thy ===== *)
theory VL_Hal_Mcu
  imports VL_Hal
begin

text \<open>
  The HALs that provide identity only: \<^verbatim>\<open>hal/stm32\<close>, \<^verbatim>\<open>hal/nxp\<close> and the
  unported stub \<^verbatim>\<open>hal/none\<close>. The vendor's registers are a parameter: what each read
  of a unique-id word returns in a board state.
\<close>

section \<open>STM32\<close>

definition VL_STM32_UID_LEN :: nat where "VL_STM32_UID_LEN = 12"

text \<open>The three words \<^verbatim>\<open>HAL_GetUIDw0/1/2\<close>, or the registers at the UID base.\<close>

record 's stm32_uid =
  uid_w0 :: "'s \<Rightarrow> u32"
  uid_w1 :: "'s \<Rightarrow> u32"
  uid_w2 :: "'s \<Rightarrow> u32"

definition vl_uid_word :: "'s stm32_uid \<Rightarrow> 's \<Rightarrow> nat \<Rightarrow> u32" where
  "vl_uid_word d s i = (if i = 0 then uid_w0 d s else if i = 1 then uid_w1 d s else uid_w2 d s)"

definition stm32_put :: "'s stm32_uid \<Rightarrow> 's \<Rightarrow> nat \<Rightarrow> bytes \<times> u32 \<times> u32 \<Rightarrow> bytes \<times> u32 \<times> u32" where
  "stm32_put d s i a =
     (case a of (out, all_or, all_and) \<Rightarrow>
        let w = vl_uid_word d s i
        in (out[i * 4 + 0 := ucast (w AND 0xFF), i * 4 + 1 := ucast (drop_bit 8 w AND 0xFF),
                i * 4 + 2 := ucast (drop_bit 16 w AND 0xFF), i * 4 + 3 := ucast (drop_bit 24 w AND 0xFF)],
            all_or OR w, all_and AND w))"

definition stm32_read_id_segment :: "'s stm32_uid \<Rightarrow> u32 \<Rightarrow> bytes \<Rightarrow> 's \<Rightarrow> vl_status \<times> bytes \<times> nat \<times> 's" where
  "stm32_read_id_segment d idx out s =
     (if idx \<noteq> 0 then (VL_ERR_NO_MORE_SEGMENTS, out, 0, s)
      else if length out < VL_STM32_UID_LEN then (VL_ERR_BUFFER_TOO_SMALL, out, 0, s)
      else (case fold (stm32_put d s) [0..<3] (out, 0, 0xFFFFFFFF) of (out', all_or, all_and) \<Rightarrow>
        if all_or = 0 \<or> all_and = 0xFFFFFFFF
        then (VL_ERR_PLATFORM, overlay out' 0 (replicate VL_STM32_UID_LEN 0), 0, s)
        else (VL_OK, out', VL_STM32_UID_LEN, s)))"

definition vl_hal_stm32 :: "'s stm32_uid \<Rightarrow> 's vl_hal" where
  "vl_hal_stm32 d =
     \<lparr>read_id_segment = Some (stm32_read_id_segment d), now_epoch = None, hwm_load = None,
      hwm_store = None, blob_load = None, blob_store = None, secure_posture = None\<rparr>"

section \<open>NXP\<close>

datatype nxp_part = Kinetis_UIDH | Kinetis_plain | IMXRT

record 's nxp_regs =
  UIDH :: "'s \<Rightarrow> u32"
  UIDMH :: "'s \<Rightarrow> u32"
  UIDML :: "'s \<Rightarrow> u32"
  UIDL :: "'s \<Rightarrow> u32"
  CFG0 :: "'s \<Rightarrow> u32"
  CFG1 :: "'s \<Rightarrow> u32"

definition put_be32 :: "bytes \<times> nat \<Rightarrow> u32 \<Rightarrow> bytes \<times> nat" where
  "put_be32 a w =
     (case a of (out, n) \<Rightarrow>
        (out[n + 0 := ucast (drop_bit 24 w AND 0xFF), n + 1 := ucast (drop_bit 16 w AND 0xFF),
             n + 2 := ucast (drop_bit 8 w AND 0xFF), n + 3 := ucast (w AND 0xFF)], n + 4))"

fun VL_NXP_ID_LEN :: "nxp_part \<Rightarrow> nat" where
  "VL_NXP_ID_LEN Kinetis_UIDH = 16"
| "VL_NXP_ID_LEN Kinetis_plain = 12"
| "VL_NXP_ID_LEN IMXRT = 8"

fun nxp_words :: "nxp_part \<Rightarrow> 's nxp_regs \<Rightarrow> 's \<Rightarrow> u32 list" where
  "nxp_words Kinetis_UIDH d s = [UIDH d s, UIDMH d s, UIDML d s, UIDL d s]"
| "nxp_words Kinetis_plain d s = [UIDMH d s, UIDML d s, UIDL d s]"
| "nxp_words IMXRT d s = [CFG0 d s, CFG1 d s]"

definition nxp_read_id_segment :: "nxp_part \<Rightarrow> 's nxp_regs \<Rightarrow> u32 \<Rightarrow> bytes \<Rightarrow> 's \<Rightarrow>
    vl_status \<times> bytes \<times> nat \<times> 's" where
  "nxp_read_id_segment part d idx out s =
     (if idx \<noteq> 0 then (VL_ERR_NO_MORE_SEGMENTS, out, 0, s)
      else if length out < VL_NXP_ID_LEN part then (VL_ERR_BUFFER_TOO_SMALL, out, 0, s)
      else (case foldl put_be32 (out, 0) (nxp_words part d s) of (out', n) \<Rightarrow>
        let any = fold (\<lambda>i a. a OR out' ! i) [0..<n] 0;
            all = fold (\<lambda>i a. a AND out' ! i) [0..<n] 0xFF
        in if any = 0 \<or> all = 0xFF then (VL_ERR_PLATFORM, overlay out' 0 (replicate n 0), 0, s)
           else (VL_OK, out', n, s)))"

definition vl_hal_nxp :: "nxp_part \<Rightarrow> 's nxp_regs \<Rightarrow> 's vl_hal" where
  "vl_hal_nxp part d =
     \<lparr>read_id_segment = Some (nxp_read_id_segment part d), now_epoch = None, hwm_load = None,
      hwm_store = None, blob_load = None, blob_store = None, secure_posture = None\<rparr>"

section \<open>The stub\<close>

definition none_read_id_segment :: "u32 \<Rightarrow> bytes \<Rightarrow> 's \<Rightarrow> vl_status \<times> bytes \<times> nat \<times> 's" where
  "none_read_id_segment idx out s = (VL_ERR_PLATFORM, out, 0, s)"

definition vl_hal_none :: "'s vl_hal" where
  "vl_hal_none =
     \<lparr>read_id_segment = Some none_read_id_segment, now_epoch = None, hwm_load = None,
      hwm_store = None, blob_load = None, blob_store = None, secure_posture = None\<rparr>"

section \<open>What the identity callbacks report\<close>

lemma fold_or_zero_iff: "fold (\<lambda>b a. a OR b) xs z = (0 :: 'a::len word) \<longleftrightarrow> z = 0 \<and> (\<forall>x \<in> set xs. x = 0)"
  by (induction xs arbitrary: z) (auto simp: or_eq_0_iff)

lemma and_eq_max_iff: "(a :: 'a::len word) AND b = -1 \<longleftrightarrow> a = -1 \<and> b = -1"
  by (auto simp: bit_eq_iff bit_and_iff)

lemma fold_and_max_iff: "fold (\<lambda>b a. a AND b) xs z = (-1 :: 'a::len word) \<longleftrightarrow> z = -1 \<and> (\<forall>x \<in> set xs. x = -1)"
  by (induction xs arbitrary: z) (auto simp: and_eq_max_iff)

lemma u8_max: "(0xFF :: u8) = -1"
  by simp

lemma u32_max: "(0xFFFFFFFF :: u32) = -1"
  by simp

lemma fold_nth: "fold (\<lambda>i. g (xs ! i)) [0..<n] = fold g (take n xs)" if "n \<le> length xs"
proof -
  have "fold g (map ((!) xs) [0..<n]) = fold (\<lambda>i. g (xs ! i)) [0..<n]"
    by (simp add: fold_map comp_def)
  then show ?thesis using that by (simp add: take_map_upt_nth)
qed

definition be32 :: "u32 \<Rightarrow> bytes" where
  "be32 w = [ucast (drop_bit 24 w), ucast (drop_bit 16 w), ucast (drop_bit 8 w), ucast w]"

lemma put_be32_overlay: "n + 4 \<le> length out \<Longrightarrow> put_be32 (out, n) w = (overlay out n (be32 w), n + 4)"
  by (auto simp: put_be32_def be32_def low_byte32 nth_overlay nth_list_update nth_Cons' intro!: nth_equalityI)

lemma overlay_overlay: "off + length xs \<le> length out \<Longrightarrow>
    overlay (overlay out off xs) (off + length xs) ys = overlay out off (xs @ ys)"
  by (simp add: overlay_def ac_simps)

lemma stm32_put_overlay:
  "i * 4 + 4 \<le> length out \<Longrightarrow> stm32_put d s i (out, a, b) =
     (overlay out (i * 4) (put_le32 (vl_uid_word d s i)), a OR vl_uid_word d s i, b AND vl_uid_word d s i)"
  by (auto simp: stm32_put_def put_le32_def low_byte32 nth_overlay nth_list_update nth_Cons' Let_def
      intro!: nth_equalityI)

lemma put_be32_all:
  "length out \<ge> n + 4 * length ws \<Longrightarrow>
   foldl put_be32 (out, n) ws = (overlay out n (concat (map be32 ws)), n + 4 * length ws)"
proof (induction ws arbitrary: out n)
  case Nil
  then show ?case by simp
next
  case (Cons w ws)
  have l: "length (be32 w) = 4" by (simp add: be32_def)
  have "foldl put_be32 (out, n) (w # ws) = foldl put_be32 (overlay out n (be32 w), n + 4) ws"
    using Cons.prems by (simp add: put_be32_overlay)
  also have "\<dots> = (overlay (overlay out n (be32 w)) (n + 4) (concat (map be32 ws)), n + 4 + 4 * length ws)"
    using Cons.prems by (intro Cons.IH) (simp add: l)
  finally show ?case using Cons.prems overlay_overlay [of n "be32 w" out] by (simp add: l)
qed

lemma length_concat_be32 [simp]: "length (concat (map be32 ws)) = 4 * length ws"
  by (induction ws) (simp_all add: be32_def)

lemma length_nxp_words: "4 * length (nxp_words part d s) = VL_NXP_ID_LEN part"
  by (cases part) simp_all

text \<open>The segment is the concatenated words, refused when every byte is 0x00 or every byte 0xFF.\<close>

lemma nxp_segment:
  assumes "VL_NXP_ID_LEN part \<le> length out"
  shows "nxp_read_id_segment part d 0 out s =
    (let uid = concat (map be32 (nxp_words part d s)); n = VL_NXP_ID_LEN part in
     if (\<forall>b \<in> set uid. b = 0) \<or> (\<forall>b \<in> set uid. b = 0xFF)
     then (VL_ERR_PLATFORM, replicate n 0 @ drop n out, 0, s)
     else (VL_OK, uid @ drop n out, n, s))"
proof -
  let ?uid = "concat (map be32 (nxp_words part d s))" and ?n = "VL_NXP_ID_LEN part"
  have len: "length ?uid = ?n" by (simp add: length_nxp_words)
  have put: "foldl put_be32 (out, 0) (nxp_words part d s) = (?uid @ drop ?n out, ?n)"
    using put_be32_all [of 0 "nxp_words part d s" out] assms len
    by (simp add: length_nxp_words overlay_def)
  have nn: "?n \<le> length (?uid @ drop ?n out)" using len by simp
  have any: "fold (\<lambda>i a. a OR (?uid @ drop ?n out) ! i) [0..<?n] 0 = 0 \<longleftrightarrow> (\<forall>b \<in> set ?uid. b = 0)"
    using fold_nth [OF nn, of "\<lambda>b a. a OR b"] len fold_or_zero_iff [of ?uid 0] by simp
  have all: "fold (\<lambda>i a. a AND (?uid @ drop ?n out) ! i) [0..<?n] 0xFF = 0xFF \<longleftrightarrow> (\<forall>b \<in> set ?uid. b = 0xFF)"
    unfolding u8_max using fold_nth [OF nn, of "\<lambda>b a. a AND b"] len fold_and_max_iff [of ?uid "-1"] by simp
  show ?thesis
    using assms len by (auto simp: nxp_read_id_segment_def put any all overlay_def Let_def)
qed

lemma stm32_segment:
  assumes "12 \<le> length out"
  shows "stm32_read_id_segment d 0 out s =
    (let ws = [uid_w0 d s, uid_w1 d s, uid_w2 d s] in
     if (\<forall>w \<in> set ws. w = 0) \<or> (\<forall>w \<in> set ws. w = 0xFFFFFFFF)
     then (VL_ERR_PLATFORM, replicate 12 0 @ drop 12 out, 0, s)
     else (VL_OK, concat (map put_le32 ws) @ drop 12 out, 12, s))"
proof -
  let ?w0 = "uid_w0 d s" and ?w1 = "uid_w1 d s" and ?w2 = "uid_w2 d s"
  have "fold (stm32_put d s) [0..<3] (out, 0, 0xFFFFFFFF) =
      stm32_put d s 2 (stm32_put d s 1 (stm32_put d s 0 (out, 0, 0xFFFFFFFF)))"
    by (simp add: upt_rec numeral_2_eq_2 numeral_3_eq_3)
  also have "\<dots> = (overlay (overlay (overlay out 0 (put_le32 ?w0)) 4 (put_le32 ?w1)) 8 (put_le32 ?w2),
      0 OR ?w0 OR ?w1 OR ?w2, 0xFFFFFFFF AND ?w0 AND ?w1 AND ?w2)"
    using assms by (simp add: stm32_put_overlay vl_uid_word_def or.assoc and.assoc)
  also have "overlay (overlay (overlay out 0 (put_le32 ?w0)) 4 (put_le32 ?w1)) 8 (put_le32 ?w2) =
      overlay out 0 (concat (map put_le32 [?w0, ?w1, ?w2]))"
    using assms overlay_overlay [of 0 "put_le32 ?w0" out "put_le32 ?w1"]
      overlay_overlay [of 0 "put_le32 ?w0 @ put_le32 ?w1" out "put_le32 ?w2"] by simp
  finally have f: "fold (stm32_put d s) [0..<3] (out, 0, 0xFFFFFFFF) =
      (concat (map put_le32 [?w0, ?w1, ?w2]) @ drop 12 out,
       ?w0 OR ?w1 OR ?w2, 0xFFFFFFFF AND ?w0 AND ?w1 AND ?w2)"
    by (simp add: overlay_def)
  have "0xFFFFFFFF AND ?w0 AND ?w1 AND ?w2 = 0xFFFFFFFF \<longleftrightarrow>
      ?w0 = 0xFFFFFFFF \<and> ?w1 = 0xFFFFFFFF \<and> ?w2 = 0xFFFFFFFF"
    unfolding u32_max by (simp add: and_eq_max_iff)
  then show ?thesis
    using assms by (auto simp: stm32_read_id_segment_def VL_STM32_UID_LEN_def f overlay_def or_eq_0_iff Let_def)
qed

section \<open>The contracts\<close>

lemma nxp_id_source: "id_source (nxp_read_id_segment part d)"
proof
  fix i b s st c n s'
  assume r: "nxp_read_id_segment part d i b s = (st, c, n, s')"
  show "length c = length b"
  proof (cases "i = 0 \<and> VL_NXP_ID_LEN part \<le> length b")
    case True
    then show ?thesis
      using r nxp_segment [of part b d s] length_nxp_words [of part d s] by (auto simp: Let_def split: if_splits)
  next
    case False
    then show ?thesis using r by (auto simp: nxp_read_id_segment_def split: if_splits)
  qed
next
  fix b1 b2 :: bytes and i s st c1 n s'
  assume l: "length b1 = length b2" and r: "nxp_read_id_segment part d i b1 s = (st, c1, n, s')"
  show "\<exists>c2. nxp_read_id_segment part d i b2 s = (st, c2, n, s') \<and>
      (st = VL_OK \<and> n \<le> length b1 \<longrightarrow> take n c2 = take n c1)"
  proof (cases "i = 0 \<and> VL_NXP_ID_LEN part \<le> length b1")
    case True
    then show ?thesis
      using r l nxp_segment [of part b1 d s] nxp_segment [of part b2 d s] length_nxp_words [of part d s]
      by (auto simp: Let_def split: if_splits)
  next
    case False
    then show ?thesis using r l by (auto simp: nxp_read_id_segment_def split: if_splits)
  qed
qed

lemma stm32_id_source: "id_source (stm32_read_id_segment d)"
proof
  fix i b s st c n s'
  assume r: "stm32_read_id_segment d i b s = (st, c, n, s')"
  show "length c = length b"
  proof (cases "i = 0 \<and> 12 \<le> length b")
    case True
    then show ?thesis
      using r stm32_segment [of b d s] by (auto simp: Let_def split: if_splits)
  next
    case False
    then show ?thesis using r by (auto simp: stm32_read_id_segment_def VL_STM32_UID_LEN_def split: if_splits)
  qed
next
  fix b1 b2 :: bytes and i s st c1 n s'
  assume l: "length b1 = length b2" and r: "stm32_read_id_segment d i b1 s = (st, c1, n, s')"
  show "\<exists>c2. stm32_read_id_segment d i b2 s = (st, c2, n, s') \<and>
      (st = VL_OK \<and> n \<le> length b1 \<longrightarrow> take n c2 = take n c1)"
  proof (cases "i = 0 \<and> 12 \<le> length b1")
    case True
    then show ?thesis
      using r l stm32_segment [of b1 d s] stm32_segment [of b2 d s] by (auto simp: Let_def split: if_splits)
  next
    case False
    then show ?thesis using r l by (auto simp: stm32_read_id_segment_def VL_STM32_UID_LEN_def split: if_splits)
  qed
qed

interpretation nxp_id: id_source "nxp_read_id_segment part d" for part d
  by (rule nxp_id_source)

interpretation stm32_id: id_source "stm32_read_id_segment d" for d
  by (rule stm32_id_source)

interpretation none_id: id_source none_read_id_segment
  by unfold_locales (auto simp: none_read_id_segment_def)

section \<open>Dead buses\<close>

text \<open>C36. A die id is reported exactly or not at all: on the NXP and STM32 parts the first segment is
  the part's id words, big-endian on the one and little-endian on the other, and a read in which every
  byte is 0x00 or every byte 0xFF, a bus that did not answer, is a platform error with the buffer
  wiped, never an id that all such boards would share.\<close>

theorem die_id_exact:
  assumes "VL_NXP_ID_LEN part \<le> length o1" and "12 \<le> length o2"
  shows "nxp_read_id_segment part d 0 o1 s =
      (let uid = concat (map be32 (nxp_words part d s)); n = VL_NXP_ID_LEN part in
       if (\<forall>b \<in> set uid. b = 0) \<or> (\<forall>b \<in> set uid. b = 0xFF)
       then (VL_ERR_PLATFORM, replicate n 0 @ drop n o1, 0, s)
       else (VL_OK, uid @ drop n o1, n, s)) \<and>
    stm32_read_id_segment e 0 o2 t =
      (let ws = [uid_w0 e t, uid_w1 e t, uid_w2 e t] in
       if (\<forall>w \<in> set ws. w = 0) \<or> (\<forall>w \<in> set ws. w = 0xFFFFFFFF)
       then (VL_ERR_PLATFORM, replicate 12 0 @ drop 12 o2, 0, t)
       else (VL_OK, concat (map put_le32 ws) @ drop 12 o2, 12, t))"
  by (rule conjI nxp_segment [OF assms(1)] stm32_segment [OF assms(2)])+

definition demo_nxp :: "unit nxp_regs" where
  "demo_nxp = \<lparr>UIDH = (\<lambda>_. 0), UIDMH = (\<lambda>_. 0), UIDML = (\<lambda>_. 0), UIDL = (\<lambda>_. 0),
     CFG0 = (\<lambda>_. 0x01020304), CFG1 = (\<lambda>_. 0)\<rparr>"

definition demo_stm32 :: "unit stm32_uid" where
  "demo_stm32 = \<lparr>uid_w0 = (\<lambda>_. 0xFFFFFFFF), uid_w1 = (\<lambda>_. 0xFFFFFFFF), uid_w2 = (\<lambda>_. 0xFFFFFFFF)\<rparr>"

lemma be32_demo: "be32 0x01020304 = [1, 2, 3, 4]" "be32 0 = [0, 0, 0, 0]"
  by (simp_all add: be32_def drop_bit_eq_div)

lemma die_id_exact_witness:
  "nxp_read_id_segment IMXRT demo_nxp 0 (replicate 9 7) () = (VL_OK, [1, 2, 3, 4, 0, 0, 0, 0, 7], 8, ()) \<and>
   stm32_read_id_segment demo_stm32 0 (replicate 13 7) () = (VL_ERR_PLATFORM, replicate 12 0 @ [7], 0, ())"
proof -
  have w: "CFG0 demo_nxp () = 0x01020304" "CFG1 demo_nxp () = 0" by (simp_all add: demo_nxp_def)
  have u: "uid_w0 demo_stm32 () = 0xFFFFFFFF" "uid_w1 demo_stm32 () = 0xFFFFFFFF" "uid_w2 demo_stm32 () = 0xFFFFFFFF"
    by (simp_all add: demo_stm32_def)
  have l: "VL_NXP_ID_LEN IMXRT \<le> length (replicate 9 (7 :: u8))" "12 \<le> length (replicate 13 (7 :: u8))" by simp_all
  have d: "drop 8 (replicate 9 (7 :: u8)) = [7]" "drop 12 (replicate 13 (7 :: u8)) = [7]"
    by (simp_all add: drop_replicate)
  show ?thesis
    using die_id_exact [OF l, of demo_nxp "()" demo_stm32 "()"] by (simp add: w u d be32_demo Let_def)
qed

end
