(* ===== verification/VL_Hal_Esp32.thy ===== *)
theory VL_Hal_Esp32
  imports VL_Hal
begin

text \<open>
  \<^verbatim>\<open>hal/esp32/vl_hal_esp32.c\<close>: identity from the efuse MAC, the chip and the flash
  id, the clock with its sanity floor, and the NVS-backed mark and licence. ESP-IDF is a
  parameter, the record \<open>esp_idf\<close> of the calls the file makes; what its documentation
  promises of the NVS calls is the locale \<open>esp_nvs\<close>, which gives the storage contracts,
  and \<open>nvs_ref\<close> is a store that keeps it.
\<close>

section \<open>ESP-IDF\<close>

datatype esp_err = ESP_OK | ESP_ERR_NVS_NOT_FOUND | ESP_ERR_NVS_INVALID_LENGTH | ESP_ERR_NVS_NO_FREE_PAGES
  | ESP_ERR_NVS_NEW_VERSION_FOUND | ESP_FAIL

record chip_info =
  ci_model :: int
  ci_cores :: u8
  ci_revision :: "16 word"
  ci_features :: u32

text \<open>A posture call the headers do not provide is \<open>None\<close>. \<open>nvs_open\<close> opens read-write on True.\<close>

record 's esp_idf =
  efuse_mac :: "'s \<Rightarrow> esp_err \<times> (nat \<Rightarrow> u8) \<times> 's"
  chip_info_get :: "'s \<Rightarrow> chip_info \<times> 's"
  flash_read_id :: "'s \<Rightarrow> esp_err \<times> u32 \<times> 's"
  wall_time :: "'s \<Rightarrow> int \<times> 's"
  nvs_open :: "bytes \<Rightarrow> bool \<Rightarrow> 's \<Rightarrow> esp_err \<times> nat \<times> 's"
  nvs_close :: "nat \<Rightarrow> 's \<Rightarrow> 's"
  nvs_get_u32 :: "nat \<Rightarrow> bytes \<Rightarrow> 's \<Rightarrow> esp_err \<times> u32 \<times> 's"
  nvs_set_u32 :: "nat \<Rightarrow> bytes \<Rightarrow> u32 \<Rightarrow> 's \<Rightarrow> esp_err \<times> 's"
  nvs_get_str :: "nat \<Rightarrow> bytes \<Rightarrow> bytes \<Rightarrow> nat \<Rightarrow> 's \<Rightarrow> esp_err \<times> bytes \<times> nat \<times> 's"
  nvs_set_str :: "nat \<Rightarrow> bytes \<Rightarrow> bytes \<Rightarrow> 's \<Rightarrow> esp_err \<times> 's"
  nvs_commit :: "nat \<Rightarrow> 's \<Rightarrow> esp_err \<times> 's"
  secure_boot_enabled :: "('s \<Rightarrow> bool) option"
  flash_encryption_enabled :: "('s \<Rightarrow> bool) option"

definition VL_NVS_NAMESPACE :: bytes where "VL_NVS_NAMESPACE = str_bytes ''vectilicense''"
definition VL_NVS_KEY_HWM :: bytes where "VL_NVS_KEY_HWM = str_bytes ''hwm''"
definition VL_NVS_KEY_BLOB :: bytes where "VL_NVS_KEY_BLOB = str_bytes ''blob''"
definition VL_EPOCH_SANE_MIN :: int where "VL_EPOCH_SANE_MIN = 1577836800"
definition VL_SEG_MAC_LEN :: nat where "VL_SEG_MAC_LEN = 6"
definition VL_SEG_CHIP_LEN :: nat where "VL_SEG_CHIP_LEN = 8"
definition VL_SEG_FLASH_LEN :: nat where "VL_SEG_FLASH_LEN = 4"

lemmas esp_seg_lens = VL_SEG_MAC_LEN_def VL_SEG_CHIP_LEN_def VL_SEG_FLASH_LEN_def

section \<open>Identity\<close>

definition esp_read_id_segment :: "'s esp_idf \<Rightarrow> u32 \<Rightarrow> bytes \<Rightarrow> 's \<Rightarrow> vl_status \<times> bytes \<times> nat \<times> 's" where
  "esp_read_id_segment d idx out s =
     (if idx = 0 then
        (if length out < VL_SEG_MAC_LEN then (VL_ERR_BUFFER_TOO_SMALL, out, 0, s)
         else (case efuse_mac d s of (e, mac, s1) \<Rightarrow>
           if e \<noteq> ESP_OK then (VL_ERR_PLATFORM, out, 0, s1)
           else (VL_OK, overlay out 0 (map mac [0..<VL_SEG_MAC_LEN]), VL_SEG_MAC_LEN, s1)))
      else if idx = 1 then
        (if length out < VL_SEG_CHIP_LEN then (VL_ERR_BUFFER_TOO_SMALL, out, 0, s)
         else (case chip_info_get d s of (info, s1) \<Rightarrow>
           let rev = ci_revision info; feat = ci_features info
           in (VL_OK, overlay out 0
                [word_of_int (ci_model info), ci_cores info,
                 ucast (rev AND 0xFF), ucast (drop_bit 8 rev AND 0xFF),
                 ucast (feat AND 0xFF), ucast (drop_bit 8 feat AND 0xFF),
                 ucast (drop_bit 16 feat AND 0xFF), ucast (drop_bit 24 feat AND 0xFF)],
               VL_SEG_CHIP_LEN, s1)))
      else if idx = 2 then
        (if length out < VL_SEG_FLASH_LEN then (VL_ERR_BUFFER_TOO_SMALL, out, 0, s)
         else (case flash_read_id d s of (e, fid, s1) \<Rightarrow>
           if e \<noteq> ESP_OK then (VL_ERR_PLATFORM, out, 0, s1)
           else if fid = 0 \<or> fid = 0x00FFFFFF then (VL_ERR_PLATFORM, out, 0, s1)
           else (VL_OK, overlay out 0
                  [ucast (drop_bit 24 fid AND 0xFF), ucast (drop_bit 16 fid AND 0xFF),
                   ucast (drop_bit 8 fid AND 0xFF), ucast (fid AND 0xFF)], VL_SEG_FLASH_LEN, s1)))
      else (VL_ERR_NO_MORE_SEGMENTS, out, 0, s))"

section \<open>Clock\<close>

definition esp_now_epoch :: "'s esp_idf \<Rightarrow> 's \<Rightarrow> vl_status \<times> u32 \<times> 's" where
  "esp_now_epoch d s =
     (case wall_time d s of (t, s1) \<Rightarrow>
        if t < 0 \<or> t < VL_EPOCH_SANE_MIN then (VL_ERR_NO_CLOCK, 0, s1)
        else if t > 0xFFFFFFFF then (VL_ERR_PLATFORM, 0, s1)
        else (VL_OK, word_of_int t, s1))"

section \<open>Storage\<close>

definition nvs_begin :: "'s esp_idf \<Rightarrow> bool \<Rightarrow> 's \<Rightarrow> vl_status \<times> nat \<times> 's" where
  "nvs_begin d rw s =
     (case nvs_open d VL_NVS_NAMESPACE rw s of (e, h, s1) \<Rightarrow>
        (if e = ESP_OK then VL_OK else VL_ERR_PLATFORM, h, s1))"

definition esp_hwm_load :: "'s esp_idf \<Rightarrow> 's \<Rightarrow> vl_status \<times> u32 \<times> 's" where
  "esp_hwm_load d s =
     (case nvs_begin d False s of (st, h, s1) \<Rightarrow>
        if st \<noteq> VL_OK then (VL_OK, 0, s1)
        else (case nvs_get_u32 d h VL_NVS_KEY_HWM s1 of (err, v, s2) \<Rightarrow>
          let s3 = nvs_close d h s2 in
          if err = ESP_ERR_NVS_NOT_FOUND then (VL_OK, 0, s3)
          else (if err = ESP_OK then VL_OK else VL_ERR_PLATFORM, v, s3)))"

definition esp_hwm_store :: "'s esp_idf \<Rightarrow> u32 \<Rightarrow> 's \<Rightarrow> vl_status \<times> 's" where
  "esp_hwm_store d value s =
     (case nvs_begin d True s of (st, h, s1) \<Rightarrow>
        if st \<noteq> VL_OK then (VL_ERR_PLATFORM, s1)
        else (case nvs_set_u32 d h VL_NVS_KEY_HWM value s1 of (err, s2) \<Rightarrow>
          case (if err = ESP_OK then nvs_commit d h s2 else (err, s2)) of (err, s3) \<Rightarrow>
            (if err = ESP_OK then VL_OK else VL_ERR_PLATFORM, nvs_close d h s3)))"

definition esp_blob_load :: "'s esp_idf \<Rightarrow> bytes \<Rightarrow> 's \<Rightarrow> vl_status \<times> bytes \<times> nat \<times> 's" where
  "esp_blob_load d out s =
     (if length out = 0 then (VL_ERR_INVALID_ARG, out, 0, s)
      else (case nvs_begin d False s of (st, h, s1) \<Rightarrow>
        if st \<noteq> VL_OK then (VL_ERR_NOT_FOUND, out, 0, s1)
        else (case nvs_get_str d h VL_NVS_KEY_BLOB out (length out) s1 of (err, out', len, s2) \<Rightarrow>
          let s3 = nvs_close d h s2 in
          if err = ESP_ERR_NVS_NOT_FOUND then (VL_ERR_NOT_FOUND, out', 0, s3)
          else if err = ESP_ERR_NVS_INVALID_LENGTH then (VL_ERR_BUFFER_TOO_SMALL, out', 0, s3)
          else if err \<noteq> ESP_OK \<or> len = 0 then (VL_ERR_PLATFORM, out', 0, s3)
          else (VL_OK, out', len - 1, s3))))"

definition esp_blob_store :: "'s esp_idf \<Rightarrow> bytes \<Rightarrow> 's \<Rightarrow> vl_status \<times> 's" where
  "esp_blob_store d blob s =
     (if length blob > VL_BLOB_STR_LEN then (VL_ERR_BUFFER_TOO_SMALL, s)
      else
        let tmp = blob @ [0] in
        (case nvs_begin d True s of (st, h, s1) \<Rightarrow>
          if st \<noteq> VL_OK then (VL_ERR_PLATFORM, s1)
          else (case nvs_set_str d h VL_NVS_KEY_BLOB tmp s1 of (err, s2) \<Rightarrow>
            case (if err = ESP_OK then nvs_commit d h s2 else (err, s2)) of (err, s3) \<Rightarrow>
              (if err = ESP_OK then VL_OK else VL_ERR_PLATFORM, nvs_close d h s3))))"

section \<open>Posture\<close>

definition on_off :: "bool \<Rightarrow> vl_posture_state" where
  "on_off b = (if b then VL_POSTURE_ON else VL_POSTURE_OFF)"

definition esp_secure_posture :: "'s esp_idf \<Rightarrow> vl_posture_t \<Rightarrow> 's \<Rightarrow> vl_status \<times> vl_posture_t \<times> 's" where
  "esp_secure_posture d out s =
     (let o1 = out\<lparr>secure_boot := VL_POSTURE_UNKNOWN, flash_encryption := VL_POSTURE_UNKNOWN\<rparr>;
          o2 = (case secure_boot_enabled d of None \<Rightarrow> o1 | Some f \<Rightarrow> o1\<lparr>secure_boot := on_off (f s)\<rparr>);
          o3 = (case flash_encryption_enabled d of None \<Rightarrow> o2 | Some f \<Rightarrow> o2\<lparr>flash_encryption := on_off (f s)\<rparr>)
      in (VL_OK, o3, s))"

definition vl_hal_esp32 :: "'s esp_idf \<Rightarrow> 's vl_hal" where
  "vl_hal_esp32 d =
     \<lparr>read_id_segment = Some (esp_read_id_segment d), now_epoch = Some (esp_now_epoch d),
      hwm_load = Some (esp_hwm_load d), hwm_store = Some (esp_hwm_store d),
      blob_load = Some (esp_blob_load d), blob_store = Some (esp_blob_store d),
      secure_posture = Some (esp_secure_posture d)\<rparr>"

section \<open>The identity contract\<close>

lemma esp_id_source: "id_source (esp_read_id_segment d)"
proof
  fix i b s st c n s'
  assume "esp_read_id_segment d i b s = (st, c, n, s')"
  then show "length c = length b"
    by (auto simp: esp_read_id_segment_def esp_seg_lens Let_def split: if_splits prod.splits)
next
  fix b1 b2 :: bytes and i s st c1 n s'
  assume "length b1 = length b2" and "esp_read_id_segment d i b1 s = (st, c1, n, s')"
  then show "\<exists>c2. esp_read_id_segment d i b2 s = (st, c2, n, s') \<and>
      (st = VL_OK \<and> n \<le> length b1 \<longrightarrow> take n c2 = take n c1)"
    by (auto simp: esp_read_id_segment_def esp_seg_lens Let_def overlay_def split: if_splits prod.splits)
qed

interpretation esp_id: id_source "esp_read_id_segment d" for d
  by (rule esp_id_source)

section \<open>What the NVS documentation promises\<close>

text \<open>Whatever the error of \<^verbatim>\<open>nvs_open\<close>, the mark is taken for never written and the blob for not stored.\<close>

lemma esp_unopened_no_mark:
  assumes "nvs_open d VL_NVS_NAMESPACE False s = (e, h, s')" and "e \<noteq> ESP_OK"
  shows "esp_hwm_load d s = (VL_OK, 0, s')" and "out \<noteq> [] \<Longrightarrow> esp_blob_load d out s = (VL_ERR_NOT_FOUND, out, 0, s')"
  using assms by (simp_all add: esp_hwm_load_def esp_blob_load_def nvs_begin_def)

text \<open>
  \<open>num\<close> and \<open>str\<close> are the committed entries of the namespace. \<open>up\<close> is a partition in service: it is
  initialised, and its reads do not fail for want of memory or of the flash, which NVS documents as
  errors of their own (\<^verbatim>\<open>ESP_ERR_NO_MEM\<close> and others) and which these laws leave out. In service, a
  namespace that cannot be opened for reading holds nothing; a read reports what is committed; a write
  followed by a commit, both successful, has replaced the entry; the calls that only read hardware leave
  the store alone. Out of service the code does not tell the two apart: \<open>esp_unopened_no_mark\<close>.
\<close>

locale esp_nvs =
  fixes d :: "'s esp_idf"
    and up :: "'s \<Rightarrow> bool"
    and num :: "'s \<Rightarrow> u32 option"
    and str :: "'s \<Rightarrow> bytes option"
  assumes mac_frame: "up s \<Longrightarrow> efuse_mac d s = (e, m, s') \<Longrightarrow> up s' \<and> num s' = num s \<and> str s' = str s"
    and chip_frame: "up s \<Longrightarrow> chip_info_get d s = (ci, s') \<Longrightarrow> up s' \<and> num s' = num s \<and> str s' = str s"
    and flash_frame: "up s \<Longrightarrow> flash_read_id d s = (e, v, s') \<Longrightarrow> up s' \<and> num s' = num s \<and> str s' = str s"
    and time_frame: "up s \<Longrightarrow> wall_time d s = (t, s') \<Longrightarrow> up s' \<and> num s' = num s \<and> str s' = str s"
    and open_frame: "up s \<Longrightarrow> nvs_open d ns rw s = (e, h, s') \<Longrightarrow> up s' \<and> num s' = num s \<and> str s' = str s"
    and open_absent: "up s \<Longrightarrow> nvs_open d VL_NVS_NAMESPACE False s = (e, h, s') \<Longrightarrow> e \<noteq> ESP_OK \<Longrightarrow>
      num s = None \<and> str s = None"
    and close_frame: "up s \<Longrightarrow> up (nvs_close d h s) \<and> num (nvs_close d h s) = num s \<and> str (nvs_close d h s) = str s"
    and get_num: "up s \<Longrightarrow> nvs_get_u32 d h VL_NVS_KEY_HWM s = (e, v, s') \<Longrightarrow>
      up s' \<and> num s' = num s \<and> str s' = str s \<and>
      (case num s of None \<Rightarrow> e = ESP_ERR_NVS_NOT_FOUND | Some m \<Rightarrow> e = ESP_OK \<and> v = m)"
    and set_num: "up s \<Longrightarrow> nvs_set_u32 d h VL_NVS_KEY_HWM v s = (ESP_OK, s1) \<Longrightarrow> nvs_commit d h s1 = (ESP_OK, s') \<Longrightarrow>
      up s' \<and> num s' = Some v \<and> str s' = str s"
    and get_str: "up s \<Longrightarrow> nvs_get_str d h VL_NVS_KEY_BLOB out cap s = (e, out', n, s') \<Longrightarrow>
      up s' \<and> num s' = num s \<and> str s' = str s \<and>
      (case str s of None \<Rightarrow> e = ESP_ERR_NVS_NOT_FOUND
       | Some x \<Rightarrow> if cap < length x + 1 then e = ESP_ERR_NVS_INVALID_LENGTH
           else e = ESP_OK \<and> out' = overlay out 0 (x @ [0]) \<and> n = length x + 1)"
    and set_str: "up s \<Longrightarrow> nvs_set_str d h VL_NVS_KEY_BLOB x s = (ESP_OK, s1) \<Longrightarrow> nvs_commit d h s1 = (ESP_OK, s') \<Longrightarrow>
      up s' \<and> num s' = num s \<and> str s' = Some (cstr x)"
begin

definition mark :: "'s \<Rightarrow> u32" where
  "mark s = (case num s of None \<Rightarrow> 0 | Some m \<Rightarrow> m)"

definition slot :: "'s \<Rightarrow> bytes" where
  "slot s = (case str s of None \<Rightarrow> [] | Some x \<Rightarrow> x)"

lemma begin_frame: "up s \<Longrightarrow> nvs_begin d rw s = (st, h, s') \<Longrightarrow> up s' \<and> num s' = num s \<and> str s' = str s"
  using open_frame by (auto simp: nvs_begin_def split: prod.splits)

lemma begin_absent: "up s \<Longrightarrow> nvs_begin d False s = (st, h, s') \<Longrightarrow> st \<noteq> VL_OK \<Longrightarrow> num s = None \<and> str s = None"
  using open_absent by (auto simp: nvs_begin_def split: prod.splits if_splits)

lemma id_frame:
  assumes "up s" and r: "esp_read_id_segment d i b s = (st, c, n, s')"
  shows "up s' \<and> num s' = num s \<and> str s' = str s"
proof -
  obtain e1 m s1 e2 ci s2 v s3 where k: "efuse_mac d s = (e1, m, s1)" "chip_info_get d s = (ci, s2)"
    "flash_read_id d s = (e2, v, s3)" by (metis surj_pair)
  have "s' \<in> {s, s1, s2, s3}"
    using r k by (simp add: esp_read_id_segment_def Let_def split: if_splits)
  then show ?thesis
    using assms(1) mac_frame [OF assms(1) k(1)] chip_frame [OF assms(1) k(2)] flash_frame [OF assms(1) k(3)]
    by blast
qed

lemma clock_frame:
  assumes "up s" and r: "esp_now_epoch d s = (st, t, s')"
  shows "up s' \<and> num s' = num s \<and> str s' = str s"
proof -
  obtain t1 s1 where k: "wall_time d s = (t1, s1)" by fastforce
  have "s' = s1" using r k by (simp add: esp_now_epoch_def split: if_splits)
  then show ?thesis using time_frame [OF assms(1) k] by simp
qed

lemma load_num:
  assumes "up s" and "esp_hwm_load d s = (st, m, s')"
  shows "up s' \<and> num s' = num s \<and> str s' = str s \<and> st = VL_OK \<and> m = mark s"
proof -
  obtain st0 h s1 where b: "nvs_begin d False s = (st0, h, s1)" by (cases "nvs_begin d False s")
  note f = begin_frame [OF assms(1) b]
  show ?thesis
  proof (cases "st0 = VL_OK")
    case False
    then show ?thesis using assms(2) b f begin_absent [OF assms(1) b] by (auto simp: esp_hwm_load_def mark_def)
  next
    case True
    obtain e v s2 where g: "nvs_get_u32 d h VL_NVS_KEY_HWM s1 = (e, v, s2)" by (cases "nvs_get_u32 d h VL_NVS_KEY_HWM s1")
    show ?thesis
      using assms(2) b f True g get_num [OF conjunct1 [OF f] g] close_frame [of s2 h]
      by (auto simp: esp_hwm_load_def mark_def Let_def split: option.splits if_splits)
  qed
qed

lemma store_num:
  assumes "up s" and r: "esp_hwm_store d v s = (VL_OK, s')"
  shows "up s' \<and> num s' = Some v \<and> str s' = str s"
proof -
  obtain st0 h s1 where b: "nvs_begin d True s = (st0, h, s1)" by (cases "nvs_begin d True s")
  obtain e s2 where w: "nvs_set_u32 d h VL_NVS_KEY_HWM v s1 = (e, s2)" by fastforce
  obtain e3 s3 where c: "nvs_commit d h s2 = (e3, s3)" by fastforce
  have ok: "e = ESP_OK" "e3 = ESP_OK" "s' = nvs_close d h s3"
    using r b w c by (auto simp: esp_hwm_store_def split: if_splits)
  note f = begin_frame [OF assms(1) b]
  have "up s3 \<and> num s3 = Some v \<and> str s3 = str s1"
    using set_num [OF conjunct1 [OF f], of h v s2 s3] w c ok by simp
  then show ?thesis using close_frame [of s3 h] f ok by simp
qed

lemma store_str:
  assumes "up s" and r: "esp_blob_store d b s = (VL_OK, s')"
  shows "up s' \<and> num s' = num s \<and> str s' = Some (cstr b)"
proof -
  obtain st0 h s1 where b: "nvs_begin d True s = (st0, h, s1)" by (cases "nvs_begin d True s")
  obtain e s2 where w: "nvs_set_str d h VL_NVS_KEY_BLOB (b @ [0]) s1 = (e, s2)" by fastforce
  obtain e3 s3 where c: "nvs_commit d h s2 = (e3, s3)" by fastforce
  have ok: "e = ESP_OK" "e3 = ESP_OK" "s' = nvs_close d h s3"
    using r b w c by (auto simp: esp_blob_store_def Let_def split: if_splits)
  note f = begin_frame [OF assms(1) b]
  have "up s3 \<and> num s3 = num s1 \<and> str s3 = Some (cstr (b @ [0]))"
    using set_str [OF conjunct1 [OF f], of h "b @ [0]" s2 s3] w c ok by simp
  moreover have "cstr (b @ [0]) = cstr b" by (induction b) simp_all
  ultimately show ?thesis using close_frame [of s3 h] f ok by simp
qed

lemma load_str:
  assumes "up s" and "out \<noteq> []" and "esp_blob_load d out s = (st, c, n, s')"
  shows "up s' \<and> num s' = num s \<and> str s' = str s \<and>
    (case str s of None \<Rightarrow> st = VL_ERR_NOT_FOUND
     | Some x \<Rightarrow> if length out < length x + 1 then st = VL_ERR_BUFFER_TOO_SMALL
         else st = VL_OK \<and> c = overlay out 0 (x @ [0]) \<and> n = length x)"
proof -
  obtain st0 h s1 where b: "nvs_begin d False s = (st0, h, s1)" by (cases "nvs_begin d False s")
  note f = begin_frame [OF assms(1) b]
  show ?thesis
  proof (cases "st0 = VL_OK")
    case False
    then show ?thesis using assms b f begin_absent [OF assms(1) b] by (auto simp: esp_blob_load_def)
  next
    case True
    obtain e o' k s2 where g: "nvs_get_str d h VL_NVS_KEY_BLOB out (length out) s1 = (e, o', k, s2)"
      by (metis surj_pair)
    show ?thesis
      using assms b f True g get_str [OF conjunct1 [OF f] g] close_frame [of s2 h]
      by (auto simp: esp_blob_load_def Let_def split: option.splits if_splits)
  qed
qed

end

text \<open>
  The documented store gives both storage contracts. The licence slot is the contract's only
  while it is not the empty string: an empty string is a stored entry, not an absent one.
\<close>

sublocale esp_nvs \<subseteq> hwm: hwm_device "esp_read_id_segment d" "esp_now_epoch d" "esp_hwm_load d" "esp_hwm_store d" up mark
proof unfold_locales
  show "up s \<Longrightarrow> esp_read_id_segment d i b s = (st, c, n, s') \<Longrightarrow> up s' \<and> mark s' = mark s" for s i b st c n s'
    using id_frame by (auto simp: mark_def)
  show "up s \<Longrightarrow> esp_now_epoch d s = (st, t, s') \<Longrightarrow> up s' \<and> mark s' = mark s" for s st t s'
    using clock_frame by (auto simp: mark_def)
  show "up s \<Longrightarrow> esp_hwm_load d s = (st, m, s') \<Longrightarrow> up s' \<and> mark s' = mark s" for s st m s'
    using load_num [of s st m s'] by (auto simp: mark_def)
  show "up s \<Longrightarrow> esp_hwm_load d s = (VL_OK, m, s') \<Longrightarrow> m = mark s" for s m s'
    using load_num by blast
  show "up s \<Longrightarrow> esp_hwm_store d v s = (VL_OK, s') \<Longrightarrow> mark s' = v" for s v s'
    using store_num by (auto simp: mark_def)
qed

sublocale esp_nvs \<subseteq> slot: blob_storage "esp_blob_load d" "esp_blob_store d" "\<lambda>s. up s \<and> str s \<noteq> Some []"
  "\<lambda>b. b \<noteq> [] \<and> 0 \<notin> set b" slot
proof
  fix s b s'
  assume "up s \<and> str s \<noteq> Some []" and b: "b \<noteq> [] \<and> 0 \<notin> set b" and "esp_blob_store d b s = (VL_OK, s')"
  then have "up s' \<and> str s' = Some (cstr b)" using store_str by blast
  moreover have "cstr b = b" using b by (auto simp: cstr_def takeWhile_eq_all_conv)
  ultimately show "slot s' = b \<and> up s' \<and> str s' \<noteq> Some []" using b by (simp add: slot_def)
next
  fix s and buf :: bytes
  assume s: "up s \<and> str s \<noteq> Some []" and "slot s \<noteq> []" and fit: "length (slot s) + 1 \<le> length buf"
  then obtain x where x: "str s = Some x" "slot s = x" by (cases "str s") (auto simp: slot_def)
  obtain st c n s' where l: "esp_blob_load d buf s = (st, c, n, s')" by (metis surj_pair)
  have "buf \<noteq> []" using fit by auto
  from load_str [OF conjunct1 [OF s] this l] show "\<exists>rest s'. esp_blob_load d buf s =
      (VL_OK, slot s @ 0 # rest, length (slot s), s') \<and> slot s' = slot s \<and> up s' \<and> str s' \<noteq> Some []"
    using l x fit s by (simp add: overlay_def slot_def)
next
  fix s and buf :: bytes
  assume s: "up s \<and> str s \<noteq> Some []" and "slot s = []" and "2 \<le> length buf"
  obtain st c n s' where l: "esp_blob_load d buf s = (st, c, n, s')" by (metis surj_pair)
  have "buf \<noteq> []" using \<open>2 \<le> length buf\<close> by auto
  from load_str [OF conjunct1 [OF s] this l] show "\<exists>c n s'. esp_blob_load d buf s = (VL_ERR_NOT_FOUND, c, n, s')"
    using l s \<open>slot s = []\<close> by (auto simp: slot_def split: option.splits)
qed

section \<open>A store that keeps the promises\<close>

record nvs_state =
  nv_exists :: bool
  nv_num :: "u32 option"
  nv_str :: "bytes option"
  nv_time :: int

definition nvs_ref :: "nvs_state esp_idf" where
  "nvs_ref =
     \<lparr>efuse_mac = (\<lambda>s. (ESP_OK, \<lambda>i. word_of_nat (i + 1), s)),
      chip_info_get = (\<lambda>s. (\<lparr>ci_model = 1, ci_cores = 2, ci_revision = 301, ci_features = 0x32\<rparr>, s)),
      flash_read_id = (\<lambda>s. (ESP_OK, 0xC84017, s)),
      wall_time = (\<lambda>s. (nv_time s, s)),
      nvs_open = (\<lambda>ns rw s. if rw then (ESP_OK, 0, s\<lparr>nv_exists := True\<rparr>)
        else (if nv_exists s then ESP_OK else ESP_ERR_NVS_NOT_FOUND, 0, s)),
      nvs_close = (\<lambda>h s. s),
      nvs_get_u32 = (\<lambda>h k s. case nv_num s of None \<Rightarrow> (ESP_ERR_NVS_NOT_FOUND, 0, s) | Some v \<Rightarrow> (ESP_OK, v, s)),
      nvs_set_u32 = (\<lambda>h k v s. (ESP_OK, s\<lparr>nv_exists := True, nv_num := Some v\<rparr>)),
      nvs_get_str = (\<lambda>h k out cap s. case nv_str s of None \<Rightarrow> (ESP_ERR_NVS_NOT_FOUND, out, cap, s)
        | Some x \<Rightarrow> if cap < length x + 1 then (ESP_ERR_NVS_INVALID_LENGTH, out, cap, s)
            else (ESP_OK, overlay out 0 (x @ [0]), length x + 1, s)),
      nvs_set_str = (\<lambda>h k x s. (ESP_OK, s\<lparr>nv_exists := True, nv_str := Some (cstr x)\<rparr>)),
      nvs_commit = (\<lambda>h s. (ESP_OK, s)),
      secure_boot_enabled = Some (\<lambda>s. True),
      flash_encryption_enabled = None\<rparr>"

interpretation esp_ref: esp_nvs nvs_ref "\<lambda>s. nv_exists s \<or> nv_num s = None \<and> nv_str s = None" nv_num nv_str
  by unfold_locales (auto simp: nvs_ref_def split: if_splits option.splits)

end
