(* ===== verification/VL_Bridge.thy ===== *)
theory VL_Bridge
  imports VL_Hal
begin

text \<open>
  \<^verbatim>\<open>bridge/vl_bridge.h\<close>: the class \<^verbatim>\<open>vecti::License\<close> as a record of its
  members and one function per method, over the platform state. As in \<open>VL_Core\<close>, the
  methods take the signature check as an argument. The configuration and the HAL are the
  pointers the object was built with. The callback of \<^verbatim>\<open>onResult\<close> is a function on
  the platform state. Buffers keep their C sizes.
\<close>

section \<open>The object\<close>

definition VL_BRIDGE_BLOB_MAX :: nat where "VL_BRIDGE_BLOB_MAX = 224"

record 's bridge =
  b_cfg :: "vl_config option"
  b_hal :: "'s vl_hal option"
  b_status :: vl_status
  b_idStatus :: vl_status
  b_lic :: vl_license
  b_devid :: bytes
  b_blob :: bytes
  b_pending :: bytes
  b_pending_flag :: bool
  b_onResult :: "(vl_status \<Rightarrow> 's \<Rightarrow> 's) option"

text \<open>The constructor; what the buffers held before it is \<open>dv\<close> and \<open>bl\<close>.\<close>

definition bridge_new :: "vl_config option \<Rightarrow> 's vl_hal option \<Rightarrow> bytes \<Rightarrow> bytes \<Rightarrow> 's bridge" where
  "bridge_new cfg hal dv bl =
     \<lparr>b_cfg = cfg, b_hal = hal, b_status = VL_ERR_NOT_FOUND, b_idStatus = VL_OK, b_lic = zero_license,
      b_devid = dv[0 := 0], b_blob = bl[0 := 0], b_pending = replicate VL_BRIDGE_BLOB_MAX 0,
      b_pending_flag = False, b_onResult = None\<rparr>"

definition bridge_deviceId :: "'s bridge \<Rightarrow> 's \<Rightarrow> bytes \<times> 's bridge \<times> 's" where
  "bridge_deviceId b s =
     (if b_devid b ! 0 = 0 then
        (case vl_compute_fingerprint (b_hal b) (Some (replicate VL_FINGERPRINT_LEN 0)) s of (st, fp, s1) \<Rightarrow>
          let b1 = b\<lparr>b_idStatus := st\<rparr>;
              b2 = (if st = VL_OK then
                      (case vl_encode_device_id fp (Some (b_devid b1)) (length (b_devid b1)) of (st2, dv) \<Rightarrow>
                         b1\<lparr>b_idStatus := st2, b_devid := the dv\<rparr>)
                    else b1);
              b3 = (if b_idStatus b2 \<noteq> VL_OK then b2\<lparr>b_devid := (b_devid b2)[0 := 0]\<rparr> else b2)
          in (cstr (b_devid b3), b3, s1))
      else (cstr (b_devid b), b, s))"

definition bridge_ok :: "'s bridge \<Rightarrow> bool" where
  "bridge_ok b \<longleftrightarrow> b_status b = VL_OK"

definition bridge_license :: "'s bridge \<Rightarrow> vl_license option" where
  "bridge_license b = (if bridge_ok b then Some (b_lic b) else None)"

definition bridge_feature :: "'s bridge \<Rightarrow> nat \<Rightarrow> bool" where
  "bridge_feature b n \<longleftrightarrow> bridge_ok b \<and> vl_has_feature (Some (b_lic b)) n \<noteq> 0"

definition bridge_checked :: "'s bridge \<Rightarrow> u32" where
  "bridge_checked b = (if bridge_ok b then checked (b_lic b) else 0)"

definition bridge_blob :: "'s bridge \<Rightarrow> bytes" where
  "bridge_blob b = cstr (b_blob b)"

section \<open>Applying a licence\<close>

definition fold_char :: "u8 \<Rightarrow> u8" where
  "fold_char c =
     (let c = (if 0x61 \<le> c \<and> c \<le> 0x7A then c - 0x61 + 0x41 else c)
      in if c = 0x49 \<or> c = 0x4C then 0x31 else if c = 0x4F then 0x30 else c)"

text \<open>The loop that keeps the canonical spelling, and the index it ends with.\<close>

fun canon_fold :: "bytes \<Rightarrow> nat \<Rightarrow> bytes \<Rightarrow> bytes \<times> nat" where
  "canon_fold [] n buf = (buf, n)"
| "canon_fold (c # p) n buf =
     (if c = 0 \<or> n \<ge> VL_BLOB_STR_LEN then (buf, n)
      else if c = 0x2D \<or> c = 0x20 \<or> c = 0x09 \<or> c = 0x0D \<or> c = 0x0A then canon_fold p n buf
      else canon_fold p (n + 1) (buf[n := fold_char c]))"

definition bridge_apply :: "sigcheck \<Rightarrow> bytes option \<Rightarrow> bool \<Rightarrow> 's bridge \<Rightarrow> 's \<Rightarrow>
    vl_status \<times> 's bridge \<times> 's" where
  "bridge_apply V blob persist b s =
     (case vl_verify_with V blob (b_cfg b) (b_hal b) (Some zero_license) s of (st, lic, s1) \<Rightarrow>
        if st \<noteq> VL_OK
        then (st, b\<lparr>b_status := st, b_lic := zero_license, b_blob := (b_blob b)[0 := 0]\<rparr>, s1)
        else
          let b1 = b\<lparr>b_lic := the lic, b_status := VL_OK\<rparr>;
              (buf, n) = canon_fold (the blob) 0 (b_blob b1);
              b2 = b1\<lparr>b_blob := buf[n := 0]\<rparr>
          in (case (persist, b_hal b2) of
              (True, Some h) \<Rightarrow>
                (case blob_store h of
                   None \<Rightarrow> (VL_OK, b2, s1)
                 | Some store \<Rightarrow>
                     (case store (take n (b_blob b2)) s1 of (st2, s2) \<Rightarrow>
                        (if st2 \<noteq> VL_OK then VL_ERR_PLATFORM else VL_OK, b2, s2)))
            | _ \<Rightarrow> (VL_OK, b2, s1)))"

section \<open>Lifecycle\<close>

definition bridge_begin :: "sigcheck \<Rightarrow> 's bridge \<Rightarrow> 's \<Rightarrow> vl_status \<times> 's bridge \<times> 's" where
  "bridge_begin V b s =
     (case b_hal b of
        None \<Rightarrow> (VL_ERR_NOT_FOUND, b\<lparr>b_status := VL_ERR_NOT_FOUND\<rparr>, s)
      | Some h \<Rightarrow>
          (case blob_load h of
             None \<Rightarrow> (VL_ERR_NOT_FOUND, b\<lparr>b_status := VL_ERR_NOT_FOUND\<rparr>, s)
           | Some load \<Rightarrow>
               (case load (replicate VL_BLOB_STR_BUF_LEN 0) s of (st, buf, len, s1) \<Rightarrow>
                  if st \<noteq> VL_OK then (st, b\<lparr>b_status := st\<rparr>, s1)
                  else if len \<ge> VL_BLOB_STR_BUF_LEN
                  then (VL_ERR_PLATFORM, b\<lparr>b_status := VL_ERR_PLATFORM\<rparr>, s1)
                  else bridge_apply V (Some (buf[len := 0])) False b s1)))"

definition bridge_activate :: "sigcheck \<Rightarrow> bytes option \<Rightarrow> 's bridge \<Rightarrow> 's \<Rightarrow> vl_status \<times> 's bridge \<times> 's" where
  "bridge_activate V blob b s = bridge_apply V blob True b s"

text \<open>The first \<open>len\<close> bytes of \<open>blob\<close> are copied.\<close>

definition bridge_submit :: "bytes option \<Rightarrow> nat \<Rightarrow> 's bridge \<Rightarrow> bool \<times> 's bridge" where
  "bridge_submit blob len b =
     (case blob of None \<Rightarrow> (False, b)
      | Some p \<Rightarrow>
          if len = 0 \<or> len \<ge> VL_BRIDGE_BLOB_MAX then (False, b)
          else if b_pending_flag b then (False, b)
          else (True, b\<lparr>b_pending := (overlay (b_pending b) 0 (take len p))[len := 0], b_pending_flag := True\<rparr>))"

definition bridge_submit_str :: "bytes option \<Rightarrow> 's bridge \<Rightarrow> bool \<times> 's bridge" where
  "bridge_submit_str blob b =
     (case blob of None \<Rightarrow> (False, b) | Some p \<Rightarrow> bridge_submit (Some p) (length (cstr p)) b)"

definition bridge_pump :: "sigcheck \<Rightarrow> 's bridge \<Rightarrow> 's \<Rightarrow> bool \<times> 's bridge \<times> 's" where
  "bridge_pump V b s =
     (if \<not> b_pending_flag b then (False, b, s)
      else (case bridge_activate V (Some (b_pending b)) b s of (st, b1, s1) \<Rightarrow>
        let b2 = b1\<lparr>b_pending := replicate VL_BRIDGE_BLOB_MAX 0, b_pending_flag := False\<rparr>
        in (True, b2, case b_onResult b2 of None \<Rightarrow> s1 | Some cb \<Rightarrow> cb st s1)))"

definition bridge_onResult :: "(vl_status \<Rightarrow> 's \<Rightarrow> 's) option \<Rightarrow> 's bridge \<Rightarrow> 's bridge" where
  "bridge_onResult cb b = b\<lparr>b_onResult := cb\<rparr>"

definition bridge_clear :: "'s bridge \<Rightarrow> 's \<Rightarrow> vl_status \<times> 's bridge \<times> 's" where
  "bridge_clear b s =
     (let b1 = b\<lparr>b_status := VL_ERR_NOT_FOUND, b_lic := zero_license, b_blob := (b_blob b)[0 := 0]\<rparr>
      in case b_hal b of
           None \<Rightarrow> (VL_OK, b1, s)
         | Some h \<Rightarrow>
             (case blob_store h of
                None \<Rightarrow> (VL_OK, b1, s)
              | Some store \<Rightarrow> (case store [] s of (st, s1) \<Rightarrow> (st, b1, s1))))"

definition bridge_posture :: "vl_posture_t \<Rightarrow> 's bridge \<Rightarrow> 's \<Rightarrow> vl_posture_t \<times> 's" where
  "bridge_posture p0 b s =
     (case vl_posture (b_hal b) (Some p0) s of (st, p, s1) \<Rightarrow>
        if st \<noteq> VL_OK then (posture_unknown (the p), s1) else (the p, s1))"

section \<open>The summary line\<close>

text \<open>
  The text written: the state, cut to the capacity, and the reason in parentheses when there
  is room for it to start; \<open>None\<close> stands for the empty literal returned for no buffer.
\<close>

definition summary_copy :: "string \<Rightarrow> nat \<Rightarrow> nat \<Rightarrow> bytes \<Rightarrow> bytes \<times> nat" where
  "summary_copy t extra cap on =
     (let n = length on; k = min (length t) (cap - extra - n)
      in (on @ take k (str_bytes t), n + k))"

definition licenseSummary :: "'s bridge \<Rightarrow> nat \<Rightarrow> bytes option" where
  "licenseSummary b cap =
     (if cap = 0 then None
      else
        let state = (if bridge_ok b then ''licensed'' else ''not licensed'');
            why = (if bridge_ok b then '''' else vl_status_str (status_code (b_status b)));
            (o1, n) = summary_copy state 1 cap []
        in if why \<noteq> '''' \<and> n + 3 < cap then
             let (o2, n2) = summary_copy why 2 cap (o1 @ str_bytes '' (''); o3 = o2 @ str_bytes '')''
             in Some o3
           else Some o1)"


section \<open>Canonical spelling\<close>

lemma b32_symbol_range:
  assumes "0 \<le> b32_val c"
  shows "unat c \<in> set ([48..<58] @ [65..<91] @ [97..<123])"
proof -
  have "unat (c - 32) = unat c - 32" if "0x61 \<le> c"
    using that unat_sub [of 32 c] by (simp add: word_le_nat_alt)
  then have "48 \<le> unat c \<and> unat c < 58 \<or> 65 \<le> unat c \<and> unat c < 91 \<or> 97 \<le> unat c \<and> unat c < 123"
    using assms by (auto simp: b32_val_def word_le_nat_alt Let_def split: if_splits)
  then show ?thesis by (simp only: set_append set_upt Un_iff atLeastLessThan_iff)
qed

lemma fold_char_all:
  "list_all (\<lambda>n. fold_char (word_of_nat n) = ENC_ALPHA ! nat (b32_val (word_of_nat n)) \<or> b32_val (word_of_nat n) < 0)
     ([48..<58] @ [65..<91] @ [97..<123])"
  by code_simp

lemma fold_char_val: "0 \<le> b32_val c \<Longrightarrow> fold_char c = ENC_ALPHA ! nat (b32_val c)"
  using fold_char_all b32_symbol_range [of c] unfolding list_all_iff by fastforce

text \<open>The folded symbols of a spelling are its canonical text.\<close>

lemma fold_symbols:
  assumes "\<forall>c \<in> set w. 0 \<le> b32_val c"
  shows "canon (map fold_char w) \<and> sym_str (map fold_char w) = sym_str w"
  using assms
proof (induction w)
  case Nil
  then show ?case by simp
next
  case (Cons c w)
  have r: "nat (b32_val c) < 32" using b32_val_range [of c] Cons.prems by simp
  have "fold_char c \<in> set ENC_ALPHA" using r fold_char_val [of c] Cons.prems by simp
  moreover have "b32_val (fold_char c) = b32_val c"
    using r b32_val_ENC_ALPHA [OF r] fold_char_val [of c] Cons.prems by simp
  ultimately show ?case using Cons by (simp add: canon_def sym_bits_def)
qed

lemma spells_symbols:
  assumes "b32_spells s bin"
  shows "map fold_char (b32_sig (cstr s)) = b32_text bin"
proof -
  have nn: "\<forall>c \<in> set (b32_sig (cstr s)). 0 \<le> b32_val c"
  proof
    fix c assume "c \<in> set (b32_sig (cstr s))"
    then have "c \<in> set (cstr s)" "b32_val c \<noteq> -2" by (auto simp: b32_sig_def)
    then have "b32_val c \<noteq> -1" "b32_val c \<noteq> -2" using assms by (auto simp: b32_spells_def)
    then show "0 \<le> b32_val c" using b32_val_range [of c] by linarith
  qed
  show ?thesis
    using fold_symbols [OF nn] b32_text_spec [of bin] assms
    by (intro canon_sym_str_inj) (simp_all add: b32_spells_def)
qed

lemma grouping_val: "(c = 0x2D \<or> c = 0x20 \<or> c = 0x09 \<or> c = 0x0D \<or> c = 0x0A) \<longleftrightarrow> b32_val c = -2"
proof
  assume "b32_val c = -2"
  moreover have "-1 \<le> A2V ! unat (c' - 0x41)" if "0x41 \<le> c' \<and> c' \<le> 0x5A" for c' :: u8
  proof -
    have "unat (c' - 0x41) < 26"
      using that unat_sub [of "0x41" c'] by (simp add: word_le_nat_alt) linarith
    then have "A2V ! unat (c' - 0x41) \<in> set A2V" by (intro nth_mem) (simp add: length_A2V)
    then show ?thesis using A2V_range unfolding list_all_iff by blast
  qed
  ultimately show "c = 0x2D \<or> c = 0x20 \<or> c = 0x09 \<or> c = 0x0D \<or> c = 0x0A"
    unfolding b32_val_def Let_def
    by (smt (verit) uint_nonnegative zero_le_numeral)
qed (simp add: b32_val_def)

lemma canon_fold_spec:
  assumes "n + length (b32_sig (cstr s)) \<le> VL_BLOB_STR_LEN" and "VL_BLOB_STR_LEN < length buf"
  shows "canon_fold s n buf = (overlay buf n (map fold_char (b32_sig (cstr s))), n + length (b32_sig (cstr s)))"
  using assms
proof (induction s arbitrary: n buf)
  case Nil
  then show ?case by simp
next
  case (Cons c s)
  consider "c = 0" | "c \<noteq> 0" "b32_val c = -2" | "c \<noteq> 0" "b32_val c \<noteq> -2" by blast
  then show ?case
  proof cases
    case 1
    then show ?thesis by simp
  next
    case 2
    show ?thesis
    proof (cases "n \<ge> VL_BLOB_STR_LEN")
      case True
      moreover have "n + length (b32_sig (cstr s)) \<le> VL_BLOB_STR_LEN" using Cons.prems 2 by simp
      ultimately have "length (b32_sig (cstr s)) = 0" by linarith
      then have "b32_sig (cstr s) = []" by (simp only: length_0_conv)
      then show ?thesis using True 2 by simp
    next
      case False
      then show ?thesis using 2 Cons.IH [of n buf] Cons.prems grouping_val [of c] by simp
    qed
  next
    case 3
    let ?w = "map fold_char (b32_sig (cstr s))"
    have n: "\<not> n \<ge> VL_BLOB_STR_LEN" "n < length buf" using Cons.prems 3 by simp_all
    have "canon_fold (c # s) n buf = canon_fold s (n + 1) (buf[n := fold_char c])"
      using 3 n grouping_val [of c] by auto
    also have "\<dots> = (overlay (buf[n := fold_char c]) (n + 1) ?w, n + 1 + length ?w)"
      using Cons.IH [of "n + 1" "buf[n := fold_char c]"] Cons.prems 3 by simp
    also have "overlay (buf[n := fold_char c]) (n + 1) ?w = overlay buf n (fold_char c # ?w)"
      using n by (simp add: overlay_def upd_conv_take_nth_drop ac_simps)
    finally show ?thesis using 3 by simp
  qed
qed

text \<open>
  Whatever spelling was pasted, what the object keeps is the text \<open>vl_base32_encode\<close>
  gives for the hundred bytes.
\<close>

lemma canon_fold_text:
  assumes "b32_spells s bin" and "length bin = 100" and "length buf = VL_BLOB_STR_BUF_LEN"
  shows "canon_fold s 0 buf = (b32_text bin @ drop 160 buf, 160)"
proof -
  have "length (b32_text bin) = 160" using b32_text_spec [of bin] assms(2) by (simp add: VL_BASE32_CHARS_def)
  moreover from this have "length (b32_sig (cstr s)) = 160"
    using spells_symbols [OF assms(1)] by (metis length_map)
  ultimately show ?thesis
    using canon_fold_spec [of 0 s buf] assms(3) spells_symbols [OF assms(1)]
    by (simp add: vl_sizes overlay_def)
qed


section \<open>What the object holds\<close>

text \<open>
  The licence held: admitted in some platform state for these hundred bytes, with the fields, the
  check bits and the canonical text of exactly those bytes. An object holds one or none; one that
  holds none is not licensed, but one that is not licensed may still hold the last, since a
  \<open>begin\<close> that cannot load the stored blob changes nothing but the status.
\<close>

definition in_force :: "sigcheck \<Rightarrow> 's bridge \<Rightarrow> bytes \<Rightarrow> bool" where
  "in_force V b bin \<longleftrightarrow>
     (\<exists>c h s. b_cfg b = Some c \<and> b_hal b = Some h \<and> admits V (b32_text bin) c h s bin \<and>
        b_lic b = mark_checked (checks_run c h) (parse_license bin) \<and> bridge_blob b = b32_text bin)"

definition bridge_inv :: "sigcheck \<Rightarrow> 's bridge \<Rightarrow> bool" where
  "bridge_inv V b \<longleftrightarrow>
     length (b_blob b) = VL_BLOB_STR_BUF_LEN \<and> length (b_devid b) = VL_DEVICE_ID_STR_BUF_LEN \<and>
     length (b_pending b) = VL_BRIDGE_BLOB_MAX \<and>
     (bridge_blob b = [] \<and> b_status b \<noteq> VL_OK \<or> (\<exists>bin. in_force V b bin))"

lemma bridge_inv_ok: "bridge_inv V b \<Longrightarrow> b_status b = VL_OK \<Longrightarrow> \<exists>bin. in_force V b bin"
  by (auto simp: bridge_inv_def)

lemma cstr_cleared [simp]: "0 < length x \<Longrightarrow> cstr (x[0 := 0]) = []"
  by (cases x) simp_all

lemma bridge_inv_new:
  "length dv = VL_DEVICE_ID_STR_BUF_LEN \<Longrightarrow> length bl = VL_BLOB_STR_BUF_LEN \<Longrightarrow> bridge_inv V (bridge_new cfg hal dv bl)"
  by (simp add: bridge_inv_def bridge_new_def bridge_blob_def vl_sizes)

lemma text_160: "length bin = 100 \<Longrightarrow> length (b32_text bin) = 160"
  using b32_text_spec [of bin] by (simp add: VL_BASE32_CHARS_def)

lemma cstr_text: "cstr (b32_text bin @ 0 # rest) = b32_text bin"
  using b32_text_spec [of bin] by (simp add: canon_cstr)

lemma text_spells: "length bin = 100 \<Longrightarrow> b32_spells (b32_text bin) bin \<and> b32_spells (b32_text bin @ 0 # rest) bin"
  using b32_spells_text(1) [of bin rest] b32_spells_text(2) [of bin]
  by (simp add: VL_BASE32_CHARS_def VL_BASE32_MAX_INPUT_def)

text \<open>The object after a verified blob, before the store.\<close>

definition accepted :: "vl_config \<Rightarrow> 's vl_hal \<Rightarrow> bytes \<Rightarrow> 's bridge \<Rightarrow> 's bridge" where
  "accepted c h bin b = b\<lparr>b_lic := mark_checked (checks_run c h) (parse_license bin), b_status := VL_OK,
     b_blob := b32_text bin @ [0]\<rparr>"

definition refused :: "vl_status \<Rightarrow> 's bridge \<Rightarrow> 's bridge" where
  "refused st b = b\<lparr>b_status := st, b_lic := zero_license, b_blob := (b_blob b)[0 := 0]\<rparr>"

context id_source
begin

lemma bridge_apply_spec:
  assumes cfg: "b_cfg b = Some c" and hal: "b_hal b = Some h" and rd: "read_id_segment h = Some rd"
    and len: "length (b_blob b) = VL_BLOB_STR_BUF_LEN"
    and v: "vl_verify_with V (Some blob) (Some c) (Some h) (Some zero_license) s = (st, lic, s1)"
  shows "st \<noteq> VL_OK \<Longrightarrow> bridge_apply V (Some blob) persist b s = (st, refused st b, s1)"
    and "st = VL_OK \<Longrightarrow> admits V blob c h s bin \<Longrightarrow>
      bridge_apply V (Some blob) persist b s =
        (case (persist, blob_store h) of
           (True, Some store) \<Rightarrow>
             (case store (b32_text bin) s1 of (st2, s2) \<Rightarrow>
                (if st2 \<noteq> VL_OK then VL_ERR_PLATFORM else VL_OK, accepted c h bin b, s2))
         | _ \<Rightarrow> (VL_OK, accepted c h bin b, s1))"
proof -
  show "bridge_apply V (Some blob) persist b s = (st, refused st b, s1)" if "st \<noteq> VL_OK"
    using v that by (simp add: bridge_apply_def cfg hal refused_def)
next
  assume ok: "st = VL_OK" and a: "admits V blob c h s bin"
  have bin: "b32_spells blob bin" "length bin = 100" using a by (simp_all add: admits_def)
  have lic: "lic = Some (mark_checked (checks_run c h) (parse_license bin))"
    using vl_verify_spec(2) [OF v rd ok a] by simp
  have fold: "canon_fold blob 0 (b_blob b) = (b32_text bin @ drop 160 (b_blob b), 160)"
    using canon_fold_text [OF bin] len by simp
  obtain x where "drop 160 (b_blob b) = [x]"
    using len by (cases "drop 160 (b_blob b)") (auto simp: vl_sizes dest: arg_cong [where f = length])
  then have "(b32_text bin @ drop 160 (b_blob b))[160 := 0] = b32_text bin @ [0]"
    using text_160 [OF bin(2)] by (simp add: list_update_append)
  then show "bridge_apply V (Some blob) persist b s =
        (case (persist, blob_store h) of
           (True, Some store) \<Rightarrow>
             (case store (b32_text bin) s1 of (st2, s2) \<Rightarrow>
                (if st2 \<noteq> VL_OK then VL_ERR_PLATFORM else VL_OK, accepted c h bin b, s2))
         | _ \<Rightarrow> (VL_OK, accepted c h bin b, s1))"
    using v ok text_160 [OF bin(2)]
    by (auto simp: bridge_apply_def cfg hal lic fold accepted_def split: option.split bool.split)
qed

lemma accepted_in_force:
  assumes "b_cfg b = Some c" and "b_hal b = Some h" and "admits V blob c h s bin"
  shows "in_force V (accepted c h bin b) bin"
proof -
  have bin: "length bin = 100" using assms(3) by (simp add: admits_def)
  have "bridge_blob (accepted c h bin b) = b32_text bin"
    using cstr_text [of bin "[]"] by (simp add: accepted_def bridge_blob_def)
  then show ?thesis
    using assms admits_respelled [OF assms(3), of "b32_text bin"] text_spells [OF bin]
    by (auto simp: in_force_def accepted_def)
qed

lemma bridge_apply_inv:
  assumes "b_cfg b = Some c" and "b_hal b = Some h" and "read_id_segment h = Some rd" and inv: "bridge_inv V b"
    and r: "bridge_apply V (Some blob) persist b s = (st, b', s')"
  shows "bridge_inv V b' \<and> b_cfg b' = Some c \<and> b_hal b' = Some h \<and>
    (b_status b' = VL_OK \<longleftrightarrow> (\<exists>bin. admits V blob c h s bin))"
proof -
  have len: "length (b_blob b) = VL_BLOB_STR_BUF_LEN" using inv by (simp add: bridge_inv_def)
  obtain vs lic s1 where v: "vl_verify_with V (Some blob) (Some c) (Some h) (Some zero_license) s = (vs, lic, s1)"
    by (metis surj_pair)
  note spec = bridge_apply_spec [OF assms(1,2,3) len v]
  show ?thesis
  proof (cases "vs = VL_OK")
    case False
    then have "b' = refused vs b" using spec(1) [of persist] r by simp
    then show ?thesis
      using False vl_verify_spec(1) [OF v assms(3)] inv assms(1,2) len
      by (simp add: refused_def bridge_inv_def bridge_blob_def vl_sizes)
  next
    case True
    then obtain bin where a: "admits V blob c h s bin" using vl_verify_spec(1) [OF v assms(3)] by blast
    have "b' = accepted c h bin b"
      using spec(2) [OF True a, of persist] r by (auto split: option.splits bool.splits prod.splits)
    moreover have "length (b32_text bin) = 160" using a by (intro text_160) (simp add: admits_def)
    ultimately show ?thesis
      using accepted_in_force [OF assms(1,2) a] a inv assms(1,2)
      by (auto simp: bridge_inv_def accepted_def vl_sizes)
  qed
qed

end


section \<open>Reachable objects\<close>

text \<open>
  The sketch's calls in any order, with the world (the clock, the files, other code on the
  loop task) moving between them.
\<close>

inductive bridge_step :: "sigcheck \<Rightarrow> 's bridge \<times> 's \<Rightarrow> 's bridge \<times> 's \<Rightarrow> bool" for V where
  step_world: "bridge_step V (b, s) (b, s')"
| step_begin: "bridge_begin V b s = (st, b', s') \<Longrightarrow> bridge_step V (b, s) (b', s')"
| step_activate: "bridge_activate V (Some blob) b s = (st, b', s') \<Longrightarrow> bridge_step V (b, s) (b', s')"
| step_submit: "bridge_submit blob len b = (ok, b') \<Longrightarrow> bridge_step V (b, s) (b', s)"
| step_pump: "bridge_pump V b s = (did, b', s') \<Longrightarrow> bridge_step V (b, s) (b', s')"
| step_clear: "bridge_clear b s = (st, b', s') \<Longrightarrow> bridge_step V (b, s) (b', s')"
| step_id: "bridge_deviceId b s = (d, b', s') \<Longrightarrow> bridge_step V (b, s) (b', s')"
| step_onResult: "bridge_step V (b, s) (bridge_onResult cb b, s)"

inductive bridge_reach :: "sigcheck \<Rightarrow> vl_config \<Rightarrow> 's vl_hal \<Rightarrow> 's bridge \<Rightarrow> 's \<Rightarrow> bool" for V c h where
  reach_new: "length dv = VL_DEVICE_ID_STR_BUF_LEN \<Longrightarrow> length bl = VL_BLOB_STR_BUF_LEN \<Longrightarrow>
    bridge_reach V c h (bridge_new (Some c) (Some h) dv bl) s"
| reach_step: "bridge_reach V c h b s \<Longrightarrow> bridge_step V (b, s) (b', s') \<Longrightarrow> bridge_reach V c h b' s'"

inductive_cases bridge_stepE: "bridge_step V (b, s) (b', s')"

text \<open>The identity and inbox methods leave the verdict alone.\<close>

lemma bridge_inv_frame:
  assumes "bridge_inv V b" and "b_cfg b' = b_cfg b" and "b_hal b' = b_hal b" and "b_status b' = b_status b"
    and "b_lic b' = b_lic b" and "b_blob b' = b_blob b" and "length (b_devid b') = length (b_devid b)"
    and "length (b_pending b') = length (b_pending b)"
  shows "bridge_inv V b'"
  using assms by (simp add: bridge_inv_def in_force_def bridge_blob_def)

lemma encode_device_id_length:
  "vl_encode_device_id (Some fp) (Some dv) (length dv) = (st, dv') \<Longrightarrow> length fp = 32 \<Longrightarrow>
   length dv = VL_DEVICE_ID_STR_BUF_LEN \<Longrightarrow> length (the dv') = VL_DEVICE_ID_STR_BUF_LEN"
  using vl_base32_encode_text [of 16 fp 27 dv] b32_text_spec [of "take 16 fp"]
  by (auto simp: vl_encode_device_id_def vl_sizes VL_BASE32_CHARS_def split: if_splits prod.splits)

context id_source
begin

lemma bridge_deviceId_frame:
  assumes "b_hal b = Some h" and "read_id_segment h = Some rd" and "length (b_devid b) = VL_DEVICE_ID_STR_BUF_LEN"
    and "bridge_deviceId b s = (d, b', s')"
  shows "b_cfg b' = b_cfg b \<and> b_hal b' = b_hal b \<and> b_status b' = b_status b \<and> b_lic b' = b_lic b \<and>
    b_blob b' = b_blob b \<and> length (b_devid b') = length (b_devid b) \<and> length (b_pending b') = length (b_pending b)"
proof (cases "b_devid b ! 0 = 0")
  case False
  then show ?thesis using assms(4) by (simp add: bridge_deviceId_def)
next
  case True
  obtain st fp s1 where f: "vl_compute_fingerprint (Some h) (Some (replicate VL_FINGERPRINT_LEN 0)) s = (st, fp, s1)"
    by (metis surj_pair)
  have "st = VL_OK \<Longrightarrow> \<exists>x. fp = Some x \<and> length x = 32"
    using f id_segments_error [of rd 0 s]
    by (auto simp: fingerprint_spec [OF assms(2)] split: prod.splits sum.splits if_splits)
  then show ?thesis
    using assms True f encode_device_id_length [of _ "b_devid b"]
    by (auto simp: bridge_deviceId_def Let_def split: prod.splits if_splits)
qed

lemma bridge_step_inv:
  assumes "bridge_step V (b, s) (b', s')" and inv: "bridge_inv V b" and c: "b_cfg b = Some c"
    and h: "b_hal b = Some h" and r: "read_id_segment h = Some rd"
  shows "bridge_inv V b' \<and> b_cfg b' = Some c \<and> b_hal b' = Some h"
proof (cases rule: bridge_stepE [OF assms(1)])
  case (2 st)
  show ?thesis
  proof (cases "b' = b\<lparr>b_status := st\<rparr> \<and> st \<noteq> VL_OK")
    case True
    then show ?thesis using inv c h by (auto simp: bridge_inv_def in_force_def bridge_blob_def)
  next
    case False
    then obtain blob s1 where "bridge_apply V (Some blob) False b s1 = (st, b', s')"
      using 2 h by (auto simp: bridge_begin_def split: option.splits prod.splits if_splits)
    from bridge_apply_inv [OF c h r inv this] show ?thesis by blast
  qed
next
  case (3 blob st)
  then show ?thesis using bridge_apply_inv [OF c h r inv] by (auto simp: bridge_activate_def)
next
  case (4 blob len ok)
  then have "b' = b \<or> (\<exists>p f. b' = b\<lparr>b_pending := p, b_pending_flag := f\<rparr> \<and> length p = length (b_pending b))"
    using inv by (auto simp: bridge_submit_def bridge_inv_def split: option.splits if_splits)
  then show ?thesis using inv c h bridge_inv_frame [OF inv, of b'] by auto
next
  case (5 did)
  show ?thesis
  proof (cases "b_pending_flag b")
    case False
    then show ?thesis using 5 inv c h by (simp add: bridge_pump_def)
  next
    case True
    obtain st b1 s1 where a: "bridge_apply V (Some (b_pending b)) True b s = (st, b1, s1)" by (metis surj_pair)
    have b': "b' = b1\<lparr>b_pending := replicate VL_BRIDGE_BLOB_MAX 0, b_pending_flag := False\<rparr>"
      using 5 True a by (simp add: bridge_pump_def bridge_activate_def)
    have i: "bridge_inv V b1" "b_cfg b1 = Some c" "b_hal b1 = Some h"
      using bridge_apply_inv [OF c h r inv a] by simp_all
    have "length (b_pending b1) = VL_BRIDGE_BLOB_MAX" using i(1) by (simp add: bridge_inv_def)
    then show ?thesis using bridge_inv_frame [OF i(1), of b'] i b' by simp
  qed
next
  case (6 st)
  then show ?thesis
    using inv c h
    by (auto simp: bridge_clear_def Let_def bridge_inv_def bridge_blob_def vl_sizes split: option.splits prod.splits)
next
  case (7 d)
  have "length (b_devid b) = VL_DEVICE_ID_STR_BUF_LEN" using inv by (simp add: bridge_inv_def)
  from bridge_deviceId_frame [OF h r this 7] show ?thesis using bridge_inv_frame [OF inv, of b'] c h by auto
next
  case (8 cb)
  then show ?thesis using bridge_inv_frame [OF inv, of b'] c h by (simp add: bridge_onResult_def)
qed (use inv c h in auto)

lemma bridge_reach_inv:
  "bridge_reach V c h b s \<Longrightarrow> read_id_segment h = Some rd \<Longrightarrow> bridge_inv V b \<and> b_cfg b = Some c \<and> b_hal b = Some h"
proof (induction rule: bridge_reach.induct)
  case (reach_new dv bl s)
  then show ?case by (simp add: bridge_inv_new) (simp add: bridge_new_def)
next
  case (reach_step b s b' s')
  then show ?case using bridge_step_inv by blast
qed

end

section \<open>The one-slot inbox between two tasks\<close>

text \<open>
  \<^verbatim>\<open>submit()\<close> on a network task and \<^verbatim>\<open>pump()\<close> on the loop task, cut at each
  access to the shared members, in any interleaving; one writer and one reader, as the file
  requires, and sequentially consistent accesses. \<open>taken\<close> is what was submitted with
  success, \<open>given\<close> what reached \<open>activate\<close>.
\<close>

datatype writer = W_idle | W_checked bytes | W_copied bytes
datatype reader = R_idle | R_seen | R_used | R_wiped

record inbox =
  in_pending :: bytes
  in_flag :: bool
  in_w :: writer
  in_r :: reader
  taken :: "bytes list"
  given :: "bytes list"

inductive inbox_step :: "inbox \<Rightarrow> inbox \<Rightarrow> bool" where
  w_check: "in_w i = W_idle \<Longrightarrow> \<not> in_flag i \<Longrightarrow> p \<noteq> [] \<Longrightarrow> length p < VL_BRIDGE_BLOB_MAX \<Longrightarrow> 0 \<notin> set p \<Longrightarrow>
    inbox_step i (i\<lparr>in_w := W_checked p\<rparr>)"
| w_copy: "in_w i = W_checked p \<Longrightarrow>
    inbox_step i (i\<lparr>in_w := W_copied p, in_pending := (overlay (in_pending i) 0 p)[length p := 0]\<rparr>)"
| w_publish: "in_w i = W_copied p \<Longrightarrow>
    inbox_step i (i\<lparr>in_w := W_idle, in_flag := True, taken := taken i @ [p]\<rparr>)"
| r_see: "in_r i = R_idle \<Longrightarrow> in_flag i \<Longrightarrow> inbox_step i (i\<lparr>in_r := R_seen\<rparr>)"
| r_use: "in_r i = R_seen \<Longrightarrow> inbox_step i (i\<lparr>in_r := R_used, given := given i @ [cstr (in_pending i)]\<rparr>)"
| r_wipe: "in_r i = R_used \<Longrightarrow> inbox_step i (i\<lparr>in_r := R_wiped, in_pending := replicate VL_BRIDGE_BLOB_MAX 0\<rparr>)"
| r_release: "in_r i = R_wiped \<Longrightarrow> inbox_step i (i\<lparr>in_r := R_idle, in_flag := False\<rparr>)"

definition inbox_start :: inbox where
  "inbox_start = \<lparr>in_pending = replicate VL_BRIDGE_BLOB_MAX 0, in_flag = False, in_w = W_idle, in_r = R_idle,
     taken = [], given = []\<rparr>"

inductive inbox_reach :: "inbox \<Rightarrow> bool" where
  inbox_init: "inbox_reach inbox_start"
| inbox_next: "inbox_reach i \<Longrightarrow> inbox_step i j \<Longrightarrow> inbox_reach j"

inductive_cases inbox_stepE: "inbox_step i j"

definition inbox_inv :: "inbox \<Rightarrow> bool" where
  "inbox_inv i \<longleftrightarrow>
     length (in_pending i) = VL_BRIDGE_BLOB_MAX \<and>
     (in_w i \<noteq> W_idle \<longrightarrow> \<not> in_flag i) \<and> (in_r i \<noteq> R_idle \<longrightarrow> in_flag i) \<and>
     (\<forall>p. in_w i = W_checked p \<or> in_w i = W_copied p \<longrightarrow> length p < VL_BRIDGE_BLOB_MAX \<and> 0 \<notin> set p) \<and>
     (\<forall>p. in_w i = W_copied p \<longrightarrow> cstr (in_pending i) = p) \<and>
     (if in_flag i \<and> (in_r i = R_idle \<or> in_r i = R_seen)
      then taken i = given i @ [cstr (in_pending i)] else taken i = given i)"

lemma cstr_copied:
  assumes "length p < length buf" and "0 \<notin> set p"
  shows "cstr ((overlay buf 0 p)[length p := 0]) = p"
proof -
  have "(overlay buf 0 p)[length p := 0] = p @ 0 # drop (Suc (length p)) buf"
    using assms(1) by (simp add: overlay_def list_update_append upd_conv_take_nth_drop)
  moreover have "cstr (p @ 0 # r) = p" for r
    using assms(2) by (induction p) auto
  ultimately show ?thesis by simp
qed

lemma inbox_step_inv: "inbox_step i j \<Longrightarrow> inbox_inv i \<Longrightarrow> inbox_inv j"
  by (erule inbox_stepE) (auto simp: inbox_inv_def cstr_copied)

lemma inbox_reach_inv: "inbox_reach i \<Longrightarrow> inbox_inv i"
proof (induction rule: inbox_reach.induct)
  case inbox_init
  then show ?case by (simp add: inbox_start_def inbox_inv_def)
next
  case (inbox_next i j)
  then show ?case by (simp add: inbox_step_inv)
qed

end
