(* ===== verification/VL_Line.thy ===== *)
theory VL_Line
  imports VL_Types
begin

text \<open>
  \<^verbatim>\<open>transport/vl_line.c\<close>: line framing of a byte stream. The state is the C struct
  (a 201-byte buffer, the length and the two flags); \<open>vl_line_push\<close> is the function of
  the source, branch by branch. The abstract framer \<open>lines_of\<close> says what a stream is
  split into; the refinement lemma shows that pushing the bytes one by one reports exactly
  those lines.
\<close>

section \<open>State and operations\<close>

definition VL_LINE_MAX_LEN :: nat where "VL_LINE_MAX_LEN = 200"

record vl_line =
  l_buf :: bytes
  l_len :: nat
  l_ready :: u8
  l_overflow :: u8

text \<open>A NULL state is \<open>None\<close>: reset ignores it and push refuses it.\<close>

definition vl_line_reset :: "vl_line option \<Rightarrow> vl_line option" where
  "vl_line_reset l = map_option
     (\<lambda>l. l\<lparr>l_len := 0, l_ready := 0, l_overflow := 0, l_buf := (l_buf l)[0 := 0]\<rparr>) l"

definition line_next :: "vl_line \<Rightarrow> vl_line" where
  "line_next l =
     (if l_ready l \<noteq> 0 then l\<lparr>l_len := 0, l_ready := 0, l_buf := (l_buf l)[0 := 0]\<rparr> else l)"

definition line_step :: "vl_line \<Rightarrow> u8 \<Rightarrow> vl_status \<times> vl_line" where
  "line_step l u =
     (if u = 0x0A \<or> u = 0x0D then
        (if l_overflow l \<noteq> 0 then (VL_ERR_BAD_FORMAT, l\<lparr>l_overflow := 0, l_len := 0\<rparr>)
         else if l_len l = 0 then (VL_ERR_NOT_FOUND, l)
         else (VL_OK, l\<lparr>l_buf := (l_buf l)[l_len l := 0], l_ready := 1\<rparr>))
      else if u = 0x20 \<or> u = 0x09 \<or> u = 0x0B \<or> u = 0x0C then (VL_ERR_NOT_FOUND, l)
      else if l_overflow l \<noteq> 0 then (VL_ERR_NOT_FOUND, l)
      else if l_len l \<ge> VL_LINE_MAX_LEN then
        (VL_ERR_NOT_FOUND, l\<lparr>l_overflow := 1, l_len := 0, l_buf := (l_buf l)[0 := 0]\<rparr>)
      else (VL_ERR_NOT_FOUND, l\<lparr>l_buf := (l_buf l)[l_len l := u], l_len := l_len l + 1\<rparr>))"

definition vl_line_push :: "vl_line option \<Rightarrow> u8 \<Rightarrow> vl_status \<times> vl_line option" where
  "vl_line_push l ch =
     (case l of None \<Rightarrow> (VL_ERR_INVALID_ARG, None)
      | Some l \<Rightarrow> map_prod id Some (line_step (line_next l) ch))"

text \<open>
  The caller's loop: push every byte, collect what the non-ordinary returns hand up. The
  string read on \<open>VL_OK\<close> is the buffer up to \<open>l_len\<close>.
\<close>

datatype line_event = Line bytes | Too_long

fun line_run :: "vl_line \<Rightarrow> bytes \<Rightarrow> line_event list \<times> vl_line" where
  "line_run l [] = ([], l)"
| "line_run l (u # us) =
     (let (st, l') = line_step (line_next l) u;
          (evs, l'') = line_run l' us
      in (case st of VL_OK \<Rightarrow> Line (take (l_len l') (l_buf l')) # evs
          | VL_ERR_BAD_FORMAT \<Rightarrow> Too_long # evs
          | _ \<Rightarrow> evs, l''))"

section \<open>The invariant\<close>

definition line_inv :: "vl_line \<Rightarrow> bool" where
  "line_inv l \<longleftrightarrow>
     length (l_buf l) = VL_LINE_MAX_LEN + 1 \<and> l_len l \<le> VL_LINE_MAX_LEN \<and>
     (l_overflow l \<noteq> 0 \<longrightarrow> l_len l = 0 \<and> l_ready l = 0) \<and>
     (l_ready l \<noteq> 0 \<longrightarrow> 0 < l_len l \<and> l_buf l ! l_len l = 0)"

lemma line_inv_zero:
  "line_inv \<lparr>l_buf = replicate 201 0, l_len = 0, l_ready = 0, l_overflow = 0\<rparr>"
  by (simp add: line_inv_def VL_LINE_MAX_LEN_def)

lemma line_inv_next: "line_inv l \<Longrightarrow> line_inv (line_next l)"
  by (auto simp: line_inv_def line_next_def)

lemma line_next_ready [simp]: "l_ready (line_next l) = 0"
  by (simp add: line_next_def)

lemma line_inv_step: "line_inv l \<Longrightarrow> l_ready l = 0 \<Longrightarrow> line_inv (snd (line_step l u))"
  by (simp add: line_inv_def line_step_def)

lemma line_inv_push: "line_inv l \<Longrightarrow> line_inv (snd (line_step (line_next l) u))"
  by (simp add: line_inv_step line_inv_next)

section \<open>The abstract framer\<close>

definition is_term :: "u8 \<Rightarrow> bool" where
  "is_term u \<longleftrightarrow> u = 0x0A \<or> u = 0x0D"

definition is_blank :: "u8 \<Rightarrow> bool" where
  "is_blank u \<longleftrightarrow> u = 0x20 \<or> u = 0x09 \<or> u = 0x0B \<or> u = 0x0C"

definition frame_line :: "bytes \<Rightarrow> line_event list" where
  "frame_line w =
     (if length w > VL_LINE_MAX_LEN then [Too_long] else if w = [] then [] else [Line w])"

text \<open>
  \<open>lines_of w us\<close>: the events of the stream \<open>us\<close> when the significant characters \<open>w\<close>
  have arrived since the last terminator.
\<close>

fun lines_of :: "bytes \<Rightarrow> bytes \<Rightarrow> line_event list" where
  "lines_of w [] = []"
| "lines_of w (u # us) =
     (if is_term u then frame_line w @ lines_of [] us
      else if is_blank u then lines_of w us
      else lines_of (w @ [u]) us)"

text \<open>The state holds what has arrived, or has given up on a line that is too long.\<close>

definition line_holds :: "vl_line \<Rightarrow> bytes \<Rightarrow> bool" where
  "line_holds l w \<longleftrightarrow> line_inv l \<and>
     (if l_ready l \<noteq> 0 then w = []
      else if l_overflow l \<noteq> 0 then length w > VL_LINE_MAX_LEN
      else w = take (l_len l) (l_buf l))"

lemma line_holds_next: "line_holds l w \<Longrightarrow> line_holds (line_next l) w"
  by (auto simp: line_holds_def line_inv_next line_next_def line_inv_def)

lemma line_step_term:
  assumes "line_holds l w" and "l_ready l = 0" and "is_term u" and "line_step l u = (st, l')"
  shows "line_holds l' [] \<and>
    (case st of VL_OK \<Rightarrow> frame_line w = [Line (take (l_len l') (l_buf l'))]
     | VL_ERR_BAD_FORMAT \<Rightarrow> frame_line w = [Too_long]
     | _ \<Rightarrow> frame_line w = [])"
proof -
  have inv: "line_inv l'" using assms line_inv_step [of l u] by (simp add: line_holds_def)
  show ?thesis
    using assms inv
    by (auto simp: line_holds_def line_step_def is_term_def frame_line_def line_inv_def
        split: if_splits)
qed

lemma line_step_other:
  assumes "line_holds l w" and "l_ready l = 0" and "\<not> is_term u" and "line_step l u = (st, l')"
  shows "st = VL_ERR_NOT_FOUND \<and> line_holds l' (if is_blank u then w else w @ [u])"
proof -
  have inv: "line_inv l'" using assms line_inv_step [of l u] by (simp add: line_holds_def)
  show ?thesis
    using assms inv
    by (auto simp: line_holds_def line_step_def is_term_def is_blank_def line_inv_def
        take_Suc_update split: if_splits)
qed

lemma line_run_refines: "line_holds l w \<Longrightarrow> fst (line_run l us) = lines_of w us"
proof (induction us arbitrary: l w)
  case Nil
  then show ?case by simp
next
  case (Cons u us)
  obtain st l' where step: "line_step (line_next l) u = (st, l')"
    by (cases "line_step (line_next l) u")
  have holds: "line_holds (line_next l) w" using Cons.prems by (rule line_holds_next)
  show ?case
  proof (cases "is_term u")
    case True
    with line_step_term [OF holds line_next_ready True step] Cons.IH [of l' "[]"] show ?thesis
      by (auto simp: step split: vl_status.splits prod.splits)
  next
    case False
    with line_step_other [OF holds line_next_ready False step]
      Cons.IH [of l' "if is_blank u then w else w @ [u]"] show ?thesis
      by (auto simp: step split: prod.splits)
  qed
qed

lemma line_holds_reset:
  "length (l_buf l) = VL_LINE_MAX_LEN + 1 \<Longrightarrow> vl_line_reset (Some l) = Some l' \<Longrightarrow> line_holds l' []"
  by (auto simp: vl_line_reset_def line_holds_def line_inv_def)

section \<open>Properties\<close>

text \<open>C22. After a reset, feeding a stream to \<open>vl_line_push\<close> byte by byte reports exactly
  the lines of the stream: one \<open>VL_OK\<close> per non-empty terminated line, with the line's
  significant characters in the buffer, one \<open>VL_ERR_BAD_FORMAT\<close> per line longer than the
  buffer, and nothing else, whatever mix of CR, LF, blanks and overlong lines arrives.\<close>

theorem line_framing_refines:
  assumes "length (l_buf l) = VL_LINE_MAX_LEN + 1" and "vl_line_reset (Some l) = Some l0"
  shows "fst (line_run l0 us) = lines_of [] us"
  using line_holds_reset [OF assms] by (rule line_run_refines)

lemma line_framing_refines_witness:
  "\<exists>l0. vl_line_reset (Some \<lparr>l_buf = replicate 201 7, l_len = 9, l_ready = 1, l_overflow = 1\<rparr>) = Some l0 \<and>
     fst (line_run l0 [0x41, 0x20, 0x42, 0x0D, 0x0A, 0x43, 0x0A, 0x44]) = [Line [0x41, 0x42], Line [0x43]]"
  using line_framing_refines [of "\<lparr>l_buf = replicate 201 7, l_len = 9, l_ready = 1, l_overflow = 1\<rparr>" _
      "[0x41, 0x20, 0x42, 0x0D, 0x0A, 0x43, 0x0A, 0x44]"]
  by (simp add: vl_line_reset_def VL_LINE_MAX_LEN_def is_term_def is_blank_def frame_line_def)

text \<open>C23. No stream drives the framer out of its buffer: from any well-formed state and for
  any byte, the next state keeps the length at most 200 within the 201-byte buffer, an
  abandoned line holds nothing, and a ready line is terminated.\<close>

theorem line_push_invariant:
  assumes "line_inv l"
  shows "\<exists>st l'. vl_line_push (Some l) ch = (st, Some l') \<and> line_inv l' \<and>
    (st = VL_OK \<longrightarrow> 0 < l_len l' \<and> l_buf l' ! l_len l' = 0 \<and> l_ready l' \<noteq> 0) \<and>
    st \<in> {VL_OK, VL_ERR_BAD_FORMAT, VL_ERR_NOT_FOUND}"
proof -
  obtain st l' where s: "line_step (line_next l) ch = (st, l')" by fastforce
  then have "line_inv l'" using line_inv_push [OF assms, of ch] by simp
  then show ?thesis
    using s by (auto simp: vl_line_push_def line_step_def line_inv_def split: if_splits)
qed

lemma line_push_invariant_witness:
  "\<exists>st l'. vl_line_push (Some \<lparr>l_buf = replicate 201 0, l_len = 0, l_ready = 0, l_overflow = 0\<rparr>) 0x41 = (st, Some l') \<and>
    line_inv l' \<and> (st = VL_OK \<longrightarrow> 0 < l_len l' \<and> l_buf l' ! l_len l' = 0 \<and> l_ready l' \<noteq> 0) \<and>
    st \<in> {VL_OK, VL_ERR_BAD_FORMAT, VL_ERR_NOT_FOUND}"
  by (rule line_push_invariant [OF line_inv_zero])

end
