(* ===== verification/VL_Gate.thy ===== *)
theory VL_Gate
  imports VL_Hal VL_Line
begin

text \<open>
  \<^verbatim>\<open>examples/baremetal/vl_gate.c\<close>: the firmware side of the library on a board with a
  die id, a serial page and a UART. The board is a parameter, the record \<open>board\<close> of the
  memory it maps and the three functions the file declares \<^verbatim>\<open>extern\<close>; the file's static
  variables are the record \<open>gate\<close>.
\<close>

section \<open>The board\<close>

definition MY_UID_LEN :: nat where "MY_UID_LEN = 12"
definition MY_SERIAL_LEN :: nat where "MY_SERIAL_LEN = 4"

record 's board =
  uid_mem :: "'s \<Rightarrow> nat \<Rightarrow> u8"
  serial_mem :: "'s \<Rightarrow> nat \<Rightarrow> u8"
  board_load_blob :: "bytes \<Rightarrow> 's \<Rightarrow> bool \<times> bytes \<times> 's"
  board_save_blob :: "bytes \<Rightarrow> 's \<Rightarrow> 's"
  board_print :: "string \<Rightarrow> 's \<Rightarrow> 's"

definition read_bytes :: "bytes \<Rightarrow> (nat \<Rightarrow> u8) \<Rightarrow> nat \<Rightarrow> bytes" where
  "read_bytes dst src n = fold (\<lambda>i d. d[i := src i]) [0..<n] dst"

definition all_same :: "bytes \<Rightarrow> nat \<Rightarrow> u8 \<Rightarrow> bool" where
  "all_same p n v = list_all (\<lambda>i. p ! i = v) [0..<n]"

definition board_read_id_segment :: "'s board \<Rightarrow> u32 \<Rightarrow> bytes \<Rightarrow> 's \<Rightarrow> vl_status \<times> bytes \<times> nat \<times> 's" where
  "board_read_id_segment d idx out s =
     (if idx = 0 then
        (if length out < MY_UID_LEN then (VL_ERR_BUFFER_TOO_SMALL, out, 0, s)
         else
           let out = read_bytes out (uid_mem d s) MY_UID_LEN
           in if all_same out MY_UID_LEN 0x00 \<or> all_same out MY_UID_LEN 0xFF
              then (VL_ERR_PLATFORM, out, 0, s)
              else (VL_OK, out, MY_UID_LEN, s))
      else if idx = 1 then
        (if length out < MY_SERIAL_LEN then (VL_ERR_BUFFER_TOO_SMALL, out, 0, s)
         else
           let out = read_bytes out (serial_mem d s) MY_SERIAL_LEN
           in if all_same out MY_SERIAL_LEN 0xFF then (VL_OK, out, 0, s)
              else (VL_OK, out, MY_SERIAL_LEN, s))
      else (VL_ERR_NO_MORE_SEGMENTS, out, 0, s))"

definition BOARD_HAL :: "'s board \<Rightarrow> 's vl_hal" where
  "BOARD_HAL d =
     \<lparr>read_id_segment = Some (board_read_id_segment d), now_epoch = None, hwm_load = None,
      hwm_store = None, blob_load = None, blob_store = None, secure_posture = None\<rparr>"

section \<open>The configuration\<close>

definition VENDOR_KEYS :: "vl_pubkey list" where
  "VENDOR_KEYS = [\<lparr>pk_key_id = 1, pk_key = [
     0x70, 0x7d, 0xec, 0x62, 0x84, 0xba, 0x43, 0x82,
     0x4f, 0x75, 0x22, 0xc2, 0x10, 0xb3, 0x6b, 0x13,
     0x15, 0x2b, 0xfe, 0x56, 0xdb, 0xf7, 0xbc, 0xad,
     0x1d, 0xf0, 0xc9, 0x7a, 0xf6, 0xc8, 0x0d, 0xe9]\<rparr>]"

definition GATE_CFG :: vl_config where
  "GATE_CFG = \<lparr>keys = Some VENDOR_KEYS, cfg_family = 3, revoked_serials = None, flags = 0\<rparr>"

section \<open>The gate\<close>

record gate =
  g_license :: vl_license
  g_status :: vl_status
  g_rx :: vl_line

definition gate_start :: gate where
  "gate_start = \<lparr>g_license = zero_license, g_status = VL_ERR_NOT_FOUND,
     g_rx = \<lparr>l_buf = replicate (VL_LINE_MAX_LEN + 1) 0, l_len = 0, l_ready = 0, l_overflow = 0\<rparr>\<rparr>"

definition gate_init :: "sigcheck \<Rightarrow> 's board \<Rightarrow> gate \<Rightarrow> 's \<Rightarrow> gate \<times> 's" where
  "gate_init V d g s =
     (case board_load_blob d (replicate VL_BLOB_STR_BUF_LEN 0) s of (have, blob, s1) \<Rightarrow>
        if \<not> have then (g\<lparr>g_status := VL_ERR_NOT_FOUND\<rparr>, s1)
        else (case vl_verify_with V (Some blob) (Some GATE_CFG) (Some (BOARD_HAL d)) (Some (g_license g)) s1 of
            (st, lic, s2) \<Rightarrow>
              (g\<lparr>g_status := st, g_license := the lic\<rparr>, board_print d (vl_status_str (status_code st)) s2)))"

definition gate_device_id :: "'s board \<Rightarrow> bytes option \<Rightarrow> nat \<Rightarrow> 's \<Rightarrow> vl_status \<times> bytes option \<times> 's" where
  "gate_device_id d out cap s =
     (case vl_compute_fingerprint (Some (BOARD_HAL d)) (Some (replicate VL_FINGERPRINT_LEN 0)) s of (st, fp, s1) \<Rightarrow>
        if st = VL_OK then (case vl_encode_device_id fp out cap of (st2, out2) \<Rightarrow> (st2, out2, s1))
        else (st, out, s1))"

definition gate_allows :: "gate \<Rightarrow> nat \<Rightarrow> bool" where
  "gate_allows g n \<longleftrightarrow> g_status g = VL_OK \<and> vl_has_feature (Some (g_license g)) n \<noteq> 0"

definition gate_licensed :: "gate \<Rightarrow> bool" where
  "gate_licensed g \<longleftrightarrow> g_status g = VL_OK"

definition gate_reason :: "gate \<Rightarrow> string" where
  "gate_reason g = vl_status_str (status_code (g_status g))"

definition gate_expiry_enforced :: "gate \<Rightarrow> bool" where
  "gate_expiry_enforced g \<longleftrightarrow> g_status g = VL_OK \<and> checked (g_license g) AND VL_CHECKED_TIME \<noteq> 0"

definition gate_uart_rx :: "sigcheck \<Rightarrow> 's board \<Rightarrow> u8 \<Rightarrow> gate \<Rightarrow> 's \<Rightarrow> int \<times> gate \<times> 's" where
  "gate_uart_rx V d ch g s =
     (case vl_line_push (Some (g_rx g)) ch of (st, rx) \<Rightarrow>
        let g1 = g\<lparr>g_rx := the rx\<rparr> in
        if st \<noteq> VL_OK then (0, g1, s)
        else
          (case vl_verify_with V (Some (l_buf (g_rx g1))) (Some GATE_CFG) (Some (BOARD_HAL d)) (Some (g_license g1)) s of
             (vs, lic, s1) \<Rightarrow>
               let g2 = g1\<lparr>g_status := vs, g_license := the lic\<rparr>;
                   s2 = (if vs = VL_OK
                         then board_print d ''licensed'' (board_save_blob d (cstr (l_buf (g_rx g2))) s1)
                         else board_print d (vl_status_str (status_code vs)) s1);
                   g3 = g2\<lparr>g_rx := the (vl_line_reset (Some (g_rx g2)))\<rparr>
               in (1, g3, s2)))"

section \<open>The identity contract\<close>

lemma fold_put: "n \<le> length dst \<Longrightarrow> fold (\<lambda>i d. d[i := src i]) [0..<n] dst = map src [0..<n] @ drop n dst"
proof (induction n)
  case 0
  then show ?case by simp
next
  case (Suc n)
  then have "drop n dst = dst ! n # drop (Suc n) dst" by (simp add: Cons_nth_drop_Suc)
  then show ?case using Suc by (simp add: list_update_append)
qed

lemma read_bytes_spec: "n \<le> length dst \<Longrightarrow> read_bytes dst src n = map src [0..<n] @ drop n dst"
  by (simp add: read_bytes_def fold_put)

lemma all_same_spec: "n \<le> length p \<Longrightarrow> all_same p n v \<longleftrightarrow> (\<forall>b \<in> set (take n p). b = v)"
  by (auto simp: all_same_def list_all_iff simp flip: take_map_upt_nth)

interpretation board_id: id_source "board_read_id_segment d" for d
proof
  fix i b s st c n s'
  assume "board_read_id_segment d i b s = (st, c, n, s')"
  then show "length c = length b"
    by (auto simp: board_read_id_segment_def MY_UID_LEN_def MY_SERIAL_LEN_def read_bytes_spec Let_def split: if_splits)
next
  fix b1 b2 :: bytes and i s st c1 n s'
  assume "length b1 = length b2" and "board_read_id_segment d i b1 s = (st, c1, n, s')"
  then show "\<exists>c2. board_read_id_segment d i b2 s = (st, c2, n, s') \<and>
      (st = VL_OK \<and> n \<le> length b1 \<longrightarrow> take n c2 = take n c1)"
    by (auto simp: board_read_id_segment_def MY_UID_LEN_def MY_SERIAL_LEN_def read_bytes_spec all_same_spec Let_def
        split: if_splits)
qed

section \<open>What the gate lets through\<close>

text \<open>
  The gate's runs: start-up, received bytes, and the world moving in between.
\<close>

inductive gate_step :: "sigcheck \<Rightarrow> 's board \<Rightarrow> gate \<times> 's \<Rightarrow> gate \<times> 's \<Rightarrow> bool" for V d where
  gate_world: "gate_step V d (g, s) (g, s')"
| gate_boot: "gate_init V d g s = (g', s') \<Longrightarrow> gate_step V d (g, s) (g', s')"
| gate_rx: "gate_uart_rx V d ch g s = (r, g', s') \<Longrightarrow> gate_step V d (g, s) (g', s')"

inductive gate_reach :: "sigcheck \<Rightarrow> 's board \<Rightarrow> gate \<Rightarrow> 's \<Rightarrow> bool" for V d where
  gate_begin: "gate_reach V d gate_start s"
| gate_next: "gate_reach V d g s \<Longrightarrow> gate_step V d (g, s) (g', s') \<Longrightarrow> gate_reach V d g' s'"

inductive_cases gate_stepE: "gate_step V d (g, s) (g', s')"

text \<open>An open gate holds a licence the check admitted for this board.\<close>

definition opened :: "sigcheck \<Rightarrow> 's board \<Rightarrow> vl_license \<Rightarrow> bool" where
  "opened V d lic \<longleftrightarrow>
     (\<exists>b bin s. admits V b GATE_CFG (BOARD_HAL d) s bin \<and>
        lic = mark_checked (VL_CHECKED_SIGNATURE OR VL_CHECKED_DEVICE) (parse_license bin))"

definition gate_inv :: "sigcheck \<Rightarrow> 's board \<Rightarrow> gate \<Rightarrow> bool" where
  "gate_inv V d g \<longleftrightarrow> line_inv (g_rx g) \<and>
     (g_status g = VL_OK \<longrightarrow> opened V d (g_license g))"

lemma gate_checks: "checks_run GATE_CFG (BOARD_HAL d) = VL_CHECKED_SIGNATURE OR VL_CHECKED_DEVICE"
  by (simp add: checks_run_def GATE_CFG_def BOARD_HAL_def denied_def)

lemma gate_verify:
  assumes "vl_verify_with V (Some b) (Some GATE_CFG) (Some (BOARD_HAL d)) (Some l0) s = (st, lic, s')" and "st = VL_OK"
  shows "opened V d (the lic)"
proof -
  have rd: "read_id_segment (BOARD_HAL d) = Some (board_read_id_segment d)" by (simp add: BOARD_HAL_def)
  obtain bin where "admits V b GATE_CFG (BOARD_HAL d) s bin"
    using board_id.vl_verify_spec(1) [OF assms(1) rd] assms(2) by blast
  then show ?thesis
    using board_id.vl_verify_spec(2) [OF assms(1) rd assms(2)] by (auto simp: gate_checks opened_def)
qed

lemma gate_step_inv:
  assumes "gate_step V d (g, s) (g', s')" and inv: "gate_inv V d g"
  shows "gate_inv V d g'"
proof (cases rule: gate_stepE [OF assms(1)])
  case 1
  then show ?thesis using inv by simp
next
  case 2
  then show ?thesis
    using inv by (auto simp: gate_init_def gate_inv_def split: prod.splits if_splits dest!: gate_verify)
next
  case (3 ch r)
  obtain st l' where p: "line_step (line_next (g_rx g)) ch = (st, l')" by fastforce
  have l': "line_inv l'" using line_inv_push [of "g_rx g" ch] inv p by (simp add: gate_inv_def)
  have "line_inv (the (vl_line_reset (Some l')))"
    using l' by (simp add: vl_line_reset_def line_inv_def)
  then show ?thesis
    using 3 inv p l'
    by (auto simp: gate_uart_rx_def vl_line_push_def gate_inv_def Let_def split: prod.splits if_splits dest!: gate_verify)
qed

lemma gate_reach_inv: "gate_reach V d g s \<Longrightarrow> gate_inv V d g"
proof (induction rule: gate_reach.induct)
  case gate_begin
  then show ?case using line_inv_zero by (simp add: gate_inv_def gate_start_def VL_LINE_MAX_LEN_def)
next
  case (gate_next g s g' s')
  then show ?case using gate_step_inv [OF gate_next(2)] by simp
qed

section \<open>A licence typed into the UART\<close>

fun gate_feed :: "sigcheck \<Rightarrow> 's board \<Rightarrow> bytes \<Rightarrow> gate \<Rightarrow> 's \<Rightarrow> int list \<times> gate \<times> 's" where
  "gate_feed V d [] g s = ([], g, s)"
| "gate_feed V d (ch # cs) g s =
     (case gate_uart_rx V d ch g s of (r, g1, s1) \<Rightarrow>
        case gate_feed V d cs g1 s1 of (rs, g2, s2) \<Rightarrow> (r # rs, g2, s2))"

lemma gate_feed_append:
  "gate_feed V d (xs @ ys) g s =
     (case gate_feed V d xs g s of (r1, g1, s1) \<Rightarrow> case gate_feed V d ys g1 s1 of (r2, g2, s2) \<Rightarrow> (r1 @ r2, g2, s2))"
  by (induction xs arbitrary: g s) (simp_all split: prod.split)

lemma gate_rx_other:
  assumes "line_holds (g_rx g) w" and "\<not> is_term ch"
  shows "\<exists>l'. gate_uart_rx V d ch g s = (0, g\<lparr>g_rx := l'\<rparr>, s) \<and> line_holds l' (if is_blank ch then w else w @ [ch])"
proof -
  obtain st l' where p: "line_step (line_next (g_rx g)) ch = (st, l')" by fastforce
  from line_step_other [OF line_holds_next [OF assms(1)] line_next_ready assms(2) this] show ?thesis
    using p by (auto simp: gate_uart_rx_def vl_line_push_def Let_def)
qed

lemma gate_feed_line:
  assumes "line_holds (g_rx g) w" and "\<forall>c \<in> set us. \<not> is_term c"
  shows "\<exists>l'. gate_feed V d us g s = (replicate (length us) 0, g\<lparr>g_rx := l'\<rparr>, s) \<and>
    line_holds l' (w @ filter (\<lambda>c. \<not> is_blank c) us)"
  using assms
proof (induction us arbitrary: g w)
  case Nil
  then show ?case by (intro exI [of _ "g_rx g"]) simp
next
  case (Cons u us)
  have "\<not> is_term u" using Cons.prems(2) by simp
  from gate_rx_other [OF Cons.prems(1) this, of V d s] obtain l1
    where l1: "gate_uart_rx V d u g s = (0, g\<lparr>g_rx := l1\<rparr>, s)"
      "line_holds l1 (if is_blank u then w else w @ [u])" by blast
  have "line_holds (g_rx (g\<lparr>g_rx := l1\<rparr>)) (if is_blank u then w else w @ [u])" using l1(2) by simp
  from Cons.IH [OF this] Cons.prems(2) obtain l2 where
    "gate_feed V d us (g\<lparr>g_rx := l1\<rparr>) s = (replicate (length us) 0, g\<lparr>g_rx := l2\<rparr>, s)"
    "line_holds l2 ((if is_blank u then w else w @ [u]) @ filter (\<lambda>c. \<not> is_blank c) us)" by auto
  then show ?case using l1(1) by (auto split: if_splits)
qed

lemma BOARD_HAL_pure: "pure_reads (BOARD_HAL d) s"
  by (auto simp: pure_reads_def BOARD_HAL_def board_read_id_segment_def Let_def)

lemma cstr_prefix: "n < length buf \<Longrightarrow> buf ! n = 0 \<Longrightarrow> 0 \<notin> set (take n buf) \<Longrightarrow> cstr buf = take n buf"
proof (induction n arbitrary: buf)
  case 0
  then show ?case by (cases buf) simp_all
next
  case (Suc n)
  then show ?case by (cases buf) auto
qed

text \<open>A terminated line is verified as the string of its significant characters.\<close>

lemma gate_rx_term:
  assumes h: "line_holds (g_rx g) w" and t: "is_term ch" and w: "w \<noteq> []" "length w \<le> VL_LINE_MAX_LEN" "0 \<notin> set w"
    and bin: "b32_spells w bin" "length bin = 100"
    and v: "vl_verify_with V (Some w) (Some GATE_CFG) (Some (BOARD_HAL d)) (Some (g_license g)) s = (st, lic, s1)"
  shows "\<exists>l'. gate_uart_rx V d ch g s =
      (1, g\<lparr>g_status := st, g_license := the lic, g_rx := l'\<rparr>,
       if st = VL_OK then board_print d ''licensed'' (board_save_blob d w s)
       else board_print d (vl_status_str (status_code st)) s1) \<and> line_holds l' []"
proof -
  obtain ls l' where p: "line_step (line_next (g_rx g)) ch = (ls, l')" by fastforce
  have fr: "frame_line w = [Line w]" using w by (simp add: frame_line_def)
  have ls: "ls = VL_OK" "take (l_len l') (l_buf l') = w" "line_holds l' []"
    using line_step_term [OF line_holds_next [OF h] line_next_ready t p] fr
    by (cases ls; simp)+
  have l': "length (l_buf l') = VL_LINE_MAX_LEN + 1" "l_len l' \<le> VL_LINE_MAX_LEN" "l_buf l' ! l_len l' = 0"
    using ls(1,3) p t by (auto simp: line_holds_def line_inv_def line_step_def is_term_def split: if_splits)
  have c: "cstr (l_buf l') = w" using cstr_prefix [of "l_len l'" "l_buf l'"] l' ls(2) w(3) by simp
  have cw: "cstr w = w" using w(3) by (auto simp: cstr_def takeWhile_eq_all_conv)
  have sp: "b32_spells (l_buf l') bin" using bin(1) c cw by (simp add: b32_spells_def)
  have v': "vl_verify_with V (Some (l_buf l')) (Some GATE_CFG) (Some (BOARD_HAL d)) (Some (g_license g)) s = (st, lic, s1)"
    using vl_verify_respelled [OF sp bin(1,2)] v by metis
  have s1: "st = VL_OK \<Longrightarrow> s1 = s"
    using vl_verify_pure [OF BOARD_HAL_pure v] by (simp add: only_marked_def BOARD_HAL_def)
  have "line_holds (the (vl_line_reset (Some l'))) []"
    using line_holds_reset [OF l'(1)] by (simp add: vl_line_reset_def)
  then show ?thesis
    using p ls(1) v' s1 c
    by (auto simp: gate_uart_rx_def vl_line_push_def Let_def intro!: exI [of _ "the (vl_line_reset (Some l'))"])
qed

end
