(* ===== verification/VL_Demo.thy ===== *)
theory VL_Demo
  imports VL_Rollback VL_Hal_Rp2040 VL_Hal_Mcu VL_Hal_Esp32 VL_Bridge VL_Gate
begin

text \<open>
  Concrete devices and licences on which the properties are instantiated: a Linux machine, a
  board on one flash page, the bare-metal board of the example, and for each the licence that
  is bound to its fingerprint. The signature check is a parameter of these instances; the one
  that accepts everything stands for a licence that has been signed.
\<close>

section \<open>Licences\<close>

definition yes_check :: sigcheck where
  "yes_check = (\<lambda>_ _ _ _. 1)"

definition demo_cfg :: "u32 \<Rightarrow> vl_config" where
  "demo_cfg fl = \<lparr>keys = Some [\<lparr>pk_key_id = 1, pk_key = replicate 32 9\<rparr>], cfg_family = 3,
     revoked_serials = None, flags = fl\<rparr>"

definition demo_bin :: "bytes list \<Rightarrow> u32 \<Rightarrow> u32 \<Rightarrow> bytes" where
  "demo_bin segs nb na =
     [0x56, 1, 1, 3, 5, 0, 0, 0] @ take 16 (fingerprint_of segs) @
     put_le32 nb @ put_le32 na @ put_le32 7 @ replicate 64 0"

lemma length_demo_bin [simp]: "length (demo_bin segs nb na) = 100"
  by (simp add: demo_bin_def)

lemma demo_bin_fields:
  "not_before (parse_license (demo_bin segs nb na)) = nb"
  "not_after (parse_license (demo_bin segs nb na)) = na"
  "serial (parse_license (demo_bin segs nb na)) = 7"
  "features (parse_license (demo_bin segs nb na)) = 5"
  by (simp_all add: parse_license_def zero_license_def demo_bin_def vl_offsets) (simp add: rd_le32_def)

lemma demo_bin_header:
  "demo_bin segs nb na ! 2 = 1" "header_ok cfg (demo_bin segs nb na) \<longleftrightarrow> cfg_family cfg = 3"
  by (auto simp: demo_bin_def header_ok_def)

lemma demo_bin_bound: "segs \<noteq> [] \<Longrightarrow> bound_to (demo_bin segs nb na) segs"
  by (simp add: bound_to_def demo_bin_def)

definition demo_text :: "bytes list \<Rightarrow> u32 \<Rightarrow> u32 \<Rightarrow> bytes" where
  "demo_text segs nb na = b32_text (demo_bin segs nb na)"

lemma demo_spells: "b32_spells (demo_text segs nb na) (demo_bin segs nb na)"
  using text_spells [of "demo_bin segs nb na"] by (simp add: demo_text_def)

lemma demo_admits:
  assumes "keys cfg = Some [\<lparr>pk_key_id = 1, pk_key = k\<rparr>]" and "cfg_family cfg = 3" and "revoked_serials cfg = None"
    and "args_ok cfg hal" and "id_segments (the (read_id_segment hal)) 0 s = (Inr segs, s1)" and "segs \<noteq> []"
    and "clock_ok cfg hal (parse_license (demo_bin segs nb na)) s1"
  shows "admits yes_check (demo_text segs nb na) cfg hal s (demo_bin segs nb na)"
proof -
  have "selects [\<lparr>pk_key_id = 1, pk_key = k\<rparr>] 1 \<lparr>pk_key_id = 1, pk_key = k\<rparr>"
    by (simp flip: find_key_selects add: find_key_def)
  then show ?thesis
    using assms demo_spells demo_bin_bound [OF assms(6)]
    by (auto simp: admits_def demo_bin_header signed_by_def yes_check_def denied_def)
qed

section \<open>A Linux machine\<close>

definition demo_px :: "int \<Rightarrow> posix" where
  "demo_px t = \<lparr>px_iface = str_bytes ''eth0'', px_state = str_bytes ''/s'',
     px_files = [str_bytes ''/sys/class/net/eth0/address'' \<mapsto> str_bytes ''02:00:00:00:00:01'' @ [0x0A],
                 str_bytes ''/etc/machine-id'' \<mapsto> str_bytes ''c0ffee'' @ [0x0A]],
     px_readable = (\<lambda>_. True), px_writable = (\<lambda>_. True), px_room = (\<lambda>_. 4096),
     px_netdir = None, px_time = t\<rparr>"

definition px_segs :: "bytes list" where
  "px_segs = [str_bytes ''02:00:00:00:00:01'', str_bytes ''c0ffee'', []]"

lemma demo_px_segments:
  "px_read_id_segment 0 (replicate 255 0) (demo_px t) = (VL_OK, str_bytes ''02:00:00:00:00:01'' @ replicate 238 0, 17, demo_px t)"
  "px_read_id_segment 1 (replicate 255 0) (demo_px t) = (VL_OK, str_bytes ''c0ffee'' @ replicate 249 0, 6, demo_px t)"
  "px_read_id_segment 2 (replicate 255 0) (demo_px t) = (VL_OK, replicate 255 0, 0, demo_px t)"
  "px_read_id_segment 3 (replicate 255 0) (demo_px t) = (VL_ERR_NO_MORE_SEGMENTS, replicate 255 0, 0, demo_px t)"
  by (simp_all add: px_read_is_identity px_identity_def demo_px_def px_deliver_def read_iface_mac_def
      read_text_file_spec fopen_rb_def read_machine_id_def read_board_serial_def str_bytes_def overlay_def
      trim_ws_def is_ws_def)

text \<open>Walking a source segment by segment.\<close>

lemma ids_next:
  assumes "rd w (replicate 255 0) s = (VL_OK, c, n, s')" and "id_segments rd (Suc idx) s' = (Inr xs, s'')"
    and "w = word_of_nat idx" and "idx < 64" and "take n c = x" and "n \<le> 255"
  shows "id_segments rd idx s = (Inr (x # xs), s'')"
  using assms by (subst id_segments.simps) (simp add: VL_ID_SEGMENT_MAX_def VL_ID_SEGMENT_COUNT_MAX_def)

lemma ids_end:
  assumes "rd w (replicate 255 0) s = (VL_ERR_NO_MORE_SEGMENTS, c, n, s')" and "w = word_of_nat idx" and "idx < 64"
  shows "id_segments rd idx s = (Inr [], s')"
  using assms by (subst id_segments.simps) (simp add: VL_ID_SEGMENT_MAX_def VL_ID_SEGMENT_COUNT_MAX_def)

lemma demo_px_ids: "id_segments px_read_id_segment 0 (demo_px t) = (Inr px_segs, demo_px t)"
  unfolding px_segs_def
  by (rule ids_next [of px_read_id_segment, OF demo_px_segments(1)], rule ids_next [of px_read_id_segment, OF demo_px_segments(2)],
      rule ids_next [of px_read_id_segment, OF demo_px_segments(3)], rule ids_end [of px_read_id_segment, OF demo_px_segments(4)]) simp_all

lemma demo_px_ok: "px_ok (demo_px t)"
  by (simp add: px_ok_def px_path_ok_def demo_px_def str_bytes_def VL_POSIX_PATH_MAX_def)

lemma demo_px_iface: "px_iface (demo_px t) \<noteq> []"
  by (simp add: demo_px_def str_bytes_def)

lemma demo_px_mark: "px_hwm_load (demo_px t) = (VL_OK, 0, demo_px t)"
  by (simp add: px_hwm_load_def state_path_ok [OF demo_px_ok]) (simp add: read_text_file_def fopen_rb_def demo_px_def str_bytes_def)

lemma demo_px_store: "fst (px_hwm_store v (demo_px t)) = VL_OK"
  by (simp add: px_hwm_store_def state_path_ok [OF demo_px_ok]) (simp add: write_file_def demo_px_def Let_def)

lemma demo_px_clock:
  assumes "0 \<le> t" and "t \<le> 0xFFFFFFFF" and "in_window lic (word_of_int t)"
  shows "clock_ok cfg px_hal lic (demo_px t)"
proof -
  have "px_now_epoch (demo_px t) = (VL_OK, word_of_int t, demo_px t)"
    using assms(1,2) by (simp add: px_now_epoch_def demo_px_def)
  moreover have "hwm_ok px_hal (word_of_int t) (demo_px t)"
    using demo_px_mark demo_px_store by (simp add: hwm_ok_def px_hal_def)
  ultimately show ?thesis using assms(3) by (simp add: clock_ok_def px_hal_def)
qed

lemma px_hal_args: "args_ok (demo_cfg fl) px_hal"
  by (simp add: args_ok_def demo_cfg_def px_hal_def)

lemma demo_px_admits:
  assumes "0 \<le> t" and "t \<le> 0xFFFFFFFF" and "nb = 0 \<or> nb \<le> word_of_int t" and "na = 0 \<or> word_of_int t \<le> na"
  shows "admits yes_check (demo_text px_segs nb na) (demo_cfg fl) px_hal (demo_px t) (demo_bin px_segs nb na)"
proof -
  have "clock_ok (demo_cfg fl) px_hal (parse_license (demo_bin px_segs nb na)) (demo_px t)"
    by (rule demo_px_clock [OF assms(1,2)]) (unfold in_window_def demo_bin_fields, use assms(3,4) in blast)
  moreover have "id_segments (the (read_id_segment px_hal)) 0 (demo_px t) = (Inr px_segs, demo_px t)"
    using demo_px_ids by (simp add: px_hal_def)
  ultimately show ?thesis
    by (intro demo_admits [where k = "replicate 32 9"] px_hal_args) (simp_all add: demo_cfg_def px_segs_def)
qed

text \<open>The same machine at a moment when its mark file cannot be opened, whatever it holds.\<close>

definition demo_unread :: "int \<Rightarrow> bytes option \<Rightarrow> posix" where
  "demo_unread t m = (demo_px t)\<lparr>px_readable := (\<lambda>p. p \<noteq> str_bytes ''/s.hwm''),
     px_files := (px_files (demo_px t))(str_bytes ''/s.hwm'' := m)\<rparr>"

lemma demo_unread_segments:
  "px_read_id_segment 0 (replicate 255 0) (demo_unread t m) = (VL_OK, str_bytes ''02:00:00:00:00:01'' @ replicate 238 0, 17, demo_unread t m)"
  "px_read_id_segment 1 (replicate 255 0) (demo_unread t m) = (VL_OK, str_bytes ''c0ffee'' @ replicate 249 0, 6, demo_unread t m)"
  "px_read_id_segment 2 (replicate 255 0) (demo_unread t m) = (VL_OK, replicate 255 0, 0, demo_unread t m)"
  "px_read_id_segment 3 (replicate 255 0) (demo_unread t m) = (VL_ERR_NO_MORE_SEGMENTS, replicate 255 0, 0, demo_unread t m)"
  by (simp_all add: px_read_is_identity px_identity_def demo_unread_def demo_px_def px_deliver_def read_iface_mac_def
      read_text_file_spec fopen_rb_def read_machine_id_def read_board_serial_def str_bytes_def overlay_def
      trim_ws_def is_ws_def)

lemma demo_unread_ids: "id_segments px_read_id_segment 0 (demo_unread t m) = (Inr px_segs, demo_unread t m)"
  unfolding px_segs_def
  by (rule ids_next [of px_read_id_segment, OF demo_unread_segments(1)],
      rule ids_next [of px_read_id_segment, OF demo_unread_segments(2)],
      rule ids_next [of px_read_id_segment, OF demo_unread_segments(3)],
      rule ids_end [of px_read_id_segment, OF demo_unread_segments(4)]) simp_all

lemma demo_unread_path: "px_path_ok (demo_unread t m)" "px_state (demo_unread t m) = str_bytes ''/s''"
  by (simp_all add: px_path_ok_def demo_unread_def demo_px_def str_bytes_def VL_POSIX_PATH_MAX_def)

lemma demo_unread_clock:
  assumes "0 \<le> t" and "t \<le> 0xFFFFFFFF" and "in_window lic (word_of_int t)"
  shows "clock_ok cfg px_hal lic (demo_unread t m)"
proof -
  have "px_now_epoch (demo_unread t m) = (VL_OK, word_of_int t, demo_unread t m)"
    using assms(1,2) by (simp add: px_now_epoch_def demo_unread_def demo_px_def)
  moreover have "px_hwm_load (demo_unread t m) = (VL_OK, 0, demo_unread t m)"
    by (simp add: px_hwm_load_def state_path_usable [OF demo_unread_path(1)])
      (simp add: read_text_file_def fopen_rb_def demo_unread_def demo_px_def str_bytes_def)
  moreover have "fst (px_hwm_store v (demo_unread t m)) = VL_OK" for v
    by (simp add: px_hwm_store_def state_path_usable [OF demo_unread_path(1)])
      (simp add: write_file_def demo_unread_def demo_px_def Let_def)
  ultimately show ?thesis using assms(3) by (simp add: clock_ok_def hwm_ok_def px_hal_def)
qed

lemma demo_unread_admits:
  assumes "0 \<le> t" and "t \<le> 0xFFFFFFFF"
  shows "admits yes_check (demo_text px_segs 0 0) (demo_cfg fl) px_hal (demo_unread t m) (demo_bin px_segs 0 0)"
proof -
  have "clock_ok (demo_cfg fl) px_hal (parse_license (demo_bin px_segs 0 0)) (demo_unread t m)"
    by (rule demo_unread_clock [OF assms]) (unfold in_window_def demo_bin_fields, simp)
  moreover have "id_segments (the (read_id_segment px_hal)) 0 (demo_unread t m) = (Inr px_segs, demo_unread t m)"
    using demo_unread_ids by (simp add: px_hal_def)
  ultimately show ?thesis
    by (intro demo_admits [where k = "replicate 32 9"] px_hal_args) (simp_all add: demo_cfg_def px_segs_def)
qed

lemma px_hal_simps:
  "read_id_segment px_hal = Some px_read_id_segment" "now_epoch px_hal = Some px_now_epoch"
  "hwm_load px_hal = Some px_hwm_load" "hwm_store px_hal = Some px_hwm_store"
  by (simp_all add: px_hal_def)

lemma demo_denied: "denied (demo_cfg fl) = {}"
  by (simp add: denied_def demo_cfg_def)

lemma demo_authentic: "authentic yes_check (demo_text segs nb na) (demo_cfg fl) (demo_bin segs nb na)"
proof -
  have "find_key (the (keys (demo_cfg fl))) 1 = Some \<lparr>pk_key_id = 1, pk_key = replicate 32 9\<rparr>"
    by (simp add: demo_cfg_def find_key_def)
  then show ?thesis
    using demo_spells [of segs nb na]
    by (auto simp: authentic_def demo_bin_header signed_by_def yes_check_def demo_cfg_def find_key_selects)
qed

lemma demo_px_status:
  assumes "0 \<le> t" and "t \<le> 0xFFFFFFFF"
  shows "fst (vl_verify_with yes_check (Some (demo_text px_segs nb na)) (Some (demo_cfg fl)) (Some px_hal) out (demo_px t)) =
    (if nb \<noteq> 0 \<and> word_of_int t < nb then VL_ERR_NOT_YET_VALID
     else if na \<noteq> 0 \<and> na < word_of_int t then VL_ERR_EXPIRED else VL_OK)"
proof -
  have ne: "px_segs \<noteq> []" by (simp add: px_segs_def)
  have now: "px_now_epoch (demo_px t) = (VL_OK, word_of_int t, demo_px t)"
    using assms by (simp add: px_now_epoch_def demo_px_def)
  from px_id.authentic_status [OF px_hal_simps px_hal_args [of fl] demo_authentic [of px_segs nb na fl] demo_px_ids [of t] ne now demo_px_mark [of t], of out] show ?thesis
    unfolding Let_def demo_bin_fields demo_denied using demo_bin_bound [OF ne, of nb na] demo_px_store by simp
qed

text \<open>It stays this machine whatever its mark file is, and it accepts the licence at any time.\<close>

lemma demo_unread_env:
  assumes "px_iface s = px_iface (demo_px 0)" and "px_state s = px_state (demo_px 0)"
  shows "px_env (demo_unread t None) s = demo_unread t (px_files s (str_bytes ''/s.hwm''))"
proof -
  have "px_state (demo_px 0) @ str_bytes ''.hwm'' = str_bytes ''/s.hwm''" by (simp add: demo_px_def str_bytes_def)
  then show ?thesis using assms by (simp add: px_env_def demo_unread_def demo_px_def Let_def)
qed

lemma demo_unread_accepts:
  assumes "0 \<le> t" and "t \<le> 0xFFFFFFFF"
  shows "\<exists>out s'. vl_verify_with yes_check (Some (demo_text px_segs 0 0)) (Some (demo_cfg 2)) (Some px_hal) None (demo_unread t m) =
      (VL_OK, out, s') \<and> px_iface s' = px_iface (demo_px 0) \<and> px_state s' = px_state (demo_px 0)"
proof -
  obtain st out s' where v: "vl_verify_with yes_check (Some (demo_text px_segs 0 0)) (Some (demo_cfg 2)) (Some px_hal) None
      (demo_unread t m) = (st, out, s')" by (metis surj_pair)
  have iface: "px_iface (demo_unread t m) = px_iface (demo_px 0)" "px_iface (demo_unread t m) \<noteq> []"
    by (simp_all add: demo_unread_def demo_px_def str_bytes_def)
  have "only_marked (demo_cfg 2) px_hal st (demo_unread t m) s'" by (rule vl_verify_pure [OF px_pure [OF iface(2)] v])
  then have "px_iface s' = px_iface (demo_px 0) \<and> px_state s' = px_state (demo_px 0)"
    using iface px_store_frame by (auto simp: only_marked_def px_hal_def demo_unread_def demo_px_def)
  moreover have "st = VL_OK"
    using px_id.vl_verify_spec(1) [OF v px_hal_simps(1)] demo_unread_admits [OF assms, of 2 m] by blast
  ultimately show ?thesis using v by blast
qed

section \<open>The bare-metal board\<close>

text \<open>The state is the stored licence and the messages printed.\<close>

definition demo_board :: "(bytes \<times> string list) board" where
  "demo_board = \<lparr>uid_mem = (\<lambda>_ i. word_of_nat (i + 1)), serial_mem = (\<lambda>_ _. 0xFF),
     board_load_blob = (\<lambda>buf s. (fst s \<noteq> [], overlay buf 0 (take 160 (fst s)), s)),
     board_save_blob = (\<lambda>b s. (b, snd s)), board_print = (\<lambda>m s. (fst s, snd s @ [m]))\<rparr>"

definition board_segs :: "bytes list" where
  "board_segs = [[1, 2, 3, 4, 5, 6, 7, 8, 9, 10, 11, 12], []]"

lemma demo_board_uid: "map (uid_mem demo_board s) [0..<12] = [1, 2, 3, 4, 5, 6, 7, 8, 9, 10, 11, 12]"
  by (simp add: demo_board_def upt_rec)

lemma demo_board_serial: "map (serial_mem demo_board s) [0..<4] = [0xFF, 0xFF, 0xFF, 0xFF]"
  by (simp add: demo_board_def upt_rec)

lemma demo_board_segments:
  "board_read_id_segment demo_board 0 (replicate 255 0) s =
    (VL_OK, [1, 2, 3, 4, 5, 6, 7, 8, 9, 10, 11, 12] @ replicate 243 0, 12, s)"
  "board_read_id_segment demo_board 1 (replicate 255 0) s = (VL_OK, [0xFF, 0xFF, 0xFF, 0xFF] @ replicate 251 0, 0, s)"
  "board_read_id_segment demo_board 2 (replicate 255 0) s = (VL_ERR_NO_MORE_SEGMENTS, replicate 255 0, 0, s)"
  using demo_board_uid [of s] demo_board_serial [of s]
  by (simp_all add: board_read_id_segment_def MY_UID_LEN_def MY_SERIAL_LEN_def read_bytes_spec all_same_spec Let_def)

lemma demo_board_ids: "id_segments (board_read_id_segment demo_board) 0 s = (Inr board_segs, s)"
  unfolding board_segs_def
  by (rule ids_next [of "board_read_id_segment demo_board", OF demo_board_segments(1)],
      rule ids_next [of "board_read_id_segment demo_board", OF demo_board_segments(2)],
      rule ids_end [of "board_read_id_segment demo_board", OF demo_board_segments(3)]) simp_all

lemma demo_board_admits:
  "admits yes_check (demo_text board_segs 0 na) GATE_CFG (BOARD_HAL demo_board) s (demo_bin board_segs 0 na)"
  by (rule demo_admits [where k = "pk_key (hd VENDOR_KEYS)"])
    (simp_all add: GATE_CFG_def VENDOR_KEYS_def args_ok_def BOARD_HAL_def demo_board_ids board_segs_def clock_ok_def)

section \<open>A flash page\<close>

text \<open>Flash that erases to ones and programs by clearing bits.\<close>

definition demo_flash :: "(nat \<Rightarrow> u8) rp_sdk" where
  "demo_flash = \<lparr>xip = (\<lambda>s i. s i), flash_range_erase = (\<lambda>n s i. if i < n then 0xFF else s i),
     flash_range_program = (\<lambda>p s i. if i < length p then s i AND p ! i else s i),
     get_board_id = (\<lambda>s i. word_of_nat (i + 1))\<rparr>"

lemma u8_ones_and: "(0xFF :: u8) AND x = x"
  by (simp only: u8_max and.left_neutral)

lemma demo_flash_write:
  assumes "rp_wf r"
  shows "fst (record_write demo_flash r s) = VL_OK"
proof -
  let ?page = "overlay (replicate FLASH_PAGE_SIZE 0xFF) 0 (rp_encode r)"
  have len: "length ?page = 256"
    using length_rp_encode [OF assms] by (simp add: FLASH_PAGE_SIZE_def VL_RP_RECORD_SIZE_def vl_sizes)
  have "xip_bytes demo_flash (flash_range_program demo_flash ?page (flash_range_erase demo_flash FLASH_SECTOR_SIZE s)) 256 = ?page"
    using len by (intro nth_equalityI) (simp_all add: xip_bytes_def demo_flash_def FLASH_SECTOR_SIZE_def u8_ones_and)
  then show ?thesis
    by (simp add: record_write_def Let_def FLASH_PAGE_SIZE_def VL_RP_RECORD_SIZE_def vl_sizes)
qed

lemma demo_flash_blob_store:
  assumes "length b \<le> 160"
  shows "fst (rp_blob_store demo_flash b s) = VL_OK"
proof -
  have "rp_wf ((record_read demo_flash s)\<lparr>rp_blob := overlay (replicate VL_BLOB_STR_BUF_LEN 0) 0 b,
      rp_blob_len := word_of_nat (length b)\<rparr>)"
    using record_read_wf [of demo_flash s] assms
    by (auto simp: rp_wf_def vl_sizes unat_of_nat nth_overlay)
  then show ?thesis using demo_flash_write assms by (simp add: rp_blob_store_def Let_def vl_sizes)
qed

lemma demo_flash_hwm_store: "fst (rp_hwm_store demo_flash v s) = VL_OK"
proof -
  have "rp_wf ((record_read demo_flash s)\<lparr>rp_hwm := v\<rparr>)"
    using record_read_wf [of demo_flash s] by (simp add: rp_wf_def)
  then show ?thesis using demo_flash_write by (simp add: rp_hwm_store_def Let_def)
qed

end
