(* ===== verification/VL_Text.thy ===== *)
theory VL_Text
  imports VL_Prelude
begin

text \<open>
  What the conversions of \<^verbatim>\<open>printf\<close> the programs use write: decimal and
  hexadecimal numbers, as byte strings.
\<close>

definition ln :: "bytes \<Rightarrow> bytes" where "ln t = t @ [0x0A]"

text \<open>\<^verbatim>\<open>%u\<close>\<close>

fun dec :: "nat \<Rightarrow> bytes" where
  "dec n = (if n < 10 then [] else dec (n div 10)) @ [word_of_nat (48 + n mod 10)]"

declare dec.simps [simp del]

definition dec32 :: "u32 \<Rightarrow> bytes" where "dec32 w = dec (unat w)"

definition dec8 :: "u8 \<Rightarrow> bytes" where "dec8 w = dec (unat w)"

text \<open>\<^verbatim>\<open>%02x\<close> of a byte, \<^verbatim>\<open>%02x\<close> and \<^verbatim>\<open>%08x\<close> of a word.\<close>

definition hex_digit :: "u8 \<Rightarrow> u8" where
  "hex_digit d = (if d < 10 then 0x30 + d else 0x61 + (d - 10))"

definition hex2 :: "u8 \<Rightarrow> bytes" where
  "hex2 b = [hex_digit (drop_bit 4 b), hex_digit (b AND 0x0F)]"

definition hex8 :: "u32 \<Rightarrow> bytes" where
  "hex8 w = map (\<lambda>i. hex_digit (ucast (drop_bit (28 - 4 * i) w AND 0x0F))) [0..<8]"

text \<open>\<^verbatim>\<open>%0kx\<close> of a word of any size.\<close>

fun hexs :: "nat \<Rightarrow> bytes" where
  "hexs n = (if n < 16 then [] else hexs (n div 16)) @ [hex_digit (word_of_nat (n mod 16))]"

declare hexs.simps [simp del]

definition hex_min :: "nat \<Rightarrow> u32 \<Rightarrow> bytes" where
  "hex_min k w = (let t = hexs (unat w) in replicate (k - length t) 0x30 @ t)"

text \<open>The UTF-8 of a long dash, which some of the texts contain.\<close>

definition dash :: bytes where "dash = [0xE2, 0x80, 0x94]"

lemma length_hex [simp, vl_len]: "length (hex2 b) = 2" "length (hex8 w) = 8"
  by (simp_all add: hex2_def hex8_def)

lemma dec_ne [simp]: "dec n \<noteq> []"
  by (subst dec.simps) simp

end
