(* ===== verification/VL_Frontends.thy ===== *)
theory VL_Frontends
  imports VL_Demo VL_Text
begin

text \<open>
  The four front ends of the bridge: the console command (\<^verbatim>\<open>bridge/vl_bridge_serial.h\<close>),
  the captive portal (\<^verbatim>\<open>bridge/vl_bridge_net.h\<close>), the dashboard cards
  (\<^verbatim>\<open>bridge/vl_bridge_dash.h\<close>) and the update gate (\<^verbatim>\<open>bridge/vl_bridge_ota.h\<close>),
  over the \<open>License\<close> object of \<open>VL_Bridge\<close>. The four libraries they call are seen through
  what the front ends hand them: log lines, form parameters, cards, three switches. An Arduino
  \<^verbatim>\<open>String\<close> is its bytes; \<^verbatim>\<open>c_str()\<close> adds the NUL.
\<close>

section \<open>Strings\<close>

definition is_space :: "u8 \<Rightarrow> bool" where
  "is_space c \<longleftrightarrow> c = 0x20 \<or> 0x09 \<le> c \<and> c \<le> 0x0D"

definition str_trim :: "bytes \<Rightarrow> bytes" where
  "str_trim t = rev (dropWhile is_space (rev (dropWhile is_space t)))"

definition starts_with :: "bytes \<Rightarrow> bytes \<Rightarrow> bool" where
  "starts_with t p \<longleftrightarrow> take (length p) t = p"

definition c_str :: "bytes \<Rightarrow> bytes" where "c_str t = t @ [0]"

section \<open>Console\<close>

datatype log_level = L_inf | L_info | L_warn | L_debug | L_err | L_error

type_synonym log = "(log_level \<times> bytes) list"

definition licenseSerialStatus :: "'s bridge \<Rightarrow> 's \<Rightarrow> log \<times> 's bridge \<times> 's" where
  "licenseSerialStatus b s =
     (let l1 = [(L_inf, str_bytes ''license: '' @ the (licenseSummary b 96))];
          (did, b1, s1) = bridge_deviceId b s;
          l2 = l1 @ [(L_inf, str_bytes ''license: device id '' @ did)]
      in case bridge_license b1 of
           None \<Rightarrow> (l2, b1, s1)
         | Some l \<Rightarrow>
             (l2 @
              [(L_inf, str_bytes ''license: serial '' @ dec32 (serial l) @ str_bytes ''  family '' @ dec8 (family l) @
                  str_bytes ''  features 0x'' @ hex8 (features l)),
               (L_inf, str_bytes ''license: not_before '' @ dec32 (not_before l) @ str_bytes ''  not_after '' @
                  dec32 (not_after l) @ (if not_after l = 0 then str_bytes ''  (perpetual)'' else []))] @
              (if checked l AND VL_CHECKED_TIME = 0
               then [(L_warn, str_bytes ''license: validity window NOT checked '' @ dash @ str_bytes '' no clock on this device'')]
               else []) @
              (if checked l AND VL_CHECKED_HWM = 0
               then [(L_debug, str_bytes ''license: rollback high-water mark not enforced'')] else []),
              b1, s1))"

definition licenseSerialCommand :: "'s bridge \<Rightarrow> bytes \<Rightarrow> 's \<Rightarrow> bool \<times> log \<times> 's bridge \<times> 's" where
  "licenseSerialCommand b cmd s =
     (let c = str_trim cmd in
      if \<not> starts_with c (str_bytes ''license'') then (False, [], b, s)
      else
        let arg = str_trim (drop 7 c) in
        if length arg = 0 \<or> arg = str_bytes ''status'' then
          (case licenseSerialStatus b s of (l, b1, s1) \<Rightarrow> (True, l, b1, s1))
        else if arg = str_bytes ''id'' then
          (case bridge_deviceId b s of (did, b1, s1) \<Rightarrow>
             (True, [(L_inf, str_bytes ''license: device id '' @ did)], b1, s1))
        else if arg = str_bytes ''help'' then
          (True, [(L_info, str_bytes ''license: usage '' @ dash @ str_bytes '' license [status|id|<160-char key>]'')], b, s)
        else (case bridge_submit (Some (c_str arg)) (length arg) b of (queued, b1) \<Rightarrow>
          if \<not> queued
          then (True, [(L_error, str_bytes ''license: rejected '' @ dash @ str_bytes '' too long, or one is already queued'')], b1, s)
          else (True, [(L_info, str_bytes ''license: queued, verifying on the next loop()'')], b1, s)))"

definition licenseSerialLoop :: "sigcheck \<Rightarrow> 's bridge \<Rightarrow> 's \<Rightarrow> log \<times> 's bridge \<times> 's" where
  "licenseSerialLoop V b s =
     (case bridge_pump V b s of (did, b1, s1) \<Rightarrow>
        if \<not> did then ([], b1, s1)
        else if bridge_ok b1 then licenseSerialStatus b1 s1
        else ([(L_err, str_bytes ''license: rejected '' @ dash @ str_bytes '' '' @
                 str_bytes (vl_status_str (status_code (b_status b1))))], b1, s1))"

section \<open>Updates\<close>

record vecti_ota =
  ota_firmware :: bool
  ota_filesystem :: bool
  ota_pull :: bool

definition licenseGateOta :: "'s bridge \<Rightarrow> int \<Rightarrow> bool \<Rightarrow> vecti_ota \<Rightarrow> vecti_ota" where
  "licenseGateOta b featureBit gateFirmware ota =
     (let allow = bridge_ok b;
          allow = (if allow \<and> featureBit \<ge> 0 then bridge_feature b (nat featureBit) else allow);
          ota = (if gateFirmware then ota\<lparr>ota_firmware := allow\<rparr> else ota)
      in ota\<lparr>ota_filesystem := allow, ota_pull := allow\<rparr>)"

section \<open>Captive portal\<close>

datatype net_param_type = Display | Textarea

record net_param =
  np_key :: bytes
  np_label :: bytes
  np_type :: net_param_type
  np_value :: bytes
  np_hint :: bytes

text \<open>VectiNet: the parameters of the form, and what the operator has saved under each key.\<close>

record vecti_net =
  vn_params :: "net_param list"
  vn_saved :: "bytes \<Rightarrow> bytes"

record portal =
  po_prefix :: bytes
  po_last :: bytes

definition portal_new :: "bytes \<Rightarrow> portal" where
  "portal_new prefix = \<lparr>po_prefix = prefix, po_last = []\<rparr>"

definition portal_attach :: "portal \<Rightarrow> 's bridge \<Rightarrow> vecti_net \<Rightarrow> 's \<Rightarrow> vecti_net \<times> 's bridge \<times> 's" where
  "portal_attach p b vn s =
     (case bridge_deviceId b s of (did, b1, s1) \<Rightarrow>
        (vn\<lparr>vn_params := vn_params vn @
           [\<lparr>np_key = po_prefix p @ str_bytes ''_id'', np_label = str_bytes ''Device ID'', np_type = Display,
             np_value = did, np_hint = str_bytes ''Send this to your supplier to get a licence key.''\<rparr>,
            \<lparr>np_key = po_prefix p @ str_bytes ''_state'', np_label = str_bytes ''Licence'', np_type = Display,
             np_value = the (licenseSummary b1 96), np_hint = str_bytes ''As of the last restart.''\<rparr>,
            \<lparr>np_key = po_prefix p @ str_bytes ''_key'', np_label = str_bytes ''Licence key'', np_type = Textarea,
             np_value = [], np_hint = str_bytes ''Paste the 160-character key here and press Save.''\<rparr>]\<rparr>,
         b1, s1))"

definition portal_loop :: "portal \<Rightarrow> vecti_net \<Rightarrow> 's bridge \<Rightarrow> bool \<times> portal \<times> 's bridge" where
  "portal_loop p vn b =
     (let v = vn_saved vn (po_prefix p @ str_bytes ''_key'') in
      if length v = 0 \<or> v = po_last p then (False, p, b)
      else (case bridge_submit (Some (c_str v)) (length v) b of (queued, b1) \<Rightarrow>
        (queued, p\<lparr>po_last := v\<rparr>, b1)))"

section \<open>Dashboard\<close>

datatype dash_type = DashStatus | DashQrCode | DashTextarea
datatype dash_color = Success | Danger

record dash_card =
  dc_type :: dash_type
  dc_id :: bytes
  dc_title :: bytes
  dc_tab :: bytes
  dc_value :: bytes
  dc_color :: "dash_color option"

record dashboard =
  da_state :: dash_card
  da_id :: dash_card
  da_paste :: dash_card
  da_tab :: bytes
  da_shown :: vl_status

definition new_card :: "dash_type \<Rightarrow> string \<Rightarrow> string \<Rightarrow> dash_card" where
  "new_card t i title = \<lparr>dc_type = t, dc_id = str_bytes i, dc_title = str_bytes title, dc_tab = [], dc_value = [], dc_color = None\<rparr>"

definition dashboard_new :: "bytes \<Rightarrow> dashboard" where
  "dashboard_new tab =
     \<lparr>da_state = new_card DashStatus ''vl_state'' ''Licence'', da_id = new_card DashQrCode ''vl_id'' ''Device ID'',
      da_paste = new_card DashTextarea ''vl_key'' ''Activate'', da_tab = tab, da_shown = VL_ERR_INTERNAL\<rparr>"

definition dash_repaint :: "dashboard \<Rightarrow> 's bridge \<Rightarrow> 's \<Rightarrow> dashboard \<times> 's bridge \<times> 's" where
  "dash_repaint d b s =
     (let st = (da_state d)\<lparr>dc_value := the (licenseSummary b 96), dc_color := Some (if bridge_ok b then Success else Danger)\<rparr>;
          (did, b1, s1) = bridge_deviceId b s
      in (d\<lparr>da_state := st, da_id := (da_id d)\<lparr>dc_value := did\<rparr>,
            da_paste := (if bridge_ok b1 then (da_paste d)\<lparr>dc_value := []\<rparr> else da_paste d),
            da_shown := b_status b1\<rparr>, b1, s1))"

text \<open>The cards added to the dashboard, in order, come back with the object.\<close>

definition dash_attach :: "dashboard \<Rightarrow> 's bridge \<Rightarrow> 's \<Rightarrow> dash_card list \<times> dashboard \<times> 's bridge \<times> 's" where
  "dash_attach d b s =
     (let d1 = (if length (da_tab d) > 0
                then d\<lparr>da_state := (da_state d)\<lparr>dc_tab := da_tab d\<rparr>, da_id := (da_id d)\<lparr>dc_tab := da_tab d\<rparr>,
                       da_paste := (da_paste d)\<lparr>dc_tab := da_tab d\<rparr>\<rparr>
                else d);
          (did, b1, s1) = bridge_deviceId b s;
          d2 = d1\<lparr>da_id := (da_id d1)\<lparr>dc_value := did\<rparr>, da_paste := (da_paste d1)\<lparr>dc_value := []\<rparr>\<rparr>;
          (d3, b2, s2) = dash_repaint d2 b1 s1
      in ([da_state d3, da_id d3, da_paste d3], d3, b2, s2))"

definition dash_onChange :: "bytes \<Rightarrow> 's bridge \<Rightarrow> 's bridge" where
  "dash_onChange payload b = snd (bridge_submit (Some (c_str payload)) (length payload) b)"

definition dash_loop :: "dashboard \<Rightarrow> 's bridge \<Rightarrow> 's \<Rightarrow> dashboard \<times> 's bridge \<times> 's" where
  "dash_loop d b s = (if da_shown d \<noteq> b_status b then dash_repaint d b s else (d, b, s))"

end
