(* ===== verification/VL_Sketch.thy ===== *)
theory VL_Sketch
  imports VL_Frontends VL_Hal_Esp32
begin

text \<open>
  The Arduino sketch \<^verbatim>\<open>examples/esp32-arduino/esp32-arduino.ino\<close>: \<^verbatim>\<open>setup()\<close>
  and \<^verbatim>\<open>loop()\<close> over the ESP32 layer, the bridge and its front ends, for any
  combination of the optional libraries, and the states of the sketch that a running device can be
  in. Besides ESP-IDF the platform gives the serial port and the NVS partition.
\<close>

section \<open>Configuration\<close>

definition SK_VENDOR_KEYS :: "vl_pubkey list" where
  "SK_VENDOR_KEYS = [\<lparr>pk_key_id = 1, pk_key =
     [0x70, 0x7d, 0xec, 0x62, 0x84, 0xba, 0x43, 0x82] @
     [0x4f, 0x75, 0x22, 0xc2, 0x10, 0xb3, 0x6b, 0x13] @
     [0x15, 0x2b, 0xfe, 0x56, 0xdb, 0xf7, 0xbc, 0xad] @
     [0x1d, 0xf0, 0xc9, 0x7a, 0xf6, 0xc8, 0x0d, 0xe9]\<rparr>]"

text \<open>The count of revoked serials is zero.\<close>

definition SK_CFG :: vl_config where
  "SK_CFG = \<lparr>keys = Some SK_VENDOR_KEYS, cfg_family = 2, revoked_serials = Some (take 0 [0]), flags = 0\<rparr>"

definition FEATURE_BASE :: nat where "FEATURE_BASE = 0"
definition FEATURE_LOGGING :: nat where "FEATURE_LOGGING = 1"
definition FEATURE_MODBUS :: nat where "FEATURE_MODBUS = 2"
definition FEATURE_OTA :: nat where "FEATURE_OTA = 3"

section \<open>The board and the libraries\<close>

record 's arduino =
  bd_idf :: "'s esp_idf"
  serial_write :: "bytes \<Rightarrow> 's \<Rightarrow> 's"
  nvs_flash_init :: "'s \<Rightarrow> esp_err \<times> 's"
  nvs_flash_erase :: "'s \<Rightarrow> esp_err \<times> 's"

text \<open>The sibling libraries the build found.\<close>

record installed =
  have_net :: bool
  have_dash :: bool
  have_serial :: bool
  have_ota :: bool

definition println :: "'s arduino \<Rightarrow> bytes \<Rightarrow> 's \<Rightarrow> 's" where
  "println d t = serial_write d (t @ [0x0D, 0x0A])"

section \<open>Reports\<close>

definition posture_word :: "vl_posture_state \<Rightarrow> bytes" where
  "posture_word p = (if p = VL_POSTURE_ON then str_bytes ''on'' else if p = VL_POSTURE_OFF then str_bytes ''OFF''
     else str_bytes ''unknown'')"

definition reportPosture :: "'s arduino \<Rightarrow> 's bridge \<Rightarrow> 's \<Rightarrow> 's" where
  "reportPosture d b s =
     (case bridge_posture \<lparr>secure_boot = VL_POSTURE_UNKNOWN, flash_encryption = VL_POSTURE_UNKNOWN\<rparr> b s of (p, s1) \<Rightarrow>
        let s2 = serial_write d (ln (str_bytes ''secure boot: '' @ posture_word (secure_boot p) @
                   str_bytes '', flash encryption: '' @ posture_word (flash_encryption p))) s1
        in if secure_boot p \<noteq> VL_POSTURE_ON \<or> flash_encryption p \<noteq> VL_POSTURE_ON
           then println d (str_bytes ''WARNING: without Secure Boot v2 + Flash Encryption, anyone who can reflash this board can delete the licence check entirely. That is true of every software licensing scheme, not just this one.'') s2
           else s2)"

definition onActivation :: "'s arduino \<Rightarrow> vl_status \<Rightarrow> 's \<Rightarrow> 's" where
  "onActivation d st s =
     (if st = VL_OK then println d (str_bytes ''licence accepted and stored'') s
      else serial_write d (ln (str_bytes ''licence refused: '' @ str_bytes (vl_status_str (status_code st)))) s)"

section \<open>setup\<close>

text \<open>What the sketch and the libraries hold; \<open>sk_cards\<close> are the cards as they were added.\<close>

record 's sketch =
  sk_lic :: "'s bridge"
  sk_portal :: portal
  sk_card :: dashboard
  sk_net :: vecti_net
  sk_cards :: "dash_card list"
  sk_ota :: vecti_ota
  sk_log :: log
  sk_plat :: 's

definition setup_nvs :: "'s arduino \<Rightarrow> 's \<Rightarrow> 's" where
  "setup_nvs d s =
     (case nvs_flash_init d s of (err, s1) \<Rightarrow>
        if err = ESP_ERR_NVS_NO_FREE_PAGES \<or> err = ESP_ERR_NVS_NEW_VERSION_FOUND
        then snd (nvs_flash_init d (snd (nvs_flash_erase d s1)))
        else s1)"

definition setup_verdict :: "'s arduino \<Rightarrow> 's bridge \<Rightarrow> 's \<Rightarrow> 's" where
  "setup_verdict d b s =
     (case bridge_license b of
        Some l \<Rightarrow>
          let s1 = serial_write d (ln (str_bytes ''serial '' @ dec32 (serial l) @ str_bytes '', features 0x'' @
                     hex8 (features l) @ str_bytes '', checked 0x'' @ hex_min 2 (checked l))) s
          in if not_after l \<noteq> 0 \<and> checked l AND VL_CHECKED_TIME = 0
             then println d (str_bytes ''NOTE: expiry not enforced '' @ dash @ str_bytes '' no valid clock yet.'') s1
             else s1
      | None \<Rightarrow>
          println d (str_bytes ''Send the device id above to your supplier, then paste the 160-character licence into the setup portal, the dashboard, or type: license <blob>'') s)"

text \<open>The object is static: its buffers start as zeros.\<close>

definition setup_license :: "sigcheck \<Rightarrow> 's arduino \<Rightarrow> 's \<Rightarrow> 's bridge \<times> 's" where
  "setup_license V d s =
     (let s1 = setup_nvs d s;
          b = bridge_new (Some SK_CFG) (Some (vl_hal_esp32 (bd_idf d)))
                (replicate VL_DEVICE_ID_STR_BUF_LEN 0) (replicate VL_BLOB_STR_BUF_LEN 0);
          b = bridge_onResult (Some (onActivation d)) b;
          (st, b, s2) = bridge_begin V b s1;
          s3 = serial_write d (ln (ln [] @ str_bytes vl_version_str)) s2;
          (did, b, s4) = bridge_deviceId b s3;
          s5 = serial_write d (ln (str_bytes ''device id: '' @ did)) s4;
          s6 = serial_write d (ln (str_bytes ''licence:   '' @ str_bytes (vl_status_str (status_code st)))) s5;
          s7 = reportPosture d b s6
      in (b, setup_verdict d b s7))"

definition sketch_setup :: "sigcheck \<Rightarrow> installed \<Rightarrow> 's arduino \<Rightarrow> vecti_net \<Rightarrow> vecti_ota \<Rightarrow> 's \<Rightarrow> 's sketch" where
  "sketch_setup V lib d vn ota s =
     (let (b, s1) = setup_license V d s;
          p = portal_new (str_bytes ''vl'');
          (vn, b, s2) = (if have_net lib then portal_attach p b vn s1 else (vn, b, s1));
          c = dashboard_new [];
          (cards, c, b, s3) = (if have_dash lib then dash_attach c b s2 else ([], c, b, s2))
      in \<lparr>sk_lic = b, sk_portal = p, sk_card = c, sk_net = vn, sk_cards = cards, sk_ota = ota, sk_log = [], sk_plat = s3\<rparr>)"

section \<open>loop\<close>

definition loop_portal :: "installed \<Rightarrow> 's sketch \<Rightarrow> 's sketch" where
  "loop_portal lib k =
     (if have_net lib
      then (case portal_loop (sk_portal k) (sk_net k) (sk_lic k) of (r, p, b) \<Rightarrow> k\<lparr>sk_portal := p, sk_lic := b\<rparr>)
      else k)"

definition loop_card :: "installed \<Rightarrow> 's sketch \<Rightarrow> 's sketch" where
  "loop_card lib k =
     (if have_dash lib
      then (case dash_loop (sk_card k) (sk_lic k) (sk_plat k) of (c, b, s) \<Rightarrow> k\<lparr>sk_card := c, sk_lic := b, sk_plat := s\<rparr>)
      else k)"

definition loop_serial :: "sigcheck \<Rightarrow> installed \<Rightarrow> 's sketch \<Rightarrow> 's sketch" where
  "loop_serial V lib k =
     (if have_serial lib
      then (case licenseSerialLoop V (sk_lic k) (sk_plat k) of (l, b, s) \<Rightarrow>
              k\<lparr>sk_log := sk_log k @ l, sk_lic := b, sk_plat := s\<rparr>)
      else k)"

definition loop_ota :: "installed \<Rightarrow> 's sketch \<Rightarrow> 's sketch" where
  "loop_ota lib k =
     (if have_ota lib then k\<lparr>sk_ota := licenseGateOta (sk_lic k) (int FEATURE_OTA) False (sk_ota k)\<rparr> else k)"

text \<open>One pass; the bodies of the two feature tests at its end are comments.\<close>

definition sketch_loop :: "sigcheck \<Rightarrow> installed \<Rightarrow> 's sketch \<Rightarrow> 's sketch" where
  "sketch_loop V lib k =
     (case bridge_pump V (sk_lic k) (sk_plat k) of (did, b, s) \<Rightarrow>
        loop_ota lib (loop_serial V lib (loop_card lib (loop_portal lib (k\<lparr>sk_lic := b, sk_plat := s\<rparr>)))))"

text \<open>The console handler that \<^verbatim>\<open>setup()\<close> installs.\<close>

definition sketch_onMessage :: "bytes \<Rightarrow> 's sketch \<Rightarrow> 's sketch" where
  "sketch_onMessage cmd k =
     (case licenseSerialCommand (sk_lic k) cmd (sk_plat k) of (handled, l, b, s) \<Rightarrow>
        k\<lparr>sk_log := sk_log k @ l, sk_lic := b, sk_plat := s\<rparr>)"

section \<open>A running device\<close>

text \<open>
  Passes of the loop, console commands, pastes into the dashboard and forms saved in the portal, in any
  order, with the board and the update switches of other code moving between them.
\<close>

inductive sketch_step :: "sigcheck \<Rightarrow> installed \<Rightarrow> 's sketch \<Rightarrow> 's sketch \<Rightarrow> bool" for V lib where
  sk_pass: "sketch_step V lib k (sketch_loop V lib k)"
| sk_message: "have_serial lib \<Longrightarrow> sketch_step V lib k (sketch_onMessage cmd k)"
| sk_paste: "have_dash lib \<Longrightarrow> sketch_step V lib k (k\<lparr>sk_lic := dash_onChange payload (sk_lic k)\<rparr>)"
| sk_save: "have_net lib \<Longrightarrow> sketch_step V lib k (k\<lparr>sk_net := vn\<rparr>)"
| sk_other: "sketch_step V lib k (k\<lparr>sk_plat := s, sk_ota := ota\<rparr>)"

inductive sketch_reach :: "sigcheck \<Rightarrow> installed \<Rightarrow> 's arduino \<Rightarrow> 's sketch \<Rightarrow> bool" for V lib d where
  sk_start: "sketch_reach V lib d (sketch_setup V lib d vn ota s)"
| sk_next: "sketch_reach V lib d k \<Longrightarrow> sketch_step V lib k k' \<Longrightarrow> sketch_reach V lib d k'"

end
