(* ===== verification/VL_Persistence.thy ===== *)
theory VL_Persistence
  imports VL_Demo
begin

text \<open>
  What survives a power cycle: the two stores of the RP2040 page, the torn page, the mark of the
  POSIX layer, and an object of the bridge that is built again after a licence was activated or
  cleared. The facts about single stores are those of the platform theories.
\<close>

section \<open>The flash page of the RP2040\<close>

lemma rp_blob_load_reads:
  assumes "rp_slot d s = b" and "b \<noteq> []" and "length b + 1 \<le> length buf"
  shows "\<exists>rest. rp_blob_load d buf s = (VL_OK, b @ 0 # rest, length b, s)"
proof -
  obtain rest s' where "rp_blob_load d buf s = (VL_OK, b @ 0 # rest, length b, s')"
    using rp_blob.load_slot [where d = d and s = s and buf = buf] assms by auto
  moreover have "snd (snd (snd (rp_blob_load d buf s))) = s"
    by (simp add: rp_blob_load_def Let_def)
  ultimately show ?thesis by auto
qed

text \<open>A store that reports success is what the next boot reads: once the mark and then the licence
  have been stored with success, both loads return them, and a later successful store of another mark
  changes the mark and nothing else, with nothing assumed of how the flash erases and programs.\<close>

theorem rp_writes_read_back:
  assumes "rp_hwm_store d v s = (VL_OK, s1)" and "rp_blob_store d b s1 = (VL_OK, s2)"
    and "b \<noteq> []" and "length b + 1 \<le> length buf"
  shows "rp_hwm_load d s2 = (VL_OK, v, s2) \<and>
    (\<exists>rest. rp_blob_load d buf s2 = (VL_OK, b @ 0 # rest, length b, s2)) \<and>
    (\<forall>w s3. rp_hwm_store d w s2 = (VL_OK, s3) \<longrightarrow> rp_hwm_load d s3 = (VL_OK, w, s3) \<and>
       (\<exists>rest. rp_blob_load d buf s3 = (VL_OK, b @ 0 # rest, length b, s3)))"
proof -
  have slot: "rp_slot d s2 = b" using rp_blob.store_slot [OF _ _ assms(2)] by simp
  have "rp_hwm (record_read d s1) = v" using rp_hwm_store_ok [OF assms(1)] by simp
  then have "rp_hwm (record_read d s2) = v" using rp_stores_independent(2) [OF assms(2)] by simp
  moreover have "rp_hwm_load d s3 = (VL_OK, w, s3) \<and>
       (\<exists>rest. rp_blob_load d buf s3 = (VL_OK, b @ 0 # rest, length b, s3))"
    if w: "rp_hwm_store d w s2 = (VL_OK, s3)" for w s3
    using rp_hwm_store_ok [OF w] rp_stores_independent(1) [OF w] slot rp_blob_load_reads [OF _ assms(3,4)]
    by (simp add: rp_hwm_load_def)
  ultimately show ?thesis using rp_blob_load_reads [OF slot assms(3,4)] by (simp add: rp_hwm_load_def)
qed

lemma rp_writes_read_back_witness:
  "\<exists>s. rp_hwm_load demo_flash s = (VL_OK, 77, s) \<and>
    (\<exists>rest. rp_blob_load demo_flash [0, 0, 0] s = (VL_OK, [0x41] @ 0 # rest, 1, s))"
proof -
  obtain s1 where s1: "rp_hwm_store demo_flash 77 (\<lambda>_. 0xFF) = (VL_OK, s1)"
    using demo_flash_hwm_store [of 77 "\<lambda>_. 0xFF"] by (metis prod.collapse)
  obtain s2 where s2: "rp_blob_store demo_flash [0x41] s1 = (VL_OK, s2)"
    using demo_flash_blob_store [of "[0x41]" s1] by (metis prod.collapse list.size(3,4) Suc_le_mono le0 numeral_eq_Suc add_0 plus_1_eq_Suc)
  from rp_writes_read_back [OF s1 s2, of "[0, 0, 0]"] show ?thesis by (intro exI [of _ s2]) simp
qed

text \<open>A write cut off between erase and program forgets everything: whenever the page does not
  start with the record's magic, the mark reads as zero, with status \<open>VL_OK\<close>, and there is no licence,
  so the next clock, however far back, is accepted by the rollback check.\<close>

theorem rp_torn_page_resets:
  assumes "rd_le32 (xip_bytes d s VL_RP_RECORD_SIZE) \<noteq> VL_RP_MAGIC" and "buf \<noteq> []"
  shows "rp_hwm_load d s = (VL_OK, 0, s) \<and> rp_blob_load d buf s = (VL_ERR_NOT_FOUND, buf, 0, s)"
  using assms by (simp add: rp_hwm_load_def rp_blob_load_def record_read_def rp_decode_def rp_zero_def Let_def)

lemma rp_torn_page_resets_witness:
  "rp_hwm_load demo_flash (flash_range_erase demo_flash 4096 (\<lambda>_. 7)) = (VL_OK, 0, flash_range_erase demo_flash 4096 (\<lambda>_. 7))"
proof -
  let ?s = "flash_range_erase demo_flash 4096 (\<lambda>_. 7)"
  have "xip_bytes demo_flash ?s VL_RP_RECORD_SIZE = map (\<lambda>_. 0xFF) [0..<176]"
    by (auto simp: xip_bytes_def demo_flash_def VL_RP_RECORD_SIZE_def vl_sizes)
  moreover have "map (\<lambda>_. 0xFF :: u8) [0..<176] = [0xFF, 0xFF, 0xFF, 0xFF] @ replicate 172 0xFF"
    by (simp add: map_replicate_const numeral_eq_Suc)
  ultimately have "rd_le32 (xip_bytes demo_flash ?s VL_RP_RECORD_SIZE) \<noteq> VL_RP_MAGIC"
    by (simp add: rd_le32_def VL_RP_MAGIC_def)
  from rp_torn_page_resets [OF this, of "[0]"] show ?thesis by simp
qed

section \<open>The mark of the POSIX layer\<close>

text \<open>C35. What a stored mark reads back as: the value stored, unless its top byte is a whitespace
  character (a clock between 1974 and 1987), in which case the file helper for text trims it and every
  later load fails as a platform error.\<close>

theorem px_mark_read_back:
  assumes "px_ok s" and "px_hwm_store v s = (VL_OK, s')"
  shows "px_hwm_load s' =
    (if drop_bit 24 v \<in> {0x09, 0x0A, 0x0D, 0x20} then (VL_ERR_PLATFORM, 0, s') else (VL_OK, v, s'))"
proof -
  have "unat v < 2 ^ LENGTH(32)" by (rule unsigned_less)
  then have top: "unat (drop_bit 24 v) < 256"
    by (simp add: drop_bit_eq_div unat_div less_mult_imp_div_less)
  have "unat (ucast (drop_bit 24 v) :: u8) = unat (drop_bit 24 v)"
    using top by (simp add: unsigned_ucast_eq take_bit_eq_mod del: drop_bit_word_numeral)
  then have "is_ws (ucast (drop_bit 24 v)) \<longleftrightarrow> drop_bit 24 v \<in> {0x09, 0x0A, 0x0D, 0x20}"
    by (auto simp: is_ws_def word_unat_eq_iff)
  then show ?thesis using px_hwm_load_stored [OF assms] by simp
qed

lemma px_mark_read_back_witness:
  "\<exists>s'. px_hwm_store 0x0A000000 (demo_px 0) = (VL_OK, s') \<and> px_hwm_load s' = (VL_ERR_PLATFORM, 0, s')"
proof -
  obtain s' where s': "px_hwm_store 0x0A000000 (demo_px 0) = (VL_OK, s')"
    using demo_px_store [of "0x0A000000" 0] by (metis prod.collapse)
  from px_mark_read_back [OF demo_px_ok this] show ?thesis using s' by simp
qed

section \<open>Objects built again\<close>

text \<open>The board's id does not change while it is on, and the RP2040 callbacks have no clock.\<close>

lemma rp_reads_pure: "pure_reads (vl_hal_rp2040 d) s"
  by (auto simp: pure_reads_def vl_hal_rp2040_def rp_read_id_segment_def rp_hwm_load_def Let_def)

lemma rp_segments_const:
  assumes "\<And>s t. get_board_id d s = get_board_id d t" and "id_segments (rp_read_id_segment d) i s = (r, s')"
  shows "s' = s \<and> id_segments (rp_read_id_segment d) i t = (r, t)"
  using assms(2)
proof (induction "VL_ID_SEGMENT_COUNT_MAX - i" arbitrary: i r s')
  case 0
  then show ?case by (simp add: id_segments.simps [of _ i])
next
  case (Suc k)
  let ?o = "replicate VL_ID_SEGMENT_MAX 0"
  have same: "\<exists>st c n. rp_read_id_segment d (word_of_nat i) ?o s = (st, c, n, s) \<and>
      rp_read_id_segment d (word_of_nat i) ?o t = (st, c, n, t)"
    using assms(1) [of s t] by (auto simp: rp_read_id_segment_def Let_def)
  then obtain st c n where r: "rp_read_id_segment d (word_of_nat i) ?o s = (st, c, n, s)"
    "rp_read_id_segment d (word_of_nat i) ?o t = (st, c, n, t)" by blast
  obtain r2 s2 where i: "id_segments (rp_read_id_segment d) (i + 1) s = (r2, s2)" by fastforce
  have "s2 = s \<and> id_segments (rp_read_id_segment d) (i + 1) t = (r2, t)"
    using Suc.hyps(1) [OF _ i] Suc.hyps(2) by simp
  then show ?case
    using Suc.prems Suc.hyps(2) r i
    by (auto simp: id_segments.simps [of _ i] split: if_splits sum.splits)
qed

lemma rp_admits_const:
  assumes const: "\<And>s t. get_board_id d s = get_board_id d t" and sp: "b32_spells b' bin"
    and a: "admits V b c (vl_hal_rp2040 d) s bin"
  shows "admits V b' c (vl_hal_rp2040 d) t bin"
proof -
  have rd: "read_id_segment (vl_hal_rp2040 d) = Some (rp_read_id_segment d)" "now_epoch (vl_hal_rp2040 d) = None"
    by (simp_all add: vl_hal_rp2040_def)
  show ?thesis
    using a sp rp_segments_const [OF const, of 0 s _ _ t]
    by (fastforce simp: admits_def rd clock_ok_def split: prod.splits sum.splits)
qed

lemma rp_verify_pure:
  assumes "vl_verify_with V (Some b) (Some c) (Some (vl_hal_rp2040 d)) out s = (st, out', s')"
  shows "s' = s"
proof (cases "flags c AND VL_FLAG_ENFORCE_HWM = 0")
  case True
  then show ?thesis using vl_verify_pure [OF rp_reads_pure assms] by (simp add: only_marked_def)
next
  case False
  then show ?thesis
    using assms by (auto simp: vl_verify_with_def vl_hal_rp2040_def Let_def split: option.splits if_splits)
qed

text \<open>C30. Activation survives a power cycle on the RP2040: if \<open>activate\<close> of any object in use returns
  \<open>VL_OK\<close>, then a new object on the same board, whose id is the same at every read, starts with
  \<open>VL_OK\<close> and holds the same licence and the same blob, whatever spelling was pasted.\<close>

theorem rp_activation_survives_reboot:
  assumes const: "\<And>s t. get_board_id d s = get_board_id d t"
    and b: "bridge_reach V c (vl_hal_rp2040 d) b s"
    and act: "bridge_activate V (Some blob) b s = (VL_OK, b1, s1)"
    and new: "length dv = VL_DEVICE_ID_STR_BUF_LEN" "length bl = VL_BLOB_STR_BUF_LEN"
  shows "\<exists>b2. bridge_begin V (bridge_new (Some c) (Some (vl_hal_rp2040 d)) dv bl) s1 = (VL_OK, b2, s1) \<and>
    bridge_ok b2 \<and> b_lic b2 = b_lic b1 \<and> bridge_blob b2 = bridge_blob b1"
proof -
  let ?h = "vl_hal_rp2040 d" and ?b2 = "bridge_new (Some c) (Some (vl_hal_rp2040 d)) dv bl"
  have h: "read_id_segment ?h = Some (rp_read_id_segment d)" "blob_load ?h = Some (rp_blob_load d)"
    "blob_store ?h = Some (rp_blob_store d)" by (simp_all add: vl_hal_rp2040_def)
  note inv = id_source.bridge_reach_inv [OF rp_id_source b h(1)]
  have len: "length (b_blob b) = VL_BLOB_STR_BUF_LEN" using inv by (simp add: bridge_inv_def)
  obtain st lic s0 where v: "vl_verify_with V (Some blob) (Some c) (Some ?h) (Some zero_license) s = (st, lic, s0)"
    by (metis surj_pair)
  note ap = id_source.bridge_apply_spec [OF rp_id_source _ _ h(1) len v, where persist = True]
  have st: "st = VL_OK" using ap(1) inv act by (auto simp: bridge_activate_def)
  obtain bin where a: "admits V blob c ?h s bin" using rp_id.vl_verify_spec(1) [OF v h(1)] st by blast
  have bin: "length bin = 100" using a by (simp add: admits_def)
  have "bridge_apply V (Some blob) True b s =
      (case rp_blob_store d (b32_text bin) s of (st2, s2) \<Rightarrow>
         (if st2 \<noteq> VL_OK then VL_ERR_PLATFORM else VL_OK, accepted c ?h bin b, s2))"
    using ap(2) [OF _ _ st a] inv rp_verify_pure [OF v] by (simp add: h)
  then have b1: "b1 = accepted c ?h bin b" "rp_blob_store d (b32_text bin) s = (VL_OK, s1)"
    using act by (auto simp: bridge_activate_def split: prod.splits if_splits)
  have slot: "rp_slot d s1 = b32_text bin" using rp_blob.store_slot [OF _ _ b1(2)] by simp
  have "b32_text bin \<noteq> []" using text_160 [OF bin] by auto
  from rp_blob_load_reads [OF slot this, of "replicate VL_BLOB_STR_BUF_LEN 0"] obtain rest
    where load: "rp_blob_load d (replicate VL_BLOB_STR_BUF_LEN 0) s1 = (VL_OK, b32_text bin @ 0 # rest, 160, s1)"
    using text_160 [OF bin] by (auto simp: vl_sizes)
  let ?t = "b32_text bin @ 0 # rest"
  have a2: "admits V ?t c ?h s1 bin" using rp_admits_const [OF const _ a] text_spells [OF bin] by blast
  obtain st2 lic2 s2 where v2: "vl_verify_with V (Some ?t) (Some c) (Some ?h) (Some zero_license) s1 = (st2, lic2, s2)"
    by (metis surj_pair)
  have st2: "st2 = VL_OK" using rp_id.vl_verify_spec(1) [OF v2 h(1)] a2 by blast
  have "bridge_apply V (Some ?t) False ?b2 s1 = (VL_OK, accepted c ?h bin ?b2, s1)"
    using id_source.bridge_apply_spec(2) [OF rp_id_source _ _ h(1) _ v2 st2 a2, where b = ?b2 and persist = False] rp_verify_pure [OF v2] new
    by (simp add: bridge_new_def)
  moreover have "?t[160 := 0] = ?t" using text_160 [OF bin] by (simp add: list_update_append)
  ultimately have "bridge_begin V ?b2 s1 = (VL_OK, accepted c ?h bin ?b2, s1)"
    using load by (simp add: bridge_begin_def bridge_new_def h vl_sizes)
  then show ?thesis by (simp add: b1(1) accepted_def bridge_ok_def bridge_blob_def)
qed

definition demo_object :: "(nat \<Rightarrow> u8) bridge" where
  "demo_object = bridge_new (Some (demo_cfg 0)) (Some (vl_hal_rp2040 demo_flash)) (replicate 27 0) (replicate 161 0)"

lemma demo_object_reach: "bridge_reach V (demo_cfg 0) (vl_hal_rp2040 demo_flash) demo_object s"
  unfolding demo_object_def by (rule reach_new) (simp_all add: vl_sizes)

lemma demo_rp_ids: "id_segments (rp_read_id_segment demo_flash) 0 s = (Inr [[1, 2, 3, 4, 5, 6, 7, 8]], s)"
proof -
  have uid: "map (get_board_id demo_flash s) [0..<8] = [1, 2, 3, 4, 5, 6, 7, 8]"
    by (simp add: demo_flash_def numeral_eq_Suc)
  have r: "rp_read_id_segment demo_flash 0 (replicate 255 0) s =
      (VL_OK, overlay (replicate 255 0) 0 [1, 2, 3, 4, 5, 6, 7, 8], 8, s)"
    by (simp add: rp_read_id_segment_def PICO_UNIQUE_BOARD_ID_SIZE_BYTES_def Let_def uid del: upt_conv_Cons upt_Suc)
  have e: "id_segments (rp_read_id_segment demo_flash) (Suc 0) s = (Inr [], s)"
    by (rule ids_end [where w = 1 and c = "replicate 255 0" and n = 0]) (simp_all add: rp_read_id_segment_def)
  show ?thesis by (rule ids_next [OF r e]) (simp_all add: overlay_def)
qed

lemma demo_rp_admits:
  "admits yes_check (demo_text [[1, 2, 3, 4, 5, 6, 7, 8]] 0 0) (demo_cfg 0) (vl_hal_rp2040 demo_flash) s
     (demo_bin [[1, 2, 3, 4, 5, 6, 7, 8]] 0 0)"
  by (rule demo_admits [where ?s1.0 = s and k = "replicate 32 9"])
    (simp_all add: demo_cfg_def vl_hal_rp2040_def args_ok_def clock_ok_def demo_rp_ids VL_FLAG_ENFORCE_HWM_def)

lemma demo_object_activates:
  "\<exists>s1. bridge_activate yes_check (Some (demo_text [[1, 2, 3, 4, 5, 6, 7, 8]] 0 0)) demo_object s =
    (VL_OK, accepted (demo_cfg 0) (vl_hal_rp2040 demo_flash) (demo_bin [[1, 2, 3, 4, 5, 6, 7, 8]] 0 0) demo_object, s1)"
proof -
  let ?h = "vl_hal_rp2040 demo_flash" and ?t = "demo_text [[1, 2, 3, 4, 5, 6, 7, 8]] 0 0"
  let ?bin = "demo_bin [[1, 2, 3, 4, 5, 6, 7, 8]] 0 0"
  have h: "read_id_segment ?h = Some (rp_read_id_segment demo_flash)" "blob_store ?h = Some (rp_blob_store demo_flash)"
    by (simp_all add: vl_hal_rp2040_def)
  obtain st lic s0 where v: "vl_verify_with yes_check (Some ?t) (Some (demo_cfg 0)) (Some ?h) (Some zero_license) s = (st, lic, s0)"
    by (metis surj_pair)
  have st: "st = VL_OK" using rp_id.vl_verify_spec(1) [OF v h(1)] demo_rp_admits by blast
  have "fst (rp_blob_store demo_flash (b32_text ?bin) s0) = VL_OK"
    using text_160 [of ?bin] by (intro demo_flash_blob_store) simp
  then obtain s1 where "rp_blob_store demo_flash (b32_text ?bin) s0 = (VL_OK, s1)" by (metis prod.collapse)
  then show ?thesis
    using id_source.bridge_apply_spec(2) [OF rp_id_source _ _ h(1) _ v st demo_rp_admits, where b = demo_object and persist = True]
    by (simp add: bridge_activate_def h demo_object_def bridge_new_def vl_sizes)
qed

lemma rp_activation_survives_reboot_witness:
  "\<exists>b1 s1 b2. bridge_activate yes_check (Some (demo_text [[1, 2, 3, 4, 5, 6, 7, 8]] 0 0)) demo_object (\<lambda>_. 0xFF) = (VL_OK, b1, s1) \<and>
    bridge_begin yes_check demo_object s1 = (VL_OK, b2, s1) \<and> bridge_ok b2 \<and> b_lic b2 = b_lic b1"
proof -
  obtain b1 s1 where act: "bridge_activate yes_check (Some (demo_text [[1, 2, 3, 4, 5, 6, 7, 8]] 0 0)) demo_object (\<lambda>_. 0xFF) = (VL_OK, b1, s1)"
    using demo_object_activates by blast
  have "get_board_id demo_flash s = get_board_id demo_flash t" for s t by (simp add: demo_flash_def)
  from rp_activation_survives_reboot [OF this demo_object_reach act, of "replicate 27 0" "replicate 161 0"]
  show ?thesis using act by (auto simp: demo_object_def vl_sizes)
qed

section \<open>Clearing\<close>

text \<open>C33. A cleared device starts as one that was never activated: on every platform whose callbacks
  keep the contract of the licence slot and accept the empty licence, after \<open>clear\<close> reports success
  the next \<open>begin\<close>, of the same object or a new one, answers \<open>NOT_FOUND\<close>.\<close>

theorem clear_forgets:
  assumes st: "blob_storage load store ok fits slot"
    and h: "blob_load h = Some load" "blob_store h = Some store"
    and "b_hal b = Some h" and "b_hal b' = Some h" and "ok s" and "fits []"
    and clear: "bridge_clear b s = (VL_OK, b1, s1)"
  shows "fst (bridge_begin V b1 s1) = VL_ERR_NOT_FOUND \<and> fst (bridge_begin V b' s1) = VL_ERR_NOT_FOUND"
proof -
  have w: "store [] s = (VL_OK, s1)" and b1: "b_hal b1 = Some h"
    using clear assms(4) h by (auto simp: bridge_clear_def Let_def split: prod.splits)
  from blob_storage.store_clear [OF st \<open>ok s\<close> \<open>fits []\<close> w, of "replicate VL_BLOB_STR_BUF_LEN 0"]
  obtain c n s2 where "load (replicate VL_BLOB_STR_BUF_LEN 0) s1 = (VL_ERR_NOT_FOUND, c, n, s2)"
    by (auto simp: vl_sizes)
  then show ?thesis using b1 assms(5) h by (simp add: bridge_begin_def)
qed

lemma clear_forgets_witness:
  "\<exists>b1 s1. bridge_clear demo_object (\<lambda>_. 7) = (VL_OK, b1, s1) \<and>
    fst (bridge_begin yes_check b1 s1) = VL_ERR_NOT_FOUND"
proof -
  have h: "blob_load (vl_hal_rp2040 demo_flash) = Some (rp_blob_load demo_flash)"
    "blob_store (vl_hal_rp2040 demo_flash) = Some (rp_blob_store demo_flash)"
    "b_hal demo_object = Some (vl_hal_rp2040 demo_flash)"
    by (simp_all add: vl_hal_rp2040_def demo_object_def bridge_new_def)
  obtain s1 where "rp_blob_store demo_flash [] (\<lambda>_. 7) = (VL_OK, s1)"
    using demo_flash_blob_store [of "[]" "\<lambda>_. 7"] by (metis prod.collapse list.size(3) le0)
  then obtain b1 where c: "bridge_clear demo_object (\<lambda>_. 7) = (VL_OK, b1, s1)"
    by (simp add: bridge_clear_def h Let_def)
  from clear_forgets [OF rp_blob.blob_storage_axioms h(1,2,3,3) _ _ c, of yes_check] show ?thesis using c by blast
qed

lemma empty_blob_refused:
  assumes "keys c = Some ks" and "ks \<noteq> []" and "read_id_segment h = Some rd"
    and "flags c AND VL_FLAG_ENFORCE_HWM = 0 \<or> now_epoch h \<noteq> None \<and> hwm_load h \<noteq> None \<and> hwm_store h \<noteq> None"
  shows "\<exists>lic. vl_verify_with V (Some (0 # rest)) (Some c) (Some h) out s = (VL_ERR_BAD_FORMAT, lic, s)"
proof -
  have no: "\<not> b32_spells (0 # rest) bin" if "length bin = 100" for bin
    using that by (simp add: b32_spells_def b32_sig_def cstr_def VL_BASE32_CHARS_def)
  obtain bin' where "blob_decode (0 # rest) = (-1, bin')"
    using no by (cases rule: blob_decode_cases [of "0 # rest"]) blast+
  then have "verify_blob V (0 # rest) c h ks s = (VL_ERR_BAD_FORMAT, zero_license, s)"
    unfolding verify_blob_def blob_decode_def [symmetric] by (simp add: VL_BLOB_BIN_LEN_def)
  then show ?thesis using assms by (auto simp: vl_verify_with_def Let_def)
qed

text \<open>C34. On the ESP32 clearing is not forgetting: with a store that keeps the promises of the NVS
  documentation, \<open>clear\<close> commits an empty string, which is a stored entry, so the next \<open>begin\<close> does not
  answer \<open>NOT_FOUND\<close> but goes on to verify the empty string and answers \<open>BAD_FORMAT\<close>.\<close>

theorem esp_clear_leaves_entry:
  assumes nvs: "esp_nvs d up num str" and "up s"
    and b: "b_hal b = Some (vl_hal_esp32 d)" "b_cfg b = Some c" "keys c = Some ks" "ks \<noteq> []"
    and clear: "bridge_clear b s = (VL_OK, b1, s1)"
  shows "fst (bridge_begin V b1 s1) = VL_ERR_BAD_FORMAT"
proof -
  let ?h = "vl_hal_esp32 d" and ?buf = "replicate VL_BLOB_STR_BUF_LEN 0 :: bytes"
  have h: "blob_load ?h = Some (esp_blob_load d)" "blob_store ?h = Some (esp_blob_store d)"
    "read_id_segment ?h \<noteq> None" "now_epoch ?h \<noteq> None" "hwm_load ?h \<noteq> None" "hwm_store ?h \<noteq> None"
    by (simp_all add: vl_hal_esp32_def)
  have w: "esp_blob_store d [] s = (VL_OK, s1)" and b1: "b_hal b1 = Some ?h" "b_cfg b1 = Some c"
    using clear b h by (auto simp: bridge_clear_def Let_def split: prod.splits)
  have s1: "up s1" "str s1 = Some []"
    using esp_nvs.store_str [OF nvs \<open>up s\<close> w] by (simp_all add: cstr_def)
  obtain st x n s2 where l: "esp_blob_load d ?buf s1 = (st, x, n, s2)" by (metis surj_pair)
  have "?buf \<noteq> []" by (simp add: vl_sizes)
  from esp_nvs.load_str [OF nvs s1(1) this l] have x: "st = VL_OK" "x = overlay ?buf 0 [0]" "n = 0"
    using s1(2) by (auto simp: vl_sizes)
  obtain rest where rest: "x[0 := 0] = 0 # rest" using x by (cases x) (auto simp: overlay_def)
  obtain rd where rd: "read_id_segment ?h = Some rd" using h(3) by blast
  obtain lic where "vl_verify_with V (Some (0 # rest)) (Some c) (Some ?h) (Some zero_license) s2 = (VL_ERR_BAD_FORMAT, lic, s2)"
    using empty_blob_refused [OF b(3,4) rd, of V rest "Some zero_license" s2] h by auto
  then show ?thesis using l x(1,3) rest b1 by (simp add: bridge_begin_def bridge_apply_def h vl_sizes)
qed

lemma esp_clear_leaves_entry_witness:
  "\<exists>b1 s1. bridge_clear (bridge_new (Some (demo_cfg 0)) (Some (vl_hal_esp32 nvs_ref)) (replicate 27 0) (replicate 161 0))
      \<lparr>nv_exists = True, nv_num = None, nv_str = Some [0x41], nv_time = 0\<rparr> = (VL_OK, b1, s1) \<and>
    fst (bridge_begin yes_check b1 s1) = VL_ERR_BAD_FORMAT"
proof -
  let ?b = "bridge_new (Some (demo_cfg 0)) (Some (vl_hal_esp32 nvs_ref)) (replicate 27 0) (replicate 161 0)"
  let ?s = "\<lparr>nv_exists = True, nv_num = None, nv_str = Some [0x41], nv_time = 0\<rparr>"
  have h: "b_hal ?b = Some (vl_hal_esp32 nvs_ref)" "b_cfg ?b = Some (demo_cfg 0)"
    "blob_store (vl_hal_esp32 nvs_ref) = Some (esp_blob_store nvs_ref)"
    "keys (demo_cfg 0) = Some [\<lparr>pk_key_id = 1, pk_key = replicate 32 9\<rparr>]"
    by (simp_all add: bridge_new_def vl_hal_esp32_def demo_cfg_def)
  obtain s1 where "esp_blob_store nvs_ref [] ?s = (VL_OK, s1)"
    by (simp add: esp_blob_store_def nvs_begin_def nvs_ref_def vl_sizes)
  then obtain b1 where c: "bridge_clear ?b ?s = (VL_OK, b1, s1)" by (simp add: bridge_clear_def h Let_def)
  from esp_clear_leaves_entry [OF esp_ref.esp_nvs_axioms _ h(1,2,4) _ c, of yes_check] show ?thesis using c by auto
qed

end
