(* ===== verification/VL_Applications.thy ===== *)
theory VL_Applications
  imports VL_Persistence
begin

text \<open>
  The two applications end to end: the device id the customer reads off, the licence an object of the
  bridge stands by, the inbox between two tasks, and the gate of the bare-metal example.
\<close>

section \<open>The device id\<close>

lemma device_id_text:
  assumes "length fp = 32" and "length dv = VL_DEVICE_ID_STR_BUF_LEN"
  shows "vl_encode_device_id (Some fp) (Some dv) (length dv) = (VL_OK, Some (b32_text (take 16 fp) @ [0]))"
    and "length (b32_text (take 16 fp)) = 26" and "cstr (b32_text (take 16 fp) @ [0]) = b32_text (take 16 fp)"
    and "b32_text (take 16 fp) \<noteq> [] \<and> (b32_text (take 16 fp) @ [0]) ! 0 \<noteq> 0"
proof -
  let ?t = "b32_text (take 16 fp)"
  have t: "length ?t = 26" "canon ?t"
    using b32_text_spec [of "take 16 fp"] assms(1) by (simp_all add: VL_BASE32_CHARS_def)
  show "length ?t = 26" by fact
  have nz: "0 \<notin> set ?t" using canon_cstr' [OF t(2)] by (auto simp: cstr_def dest: set_takeWhileD)
  show "cstr (?t @ [0]) = ?t" by (rule cstr_text)
  show "?t \<noteq> [] \<and> (?t @ [0]) ! 0 \<noteq> 0"
    using t(1) nz by (cases ?t) auto
  show "vl_encode_device_id (Some fp) (Some dv) (length dv) = (VL_OK, Some (?t @ [0]))"
    using vl_base32_encode_text [of 16 fp 27 dv] assms
    by (simp add: vl_encode_device_id_def vl_sizes VL_BASE32_CHARS_def)
qed

text \<open>C32. The device id names the device to the vendor: on a device whose segments answer, an object
  that has no id yet computes the 26 characters of the fingerprint's first sixteen bytes, keeps them
  (later calls touch nothing), and a payload is bound to the device exactly when its sixteen device
  bytes are the ones the id spells.\<close>

theorem device_id_names_device:
  assumes "id_source rd" and hal: "b_hal b = Some h" "read_id_segment h = Some rd"
    and dv: "length (b_devid b) = VL_DEVICE_ID_STR_BUF_LEN" "b_devid b ! 0 = 0"
    and ids: "id_segments rd 0 s = (Inr segs, s1)" "segs \<noteq> []"
  shows "\<exists>t b'. bridge_deviceId b s = (t, b', s1) \<and> length t = 26 \<and> b_idStatus b' = VL_OK \<and>
    (\<forall>s'. bridge_deviceId b' s' = (t, b', s')) \<and>
    (\<forall>bin. length bin = 100 \<longrightarrow> (bound_to bin segs \<longleftrightarrow> b32_spells t (take 16 (drop 8 bin))))"
proof -
  let ?fp = "fingerprint_of segs" and ?t = "b32_text (take 16 (fingerprint_of segs))"
  let ?b = "b\<lparr>b_idStatus := VL_OK, b_devid := ?t @ [0]\<rparr>"
  have len: "length ?fp = 32" by simp
  have fp: "vl_compute_fingerprint (Some h) (Some (replicate VL_FINGERPRINT_LEN 0)) s = (VL_OK, Some ?fp, s1)"
    using id_source.fingerprint_spec [OF assms(1) hal(2)] ids by (simp add: VL_FINGERPRINT_LEN_def)
  note t = device_id_text [OF len dv(1)]
  have "bridge_deviceId b s = (?t, ?b, s1)"
    using fp t hal dv(2) by (simp add: bridge_deviceId_def)
  moreover have "bridge_deviceId ?b s' = (?t, ?b, s')" for s'
    using t by (simp add: bridge_deviceId_def)
  moreover have "bound_to bin segs \<longleftrightarrow> b32_spells ?t (take 16 (drop 8 bin))" if "length bin = 100" for bin
  proof -
    have sp: "b32_spells ?t (take 16 ?fp)" using b32_spells_text(2) [of "take 16 ?fp"] len by (simp add: VL_BASE32_CHARS_def VL_BASE32_MAX_INPUT_def)
    then show ?thesis
      using b32_spells_unique [OF sp, of "take 16 (drop 8 bin)"] that len ids(2) by (auto simp: bound_to_def)
  qed
  ultimately show ?thesis using t(2) by (intro exI [of _ ?t] exI [of _ ?b]) simp
qed

lemma device_id_names_device_witness:
  "\<exists>t b'. bridge_deviceId demo_object (\<lambda>_. 0) = (t, b', \<lambda>_. 0) \<and> length t = 26 \<and>
    b32_spells t (take 16 (drop 8 (demo_bin [[1, 2, 3, 4, 5, 6, 7, 8]] 0 0)))"
proof -
  have o: "b_hal demo_object = Some (vl_hal_rp2040 demo_flash)"
    "read_id_segment (vl_hal_rp2040 demo_flash) = Some (rp_read_id_segment demo_flash)"
    "length (b_devid demo_object) = VL_DEVICE_ID_STR_BUF_LEN" "b_devid demo_object ! 0 = 0"
    by (simp_all add: demo_object_def bridge_new_def vl_hal_rp2040_def vl_sizes)
  have "bound_to (demo_bin [[1, 2, 3, 4, 5, 6, 7, 8]] 0 0) [[1, 2, 3, 4, 5, 6, 7, 8]]"
    by (rule demo_bin_bound) simp
  then show ?thesis
    using device_id_names_device [OF rp_id_source o demo_rp_ids [of "\<lambda>_. 0"]] length_demo_bin by blast
qed

section \<open>The licence an object stands by\<close>

lemma has_feature_bit: "vl_has_feature (Some l) n \<noteq> 0 \<longleftrightarrow> n < 32 \<and> bit (features l) n"
proof -
  have "uint (drop_bit n (features l) AND 1) \<noteq> 0 \<longleftrightarrow> bit (features l) n"
    by (simp add: and_one_eq bit_iff_odd_drop_bit odd_iff_mod_2_eq_one) (auto simp: uint_0_iff)
  then show ?thesis by (auto simp: vl_has_feature_def)
qed

text \<open>C27. What the application sees is what was admitted: in every state an object can reach, by any
  sequence of its operations with anything happening to the device in between, if \<open>ok()\<close> then there are a
  hundred bytes that \<open>vl_verify\<close> admits in some state of this device under this configuration, and the
  licence, each feature, the checks and the canonical blob the object reports are theirs; if not \<open>ok()\<close>, it
  reports no licence, no feature and no check, and its \<open>blob()\<close> is empty or the canonical text of a hundred
  bytes so admitted. The latter does occur, against the comment on \<open>blob()\<close>: the second object of the
  witness is not licensed and still gives out the blob of the licence it had, because the last
  \<open>begin()\<close> could not load the stored one.\<close>

theorem bridge_stands_by_licence:
  assumes "id_source rd" and "read_id_segment h = Some rd" and reach: "bridge_reach V c h b s"
  shows "if bridge_ok b
    then \<exists>bin s'. admits V (b32_text bin) c h s' bin \<and> bridge_blob b = b32_text bin \<and>
      bridge_license b = Some (mark_checked (checks_run c h) (parse_license bin)) \<and>
      bridge_checked b = checks_run c h \<and>
      (\<forall>n. bridge_feature b n \<longleftrightarrow> n < 32 \<and> bit (features (parse_license bin)) n)
    else bridge_license b = None \<and> (\<forall>n. \<not> bridge_feature b n) \<and> bridge_checked b = 0 \<and>
      (bridge_blob b = [] \<or> (\<exists>bin s'. admits V (b32_text bin) c h s' bin \<and> bridge_blob b = b32_text bin))"
proof -
  have inv: "bridge_inv V b" "b_cfg b = Some c" "b_hal b = Some h"
    using id_source.bridge_reach_inv [OF assms(1) reach assms(2)] by simp_all
  show ?thesis
  proof (cases "bridge_ok b")
    case True
    then obtain bin s' where "admits V (b32_text bin) c h s' bin" "bridge_blob b = b32_text bin"
      and lic: "b_lic b = mark_checked (checks_run c h) (parse_license bin)"
      using bridge_inv_ok [OF inv(1)] inv(2,3) by (auto simp: bridge_ok_def in_force_def)
    moreover have "checked (b_lic b) = checks_run c h" "features (b_lic b) = features (parse_license bin)"
      by (simp_all add: lic mark_checked_def parse_license_def zero_license_def)
    ultimately show ?thesis
      using True by (auto simp: bridge_license_def bridge_checked_def bridge_feature_def has_feature_bit)
  next
    case False
    moreover have "bridge_blob b = [] \<or> (\<exists>bin s'. admits V (b32_text bin) c h s' bin \<and> bridge_blob b = b32_text bin)"
      using inv by (auto simp: bridge_inv_def in_force_def)
    ultimately show ?thesis by (simp add: bridge_license_def bridge_checked_def bridge_feature_def)
  qed
qed

text \<open>An erased flash page holds no blob, so \<open>begin\<close> on it changes the status and nothing else.\<close>

lemma begin_on_erased_page:
  assumes "b_hal b = Some (vl_hal_rp2040 demo_flash)"
  shows "bridge_begin V b (\<lambda>_. 0xFF) = (VL_ERR_NOT_FOUND, b\<lparr>b_status := VL_ERR_NOT_FOUND\<rparr>, \<lambda>_. 0xFF)"
proof -
  have "xip_bytes demo_flash (\<lambda>_. 0xFF) VL_RP_RECORD_SIZE = replicate VL_RP_RECORD_SIZE 0xFF"
    by (simp add: xip_bytes_def demo_flash_def map_replicate_const)
  then have "rp_blob_len (record_read demo_flash (\<lambda>_. 0xFF)) = 0"
    by (simp add: record_read_def rp_decode_def rd_le32_def rp_zero_def VL_RP_RECORD_SIZE_def VL_RP_MAGIC_def vl_sizes)
  then show ?thesis
    using assms by (simp add: bridge_begin_def vl_hal_rp2040_def rp_blob_load_def vl_sizes)
qed

lemma bridge_stands_by_licence_witness:
  "\<exists>b b' :: (nat \<Rightarrow> u8) bridge. bridge_ok b \<and> (\<forall>n. bridge_feature b n \<longleftrightarrow> n < 32 \<and> bit (5 :: u32) n) \<and>
    \<not> bridge_ok b' \<and> (\<forall>n. \<not> bridge_feature b' n) \<and> bridge_blob b' = demo_text [[1, 2, 3, 4, 5, 6, 7, 8]] 0 0 \<and>
    bridge_begin yes_check b (\<lambda>_. 0xFF) = (VL_ERR_NOT_FOUND, b', \<lambda>_. 0xFF)"
proof -
  let ?bin = "demo_bin [[1, 2, 3, 4, 5, 6, 7, 8]] 0 0" and ?h = "vl_hal_rp2040 demo_flash"
  let ?b = "accepted (demo_cfg 0) ?h ?bin demo_object"
  let ?b' = "?b\<lparr>b_status := VL_ERR_NOT_FOUND\<rparr>"
  obtain s1 where "bridge_activate yes_check (Some (demo_text [[1, 2, 3, 4, 5, 6, 7, 8]] 0 0)) demo_object (\<lambda>_. 0) = (VL_OK, ?b, s1)"
    using demo_object_activates by blast
  then have r: "bridge_reach yes_check (demo_cfg 0) ?h ?b s1"
    by (intro reach_step [OF demo_object_reach] step_activate)
  have "b_hal ?b = Some ?h" by (simp add: accepted_def demo_object_def bridge_new_def)
  from begin_on_erased_page [OF this] have load: "bridge_begin yes_check ?b (\<lambda>_. 0xFF) = (VL_ERR_NOT_FOUND, ?b', \<lambda>_. 0xFF)" .
  have r': "bridge_reach yes_check (demo_cfg 0) ?h ?b' (\<lambda>_. 0xFF)"
    by (rule reach_step [OF reach_step [OF r step_world] step_begin [OF load]])
  have ok: "bridge_ok ?b" "\<not> bridge_ok ?b'"
    and lic: "bridge_license ?b = Some (mark_checked (checks_run (demo_cfg 0) ?h) (parse_license ?bin))"
    by (simp_all add: accepted_def bridge_ok_def bridge_license_def)
  have rd: "read_id_segment ?h = Some (rp_read_id_segment demo_flash)" by (simp add: vl_hal_rp2040_def)
  note stands = bridge_stands_by_licence [OF rp_id_source rd]
  obtain bin where bin: "bridge_license ?b = Some (mark_checked (checks_run (demo_cfg 0) ?h) (parse_license bin))"
      "\<forall>n. bridge_feature ?b n \<longleftrightarrow> n < 32 \<and> bit (features (parse_license bin)) n"
    using stands [OF r] ok by auto
  have "features (parse_license bin) = features (parse_license ?bin)"
    using bin(1) lic by (auto simp: mark_checked_def dest: arg_cong [where f = features])
  then have f: "\<forall>n. bridge_feature ?b n \<longleftrightarrow> n < 32 \<and> bit (5 :: u32) n" using bin(2) by (simp add: demo_bin_fields)
  have "bridge_blob ?b' = demo_text [[1, 2, 3, 4, 5, 6, 7, 8]] 0 0"
    using cstr_text [of ?bin "[]"] by (simp add: accepted_def bridge_blob_def demo_text_def)
  then show ?thesis using stands [OF r'] ok f load by (intro exI [of _ ?b] exI [of _ ?b']) auto
qed

section \<open>The inbox\<close>

text \<open>C31. Nothing submitted is lost, doubled, torn or reordered: in every interleaving of one task that
  submits and one that pumps, what has reached \<open>activate\<close> is what was submitted with success, in order,
  but for at most one blob that is still waiting, and when the flag is clear nothing waits.\<close>

theorem inbox_exactly_once:
  assumes "inbox_reach i"
  shows "\<exists>waiting. taken i = given i @ waiting \<and> length waiting \<le> 1 \<and> (\<not> in_flag i \<longrightarrow> waiting = [])"
  using inbox_reach_inv [OF assms] by (auto simp: inbox_inv_def split: if_splits)

lemma inbox_exactly_once_witness:
  "\<exists>i. inbox_reach i \<and> in_flag i \<and> taken i = [[0x41]] \<and> (\<exists>waiting. taken i = given i @ waiting \<and> length waiting \<le> 1)"
proof -
  let ?i1 = "inbox_start\<lparr>in_w := W_checked [0x41]\<rparr>"
  have 1: "inbox_reach ?i1"
    by (rule inbox_next [OF inbox_init w_check]) (simp_all add: inbox_start_def VL_BRIDGE_BLOB_MAX_def)
  let ?i2 = "?i1\<lparr>in_w := W_copied [0x41], in_pending := (overlay (in_pending ?i1) 0 [0x41])[length [0x41 :: u8] := 0]\<rparr>"
  have 2: "inbox_reach ?i2" by (rule inbox_next [OF 1 w_copy]) simp
  let ?i3 = "?i2\<lparr>in_w := W_idle, in_flag := True, taken := taken ?i2 @ [[0x41]]\<rparr>"
  have 3: "inbox_reach ?i3" by (rule inbox_next [OF 2 w_publish]) simp
  show ?thesis using 3 inbox_exactly_once [OF 3] by (intro exI [of _ ?i3]) (auto simp: inbox_start_def)
qed

section \<open>The gate\<close>

text \<open>C28. The gate opens only for a licence: in every state the bare-metal example can reach, by start-up,
  received bytes and anything happening on the board, if it is licensed then some string was admitted
  for this board under the compiled-in configuration, the licence held has the fields of the bytes it
  spells, each feature is allowed exactly by its bit, and expiry is reported as not enforced; if it is
  not licensed, no feature is allowed.\<close>

theorem gate_opens_for_licence:
  assumes "gate_reach V d g s"
  shows "if gate_licensed g
    then \<exists>b bin s'. admits V b GATE_CFG (BOARD_HAL d) s' bin \<and>
      g_license g = mark_checked (VL_CHECKED_SIGNATURE OR VL_CHECKED_DEVICE) (parse_license bin) \<and>
      (\<forall>n. gate_allows g n \<longleftrightarrow> n < 32 \<and> bit (features (parse_license bin)) n) \<and> \<not> gate_expiry_enforced g
    else (\<forall>n. \<not> gate_allows g n) \<and> \<not> gate_expiry_enforced g"
proof (cases "gate_licensed g")
  case True
  have st: "g_status g = VL_OK" using True by (simp add: gate_licensed_def)
  then obtain b bin s' where "admits V b GATE_CFG (BOARD_HAL d) s' bin"
    and lic: "g_license g = mark_checked (VL_CHECKED_SIGNATURE OR VL_CHECKED_DEVICE) (parse_license bin)"
    using gate_reach_inv [OF assms] by (auto simp: gate_inv_def opened_def)
  moreover have "\<not> gate_expiry_enforced g"
    by (simp add: gate_expiry_enforced_def lic mark_checked_def parse_license_def zero_license_def vl_bits_defs)
  moreover have "features (g_license g) = features (parse_license bin)" by (simp add: lic mark_checked_def)
  ultimately show ?thesis using True st by (auto simp: gate_allows_def has_feature_bit)
next
  case False
  then show ?thesis by (simp add: gate_licensed_def gate_allows_def gate_expiry_enforced_def)
qed

text \<open>C29. A licence typed into the UART opens the gate: with no partial line pending, the characters of
  any spelling that this board admits, with blanks anywhere, are consumed in silence, and the line end
  that follows verifies them, saves exactly the typed characters, prints \<open>licensed\<close> and leaves the gate
  open for exactly the features of the licence, ready for the next line.\<close>

theorem gate_uart_activates:
  assumes idle: "line_holds (g_rx g) []" and t: "\<forall>c \<in> set us. \<not> is_term c" "is_term nl"
    and w: "filter (\<lambda>c. \<not> is_blank c) us = w" "length w \<le> VL_LINE_MAX_LEN" "0 \<notin> set w"
    and a: "admits V w GATE_CFG (BOARD_HAL d) s bin"
  shows "\<exists>g'. gate_feed V d (us @ [nl]) g s =
      (replicate (length us) 0 @ [1], g', board_print d ''licensed'' (board_save_blob d w s)) \<and>
    gate_licensed g' \<and> line_holds (g_rx g') [] \<and>
    (\<forall>n. gate_allows g' n \<longleftrightarrow> n < 32 \<and> bit (features (parse_license bin)) n)"
proof -
  have rd: "read_id_segment (BOARD_HAL d) = Some (board_read_id_segment d)" by (simp add: BOARD_HAL_def)
  have bin: "b32_spells w bin" "length bin = 100" using a by (simp_all add: admits_def)
  have "w \<noteq> []" using bin by (auto simp: b32_spells_def b32_sig_def cstr_def VL_BASE32_CHARS_def)
  from gate_feed_line [OF idle t(1), of V d s] obtain l1 where l1:
    "gate_feed V d us g s = (replicate (length us) 0, g\<lparr>g_rx := l1\<rparr>, s)" "line_holds l1 w"
    using w(1) by auto
  let ?g = "g\<lparr>g_rx := l1\<rparr>"
  obtain st lic s1 where v: "vl_verify_with V (Some w) (Some GATE_CFG) (Some (BOARD_HAL d)) (Some (g_license ?g)) s = (st, lic, s1)"
    by (metis surj_pair)
  have st: "st = VL_OK" using board_id.vl_verify_spec(1) [OF v rd] a by blast
  have lic: "lic = Some (mark_checked (VL_CHECKED_SIGNATURE OR VL_CHECKED_DEVICE) (parse_license bin))"
    using board_id.vl_verify_spec(2) [OF v rd st a] by (simp add: gate_checks)
  have h: "line_holds (g_rx ?g) w" using l1(2) by simp
  from gate_rx_term [OF h t(2) \<open>w \<noteq> []\<close> w(2,3) bin v] obtain l2 where l2:
    "gate_uart_rx V d nl ?g s = (1, ?g\<lparr>g_status := VL_OK, g_license := the lic, g_rx := l2\<rparr>,
       board_print d ''licensed'' (board_save_blob d w s))" "line_holds l2 []"
    using st by auto
  have "features (the lic) = features (parse_license bin)" by (simp add: lic mark_checked_def)
  then show ?thesis
    using l1(1) l2 by (simp add: gate_feed_append gate_licensed_def gate_allows_def has_feature_bit)
qed

lemma canon_char:
  assumes "canon t" and "c \<in> set t"
  shows "\<not> is_term c \<and> \<not> is_blank c \<and> c \<noteq> 0"
proof -
  have "0 \<le> b32_val c" using assms b32_val_alpha_ge_0 by (auto simp: canon_def)
  then show ?thesis by (auto simp: is_term_def is_blank_def b32_val_def)
qed

lemma demo_board_text:
  "length (demo_text board_segs 0 9) = 160" "canon (demo_text board_segs 0 9)"
  using text_160 [of "demo_bin board_segs 0 9"] b32_text_spec [of "demo_bin board_segs 0 9"]
  by (simp_all add: demo_text_def)

lemma gate_uart_activates_witness:
  "\<exists>g'. gate_feed yes_check demo_board (demo_text board_segs 0 9 @ [0x0A]) gate_start ([], []) =
      (replicate 160 0 @ [1], g', (demo_text board_segs 0 9, [''licensed''])) \<and>
    gate_licensed g' \<and> (\<forall>n. gate_allows g' n \<longleftrightarrow> n < 32 \<and> bit (5 :: u32) n)"
proof -
  let ?t = "demo_text board_segs 0 9"
  have idle: "line_holds (g_rx gate_start) []"
    by (simp add: line_holds_def gate_start_def line_inv_def VL_LINE_MAX_LEN_def)
  have c: "\<not> is_term c \<and> \<not> is_blank c \<and> c \<noteq> 0" if "c \<in> set ?t" for c
    using canon_char [OF demo_board_text(2) that] .
  have t: "\<forall>c \<in> set ?t. \<not> is_term c" "0 \<notin> set ?t" "filter (\<lambda>c. \<not> is_blank c) ?t = ?t"
    using c by (auto simp: filter_id_conv)
  have nl: "is_term 0x0A" and len: "length ?t \<le> VL_LINE_MAX_LEN"
    using demo_board_text(1) by (simp_all add: is_term_def VL_LINE_MAX_LEN_def)
  from gate_uart_activates [OF idle t(1) nl t(3) len t(2) demo_board_admits [of 9 "([], [])"]]
  obtain g' where "gate_feed yes_check demo_board (?t @ [0x0A]) gate_start ([], []) =
      (replicate (length ?t) 0 @ [1], g', board_print demo_board ''licensed'' (board_save_blob demo_board ?t ([], [])))"
    "gate_licensed g'" "\<forall>n. gate_allows g' n \<longleftrightarrow> n < 32 \<and> bit (features (parse_license (demo_bin board_segs 0 9))) n"
    by blast
  moreover have "board_print demo_board ''licensed'' (board_save_blob demo_board ?t ([], [])) = (?t, [''licensed''])"
    by (simp add: demo_board_def)
  ultimately show ?thesis using demo_board_text(1) by (intro exI [of _ g']) (simp add: demo_bin_fields)
qed

lemma gate_opens_for_licence_witness:
  "\<exists>g s. gate_reach yes_check demo_board g s \<and> gate_licensed g \<and>
    (\<exists>bin. \<forall>n. gate_allows g n \<longleftrightarrow> n < 32 \<and> bit (features (parse_license bin)) n)"
proof -
  let ?t = "demo_text board_segs 0 9" and ?s = "(demo_text board_segs 0 9, [])"
  let ?buf = "overlay (replicate VL_BLOB_STR_BUF_LEN 0) 0 ?t"
  have load: "board_load_blob demo_board (replicate VL_BLOB_STR_BUF_LEN 0) ?s = (True, ?buf, ?s)"
    using demo_board_text(1) by (auto simp: demo_board_def)
  have buf: "?buf = ?t @ 0 # []" using demo_board_text(1) by (simp add: overlay_def vl_sizes)
  obtain st lic s1 where v: "vl_verify_with yes_check (Some ?buf) (Some GATE_CFG) (Some (BOARD_HAL demo_board))
      (Some (g_license gate_start)) ?s = (st, lic, s1)" by (metis surj_pair)
  have "b32_spells ?buf (demo_bin board_segs 0 9)"
    using text_spells [of "demo_bin board_segs 0 9"] unfolding buf by (simp add: demo_text_def)
  then have "admits yes_check ?buf GATE_CFG (BOARD_HAL demo_board) ?s (demo_bin board_segs 0 9)"
    using demo_board_admits [of 9 ?s] by (simp add: admits_def)
  moreover have rd: "read_id_segment (BOARD_HAL demo_board) = Some (board_read_id_segment demo_board)"
    by (simp add: BOARD_HAL_def)
  ultimately have "st = VL_OK" using board_id.vl_verify_spec(1) [OF v rd] by blast
  then obtain g s2 where i: "gate_init yes_check demo_board gate_start ?s = (g, s2)" and g: "gate_licensed g"
    using load v by (auto simp: gate_init_def gate_licensed_def)
  have "gate_reach yes_check demo_board g s2" by (rule gate_next [OF gate_begin gate_boot [OF i]])
  moreover from gate_opens_for_licence [OF this] g
  have "\<exists>bin. \<forall>n. gate_allows g n \<longleftrightarrow> n < 32 \<and> bit (features (parse_license bin)) n" unfolding if_P [OF g] by blast
  ultimately show ?thesis using g by blast
qed

end
