(* ===== verification/VL_Device.thy ===== *)
theory VL_Device
  imports VL_Sketch VL_Applications
begin

text \<open>
  The front ends and the sketch end to end: a licence pasted into the console, a licence saved in the
  portal, and the updates a device in the field accepts.
\<close>

section \<open>The front ends only use the object\<close>

lemma submit_reach:
  "bridge_reach V c h b s \<Longrightarrow> bridge_submit p n b = (r, b') \<Longrightarrow> bridge_reach V c h b' s"
  by (erule reach_step) (erule step_submit)

lemma deviceId_reach:
  "bridge_reach V c h b s \<Longrightarrow> bridge_deviceId b s = (t, b', s') \<Longrightarrow> bridge_reach V c h b' s'"
  by (erule reach_step) (erule step_id)

lemma pump_reach:
  "bridge_reach V c h b s \<Longrightarrow> bridge_pump V b s = (r, b', s') \<Longrightarrow> bridge_reach V c h b' s'"
  by (erule reach_step) (erule step_pump)

lemma world_reach: "bridge_reach V c h b s \<Longrightarrow> bridge_reach V c h b s'"
  by (erule reach_step) (rule step_world)

lemma status_reach:
  "bridge_reach V c h b s \<Longrightarrow> licenseSerialStatus b s = (l, b', s') \<Longrightarrow> bridge_reach V c h b' s'"
  by (auto simp: licenseSerialStatus_def Let_def split: prod.splits option.splits intro: deviceId_reach)

lemma command_reach:
  "bridge_reach V c h b s \<Longrightarrow> licenseSerialCommand b cmd s = (r, l, b', s') \<Longrightarrow> bridge_reach V c h b' s'"
  by (auto simp: licenseSerialCommand_def Let_def split: prod.splits if_splits
      intro: deviceId_reach status_reach submit_reach)

lemma serial_loop_reach:
  "bridge_reach V c h b s \<Longrightarrow> licenseSerialLoop V b s = (l, b', s') \<Longrightarrow> bridge_reach V c h b' s'"
  by (auto simp: licenseSerialLoop_def split: prod.splits if_splits intro: pump_reach status_reach)

lemma portal_attach_reach:
  "bridge_reach V c h b s \<Longrightarrow> portal_attach p b vn s = (vn', b', s') \<Longrightarrow> bridge_reach V c h b' s'"
  by (auto simp: portal_attach_def split: prod.splits intro: deviceId_reach)

lemma portal_loop_reach:
  "bridge_reach V c h b s \<Longrightarrow> portal_loop p vn b = (r, p', b') \<Longrightarrow> bridge_reach V c h b' s"
  by (auto simp: portal_loop_def Let_def split: prod.splits if_splits intro: submit_reach)

lemma repaint_reach:
  "bridge_reach V c h b s \<Longrightarrow> dash_repaint d b s = (d', b', s') \<Longrightarrow> bridge_reach V c h b' s'"
  by (auto simp: dash_repaint_def Let_def split: prod.splits intro: deviceId_reach)

lemma dash_attach_reach:
  assumes "bridge_reach V c h b s" and "dash_attach d b s = (cs, d', b', s')"
  shows "bridge_reach V c h b' s'"
proof -
  obtain t b1 s1 where i: "bridge_deviceId b s = (t, b1, s1)" by (metis surj_pair)
  have "bridge_reach V c h b1 s1" by (rule deviceId_reach [OF assms(1) i])
  then show ?thesis using assms(2) by (auto simp: dash_attach_def i Let_def split: prod.splits intro: repaint_reach)
qed

lemma dash_loop_reach:
  "bridge_reach V c h b s \<Longrightarrow> dash_loop d b s = (d', b', s') \<Longrightarrow> bridge_reach V c h b' s'"
  by (auto simp: dash_loop_def split: if_splits intro: repaint_reach)

lemma dash_onChange_reach: "bridge_reach V c h b s \<Longrightarrow> bridge_reach V c h (dash_onChange t b) s"
  by (cases "bridge_submit (Some (c_str t)) (length t) b") (auto simp: dash_onChange_def intro: submit_reach)

lemmas front_reach = status_reach command_reach serial_loop_reach portal_attach_reach portal_loop_reach
  dash_attach_reach dash_loop_reach dash_onChange_reach pump_reach deviceId_reach

section \<open>The object of a running sketch\<close>

abbreviation sketch_object :: "sigcheck \<Rightarrow> 's arduino \<Rightarrow> 's bridge \<Rightarrow> 's \<Rightarrow> bool" where
  "sketch_object V d b s \<equiv> bridge_reach V SK_CFG (vl_hal_esp32 (bd_idf d)) b s"

lemma setup_license_reach:
  assumes "setup_license V d s = (b', s')"
  shows "sketch_object V d b' s'"
proof -
  let ?b = "bridge_new (Some SK_CFG) (Some (vl_hal_esp32 (bd_idf d)))
    (replicate VL_DEVICE_ID_STR_BUF_LEN 0) (replicate VL_BLOB_STR_BUF_LEN 0)"
  let ?b1 = "bridge_onResult (Some (onActivation d)) ?b"
  have "sketch_object V d ?b (setup_nvs d s)" by (rule reach_new) simp_all
  then have b1: "sketch_object V d ?b1 (setup_nvs d s)" by (rule reach_step) (rule step_onResult)
  obtain st b2 s2 where beg: "bridge_begin V ?b1 (setup_nvs d s) = (st, b2, s2)" by (metis surj_pair)
  have b2: "sketch_object V d b2 s2" by (rule reach_step [OF b1]) (rule step_begin [OF beg])
  define s3 where "s3 = serial_write d (ln (ln [] @ str_bytes vl_version_str)) s2"
  obtain t b3 s4 where i: "bridge_deviceId b2 s3 = (t, b3, s4)" by (metis surj_pair)
  have "sketch_object V d b3 s4" by (rule deviceId_reach [OF world_reach [OF b2] i])
  then have "sketch_object V d b3 s'" by (rule world_reach)
  moreover have "b' = b3" using assms by (simp add: setup_license_def beg i Let_def flip: s3_def)
  ultimately show ?thesis by simp
qed

lemma sketch_setup_reach:
  "sketch_object V d (sk_lic (sketch_setup V lib d vn ota s)) (sk_plat (sketch_setup V lib d vn ota s))"
proof -
  obtain b s1 where l: "setup_license V d s = (b, s1)" by fastforce
  obtain vn2 b2 s2 where n: "(if have_net lib then portal_attach (portal_new (str_bytes ''vl'')) b vn s1 else (vn, b, s1)) = (vn2, b2, s2)"
    by (metis surj_pair)
  obtain cs c b3 s3 where c: "(if have_dash lib then dash_attach (dashboard_new []) b2 s2 else ([], dashboard_new [], b2, s2)) = (cs, c, b3, s3)"
    by (metis surj_pair)
  have "sketch_object V d b s1" by (rule setup_license_reach [OF l])
  then have "sketch_object V d b2 s2" using n by (auto split: if_splits intro: portal_attach_reach)
  then have "sketch_object V d b3 s3" using c by (auto split: if_splits intro: dash_attach_reach)
  then show ?thesis unfolding sketch_setup_def l Let_def prod.case n c by simp
qed

lemma loop_portal_reach:
  "sketch_object V d (sk_lic k) (sk_plat k) \<Longrightarrow> sketch_object V d (sk_lic (loop_portal lib k)) (sk_plat (loop_portal lib k))"
  by (auto simp: loop_portal_def split: prod.splits intro: front_reach)

lemma loop_card_reach:
  "sketch_object V d (sk_lic k) (sk_plat k) \<Longrightarrow> sketch_object V d (sk_lic (loop_card lib k)) (sk_plat (loop_card lib k))"
  by (auto simp: loop_card_def split: prod.splits intro: front_reach)

lemma loop_serial_reach:
  "sketch_object V d (sk_lic k) (sk_plat k) \<Longrightarrow>
   sketch_object V d (sk_lic (loop_serial V lib k)) (sk_plat (loop_serial V lib k))"
  by (auto simp: loop_serial_def split: prod.splits intro: front_reach)

text \<open>What one pass leaves of the object is what the parts before the update gate leave.\<close>

lemma loop_parts:
  obtains k' where "sketch_loop V lib k = loop_ota lib k'" and "sk_ota k' = sk_ota k"
    and "sketch_object V d (sk_lic k) (sk_plat k) \<Longrightarrow> sketch_object V d (sk_lic k') (sk_plat k')"
proof -
  obtain did b s where p: "bridge_pump V (sk_lic k) (sk_plat k) = (did, b, s)" by (metis surj_pair)
  let ?k = "loop_serial V lib (loop_card lib (loop_portal lib (k\<lparr>sk_lic := b, sk_plat := s\<rparr>)))"
  have "sketch_loop V lib k = loop_ota lib ?k" by (simp add: sketch_loop_def p)
  moreover have "sk_ota ?k = sk_ota k"
    by (simp add: loop_serial_def loop_card_def loop_portal_def split: prod.split)
  moreover have "sketch_object V d (sk_lic ?k) (sk_plat ?k)" if "sketch_object V d (sk_lic k) (sk_plat k)"
    using pump_reach [OF that p] by (intro loop_serial_reach loop_card_reach loop_portal_reach) simp
  ultimately show ?thesis using that by blast
qed

lemma loop_ota_object [simp]: "sk_lic (loop_ota lib k) = sk_lic k" "sk_plat (loop_ota lib k) = sk_plat k"
  by (simp_all add: loop_ota_def)

lemma sketch_step_reach:
  "sketch_step V lib k k' \<Longrightarrow> sketch_object V d (sk_lic k) (sk_plat k) \<Longrightarrow> sketch_object V d (sk_lic k') (sk_plat k')"
proof (induction rule: sketch_step.induct)
  case (sk_pass k)
  then show ?case by (metis loop_parts loop_ota_object)
next
  case (sk_message k cmd)
  then show ?case by (auto simp: sketch_onMessage_def split: prod.splits intro: front_reach)
next
  case (sk_paste k payload)
  then show ?case by (auto intro: front_reach)
next
  case (sk_save k vn)
  then show ?case by simp
next
  case (sk_other k s ota)
  then show ?case by (auto intro: world_reach)
qed

lemma sketch_reach_object: "sketch_reach V lib d k \<Longrightarrow> sketch_object V d (sk_lic k) (sk_plat k)"
  by (induction rule: sketch_reach.induct) (auto intro: sketch_setup_reach sketch_step_reach)

lemma esp_reads [simp]: "read_id_segment (vl_hal_esp32 d) = Some (esp_read_id_segment d)"
  "now_epoch (vl_hal_esp32 d) = Some (esp_now_epoch d)" "blob_store (vl_hal_esp32 d) = Some (esp_blob_store d)"
  by (simp_all add: vl_hal_esp32_def)

lemma sketch_object_licence:
  assumes "sketch_object V d b s" and "bridge_ok b"
  obtains bin where "in_force V b bin"
  using id_source.bridge_reach_inv [OF esp_id_source assms(1)] assms(2) by (auto simp: bridge_ok_def dest: bridge_inv_ok)

text \<open>
  The note on an expiry that nobody enforced is never printed: this platform layer always has a
  clock callback, so a licence in force has had its dates checked.
\<close>

lemma sketch_expiry_note_dead:
  assumes "sketch_object V d b s" and "bridge_license b = Some l"
  shows "checked l AND VL_CHECKED_TIME \<noteq> 0"
proof -
  have ok: "bridge_ok b" and l: "l = b_lic b" using assms(2) by (simp_all add: bridge_license_def split: if_splits)
  have inv: "bridge_inv V b \<and> b_cfg b = Some SK_CFG \<and> b_hal b = Some (vl_hal_esp32 (bd_idf d))"
    by (rule id_source.bridge_reach_inv [OF esp_id_source assms(1)]) simp
  then obtain bin where "b_lic b = mark_checked (checks_run SK_CFG (vl_hal_esp32 (bd_idf d))) (parse_license bin)"
    using ok by (auto simp: bridge_ok_def in_force_def dest!: bridge_inv_ok)
  then have "checked l = checks_run SK_CFG (vl_hal_esp32 (bd_idf d))" by (simp add: l mark_checked_def)
  then show ?thesis
    by (simp add: checks_run_def denied_def SK_CFG_def VL_CHECKED_TIME_def VL_CHECKED_SIGNATURE_def VL_CHECKED_DEVICE_def)
qed

text \<open>
  A licence that verifies but cannot be written is in force until the next restart, and the callback
  reports it as refused.
\<close>

lemma unstored_reported_refused:
  assumes b: "b_cfg b = Some c" "b_hal b = Some h" "read_id_segment h = Some rd" "id_source rd"
      "length (b_blob b) = VL_BLOB_STR_BUF_LEN"
    and q: "b_pending_flag b" "b_onResult b = Some (onActivation d)" and a: "admits V (b_pending b) c h s bin"
    and h: "blob_store h = Some store" "\<And>t. fst (store (b32_text bin) t) \<noteq> VL_OK"
  shows "\<exists>b' s'. bridge_pump V b s = (True, b',
      serial_write d (ln (str_bytes ''licence refused: '' @ str_bytes (vl_status_str (status_code VL_ERR_PLATFORM)))) s') \<and>
    bridge_ok b'"
proof -
  obtain st lic s1 where v: "vl_verify_with V (Some (b_pending b)) (Some c) (Some h) (Some zero_license) s = (st, lic, s1)"
    by (metis surj_pair)
  have ok: "st = VL_OK" using id_source.vl_verify_spec(1) [OF b(4) v b(3)] a by blast
  obtain st2 s2 where s2: "store (b32_text bin) s1 = (st2, s2)" by fastforce
  have "st2 \<noteq> VL_OK" using h(2) [of s1] s2 by simp
  then have "bridge_apply V (Some (b_pending b)) True b s = (VL_ERR_PLATFORM, accepted c h bin b, s2)"
    using id_source.bridge_apply_spec(2) [OF b(4,1,2,3,5) v ok a, of True] h(1) s2 by simp
  then show ?thesis using q by (auto simp: bridge_pump_def bridge_activate_def accepted_def bridge_ok_def onActivation_def intro: exI [of _ s2])
qed

section \<open>Updates\<close>

lemma gate_ota_in_force:
  fixes fb :: int and gateFirmware :: bool and ota :: vecti_ota
  assumes "id_source rd" and "read_id_segment h = Some rd" and "bridge_reach V c h b s"
  defines "ota' \<equiv> licenseGateOta b fb gateFirmware ota"
  shows "ota_filesystem ota' = ota_pull ota'"
    and "ota_firmware ota' = (if gateFirmware then ota_pull ota' else ota_firmware ota)"
    and "ota_pull ota' \<longleftrightarrow> bridge_ok b \<and> (\<exists>bin. in_force V b bin \<and>
      (0 \<le> fb \<longrightarrow> nat fb < 32 \<and> bit (features (parse_license bin)) (nat fb)))"
proof -
  show "ota_filesystem ota' = ota_pull ota'"
    and "ota_firmware ota' = (if gateFirmware then ota_pull ota' else ota_firmware ota)"
    by (simp_all add: ota'_def licenseGateOta_def Let_def)
  have p: "ota_pull ota' \<longleftrightarrow> bridge_ok b \<and> (0 \<le> fb \<longrightarrow> bridge_feature b (nat fb))"
    by (auto simp: ota'_def licenseGateOta_def Let_def)
  have f: "bridge_feature b n \<longleftrightarrow> bridge_ok b \<and> n < 32 \<and> bit (features (parse_license bin)) n" if "in_force V b bin" for bin n
    using that by (auto simp: in_force_def bridge_feature_def has_feature_bit mark_checked_def)
  have "bridge_inv V b" using id_source.bridge_reach_inv [OF assms(1,3,2)] by simp
  then have "bridge_ok b \<Longrightarrow> \<exists>bin. in_force V b bin" by (simp add: bridge_ok_def bridge_inv_ok)
  then show "ota_pull ota' \<longleftrightarrow> bridge_ok b \<and> (\<exists>bin. in_force V b bin \<and>
      (0 \<le> fb \<longrightarrow> nat fb < 32 \<and> bit (features (parse_license bin)) (nat fb)))"
    unfolding p using f by blast
qed

text \<open>C37. Updates follow the licence: in every state that a device running the sketch can reach, by any
  sequence of loop passes, console commands, dashboard pastes and saved forms with the board moving
  between them, a pass of the loop leaves filesystem and pull updates allowed exactly when a licence
  that was admitted on this board is in force and carries the update feature, and it never touches the
  push updates that a unit is recovered with.\<close>

theorem sketch_updates_follow_licence:
  assumes "sketch_reach V lib d k" and "have_ota lib"
  defines "k' \<equiv> sketch_loop V lib k"
  shows "ota_firmware (sk_ota k') = ota_firmware (sk_ota k) \<and>
    ota_filesystem (sk_ota k') = ota_pull (sk_ota k') \<and>
    (ota_pull (sk_ota k') \<longleftrightarrow> bridge_ok (sk_lic k') \<and>
      (\<exists>bin. in_force V (sk_lic k') bin \<and> bit (features (parse_license bin)) FEATURE_OTA))"
proof -
  obtain k1 where k1: "k' = loop_ota lib k1" "sk_ota k1 = sk_ota k"
    and r: "sketch_object V d (sk_lic k) (sk_plat k) \<Longrightarrow> sketch_object V d (sk_lic k1) (sk_plat k1)"
    unfolding k'_def using loop_parts [of V lib k d] by blast
  have "sketch_object V d (sk_lic k1) (sk_plat k1)" by (rule r [OF sketch_reach_object [OF assms(1)]])
  from gate_ota_in_force [OF esp_id_source esp_reads(1) this, of "int FEATURE_OTA" False "sk_ota k"]
  show ?thesis using k1 assms(2) by (simp add: loop_ota_def FEATURE_OTA_def)
qed

definition esp_board :: "nvs_state arduino" where
  "esp_board = \<lparr>bd_idf = nvs_ref, serial_write = (\<lambda>t s. s), nvs_flash_init = (\<lambda>s. (ESP_OK, s)), nvs_flash_erase = (\<lambda>s. (ESP_OK, s))\<rparr>"

definition all_installed :: installed where
  "all_installed = \<lparr>have_net = True, have_dash = True, have_serial = True, have_ota = True\<rparr>"

definition no_check :: sigcheck where "no_check sig m n pk = 0"

text \<open>A device that was never activated, with all three update switches open when the pass starts.\<close>

definition fresh_sketch :: "nvs_state sketch" where
  "fresh_sketch = sketch_setup no_check all_installed esp_board \<lparr>vn_params = [], vn_saved = (\<lambda>_. [])\<rparr>
     \<lparr>ota_firmware = True, ota_filesystem = True, ota_pull = True\<rparr>
     \<lparr>nv_exists = False, nv_num = None, nv_str = None, nv_time = 0\<rparr>"

lemma sketch_updates_follow_licence_witness:
  "sk_ota (sketch_loop no_check all_installed fresh_sketch) =
    \<lparr>ota_firmware = True, ota_filesystem = False, ota_pull = False\<rparr>"
proof -
  let ?V = no_check
  have r: "sketch_reach ?V all_installed esp_board fresh_sketch"
    unfolding fresh_sketch_def by (rule sk_start)
  have "\<not> in_force ?V b bin" for b :: "nvs_state bridge" and bin
    by (simp add: in_force_def admits_def signed_by_def no_check_def)
  moreover have "ota_firmware (sk_ota fresh_sketch)"
    by (simp add: fresh_sketch_def sketch_setup_def split_beta Let_def)
  moreover have "have_ota all_installed" by (simp add: all_installed_def)
  ultimately show ?thesis using sketch_updates_follow_licence [OF r] by simp
qed

section \<open>Pasting into the console\<close>

lemma in_force_frame:
  "in_force V b bin \<Longrightarrow> b_cfg b' = b_cfg b \<Longrightarrow> b_hal b' = b_hal b \<Longrightarrow> b_lic b' = b_lic b \<Longrightarrow> b_blob b' = b_blob b \<Longrightarrow>
   in_force V b' bin"
  by (simp add: in_force_def bridge_blob_def)

lemma pump_decides:
  assumes src: "id_source rd" "read_id_segment h = Some rd" and b: "b_cfg b = Some c" "b_hal b = Some h"
    and inv: "bridge_inv V b" and flag: "b_pending_flag b" and run: "bridge_pump V b s = (r, b', s')"
  shows "r \<and> \<not> b_pending_flag b' \<and> (bridge_ok b' \<longleftrightarrow> (\<exists>bin. admits V (b_pending b) c h s bin)) \<and>
    (\<forall>bin. admits V (b_pending b) c h s bin \<longrightarrow> in_force V b' bin)"
proof -
  obtain st b1 s1 where a: "bridge_apply V (Some (b_pending b)) True b s = (st, b1, s1)" by (metis surj_pair)
  have r: "r" "b' = b1\<lparr>b_pending := replicate VL_BRIDGE_BLOB_MAX 0, b_pending_flag := False\<rparr>"
    using run flag a by (auto simp: bridge_pump_def bridge_activate_def Let_def)
  have "bridge_ok b1 \<longleftrightarrow> (\<exists>bin. admits V (b_pending b) c h s bin)"
    using id_source.bridge_apply_inv [OF src(1) b src(2) inv a] by (simp add: bridge_ok_def)
  moreover have "in_force V b1 bin" if ad: "admits V (b_pending b) c h s bin" for bin
  proof -
    obtain st0 lic s0 where v: "vl_verify_with V (Some (b_pending b)) (Some c) (Some h) (Some zero_license) s = (st0, lic, s0)"
      by (metis surj_pair)
    have ok: "st0 = VL_OK" using id_source.vl_verify_spec(1) [OF src(1) v src(2)] ad by blast
    have "length (b_blob b) = VL_BLOB_STR_BUF_LEN" using inv by (simp add: bridge_inv_def)
    from id_source.bridge_apply_spec(2) [OF src(1) b src(2) this v ok ad, of True] a
    have "b1 = accepted c h bin b" by (auto split: option.splits prod.splits)
    then show ?thesis using id_source.accepted_in_force [OF src(1) b ad] by simp
  qed
  moreover have "in_force V b' bin" if "in_force V b1 bin" for bin by (rule in_force_frame [OF that]) (simp_all add: r)
  ultimately show ?thesis using r by (simp add: bridge_ok_def)
qed

lemma deviceId_flag: "bridge_deviceId b s = (t, b', s') \<Longrightarrow> b_pending_flag b' = b_pending_flag b"
  by (auto simp: bridge_deviceId_def Let_def split: prod.splits if_splits)

lemma status_frame:
  assumes "id_source rd" and "read_id_segment h = Some rd" and "b_hal b = Some h" and "bridge_inv V b"
    and "licenseSerialStatus b s = (l, b', s')"
  shows "b_cfg b' = b_cfg b \<and> b_hal b' = b_hal b \<and> b_status b' = b_status b \<and> b_lic b' = b_lic b \<and> b_blob b' = b_blob b \<and>
    b_pending_flag b' = b_pending_flag b"
proof -
  obtain t s1 where d: "bridge_deviceId b s = (t, b', s1)"
    using assms(5) by (auto simp: licenseSerialStatus_def Let_def split: prod.splits option.splits)
  have "length (b_devid b) = VL_DEVICE_ID_STR_BUF_LEN" using assms(4) by (simp add: bridge_inv_def)
  from id_source.bridge_deviceId_frame [OF assms(1,3,2) this d] show ?thesis
    using deviceId_flag [OF d] by simp
qed

lemma cstr_nul_free: "0 \<notin> set t \<Longrightarrow> cstr t = t"
  by (induction t) (auto simp: cstr_def)

lemma admits_cstr: "cstr t = cstr u \<Longrightarrow> admits V t c h s bin \<longleftrightarrow> admits V u c h s bin"
  by (simp add: admits_def b32_spells_def)

text \<open>C38. A licence typed into the console takes effect on the next pass: with an empty inbox, the command
  \<^verbatim>\<open>license\<close> followed by anything but its three keywords, of at most 223 bytes, is queued and
  acknowledged, and the next pass of the console's loop, whatever the board did meanwhile, empties the
  inbox and leaves the licence in force exactly when the text is one that \<open>vl_verify\<close> admits there;
  otherwise the one line printed is the reason of the refusal.\<close>

theorem console_paste_takes_effect:
  assumes "id_source rd" and "read_id_segment h = Some rd" and b: "bridge_reach V c h b s" and "\<not> b_pending_flag b"
    and cmd: "str_trim cmd = str_bytes ''license'' @ w" "str_trim w = t"
    and t: "t \<notin> {[], str_bytes ''status'', str_bytes ''id'', str_bytes ''help''}" "length t < VL_BRIDGE_BLOB_MAX" "0 \<notin> set t"
  shows "\<exists>b1. licenseSerialCommand b cmd s = (True, [(L_info, str_bytes ''license: queued, verifying on the next loop()'')], b1, s) \<and>
    (\<forall>s1 l b2 s2. licenseSerialLoop V b1 s1 = (l, b2, s2) \<longrightarrow>
      \<not> b_pending_flag b2 \<and>
      (if \<exists>bin. admits V t c h s1 bin
       then bridge_ok b2 \<and> (\<forall>bin. admits V t c h s1 bin \<longrightarrow> in_force V b2 bin)
       else \<not> bridge_ok b2 \<and>
         l = [(L_err, str_bytes ''license: rejected '' @ dash @ str_bytes '' '' @ str_bytes (vl_status_str (status_code (b_status b2))))]))"
proof -
  have inv: "bridge_inv V b" and c: "b_cfg b = Some c" and h: "b_hal b = Some h"
    using id_source.bridge_reach_inv [OF assms(1) b assms(2)] by simp_all
  define p where "p = (overlay (b_pending b) 0 t)[length t := 0]"
  define b1 where "b1 = b\<lparr>b_pending := p, b_pending_flag := True\<rparr>"
  have p: "cstr p = t" "length p = VL_BRIDGE_BLOB_MAX"
    using cstr_copied [of t "b_pending b"] t inv by (simp_all add: p_def bridge_inv_def overlay_def)
  have sub: "bridge_submit (Some (c_str t)) (length t) b = (True, b1)"
    using t assms(4) by (simp add: bridge_submit_def c_str_def b1_def p_def)
  have "bridge_reach V c h b1 s" by (rule submit_reach [OF b sub])
  have st: "starts_with (str_trim cmd) (str_bytes ''license'')" "str_trim (drop 7 (str_trim cmd)) = t"
    using cmd by (simp_all add: starts_with_def)
  have q: "licenseSerialCommand b cmd s = (True, [(L_info, str_bytes ''license: queued, verifying on the next loop()'')], b1, s)"
    unfolding licenseSerialCommand_def Let_def st(2) sub using st(1) t(1) by simp
  have eff: "\<not> b_pending_flag b2 \<and>
      (if \<exists>bin. admits V t c h s1 bin
       then bridge_ok b2 \<and> (\<forall>bin. admits V t c h s1 bin \<longrightarrow> in_force V b2 bin)
       else \<not> bridge_ok b2 \<and>
         l = [(L_err, str_bytes ''license: rejected '' @ dash @ str_bytes '' '' @ str_bytes (vl_status_str (status_code (b_status b2))))])"
    if run: "licenseSerialLoop V b1 s1 = (l, b2, s2)" for s1 l b2 s2
  proof -
    have pend: "b_pending b1 = p" "b_pending_flag b1" "b_cfg b1 = Some c" "b_hal b1 = Some h"
      by (simp_all add: b1_def c h)
    have inv1: "bridge_inv V b1" using id_source.bridge_reach_inv [OF assms(1) \<open>bridge_reach V c h b1 s\<close> assms(2)] by simp
    have adm: "admits V p c h s1 bin \<longleftrightarrow> admits V t c h s1 bin" for bin
      by (rule admits_cstr) (simp add: p(1) cstr_nul_free [OF t(3)])
    obtain r b' s' where pump: "bridge_pump V b1 s1 = (r, b', s')" by (metis surj_pair)
    note d = pump_decides [OF assms(1,2) pend(3,4) inv1 pend(2) pump, unfolded pend(1) adm]
    show ?thesis
    proof (cases "bridge_ok b'")
      case False
      then show ?thesis using run d by (auto simp: licenseSerialLoop_def pump)
    next
      case True
      have r: "bridge_reach V c h b' s'" by (rule pump_reach [OF world_reach [OF \<open>bridge_reach V c h b1 s\<close>] pump])
      have st: "licenseSerialStatus b' s' = (l, b2, s2)" using run d True by (simp add: licenseSerialLoop_def pump)
      have "bridge_inv V b' \<and> b_cfg b' = Some c \<and> b_hal b' = Some h" by (rule id_source.bridge_reach_inv [OF assms(1) r assms(2)])
      then have f: "b_cfg b2 = b_cfg b' \<and> b_hal b2 = b_hal b' \<and> b_status b2 = b_status b' \<and> b_lic b2 = b_lic b' \<and>
          b_blob b2 = b_blob b' \<and> b_pending_flag b2 = b_pending_flag b'"
        using status_frame [OF assms(1,2) _ _ st] by blast
      then show ?thesis using d True in_force_frame [of V b' _ b2] by (auto simp: bridge_ok_def)
    qed
  qed
  show ?thesis using q eff by blast
qed

lemma str_trim_id: "t \<noteq> [] \<Longrightarrow> \<not> is_space (hd t) \<Longrightarrow> \<not> is_space (last t) \<Longrightarrow> str_trim t = t"
  by (simp add: str_trim_def dropWhile_eq_self_iff [THEN iffD2] hd_rev)

lemma str_trim_space: "is_space c \<Longrightarrow> str_trim (c # t) = str_trim t"
  by (simp add: str_trim_def)

lemma canon_no_space: "canon t \<Longrightarrow> c \<in> set t \<Longrightarrow> \<not> is_space c \<and> c \<noteq> 0"
proof -
  have "list_all (\<lambda>c. \<not> is_space c \<and> c \<noteq> 0) ENC_ALPHA" by code_simp
  then show "canon t \<Longrightarrow> c \<in> set t \<Longrightarrow> \<not> is_space c \<and> c \<noteq> 0" by (auto simp: canon_def list_all_iff)
qed

lemma console_paste_takes_effect_witness:
  "\<exists>b1 :: (nat \<Rightarrow> u8) bridge. \<exists>l b2 s2.
     licenseSerialCommand demo_object (str_bytes ''license '' @ demo_text [[1, 2, 3, 4, 5, 6, 7, 8]] 0 0) (\<lambda>_. 0) =
       (True, [(L_info, str_bytes ''license: queued, verifying on the next loop()'')], b1, \<lambda>_. 0) \<and>
     licenseSerialLoop yes_check b1 (\<lambda>_. 0) = (l, b2, s2) \<and> bridge_ok b2 \<and>
     in_force yes_check b2 (demo_bin [[1, 2, 3, 4, 5, 6, 7, 8]] 0 0)"
proof -
  let ?t = "demo_text [[1, 2, 3, 4, 5, 6, 7, 8]] 0 0" and ?h = "vl_hal_rp2040 demo_flash"
  let ?cmd = "str_bytes ''license '' @ ?t"
  have len: "length ?t = 160" by (simp add: demo_text_def text_160)
  have can: "canon ?t" by (simp add: demo_text_def b32_text_spec)
  have ne: "?t \<noteq> []" using len by auto
  have sp: "\<not> is_space (hd ?t)" "\<not> is_space (last ?t)"
    using canon_no_space [OF can] ne by (auto simp del: last_in_set intro: last_in_set)
  have c: "str_trim ?cmd = str_bytes ''license'' @ (0x20 # ?t)"
    using ne sp(2) by (subst str_trim_id) (simp_all add: str_bytes_def is_space_def)
  have w: "str_trim (0x20 # ?t) = ?t"
    using str_trim_space [of "0x20" ?t] str_trim_id [OF ne sp] by (simp add: is_space_def)
  have t: "?t \<notin> {[], str_bytes ''status'', str_bytes ''id'', str_bytes ''help''}" "length ?t < VL_BRIDGE_BLOB_MAX" "0 \<notin> set ?t"
    using len canon_no_space [OF can, of 0] by (auto simp: VL_BRIDGE_BLOB_MAX_def dest: arg_cong [where f = length])
  have rd: "read_id_segment ?h = Some (rp_read_id_segment demo_flash)" by (simp add: vl_hal_rp2040_def)
  have f: "\<not> b_pending_flag demo_object" by (simp add: demo_object_def bridge_new_def)
  from console_paste_takes_effect [OF rp_id_source rd demo_object_reach f c w t] obtain b1
    where q: "licenseSerialCommand demo_object ?cmd (\<lambda>_. 0) =
        (True, [(L_info, str_bytes ''license: queued, verifying on the next loop()'')], b1, \<lambda>_. 0)"
      and e: "\<And>s1 l b2 s2. licenseSerialLoop yes_check b1 s1 = (l, b2, s2) \<Longrightarrow>
        (if \<exists>bin. admits yes_check ?t (demo_cfg 0) ?h s1 bin
         then bridge_ok b2 \<and> (\<forall>bin. admits yes_check ?t (demo_cfg 0) ?h s1 bin \<longrightarrow> in_force yes_check b2 bin)
         else \<not> bridge_ok b2 \<and>
           l = [(L_err, str_bytes ''license: rejected '' @ dash @ str_bytes '' '' @ str_bytes (vl_status_str (status_code (b_status b2))))])"
    by blast
  obtain l b2 s2 where run: "licenseSerialLoop yes_check b1 (\<lambda>_. 0) = (l, b2, s2)" by (metis surj_pair)
  have a: "admits yes_check ?t (demo_cfg 0) ?h (\<lambda>_. 0) (demo_bin [[1, 2, 3, 4, 5, 6, 7, 8]] 0 0)" by (rule demo_rp_admits)
  then have ex: "\<exists>bin. admits yes_check ?t (demo_cfg 0) ?h (\<lambda>_. 0) bin" by blast
  have "bridge_ok b2 \<and> (\<forall>bin. admits yes_check ?t (demo_cfg 0) ?h (\<lambda>_. 0) bin \<longrightarrow> in_force yes_check b2 bin)"
    using e [OF run] unfolding if_P [OF ex] .
  then show ?thesis using q run a by blast
qed

section \<open>Saving in the portal\<close>

text \<open>C39. A licence saved in the portal while another paste waits is lost: the pass that notices it
  reports that nothing was picked up and leaves the object as it was, but remembers the text as handled,
  so no later pass, whatever the object and the form then are, hands over that text while it is the one
  saved.\<close>

theorem portal_paste_dropped:
  assumes "b_pending_flag b" and "vn_saved vn (po_prefix p @ str_bytes ''_key'') = v" and "v \<noteq> []" and "v \<noteq> po_last p"
  shows "\<exists>p'. portal_loop p vn b = (False, p', b) \<and>
    (\<forall>vn' b'. vn_saved vn' (po_prefix p' @ str_bytes ''_key'') = v \<longrightarrow> portal_loop p' vn' b' = (False, p', b'))"
  using assms by (auto simp: portal_loop_def bridge_submit_def Let_def)

lemma portal_paste_dropped_witness:
  "\<exists>p'. portal_loop (portal_new (str_bytes ''vl'')) \<lparr>vn_params = [], vn_saved = (\<lambda>_. [0x41])\<rparr>
      (demo_object\<lparr>b_pending_flag := True\<rparr>) = (False, p', demo_object\<lparr>b_pending_flag := True\<rparr>) \<and>
    portal_loop p' \<lparr>vn_params = [], vn_saved = (\<lambda>_. [0x41])\<rparr> demo_object = (False, p', demo_object)"
proof -
  let ?vn = "\<lparr>vn_params = [], vn_saved = (\<lambda>_. [0x41])\<rparr>" and ?p = "portal_new (str_bytes ''vl'')"
  have "b_pending_flag (demo_object\<lparr>b_pending_flag := True\<rparr>)" "vn_saved ?vn (po_prefix ?p @ str_bytes ''_key'') = [0x41]"
    "[0x41 :: u8] \<noteq> []" "[0x41] \<noteq> po_last ?p" by (simp_all add: portal_new_def)
  from portal_paste_dropped [OF this] obtain p' where "portal_loop ?p ?vn (demo_object\<lparr>b_pending_flag := True\<rparr>) =
      (False, p', demo_object\<lparr>b_pending_flag := True\<rparr>)"
    and l: "\<And>vn' (b' :: (nat \<Rightarrow> u8) bridge). vn_saved vn' (po_prefix p' @ str_bytes ''_key'') = [0x41] \<Longrightarrow> portal_loop p' vn' b' = (False, p', b')"
    by blast
  then show ?thesis using l [of ?vn demo_object] by auto
qed

end
