(* ===== verification/VL_Effects.thy ===== *)
theory VL_Effects
  imports VL_Verify
begin

text \<open>
  What a check may do to a platform: a condition on the platform state that every callback of
  a HAL keeps is kept by the fingerprint and by the whole verification.
\<close>

section \<open>What every callback keeps, verification keeps\<close>

definition keeps :: "'s vl_hal \<Rightarrow> ('s \<Rightarrow> bool) \<Rightarrow> bool" where
  "keeps hal I \<longleftrightarrow>
     (\<forall>rd i b s. read_id_segment hal = Some rd \<longrightarrow> I s \<longrightarrow> I (snd (snd (snd (rd i b s))))) \<and>
     (\<forall>clk s. now_epoch hal = Some clk \<longrightarrow> I s \<longrightarrow> I (snd (snd (clk s)))) \<and>
     (\<forall>load s. hwm_load hal = Some load \<longrightarrow> I s \<longrightarrow> I (snd (snd (load s)))) \<and>
     (\<forall>store v s. hwm_store hal = Some store \<longrightarrow> I s \<longrightarrow> I (snd (store v s)))"

lemma keeps_dest:
  assumes "keeps hal I" and "I s"
  shows "read_id_segment hal = Some rd \<Longrightarrow> rd i b s = (st, c, n, s') \<Longrightarrow> I s'"
    and "now_epoch hal = Some clk \<Longrightarrow> clk s = (st, t, s') \<Longrightarrow> I s'"
    and "hwm_load hal = Some load \<Longrightarrow> load s = (st, m, s') \<Longrightarrow> I s'"
    and "hwm_store hal = Some store \<Longrightarrow> store v s = (st, s') \<Longrightarrow> I s'"
  using assms unfolding keeps_def by (metis snd_conv)+

lemma verify_time_keeps:
  assumes k: "keeps hal I" and "I s" and v: "verify_time fl hal lic s = (st, lic', s')"
  shows "I s'"
proof -
  have hwm: "I t'" if "verify_hwm hal now l t = (st, l', t')" "I t" for now l t st l' t'
    using that by (auto simp: verify_hwm_def split: option.splits prod.splits if_splits dest: keeps_dest(3,4) [OF k])
  show ?thesis
  proof (cases "now_epoch hal")
    case None
    then show ?thesis using v assms(2) by (auto simp: verify_time_def split: if_splits)
  next
    case (Some clk)
    obtain cs now s1 where c: "clk s = (cs, now, s1)" by (cases "clk s")
    have "I s1" by (rule keeps_dest(2) [OF k assms(2) Some c])
    then show ?thesis using v by (auto simp: verify_time_def Some c Let_def split: if_splits dest: hwm)
  qed
qed

context id_source
begin

lemma id_segments_keep:
  assumes "keeps hal I" and "read_id_segment hal = Some rd"
  shows "id_segments rd idx s = (r, s') \<Longrightarrow> I s \<Longrightarrow> I s'"
proof (induction "VL_ID_SEGMENT_COUNT_MAX - idx" arbitrary: idx s r s')
  case 0
  then show ?case by (simp add: id_segments.simps [of rd idx s])
next
  case (Suc k)
  obtain st b n s1 where r: "rd (word_of_nat idx) (replicate VL_ID_SEGMENT_MAX 0) s = (st, b, n, s1)"
    by (cases "rd (word_of_nat idx) (replicate VL_ID_SEGMENT_MAX 0) s")
  have k: "k = VL_ID_SEGMENT_COUNT_MAX - (idx + 1)" "idx < VL_ID_SEGMENT_COUNT_MAX" using Suc.hyps(2) by simp_all
  have s1: "I s1" by (rule keeps_dest(1) [OF assms(1) Suc.prems(2) assms(2) r])
  obtain r2 s2 where i: "id_segments rd (idx + 1) s1 = (r2, s2)" by fastforce
  have "I s2" by (rule Suc.hyps(1) [OF k(1) i s1])
  then show ?case
    using Suc.prems(1) k(2) r s1 i
    by (auto simp: id_segments.simps [of rd idx s] split: if_splits sum.splits)
qed

lemma fingerprint_keeps:
  assumes "keeps hal I" and "read_id_segment hal = Some rd" and "I s"
    and "vl_compute_fingerprint (Some hal) (Some (replicate VL_FINGERPRINT_LEN 0)) s = (rc, fp, s')"
  shows "I s'"
proof -
  obtain r s1 where i: "id_segments rd 0 s = (r, s1)" by fastforce
  have "I s1" by (rule id_segments_keep [OF assms(1,2) i assms(3)])
  then show ?thesis
    using fingerprint_spec [OF assms(2), of "replicate VL_FINGERPRINT_LEN 0" s] i assms(4)
    by (auto split: sum.splits if_splits)
qed

lemma verify_signed_keeps:
  assumes "keeps hal I" and "read_id_segment hal = Some rd" and "I s" and v: "verify_signed V cfg hal bin pk s = (st, lic', s')"
  shows "I s'"
proof -
  obtain rc fp s1 where f: "vl_compute_fingerprint (Some hal) (Some (replicate VL_FINGERPRINT_LEN 0)) s = (rc, fp, s1)"
    by (metis surj_pair)
  note s1 = fingerprint_keeps [OF assms(1,2,3) f]
  show ?thesis
    using v assms(3) s1 unfolding verify_signed_def Let_def f
    by (auto split: if_splits option.splits dest: verify_time_keeps [OF assms(1) s1])
qed

lemma vl_verify_keeps:
  assumes "keeps hal I" and "read_id_segment hal = Some rd" and "I s"
    and v: "vl_verify_with V blob (Some cfg) (Some hal) out s = (st, out', s')"
  shows "I s'"
proof -
  have "I s1" if b: "verify_blob V b cfg hal ks s = (rc, lic, s1)" for b ks rc lic s1
  proof (cases rule: blob_decode_cases [of b])
    case (bad bin')
    then show ?thesis
      using b assms(3) unfolding verify_blob_def blob_decode_def [symmetric] by (auto simp: vl_sizes)
  next
    case (good bin)
    consider "s1 = s" | pk where "verify_signed V cfg hal bin pk s = (rc, lic, s1)"
      using b good unfolding verify_blob_def blob_decode_def [symmetric]
      by (auto simp: vl_sizes Let_def split: if_splits option.splits)
    then show ?thesis
    proof cases
      case 2
      show ?thesis by (rule verify_signed_keeps [OF assms(1-3) 2])
    qed (simp add: assms(3))
  qed
  then show ?thesis
    using v assms(3) unfolding vl_verify_with_def Let_def
    by (auto split: option.splits if_splits prod.splits)
qed

end

end
