(* ===== verification/VL_Activate.thy ===== *)
theory VL_Activate
  imports VL_Demo VL_Text VL_Effects
begin

text \<open>
  The command-line tool \<^verbatim>\<open>examples/posix/vl_activate.c\<close>: what it prints, the exit
  code and what it leaves on the machine, for any arguments. After it has obtained its HAL the
  program uses nothing of the platform but the callbacks, so its body \<open>activate_run\<close> is over
  any HAL; \<open>vl_activate_main\<close> is the program on a Linux machine.
\<close>

section \<open>Configuration\<close>

definition VA_VENDOR_KEYS :: "vl_pubkey list" where
  "VA_VENDOR_KEYS = [\<lparr>pk_key_id = 1, pk_key =
     [0x70, 0x7d, 0xec, 0x62, 0x84, 0xba, 0x43, 0x82] @
     [0x4f, 0x75, 0x22, 0xc2, 0x10, 0xb3, 0x6b, 0x13] @
     [0x15, 0x2b, 0xfe, 0x56, 0xdb, 0xf7, 0xbc, 0xad] @
     [0x1d, 0xf0, 0xc9, 0x7a, 0xf6, 0xc8, 0x0d, 0xe9]\<rparr>]"

definition VA_CFG :: vl_config where
  "VA_CFG = \<lparr>keys = Some VA_VENDOR_KEYS, cfg_family = 1, revoked_serials = Some [], flags = 0\<rparr>"

section \<open>Printing\<close>

datatype printed = Stdout bytes | Stderr bytes

definition say :: "bytes \<Rightarrow> printed list" where
  "say t = [Stdout (ln t)]"

definition print_device_id :: "'s vl_hal \<Rightarrow> 's \<Rightarrow> printed list \<times> 's" where
  "print_device_id hal s =
     (case vl_compute_fingerprint (Some hal) (Some (replicate VL_FINGERPRINT_LEN 0)) s of (st, fp, s1) \<Rightarrow>
        if st \<noteq> VL_OK
        then (say (str_bytes ''device id: unavailable ('' @ str_bytes (vl_status_str (status_code st)) @ str_bytes '')''), s1)
        else (case vl_encode_device_id fp (Some (replicate VL_DEVICE_ID_STR_BUF_LEN 0)) VL_DEVICE_ID_STR_BUF_LEN of
            (st2, idbuf) \<Rightarrow>
              if st2 \<noteq> VL_OK then (say (str_bytes ''device id: unavailable''), s1)
              else (say (str_bytes ''device id: '' @ cstr (the idbuf)) @
                    say (str_bytes ''           send those 26 characters to your vendor''), s1)))"

definition mark_char :: "vl_license \<Rightarrow> u32 \<Rightarrow> bytes" where
  "mark_char lic k = str_bytes (if checked lic AND k \<noteq> 0 then ''+'' else ''-'')"

definition print_licence :: "vl_license \<Rightarrow> printed list" where
  "print_licence lic =
     say (str_bytes ''  serial      '' @ dec32 (serial lic)) @
     say (str_bytes ''  key id      '' @ dec8 (key_id lic)) @
     [Stdout (str_bytes ''  features    0x'' @ hex8 (features lic) @ str_bytes ''  ['')] @
     (if vl_has_feature (Some lic) 0 \<noteq> 0 then [Stdout (str_bytes '' base'')] else []) @
     (if vl_has_feature (Some lic) 1 \<noteq> 0 then [Stdout (str_bytes '' analytics'')] else []) @
     (if vl_has_feature (Some lic) 2 \<noteq> 0 then [Stdout (str_bytes '' export'')] else []) @
     (if vl_has_feature (Some lic) 3 \<noteq> 0 then [Stdout (str_bytes '' multiuser'')] else []) @
     say (str_bytes '' ]'') @
     say (str_bytes ''  not before  '' @ dec32 (not_before lic)) @
     (if not_after lic \<noteq> 0 then say (str_bytes ''  not after   '' @ dec32 (not_after lic))
      else say (str_bytes ''  not after   never (perpetual)'')) @
     say (str_bytes ''  checked     signature'' @ mark_char lic VL_CHECKED_SIGNATURE @
          str_bytes '' device'' @ mark_char lic VL_CHECKED_DEVICE @
          str_bytes '' time'' @ mark_char lic VL_CHECKED_TIME @
          str_bytes '' revocation'' @ mark_char lic VL_CHECKED_REVOCATION @
          str_bytes '' rollback'' @ mark_char lic VL_CHECKED_HWM) @
     (if checked lic AND VL_CHECKED_TIME = 0 \<and> not_after lic \<noteq> 0
      then say (str_bytes ''  NOTE: this licence has an expiry that was NOT enforced.'') else [])"

definition state_name :: "vl_posture_state \<Rightarrow> bytes" where
  "state_name p = (case p of VL_POSTURE_UNKNOWN \<Rightarrow> str_bytes ''unknown'' | VL_POSTURE_OFF \<Rightarrow> str_bytes ''off''
     | VL_POSTURE_ON \<Rightarrow> str_bytes ''on'')"

text \<open>The posture variable is uninitialised before the call, which sets it on every path.\<close>

definition print_posture :: "'s vl_hal \<Rightarrow> 's \<Rightarrow> printed list \<times> 's" where
  "print_posture hal s =
     (case vl_posture (Some hal) (Some \<lparr>secure_boot = VL_POSTURE_UNKNOWN, flash_encryption = VL_POSTURE_UNKNOWN\<rparr>) s of
        (_, p, s1) \<Rightarrow>
          (say (str_bytes ''platform: secure boot '' @ state_name (secure_boot (the p)) @
                str_bytes '', flash encryption '' @ state_name (flash_encryption (the p))) @
           (if secure_boot (the p) \<noteq> VL_POSTURE_ON
            then [Stdout (ln (str_bytes ''          without a verified boot chain a licence check is a'') @
                          ln (str_bytes ''          speed bump, not a boundary '' @ dash @ str_bytes '' see docs/THREAT_MODEL.md''))]
            else []), s1))"

section \<open>The program\<close>

text \<open>
  The blob to check: the argument, or the stored one; \<open>True\<close> marks the latter. An argument is a
  C string, so the pointer comparison \<^verbatim>\<open>blob != stored\<close> is that mark.
\<close>

definition choose_blob :: "'s vl_hal \<Rightarrow> bytes list \<Rightarrow> bool \<Rightarrow> 's \<Rightarrow> (bytes \<times> bool) option \<times> 's" where
  "choose_blob hal argv quiet s =
     (if length argv > 1 \<and> \<not> quiet then (Some (argv ! 1, False), s)
      else (case blob_load hal of
          None \<Rightarrow> (None, s)
        | Some load \<Rightarrow>
            (case load (replicate VL_BLOB_STR_BUF_LEN 0) s of (st, buf, n, s1) \<Rightarrow>
               if st = VL_OK then (Some (buf, True), s1) else (None, s1))))"

definition activate_intro :: "'s vl_hal \<Rightarrow> bool \<Rightarrow> 's \<Rightarrow> printed list \<times> 's" where
  "activate_intro hal quiet s =
     (if quiet then ([], s)
      else (case print_device_id hal s of (od, s1) \<Rightarrow>
        (case print_posture hal s1 of (ps, s2) \<Rightarrow>
           ([Stdout (ln (str_bytes vl_version_str) @ ln [])] @ od @ ps @ say [], s2))))"

definition activate_store :: "'s vl_hal \<Rightarrow> bytes \<Rightarrow> bool \<Rightarrow> 's \<Rightarrow> printed list \<times> 's" where
  "activate_store hal b from_store s =
     (case blob_store hal of
        None \<Rightarrow> ([], s)
      | Some store \<Rightarrow>
          if from_store then ([], s)
          else (case store (cstr b) s of (st, s1) \<Rightarrow>
            (if st = VL_OK then say (str_bytes ''  stored, this device will not ask again'')
             else say (str_bytes ''  WARNING: verified but could not be stored''), s1)))"

definition activate_check :: "sigcheck \<Rightarrow> 's vl_hal \<Rightarrow> bytes \<Rightarrow> bool \<Rightarrow> 's \<Rightarrow> int \<times> printed list \<times> 's" where
  "activate_check V hal b from_store s =
     (case vl_verify_with V (Some b) (Some VA_CFG) (Some hal) (Some zero_license) s of (st, lic, s1) \<Rightarrow>
        if st \<noteq> VL_OK
        then (1, say (str_bytes ''REFUSED: '' @ str_bytes (vl_status_str (status_code st))), s1)
        else (case activate_store hal b from_store s1 of (os, s2) \<Rightarrow>
          (0, say (str_bytes ''LICENSED'') @ print_licence (the lic) @ os, s2)))"

definition activate_run :: "sigcheck \<Rightarrow> 's vl_hal \<Rightarrow> bytes list \<Rightarrow> 's \<Rightarrow> int \<times> printed list \<times> 's" where
  "activate_run V hal argv s =
     (let quiet = (length argv > 1 \<and> argv ! 1 = str_bytes ''--status'');
          (o1, s1) = activate_intro hal quiet s;
          (blob, s2) = choose_blob hal argv quiet s1
      in case blob of
           None \<Rightarrow> (1, o1 @ say (str_bytes ''no licence stored. Run: '' @ argv ! 0 @ str_bytes '' <blob>''), s2)
         | Some (b, from_store) \<Rightarrow>
             (case activate_check V hal b from_store s2 of (code, o2, s3) \<Rightarrow> (code, o1 @ o2, s3)))"

definition vl_activate_main :: "sigcheck \<Rightarrow> bytes list \<Rightarrow> posix \<Rightarrow> int \<times> printed list \<times> posix" where
  "vl_activate_main V argv s =
     (case vl_hal_posix None (Some (str_bytes ''./vl-state'')) s of
        (None, s1) \<Rightarrow> (2, [Stderr (ln (str_bytes ''no POSIX HAL on this target''))], s1)
      | (Some hal, s1) \<Rightarrow> activate_run V hal argv s1)"

section \<open>What a run leaves\<close>

definition stored_line :: printed where
  "stored_line = Stdout (ln (str_bytes ''  stored, this device will not ask again''))"

definition unstored_line :: printed where
  "unstored_line = Stdout (ln (str_bytes ''  WARNING: verified but could not be stored''))"

lemma stored_ne_unstored: "stored_line \<noteq> unstored_line"
  by (simp add: stored_line_def unstored_line_def ln_def str_bytes_def)

lemma say_stored: "say (str_bytes ''  stored, this device will not ask again'') = [stored_line]"
  "say (str_bytes ''  WARNING: verified but could not be stored'') = [unstored_line]"
  by (simp_all add: say_def stored_line_def unstored_line_def)

text \<open>A run with a blob: the exit code is the verdict, and the last line says whether it was stored.\<close>

lemma activate_run_blob:
  assumes "activate_run V hal [prog, blob] s = (code, o1, s')" and "blob \<noteq> str_bytes ''--status''"
  obtains s2 st lic s3 where "vl_verify_with V (Some blob) (Some VA_CFG) (Some hal) (Some zero_license) s2 = (st, lic, s3)"
    and "code = (if st = VL_OK then 0 else 1)" and "snd (activate_intro hal False s) = s2"
    and "\<And>store. st = VL_OK \<Longrightarrow> blob_store hal = Some store \<Longrightarrow> last o1 = stored_line \<Longrightarrow> store (cstr blob) s3 = (VL_OK, s')"
    and "\<And>store. st = VL_OK \<Longrightarrow> blob_store hal = Some store \<Longrightarrow> fst (store (cstr blob) s3) = VL_OK \<Longrightarrow> last o1 = stored_line"
    and "\<And>store. st = VL_OK \<Longrightarrow> blob_store hal = Some store \<Longrightarrow> fst (store (cstr blob) s3) \<noteq> VL_OK \<Longrightarrow> last o1 = unstored_line"
proof -
  obtain oi s2 where i: "activate_intro hal False s = (oi, s2)" by fastforce
  obtain st lic s3 where v: "vl_verify_with V (Some blob) (Some VA_CFG) (Some hal) (Some zero_license) s2 = (st, lic, s3)"
    by (metis surj_pair)
  have r: "activate_run V hal [prog, blob] s =
      (case activate_check V hal blob False s2 of (code, o2, s3) \<Rightarrow> (code, oi @ o2, s3))"
    using assms(2) by (simp add: activate_run_def i choose_blob_def)
  have "store (cstr blob) s3 = (VL_OK, s')" if "st = VL_OK" "blob_store hal = Some store" "last o1 = stored_line" for store
    using assms(1) that stored_ne_unstored
    by (auto simp: r activate_check_def v activate_store_def say_stored split: prod.splits if_splits)
  moreover have "last o1 = stored_line" if "st = VL_OK" "blob_store hal = Some store" "fst (store (cstr blob) s3) = VL_OK" for store
    using assms(1) that by (auto simp: r activate_check_def v activate_store_def say_stored split: prod.splits if_splits)
  moreover have "last o1 = unstored_line" if "st = VL_OK" "blob_store hal = Some store" "fst (store (cstr blob) s3) \<noteq> VL_OK" for store
    using assms(1) that by (auto simp: r activate_check_def v activate_store_def say_stored split: prod.splits if_splits)
  moreover have "code = (if st = VL_OK then 0 else 1)"
    using assms(1) by (auto simp: r activate_check_def v split: prod.splits if_splits)
  ultimately show ?thesis using that [OF v] i by simp
qed

text \<open>A status run is silent about the device and checks what is stored.\<close>

lemma activate_run_status:
  assumes "blob_load hal = Some load" and "load (replicate VL_BLOB_STR_BUF_LEN 0) s = (VL_OK, buf, n, s1)"
  shows "activate_run V hal [prog, str_bytes ''--status''] s = activate_check V hal buf True s1"
  using assms by (simp add: activate_run_def activate_intro_def choose_blob_def split: prod.split)

context id_source
begin

lemma activate_intro_keeps:
  assumes "keeps hal I" and "read_id_segment hal = Some rd" and "secure_posture hal = None" and "I s"
  shows "I (snd (activate_intro hal quiet s))"
proof -
  obtain rc fp s1 where f: "vl_compute_fingerprint (Some hal) (Some (replicate VL_FINGERPRINT_LEN 0)) s = (rc, fp, s1)"
    by (metis surj_pair)
  have "I s1" by (rule fingerprint_keeps [OF assms(1,2,4) f])
  then show ?thesis
    using assms(3,4) by (auto simp: activate_intro_def print_device_id_def f print_posture_def vl_posture_def split: prod.split)
qed

end

section \<open>On a Linux machine\<close>

text \<open>The static context a run starts with.\<close>

definition tool_ctx :: "posix \<Rightarrow> posix" where
  "tool_ctx s = s\<lparr>px_iface := [], px_state := str_bytes ''./vl-state''\<rparr>"

definition tool_file :: bytes where "tool_file = str_bytes ''./vl-state.blob''"

lemma main_run: "vl_activate_main V argv s = activate_run V px_hal argv (tool_ctx s)"
  by (simp add: vl_activate_main_def vl_hal_posix_def tool_ctx_def Let_def str_bytes_def VL_POSIX_PATH_MAX_def)

lemma tool_ctx_slot:
  "px_state s = str_bytes ''./vl-state'' \<Longrightarrow> px_slot s = (case px_files s tool_file of None \<Rightarrow> [] | Some c \<Rightarrow> trim_ws c)"
  by (simp add: px_slot_def tool_file_def str_bytes_def)

definition tool_ok :: "posix \<Rightarrow> bool" where
  "tool_ok s \<longleftrightarrow> px_state s = str_bytes ''./vl-state'' \<and> (\<forall>p. px_readable s p)"

lemma tool_ok_px: "tool_ok s \<Longrightarrow> px_ok s"
  by (simp add: tool_ok_def px_ok_def px_path_ok_def VL_POSIX_PATH_MAX_def str_bytes_def)

lemma tool_ctx_ok: "\<forall>p. px_readable s p \<Longrightarrow> tool_ok (tool_ctx s)"
  by (simp add: tool_ok_def tool_ctx_def)

text \<open>A condition that looks at neither the files nor the cached interface name is kept.\<close>

lemma px_keeps_frame:
  assumes "\<And>s i. I s \<Longrightarrow> I (s\<lparr>px_iface := i\<rparr>)" and "\<And>s fs. I s \<Longrightarrow> I (s\<lparr>px_files := fs\<rparr>)"
  shows "keeps px_hal I"
proof -
  have "I (snd (snd (snd (px_read_id_segment i b s))))" if "I s" for i b s
  proof -
    obtain q s1 where q: "px_identity i s = (q, s1)" by fastforce
    then have "I s1" using that px_identity_state [OF q] assms(1) by auto
    then show ?thesis using q by (cases q) (auto simp: px_read_is_identity px_deliver_def split: prod.split)
  qed
  moreover have "snd (snd (px_now_epoch s)) = s" "snd (snd (px_hwm_load s)) = s" for s
    by (simp_all add: px_now_epoch_def px_hwm_load_def Let_def split: option.split)
  moreover have "I (snd (px_hwm_store v s))" if "I s" for v s
    using that assms(2) by (simp add: px_hwm_store_def write_file_def Let_def split: option.split)
  ultimately show ?thesis by (simp add: keeps_def px_hal_def)
qed

lemma px_keeps_tool_ok: "keeps px_hal tool_ok"
  by (rule px_keeps_frame) (simp_all add: tool_ok_def)

lemma filter_same_length: "length (filter P xs) = length xs \<Longrightarrow> x \<in> set xs \<Longrightarrow> P x"
  using length_filter_less [of x xs P] by linarith

text \<open>A string that spells a hundred bytes and is no longer than a blob has no whitespace in it.\<close>

lemma short_spelling:
  assumes "b32_spells b bin" and "length bin = 100" and "length (cstr b) \<le> VL_BLOB_STR_LEN"
  shows "length (cstr b) = 160" and "cstr b = [] \<or> \<not> is_ws (last (cstr b))"
proof -
  have l: "length (b32_sig (cstr b)) = 160" using assms(1,2) by (simp add: b32_spells_def VL_BASE32_CHARS_def)
  moreover have "length (b32_sig (cstr b)) \<le> length (cstr b)" by (simp add: b32_sig_def)
  ultimately show n: "length (cstr b) = 160" using assms(3) by (simp add: vl_sizes)
  have "length (filter (\<lambda>c. b32_val c \<noteq> -2) (cstr b)) = length (cstr b)" using l n unfolding b32_sig_def by (rule trans [OF _ sym])
  then have "c \<in> set (cstr b) \<Longrightarrow> b32_val c \<noteq> -2" for c by (rule filter_same_length)
  moreover have "is_ws c \<Longrightarrow> b32_val c = -2" for c by (auto simp: is_ws_def b32_val_def)
  ultimately show "cstr b = [] \<or> \<not> is_ws (last (cstr b))" by (metis last_in_set)
qed

lemma tool_stores:
  assumes run: "vl_activate_main V [prog, blob] s = (0, o1, s')" and "blob \<noteq> str_bytes ''--status''"
    and "\<forall>p. px_readable s p" and "last o1 = stored_line"
  obtains bin where "b32_spells blob bin" and "length bin = 100" and "length (cstr blob) = 160"
    and "px_files s' tool_file = Some (cstr blob)" and "tool_ok s'"
proof -
  have rd: "read_id_segment px_hal = Some px_read_id_segment" "secure_posture px_hal = None" "blob_store px_hal = Some px_blob_store"
    by (simp_all add: px_hal_def)
  obtain s2 st lic s3 where v: "vl_verify_with V (Some blob) (Some VA_CFG) (Some px_hal) (Some zero_license) s2 = (st, lic, s3)"
    and st: "st = VL_OK" and i: "snd (activate_intro px_hal False (tool_ctx s)) = s2"
    and store: "px_blob_store (cstr blob) s3 = (VL_OK, s')"
    using activate_run_blob [OF run [unfolded main_run] assms(2)] rd(3) assms(4) by (metis zero_neq_one)
  have "tool_ok s2" unfolding i [symmetric]
    by (rule id_source.activate_intro_keeps [OF px_id_source px_keeps_tool_ok rd(1,2) tool_ctx_ok [OF assms(3)]])
  from id_source.vl_verify_keeps [OF px_id_source px_keeps_tool_ok rd(1) this v] have s3: "tool_ok s3" .
  obtain bin where a: "admits V blob VA_CFG px_hal s2 bin" using px_id.vl_verify_spec(1) [OF v rd(1)] st by blast
  then have bin: "b32_spells blob bin" "length bin = 100" by (simp_all add: admits_def)
  have len: "length (cstr blob) \<le> VL_BLOB_STR_LEN" using store by (auto simp: px_blob_store_def split: if_splits)
  have "s' = s3\<lparr>px_files := (px_files s3)(px_state s3 @ str_bytes ''.blob'' \<mapsto> cstr blob)\<rparr>"
    using tool_ok_px [OF s3] store by (auto simp: px_blob_store_def state_path_ok split: if_splits dest: write_file_ok)
  moreover have "px_state s3 @ str_bytes ''.blob'' = tool_file"
    using s3 by (simp add: tool_ok_def tool_file_def str_bytes_def)
  ultimately have "px_files s' tool_file = Some (cstr blob)" "tool_ok s'" using s3 by (simp_all add: tool_ok_def)
  then show ?thesis using that [OF bin] short_spelling(1) [OF bin len] by blast
qed

text \<open>
  A blob typed with separators is longer than the slot takes, so it verifies and is not stored.
\<close>

lemma grouped_blob_not_stored:
  assumes run: "vl_activate_main V [prog, blob] s = (0, o1, s')" and "blob \<noteq> str_bytes ''--status''"
    and "VL_BLOB_STR_LEN < length (cstr blob)"
  shows "last o1 = unstored_line"
proof -
  have "blob_store px_hal = Some px_blob_store" by (simp add: px_hal_def)
  moreover have "fst (px_blob_store (cstr blob) t) \<noteq> VL_OK" for t
    using assms(3) by (simp add: px_blob_store_def)
  ultimately show ?thesis
    using activate_run_blob [OF run [unfolded main_run] assms(2)] by (metis zero_neq_one)
qed

section \<open>A machine that is activated\<close>

definition tool_bin :: bytes where
  "tool_bin = (demo_bin px_segs 0 0)[3 := 1]"

definition tool_blob :: bytes where
  "tool_blob = b32_text tool_bin"

definition tool_px :: "bytes \<Rightarrow> posix" where
  "tool_px iface = \<lparr>px_iface = iface, px_state = str_bytes ''./vl-state'',
     px_files = (px_files (demo_px 100))(tool_file \<mapsto> tool_blob),
     px_readable = (\<lambda>_. True), px_writable = (\<lambda>_. True), px_room = (\<lambda>_. 4096),
     px_netdir = Some [str_bytes ''eth0''], px_time = 100\<rparr>"

lemma tool_bin_facts: "length tool_bin = 100" "b32_spells tool_blob tool_bin" "cstr tool_blob = tool_blob" "length tool_blob = 160"
proof -
  show l: "length tool_bin = 100" by (simp add: tool_bin_def)
  show "b32_spells tool_blob tool_bin" using text_spells [OF l] by (simp add: tool_blob_def)
  have c: "canon tool_blob" using b32_text_spec [of tool_bin] by (simp add: tool_blob_def)
  then show "cstr tool_blob = tool_blob" by (rule canon_cstr')
  show "length tool_blob = 160" using text_160 [OF l] by (simp add: tool_blob_def)
qed

lemma tool_px_files:
  "px_files (tool_px i) (str_bytes ''/sys/class/net/eth0/address'') = Some (str_bytes ''02:00:00:00:00:01'' @ [0x0A])"
  "px_files (tool_px i) (str_bytes ''/etc/machine-id'') = Some (str_bytes ''c0ffee'' @ [0x0A])"
  "px_files (tool_px i) (str_bytes ''/proc/cpuinfo'') = None"
  "px_files (tool_px i) (str_bytes ''/sys/class/dmi/id/product_uuid'') = None"
  "px_files (tool_px i) tool_file = Some tool_blob"
  by (simp_all add: tool_px_def demo_px_def tool_file_def str_bytes_def)

lemma tool_px_fopen: "fopen_rb (tool_px i) path = px_files (tool_px i) path"
  by (simp add: fopen_rb_def) (simp add: tool_px_def)

lemma trim_newline: "t \<noteq> [] \<Longrightarrow> \<not> is_ws (last t) \<Longrightarrow> trim_ws (t @ [0x0A]) = t"
  using trim_ws_id [of t] by (simp add: is_ws_def)

lemma tool_px_mac:
  assumes "18 \<le> n"
  shows "read_iface_mac (tool_px i) (str_bytes ''eth0'') (replicate n 0) n =
    Some (str_bytes ''02:00:00:00:00:01'' @ 0x0A # replicate (n - 18) 0, 17)"
proof -
  have p: "str_bytes ''/sys/class/net/'' @ str_bytes ''eth0'' @ str_bytes ''/address'' = str_bytes ''/sys/class/net/eth0/address''"
    by (simp add: str_bytes_def)
  have t: "trim_ws (str_bytes ''02:00:00:00:00:01'' @ [0x0A]) = str_bytes ''02:00:00:00:00:01''"
    by (rule trim_newline) (simp_all add: is_ws_def str_bytes_def)
  show ?thesis
    using assms t by (simp add: read_iface_mac_def p Let_def read_text_file_spec tool_px_fopen tool_px_files del: trim_ws_simps)
qed

lemma tool_px_pick: "pick_iface (tool_px i) 64 = Some (str_bytes ''eth0'')"
proof -
  have m: "mac_is_meaningful (str_bytes ''02:00:00:00:00:01'' @ 0x0A # replicate 14 0) 17"
    by (simp add: mac_is_meaningful_def list_ex_iff) (rule bexI [of _ 1], simp_all add: str_bytes_def)
  have "pick_step (tool_px i) (str_bytes ''eth0'') ([], - 1) = (str_bytes ''eth0'', 100)"
    using tool_px_mac [of 32 i] m
    by (simp add: pick_step_def iface_skipped_def starts_def iface_score_def) (simp add: str_bytes_def)
  moreover have "px_netdir (tool_px i) = Some [str_bytes ''eth0'']" by (simp add: tool_px_def)
  ultimately show ?thesis by (simp add: pick_iface_def)
qed

lemma tool_px_ids:
  assumes "i = [] \<or> i = str_bytes ''eth0''"
  shows "id_segments px_read_id_segment 0 (tool_px i) = (Inr px_segs, tool_px (str_bytes ''eth0''))"
proof -
  let ?e = "str_bytes ''eth0''"
  have i: "(if px_iface (tool_px i) = [] then pick_iface (tool_px i) 64 else Some (px_iface (tool_px i))) = Some ?e"
  proof -
    have "px_iface (tool_px i) = i" by (simp add: tool_px_def)
    then show ?thesis using assms tool_px_pick [of i] by (auto simp: str_bytes_def)
  qed
  have u: "(tool_px i)\<lparr>px_iface := ?e\<rparr> = tool_px ?e" by (simp add: tool_px_def)
  have s0: "px_read_id_segment 0 (replicate 255 0) (tool_px i) = (VL_OK, str_bytes ''02:00:00:00:00:01'' @ replicate 238 0, 17, tool_px ?e)"
    using tool_px_mac [of 256 ?e]
    by (simp add: px_read_is_identity px_identity_def i u Let_def px_deliver_def overlay_def)
  have m: "trim_ws (str_bytes ''c0ffee'' @ [0x0A]) = str_bytes ''c0ffee''"
    by (rule trim_newline) (simp_all add: is_ws_def str_bytes_def)
  have "read_machine_id (tool_px ?e) (replicate 256 0) 256 = Some (str_bytes ''c0ffee'' @ 0x0A # replicate 249 0, 6)"
    using m by (simp add: read_machine_id_def read_text_file_spec tool_px_fopen tool_px_files del: trim_ws_simps)
  then have s1: "px_read_id_segment 1 (replicate 255 0) (tool_px ?e) = (VL_OK, str_bytes ''c0ffee'' @ replicate 249 0, 6, tool_px ?e)"
    by (simp add: px_read_is_identity px_identity_def px_deliver_def overlay_def)
  have "read_board_serial (tool_px ?e) (replicate 256 0) 256 = (replicate 256 0, 0)"
    by (simp add: read_board_serial_def tool_px_fopen tool_px_files read_text_file_def)
  then have s2: "px_read_id_segment 2 (replicate 255 0) (tool_px ?e) = (VL_OK, replicate 255 0, 0, tool_px ?e)"
    by (simp add: px_read_is_identity px_identity_def px_deliver_def overlay_def)
  have s3: "px_read_id_segment 3 (replicate 255 0) (tool_px ?e) = (VL_ERR_NO_MORE_SEGMENTS, replicate 255 0, 0, tool_px ?e)"
    by (simp add: px_read_is_identity px_identity_def)
  show ?thesis
    unfolding px_segs_def
    by (rule ids_next [of px_read_id_segment, OF s0], rule ids_next [of px_read_id_segment, OF s1],
        rule ids_next [of px_read_id_segment, OF s2], rule ids_end [of px_read_id_segment, OF s3]) simp_all
qed

lemma tool_px_admits:
  assumes "i = [] \<or> i = str_bytes ''eth0''"
  shows "admits yes_check tool_blob VA_CFG px_hal (tool_px i) tool_bin"
proof -
  let ?e = "str_bytes ''eth0''"
  have len: "length (demo_bin px_segs 0 0) = 100" by simp
  have "header_ok VA_CFG tool_bin"
    using demo_bin_header(2) [of "demo_cfg 0" px_segs 0 0]
    by (simp add: header_ok_def tool_bin_def VA_CFG_def demo_cfg_def)
  moreover have "selects (the (keys VA_CFG)) (tool_bin ! 2) (hd VA_VENDOR_KEYS)"
    by (simp flip: find_key_selects add: find_key_def VA_CFG_def VA_VENDOR_KEYS_def tool_bin_def demo_bin_header)
  moreover have "bound_to tool_bin px_segs"
    using demo_bin_bound [of px_segs 0 0] by (simp add: bound_to_def tool_bin_def px_segs_def drop_update_swap)
  moreover have "not_before (parse_license tool_bin) = 0" "not_after (parse_license tool_bin) = 0"
    using demo_bin_fields [of px_segs 0 0] by (simp_all add: parse_license_def zero_license_def tool_bin_def vl_offsets rd_le32_def)
  then have "clock_ok VA_CFG px_hal (parse_license tool_bin) (tool_px ?e)"
    by (simp add: clock_ok_def px_hal_def px_now_epoch_def VA_CFG_def in_window_def) (simp add: tool_px_def)
  moreover have "id_segments (the (read_id_segment px_hal)) 0 (tool_px i) = (Inr px_segs, tool_px ?e)"
    using tool_px_ids [OF assms] by (simp add: px_hal_def)
  moreover have "args_ok VA_CFG px_hal" by (simp add: args_ok_def VA_CFG_def VA_VENDOR_KEYS_def px_hal_def)
  moreover have "denied VA_CFG = {}" by (simp add: denied_def VA_CFG_def)
  ultimately show ?thesis
    using tool_bin_facts by (auto simp: admits_def signed_by_def yes_check_def)
qed

section \<open>Properties\<close>

text \<open>C40. An activation is remembered: after a run of the tool with a blob has ended with exit code 0
  and the line saying so, a later run with \<^verbatim>\<open>--status\<close>, on any machine state whose blob
  file is the one left, prints and returns what \<open>vl_verify\<close> says of that very blob there and then:
  code 0 with the fields of the licence if it is good, code 1 with the reason otherwise.\<close>

theorem activation_tool_remembers:
  assumes "vl_activate_main V [prog, blob] s = (0, o1, s')" and "blob \<noteq> str_bytes ''--status''"
    and "\<forall>p. px_readable s p" and "last o1 = stored_line"
    and "px_files t tool_file = px_files s' tool_file" and "\<forall>p. px_readable t p"
  shows "vl_activate_main V [prog', str_bytes ''--status''] t =
    (case vl_verify_with V (Some blob) (Some VA_CFG) (Some px_hal) (Some zero_license) (tool_ctx t) of (st, lic, t') \<Rightarrow>
       if st = VL_OK then (0, say (str_bytes ''LICENSED'') @ print_licence (the lic), t')
       else (1, say (str_bytes ''REFUSED: '' @ str_bytes (vl_status_str (status_code st))), t'))"
proof -
  obtain bin where bin: "b32_spells blob bin" "length bin = 100" and len: "length (cstr blob) = 160"
    and f: "px_files s' tool_file = Some (cstr blob)"
    using tool_stores [OF assms(1-4)] by blast
  have ok: "tool_ok (tool_ctx t)" by (rule tool_ctx_ok [OF assms(6)])
  have "px_slot (tool_ctx t) = trim_ws (cstr blob)"
    using ok assms(5) f by (simp add: tool_ctx_slot tool_ok_def) (simp add: tool_ctx_def)
  also have "\<dots> = cstr blob" using short_spelling(2) [OF bin] len by (intro trim_ws_id) (simp add: vl_sizes)
  finally have slot: "px_slot (tool_ctx t) = cstr blob" .
  obtain rest where l: "px_blob_load (replicate VL_BLOB_STR_BUF_LEN 0) (tool_ctx t) = (VL_OK, cstr blob @ 0 # rest, 160, tool_ctx t)"
    using px_blob_load_spec [OF tool_ok_px [OF ok], of "replicate VL_BLOB_STR_BUF_LEN 0"] len
    by (auto simp: slot vl_sizes split: if_splits)
  have "cstr (cstr blob @ 0 # rest) = cstr blob" by (induction blob) (auto simp: cstr_def)
  then have "b32_spells (cstr blob @ 0 # rest) bin" using bin(1) by (simp add: b32_spells_def)
  from vl_verify_respelled [OF this bin]
  have v: "vl_verify_with V (Some (cstr blob @ 0 # rest)) (Some VA_CFG) (Some px_hal) (Some zero_license) (tool_ctx t) =
    vl_verify_with V (Some blob) (Some VA_CFG) (Some px_hal) (Some zero_license) (tool_ctx t)" .
  have "blob_load px_hal = Some px_blob_load" by (simp add: px_hal_def)
  from activate_run_status [OF this l, of V prog'] show ?thesis
    by (simp add: main_run activate_check_def v activate_store_def px_hal_def [THEN arg_cong, of blob_store] split: prod.split)
qed

lemma tool_first_run:
  obtains o1 s' where "vl_activate_main yes_check [prog, tool_blob] (tool_px []) = (0, o1, s')" and "last o1 = stored_line"
proof -
  let ?e = "str_bytes ''eth0''"
  have rd: "read_id_segment px_hal = Some px_read_id_segment" "secure_posture px_hal = None" "blob_store px_hal = Some px_blob_store"
    by (simp_all add: px_hal_def)
  have ctx: "tool_ctx (tool_px []) = tool_px []" by (simp add: tool_ctx_def tool_px_def)
  have ne: "tool_blob \<noteq> str_bytes ''--status''" using tool_bin_facts(4) by (auto dest: arg_cong [where f = length])
  obtain code o1 s' where run: "vl_activate_main yes_check [prog, tool_blob] (tool_px []) = (code, o1, s')" by (metis surj_pair)
  obtain s2 st lic s3 where v: "vl_verify_with yes_check (Some tool_blob) (Some VA_CFG) (Some px_hal) (Some zero_license) s2 = (st, lic, s3)"
    and code: "code = (if st = VL_OK then 0 else 1)" and i: "snd (activate_intro px_hal False (tool_px [])) = s2"
    and last: "\<And>store. st = VL_OK \<Longrightarrow> blob_store px_hal = Some store \<Longrightarrow> fst (store (cstr tool_blob) s3) = VL_OK \<Longrightarrow> last o1 = stored_line"
    using activate_run_blob [OF run [unfolded main_run ctx] ne] by metis
  define I where "I s \<longleftrightarrow> tool_ok s \<and> px_writable s = (\<lambda>_. True) \<and> px_room s = (\<lambda>_. 4096)" for s
  have I: "keeps px_hal I" by (rule px_keeps_frame) (simp_all add: I_def tool_ok_def)
  have "s2 = tool_px ?e"
    using id_source.fingerprint_spec [OF px_id_source rd(1), of "replicate VL_FINGERPRINT_LEN 0" "tool_px []"] tool_px_ids [of "[]"] i rd(2)
    by (auto simp: activate_intro_def print_device_id_def print_posture_def vl_posture_def px_segs_def
        split: prod.splits if_splits)
  then have ok: "st = VL_OK" using px_id.vl_verify_spec(1) [OF v rd(1)] tool_px_admits [of ?e] by blast
  have "I s2" unfolding \<open>s2 = tool_px ?e\<close> by (simp add: I_def tool_ok_def tool_px_def)
  from id_source.vl_verify_keeps [OF px_id_source I rd(1) this v] have s3: "I s3" .
  have "fst (px_blob_store (cstr tool_blob) s3) = VL_OK"
    using s3 tool_ok_px [of s3] tool_bin_facts
    by (simp add: I_def px_blob_store_def state_path_ok vl_sizes write_file_def)
  from last [OF ok rd(3) this] show ?thesis using that run code ok by simp
qed

lemma activation_tool_remembers_witness:
  "\<exists>o1 s1 o2 s2. vl_activate_main yes_check [str_bytes ''vl_activate'', tool_blob] (tool_px []) = (0, o1, s1) \<and>
     vl_activate_main yes_check [str_bytes ''vl_activate'', str_bytes ''--status''] (tool_px []) = (0, o2, s2)"
proof -
  have rd: "read_id_segment px_hal = Some px_read_id_segment" by (simp add: px_hal_def)
  have ne: "tool_blob \<noteq> str_bytes ''--status''" using tool_bin_facts(4) by (auto dest: arg_cong [where f = length])
  have r: "\<forall>p. px_readable (tool_px []) p" by (simp add: tool_px_def)
  have ctx: "tool_ctx (tool_px []) = tool_px []" by (simp add: tool_ctx_def tool_px_def)
  obtain o1 s1 where run: "vl_activate_main yes_check [str_bytes ''vl_activate'', tool_blob] (tool_px []) = (0, o1, s1)"
    and last: "last o1 = stored_line" by (rule tool_first_run)
  have "px_files (tool_px []) tool_file = px_files s1 tool_file"
    using tool_stores [OF run ne r last] tool_bin_facts(3) tool_px_files(5) by metis
  note status = activation_tool_remembers [OF run ne r last this r, of "str_bytes ''vl_activate''", unfolded ctx]
  obtain st lic t where v: "vl_verify_with yes_check (Some tool_blob) (Some VA_CFG) (Some px_hal) (Some zero_license) (tool_px []) = (st, lic, t)"
    by (metis surj_pair)
  have "st = VL_OK" using px_id.vl_verify_spec(1) [OF v rd] tool_px_admits [of "[]"] by blast
  then show ?thesis using run status v by auto
qed

end
