(* ===== verification/VL_Hal_Mac.thy ===== *)
theory VL_Hal_Mac
  imports VL_Demo VL_Text
begin

text \<open>
  The macOS identity of \<^verbatim>\<open>hal/posix/vl_hal_posix.c\<close>. What the system calls
  deliver is part of the machine: the interface list of \<^verbatim>\<open>getifaddrs\<close> and the registry
  entry IOKit finds. The interface name and everything about clock and storage are the
  context the file shares with Linux, the record \<open>posix\<close>.
\<close>

section \<open>The machine\<close>

text \<open>One \<^verbatim>\<open>struct ifaddrs\<close>: its name, and the link address when the family is \<^verbatim>\<open>AF_LINK\<close>.\<close>

record ifaddr =
  if_name :: bytes
  if_link :: "bytes option"

text \<open>The property under the platform expert: no string, or a string.\<close>

datatype cf_prop = CFString bytes | CFOther

record macos =
  mc_posix :: posix
  mc_ifaddrs :: "ifaddr list option"
  mc_expert :: "cf_prop option option"

section \<open>Identity\<close>

text \<open>Six bytes as \<^verbatim>\<open>%02x\<close>, joined by colons.\<close>

definition mac_text :: "bytes \<Rightarrow> bytes" where
  "mac_text m = hex2 (m ! 0) @ concat (map (\<lambda>i. 0x3A # hex2 (m ! i)) [1..<6])"

definition iface_wanted :: "bytes option \<Rightarrow> bytes \<Rightarrow> bool" where
  "iface_wanted iface name =
     (case iface of Some n \<Rightarrow> name = n | None \<Rightarrow> starts name ''en'')"

fun mac_scan :: "bytes option \<Rightarrow> ifaddr list \<Rightarrow> bytes option" where
  "mac_scan iface [] = None"
| "mac_scan iface (p # ps) =
     (case if_link p of
        None \<Rightarrow> mac_scan iface ps
      | Some m \<Rightarrow>
          if \<not> iface_wanted iface (if_name p) then mac_scan iface ps
          else if length m \<noteq> 6 then mac_scan iface ps
          else if m ! 0 OR m ! 1 OR m ! 2 OR m ! 3 OR m ! 4 OR m ! 5 = 0 then mac_scan iface ps
          else Some (mac_text m))"

text \<open>\<open>None\<close> is the return value -1; otherwise the buffer, with the text and its NUL, and the length.\<close>

definition mac_read_iface_mac :: "bytes option \<Rightarrow> macos \<Rightarrow> bytes \<Rightarrow> nat \<Rightarrow> (bytes \<times> nat) option" where
  "mac_read_iface_mac iface s out cap =
     (if cap < 18 then None
      else case mc_ifaddrs s of
          None \<Rightarrow> None
        | Some ps \<Rightarrow>
            (case mac_scan iface ps of
               None \<Rightarrow> None
             | Some t \<Rightarrow> Some (overlay out 0 (t @ [0]), 17)))"

definition read_platform_uuid :: "macos \<Rightarrow> bytes \<Rightarrow> nat \<Rightarrow> (bytes \<times> nat) option" where
  "read_platform_uuid s out cap =
     (case mc_expert s of
        Some (Some (CFString u)) \<Rightarrow>
          if length u + 1 \<le> cap
          then (let out' = overlay out 0 (u @ [0]); n = length (cstr out')
                in if n > 0 then Some (out', n) else None)
          else None
      | _ \<Rightarrow> None)"

definition mac_deliver :: "bytes \<Rightarrow> (bytes \<times> nat) option \<Rightarrow> macos \<Rightarrow> vl_status \<times> bytes \<times> nat \<times> macos" where
  "mac_deliver out r s =
     (case r of
        None \<Rightarrow> (VL_ERR_PLATFORM, out, 0, s)
      | Some (buf, len) \<Rightarrow>
          if len > length out then (VL_ERR_BUFFER_TOO_SMALL, out, 0, s)
          else (VL_OK, overlay out 0 (take len buf), len, s))"

definition mac_read_id_segment :: "u32 \<Rightarrow> bytes \<Rightarrow> macos \<Rightarrow> vl_status \<times> bytes \<times> nat \<times> macos" where
  "mac_read_id_segment idx out s =
     (if idx = 0 then
        mac_deliver out
          (mac_read_iface_mac (if px_iface (mc_posix s) = [] then None else Some (px_iface (mc_posix s)))
             s (replicate 256 0) 256) s
      else if idx = 1 then mac_deliver out (read_platform_uuid s (replicate 256 0) 256) s
      else (VL_ERR_NO_MORE_SEGMENTS, out, 0, s))"

section \<open>The HAL\<close>

definition on_posix :: "(posix \<Rightarrow> 'a \<times> posix) \<Rightarrow> macos \<Rightarrow> 'a \<times> macos" where
  "on_posix f s = (case f (mc_posix s) of (a, p) \<Rightarrow> (a, s\<lparr>mc_posix := p\<rparr>))"

definition mac_hal :: "macos vl_hal" where
  "mac_hal =
     \<lparr>read_id_segment = Some mac_read_id_segment,
      now_epoch = Some (\<lambda>s. case px_now_epoch (mc_posix s) of (st, t, p) \<Rightarrow> (st, t, s\<lparr>mc_posix := p\<rparr>)),
      hwm_load = Some (\<lambda>s. case px_hwm_load (mc_posix s) of (st, m, p) \<Rightarrow> (st, m, s\<lparr>mc_posix := p\<rparr>)),
      hwm_store = Some (\<lambda>v. on_posix (px_hwm_store v)),
      blob_load = Some (\<lambda>out s. case px_blob_load out (mc_posix s) of (st, b, n, p) \<Rightarrow> (st, b, n, s\<lparr>mc_posix := p\<rparr>)),
      blob_store = Some (\<lambda>b. on_posix (px_blob_store b)), secure_posture = None\<rparr>"

section \<open>What the segments are\<close>

lemma length_mac_text [simp]: "length (mac_text m) = 17"
  by (simp add: mac_text_def hex2_def upt_rec)

lemma mac_scan_length: "mac_scan iface ps = Some t \<Longrightarrow> length t = 17"
  by (induction ps) (auto split: option.splits if_splits)

text \<open>What is read fits the buffer, so delivering it writes exactly the text.\<close>

lemma mac_read_fits:
  "mac_read_iface_mac iface s (replicate 256 0) 256 = Some (buf, n) \<Longrightarrow> length buf = 256 \<and> n = 17 \<and> take n buf = the (mac_scan iface (the (mc_ifaddrs s)))"
  by (auto simp: mac_read_iface_mac_def overlay_def dest: mac_scan_length split: option.splits)

lemma uuid_read_fits:
  "read_platform_uuid s (replicate 256 0) 256 = Some (buf, n) \<Longrightarrow> length buf = 256 \<and> n \<le> 256"
  using length_takeWhile_le [of "\<lambda>c. c \<noteq> 0" buf]
  by (auto simp: read_platform_uuid_def cstr_def Let_def split: option.splits cf_prop.splits if_splits)

lemma mac_deliver_source:
  assumes "mac_deliver b1 r s = (st, c1, n, s')" and "\<And>buf k. r = Some (buf, k) \<Longrightarrow> k \<le> length buf"
  shows "length c1 = length b1"
    and "length b1 = length b2 \<Longrightarrow> \<exists>c2. mac_deliver b2 r s = (st, c2, n, s') \<and>
      (st = VL_OK \<and> n \<le> length b1 \<longrightarrow> take n c2 = take n c1)"
  using assms by (auto simp: mac_deliver_def overlay_def split: option.splits if_splits)

lemma mac_id_source: "id_source mac_read_id_segment"
proof
  fix i b s st c n s'
  assume r: "mac_read_id_segment i b s = (st, c, n, s')"
  consider "i = 0" | "i = 1" | "i \<noteq> 0" "i \<noteq> 1" by blast
  then show "length c = length b"
  proof cases
    case 1
    then show ?thesis using r by (auto simp: mac_read_id_segment_def elim!: mac_deliver_source(1) dest!: mac_read_fits)
  next
    case 2
    then show ?thesis using r by (auto simp: mac_read_id_segment_def elim!: mac_deliver_source(1) dest!: uuid_read_fits)
  qed (use r in \<open>simp add: mac_read_id_segment_def\<close>)
next
  fix b1 b2 :: bytes and i s st c1 n s'
  assume l: "length b1 = length b2" and r: "mac_read_id_segment i b1 s = (st, c1, n, s')"
  consider "i = 0" | "i = 1" | "i \<noteq> 0" "i \<noteq> 1" by blast
  then show "\<exists>c2. mac_read_id_segment i b2 s = (st, c2, n, s') \<and>
      (st = VL_OK \<and> n \<le> length b1 \<longrightarrow> take n c2 = take n c1)"
  proof cases
    case 1
    then have d: "mac_deliver b1 (mac_read_iface_mac (if px_iface (mc_posix s) = [] then None else Some (px_iface (mc_posix s)))
             s (replicate 256 0) 256) s = (st, c1, n, s')" using r by (simp add: mac_read_id_segment_def)
    have "\<exists>c2. mac_deliver b2 (mac_read_iface_mac
          (if px_iface (mc_posix s) = [] then None else Some (px_iface (mc_posix s))) s (replicate 256 0) 256) s = (st, c2, n, s') \<and>
      (st = VL_OK \<and> n \<le> length b1 \<longrightarrow> take n c2 = take n c1)"
      by (rule mac_deliver_source(2) [OF d _ l]) (use mac_read_fits in force)
    then show ?thesis using 1 by (simp only: mac_read_id_segment_def if_True refl)
  next
    case 2
    then have d: "mac_deliver b1 (read_platform_uuid s (replicate 256 0) 256) s = (st, c1, n, s')"
      using r by (simp add: mac_read_id_segment_def)
    have "\<exists>c2. mac_deliver b2 (read_platform_uuid s (replicate 256 0) 256) s = (st, c2, n, s') \<and>
      (st = VL_OK \<and> n \<le> length b1 \<longrightarrow> take n c2 = take n c1)"
      by (rule mac_deliver_source(2) [OF d _ l]) (use uuid_read_fits in force)
    then show ?thesis using 2 by (simp add: mac_read_id_segment_def)
  qed (use r in \<open>simp add: mac_read_id_segment_def\<close>)
qed

interpretation mac_id: id_source mac_read_id_segment
  by (rule mac_id_source)

text \<open>
  The whole identity: the text of the first usable interface, in the order the system lists
  them, and the UUID of the board.
\<close>

definition mac_segments :: "macos \<Rightarrow> bytes list option" where
  "mac_segments s =
     (case (mc_ifaddrs s, mc_expert s) of
        (Some ps, Some (Some (CFString u))) \<Rightarrow>
          (case mac_scan (if px_iface (mc_posix s) = [] then None else Some (px_iface (mc_posix s))) ps of
             Some t \<Rightarrow> if u \<noteq> [] \<and> 0 \<notin> set u \<and> length u < 256 then Some [t, u] else None
           | None \<Rightarrow> None)
      | _ \<Rightarrow> None)"

lemma mac_segments_read:
  assumes "mac_segments s = Some xs"
  shows "id_segments mac_read_id_segment 0 s = (Inr xs, s)"
proof -
  let ?f = "if px_iface (mc_posix s) = [] then None else Some (px_iface (mc_posix s))"
  obtain ps u t where e: "mc_ifaddrs s = Some ps" "mc_expert s = Some (Some (CFString u))" "mac_scan ?f ps = Some t"
    "u \<noteq> []" "0 \<notin> set u" "length u < 256" "xs = [t, u]"
    using assms by (auto simp: mac_segments_def split: option.splits cf_prop.splits if_splits)
  have t: "length t = 17" by (rule mac_scan_length [OF e(3)])
  have r0: "mac_read_iface_mac ?f s (replicate 256 0) 256 = Some (overlay (replicate 256 0) 0 (t @ [0]), 17)"
    using e by (simp add: mac_read_iface_mac_def)
  have c: "cstr (overlay (replicate 256 0) 0 (u @ [0])) = u"
  proof -
    have "overlay (replicate 256 0) 0 (u @ [0]) = u @ 0 # replicate (255 - length u) 0"
      using e(6) by (simp add: overlay_def)
    moreover have "takeWhile (\<lambda>c. c \<noteq> 0) (u @ 0 # v) = u" for v
      using e(5) by (subst takeWhile_append2) auto
    ultimately show ?thesis by (simp add: cstr_def)
  qed
  have r1: "read_platform_uuid s (replicate 256 0) 256 = Some (overlay (replicate 256 0) 0 (u @ [0]), length u)"
    using e c by (simp add: read_platform_uuid_def Let_def)
  have s0: "mac_read_id_segment 0 (replicate 255 0) s = (VL_OK, overlay (replicate 255 0) 0 t, 17, s)"
    using t by (simp add: mac_read_id_segment_def r0 mac_deliver_def overlay_def)
  have s1: "mac_read_id_segment 1 (replicate 255 0) s = (VL_OK, overlay (replicate 255 0) 0 u, length u, s)"
    using e by (simp add: mac_read_id_segment_def r1 mac_deliver_def overlay_def)
  have s2: "mac_read_id_segment 2 (replicate 255 0) s = (VL_ERR_NO_MORE_SEGMENTS, replicate 255 0, 0, s)"
    by (simp add: mac_read_id_segment_def)
  show ?thesis
    unfolding e(7)
    by (rule ids_next [of mac_read_id_segment, OF s0], rule ids_next [of mac_read_id_segment, OF s1],
        rule ids_end [of mac_read_id_segment, OF s2]) (use t e in \<open>simp_all add: overlay_def\<close>)
qed

end
