(* ===== verification/VL_Hex.thy ===== *)
theory VL_Hex
  imports Complex_Main
begin

text \<open>
  Arithmetic on long natural numbers by rewriting, a hexadecimal digit at a step. \<open>d0\<close> to \<open>dF\<close> put a
  digit below a number, so a number is a nest of them over 0; sums go through the digits of both
  numbers, products through the digits of one, over a table of the multiples of the other. All
  the equations hold without conditions. What the operations mean is stated beside them.
\<close>

section \<open>Digits\<close>

definition dg :: "nat \<Rightarrow> nat \<Rightarrow> nat" where "dg i x = i + 16 * x"

definition d0 :: "nat \<Rightarrow> nat" where "d0 = dg 0"

definition d1 :: "nat \<Rightarrow> nat" where "d1 = dg 1"

definition d2 :: "nat \<Rightarrow> nat" where "d2 = dg 2"

definition d3 :: "nat \<Rightarrow> nat" where "d3 = dg 3"

definition d4 :: "nat \<Rightarrow> nat" where "d4 = dg 4"

definition d5 :: "nat \<Rightarrow> nat" where "d5 = dg 5"

definition d6 :: "nat \<Rightarrow> nat" where "d6 = dg 6"

definition d7 :: "nat \<Rightarrow> nat" where "d7 = dg 7"

definition d8 :: "nat \<Rightarrow> nat" where "d8 = dg 8"

definition d9 :: "nat \<Rightarrow> nat" where "d9 = dg 9"

definition dA :: "nat \<Rightarrow> nat" where "dA = dg 10"

definition dB :: "nat \<Rightarrow> nat" where "dB = dg 11"

definition dC :: "nat \<Rightarrow> nat" where "dC = dg 12"

definition dD :: "nat \<Rightarrow> nat" where "dD = dg 13"

definition dE :: "nat \<Rightarrow> nat" where "dE = dg 14"

definition dF :: "nat \<Rightarrow> nat" where "dF = dg 15"

lemma dg_Suc:
  "dg (Suc 0) = d1" "dg (Suc (Suc 0)) = d2" "dg (Suc (Suc (Suc 0))) = d3" "dg (Suc (Suc (Suc (Suc 0)))) = d4"
  by (simp_all add: d1_def d2_def d3_def d4_def eval_nat_numeral)

lemmas digit_defs =
  d0_def d1_def d2_def d3_def d4_def d5_def d6_def d7_def d8_def d9_def dA_def dB_def dC_def dD_def dE_def dF_def

lemmas digits = dg_Suc digit_defs [symmetric]

lemma d0_0: "d0 0 = 0"
  by (simp add: d0_def dg_def)

text \<open>A numeral, four bits at a time.\<close>

definition bit0 :: "nat \<Rightarrow> nat" where "bit0 x = x + x"

definition bit1 :: "nat \<Rightarrow> nat" where "bit1 x = x + x + 1"

lemma numeral_bits: "numeral (num.Bit0 n) = bit0 (numeral n)" "numeral (num.Bit1 n) = bit1 (numeral n)"
  by (simp_all only: bit0_def bit1_def numeral.simps)

lemma dg_bits:
  "d0 x = bit0 (bit0 (bit0 (bit0 x)))" "d1 x = bit1 (bit0 (bit0 (bit0 x)))" "d2 x = bit0 (bit1 (bit0 (bit0 x)))" "d3 x = bit1 (bit1 (bit0 (bit0 x)))" "d4 x = bit0 (bit0 (bit1 (bit0 x)))" "d5 x = bit1 (bit0 (bit1 (bit0 x)))" "d6 x = bit0 (bit1 (bit1 (bit0 x)))" "d7 x = bit1 (bit1 (bit1 (bit0 x)))" "d8 x = bit0 (bit0 (bit0 (bit1 x)))" "d9 x = bit1 (bit0 (bit0 (bit1 x)))" "dA x = bit0 (bit1 (bit0 (bit1 x)))" "dB x = bit1 (bit1 (bit0 (bit1 x)))" "dC x = bit0 (bit0 (bit1 (bit1 x)))" "dD x = bit1 (bit0 (bit1 (bit1 x)))" "dE x = bit0 (bit1 (bit1 (bit1 x)))" "dF x = bit1 (bit1 (bit1 (bit1 x)))"
  by (simp_all add: digit_defs dg_def bit0_def bit1_def)

lemma numeral_hex:
  "numeral (num.Bit0 (num.Bit0 (num.Bit0 (num.Bit0 n)))) = d0 (numeral n)"
  "numeral (num.Bit1 (num.Bit0 (num.Bit0 (num.Bit0 n)))) = d1 (numeral n)"
  "numeral (num.Bit0 (num.Bit1 (num.Bit0 (num.Bit0 n)))) = d2 (numeral n)"
  "numeral (num.Bit1 (num.Bit1 (num.Bit0 (num.Bit0 n)))) = d3 (numeral n)"
  "numeral (num.Bit0 (num.Bit0 (num.Bit1 (num.Bit0 n)))) = d4 (numeral n)"
  "numeral (num.Bit1 (num.Bit0 (num.Bit1 (num.Bit0 n)))) = d5 (numeral n)"
  "numeral (num.Bit0 (num.Bit1 (num.Bit1 (num.Bit0 n)))) = d6 (numeral n)"
  "numeral (num.Bit1 (num.Bit1 (num.Bit1 (num.Bit0 n)))) = d7 (numeral n)"
  "numeral (num.Bit0 (num.Bit0 (num.Bit0 (num.Bit1 n)))) = d8 (numeral n)"
  "numeral (num.Bit1 (num.Bit0 (num.Bit0 (num.Bit1 n)))) = d9 (numeral n)"
  "numeral (num.Bit0 (num.Bit1 (num.Bit0 (num.Bit1 n)))) = dA (numeral n)"
  "numeral (num.Bit1 (num.Bit1 (num.Bit0 (num.Bit1 n)))) = dB (numeral n)"
  "numeral (num.Bit0 (num.Bit0 (num.Bit1 (num.Bit1 n)))) = dC (numeral n)"
  "numeral (num.Bit1 (num.Bit0 (num.Bit1 (num.Bit1 n)))) = dD (numeral n)"
  "numeral (num.Bit0 (num.Bit1 (num.Bit1 (num.Bit1 n)))) = dE (numeral n)"
  "numeral (num.Bit1 (num.Bit1 (num.Bit1 (num.Bit1 n)))) = dF (numeral n)"
  by (simp_all only: dg_bits numeral_bits)

lemma numeral_top:
  "1 = d1 0" "numeral num.One = d1 0"
  "numeral (num.Bit0 num.One) = d2 0"
  "numeral (num.Bit1 num.One) = d3 0"
  "numeral (num.Bit0 (num.Bit0 num.One)) = d4 0"
  "numeral (num.Bit1 (num.Bit0 num.One)) = d5 0"
  "numeral (num.Bit0 (num.Bit1 num.One)) = d6 0"
  "numeral (num.Bit1 (num.Bit1 num.One)) = d7 0"
  "numeral (num.Bit0 (num.Bit0 (num.Bit0 num.One))) = d8 0"
  "numeral (num.Bit1 (num.Bit0 (num.Bit0 num.One))) = d9 0"
  "numeral (num.Bit0 (num.Bit1 (num.Bit0 num.One))) = dA 0"
  "numeral (num.Bit1 (num.Bit1 (num.Bit0 num.One))) = dB 0"
  "numeral (num.Bit0 (num.Bit0 (num.Bit1 num.One))) = dC 0"
  "numeral (num.Bit1 (num.Bit0 (num.Bit1 num.One))) = dD 0"
  "numeral (num.Bit0 (num.Bit1 (num.Bit1 num.One))) = dE 0"
  "numeral (num.Bit1 (num.Bit1 (num.Bit1 num.One))) = dF 0"
  by (simp_all add: digit_defs dg_def)

text \<open>And back.\<close>

lemmas hex_numeral = numeral_hex [symmetric] numeral_top(2-16) [symmetric] d0_0

section \<open>Sums\<close>

definition HA :: "nat \<Rightarrow> nat \<Rightarrow> nat" where "HA x y = x + y"

definition HC :: "nat \<Rightarrow> nat \<Rightarrow> nat" where "HC x y = x + y + 1"

lemma HA_dg: "HA (dg i x) (dg j y) = (if i + j < 16 then dg (i + j) (HA x y) else dg (i + j - 16) (HC x y))"
  by (simp add: HA_def HC_def dg_def)

lemma HC_dg: "HC (dg i x) (dg j y) = (if i + j < 15 then dg (i + j + 1) (HA x y) else dg (i + j - 15) (HC x y))"
  by (simp add: HA_def HC_def dg_def)

lemma HC_0_dg:
  "i < 16 \<Longrightarrow> HC 0 (dg i x) = (if i < 15 then dg (i + 1) x else dg 0 (HC 0 x))"
  "i < 16 \<Longrightarrow> HC (dg i x) 0 = (if i < 15 then dg (i + 1) x else dg 0 (HC x 0))"
  by (simp_all add: HA_def HC_def dg_def)

lemma sum_0: "HA 0 x = x" "HA x 0 = x" "HC 0 0 = d1 0"
  by (simp_all add: HA_def HC_def d1_def dg_def)

text \<open>The rules for each pair of digits.\<close>

lemmas HA_left =
  HA_dg [of 0] HA_dg [of 1] HA_dg [of 2] HA_dg [of 3] HA_dg [of 4] HA_dg [of 5] HA_dg [of 6] HA_dg [of 7] HA_dg [of 8] HA_dg [of 9] HA_dg [of 10]
  HA_dg [of 11] HA_dg [of 12] HA_dg [of 13] HA_dg [of 14] HA_dg [of 15]

lemmas HA_digits =
  HA_left [of _ 0, simplified, unfolded digits] HA_left [of _ 1, simplified, unfolded digits] HA_left [of _ 2, simplified, unfolded digits]
  HA_left [of _ 3, simplified, unfolded digits] HA_left [of _ 4, simplified, unfolded digits] HA_left [of _ 5, simplified, unfolded digits]
  HA_left [of _ 6, simplified, unfolded digits] HA_left [of _ 7, simplified, unfolded digits] HA_left [of _ 8, simplified, unfolded digits]
  HA_left [of _ 9, simplified, unfolded digits] HA_left [of _ 10, simplified, unfolded digits] HA_left [of _ 11, simplified, unfolded digits]
  HA_left [of _ 12, simplified, unfolded digits] HA_left [of _ 13, simplified, unfolded digits] HA_left [of _ 14, simplified, unfolded digits]
  HA_left [of _ 15, simplified, unfolded digits]

lemmas HC_left =
  HC_dg [of 0] HC_dg [of 1] HC_dg [of 2] HC_dg [of 3] HC_dg [of 4] HC_dg [of 5] HC_dg [of 6] HC_dg [of 7] HC_dg [of 8] HC_dg [of 9] HC_dg [of 10]
  HC_dg [of 11] HC_dg [of 12] HC_dg [of 13] HC_dg [of 14] HC_dg [of 15]

lemmas HC_digits =
  HC_left [of _ 0, simplified, unfolded digits] HC_left [of _ 1, simplified, unfolded digits] HC_left [of _ 2, simplified, unfolded digits]
  HC_left [of _ 3, simplified, unfolded digits] HC_left [of _ 4, simplified, unfolded digits] HC_left [of _ 5, simplified, unfolded digits]
  HC_left [of _ 6, simplified, unfolded digits] HC_left [of _ 7, simplified, unfolded digits] HC_left [of _ 8, simplified, unfolded digits]
  HC_left [of _ 9, simplified, unfolded digits] HC_left [of _ 10, simplified, unfolded digits] HC_left [of _ 11, simplified, unfolded digits]
  HC_left [of _ 12, simplified, unfolded digits] HC_left [of _ 13, simplified, unfolded digits] HC_left [of _ 14, simplified, unfolded digits]
  HC_left [of _ 15, simplified, unfolded digits]

lemmas HC_end =
  HC_0_dg [of 0, simplified, unfolded digits] HC_0_dg [of 1, simplified, unfolded digits] HC_0_dg [of 2, simplified, unfolded digits]
  HC_0_dg [of 3, simplified, unfolded digits] HC_0_dg [of 4, simplified, unfolded digits] HC_0_dg [of 5, simplified, unfolded digits]
  HC_0_dg [of 6, simplified, unfolded digits] HC_0_dg [of 7, simplified, unfolded digits] HC_0_dg [of 8, simplified, unfolded digits]
  HC_0_dg [of 9, simplified, unfolded digits] HC_0_dg [of 10, simplified, unfolded digits] HC_0_dg [of 11, simplified, unfolded digits]
  HC_0_dg [of 12, simplified, unfolded digits] HC_0_dg [of 13, simplified, unfolded digits] HC_0_dg [of 14, simplified, unfolded digits]
  HC_0_dg [of 15, simplified, unfolded digits]

lemmas add_rules = HA_digits HC_digits HC_end sum_0 d0_0

section \<open>Products\<close>

text \<open>\<open>row f x\<close> is the sum of the \<open>f\<close> of the digits of x that are not 0, each at its place.\<close>

function row :: "(nat \<Rightarrow> nat) \<Rightarrow> nat \<Rightarrow> nat" where
  "row f x = (if x = 0 then 0 else (if x mod 16 = 0 then 0 else f (x mod 16)) + 16 * row f (x div 16))"
  by pat_completeness auto
termination by (relation "measure snd") auto

declare row.simps [simp del]

lemma row_0: "row f 0 = 0"
  by (simp add: row.simps)

lemma row_dg:
  assumes "i < 16"
  shows "row f (dg i x) = (if i = 0 then 0 else f i) + 16 * row f x"
proof -
  have m: "dg i x mod 16 = i" "dg i x div 16 = x" using assms by (simp_all add: dg_def)
  show ?thesis
  proof (cases "dg i x = 0")
    case True
    then have "i = 0" "x = 0" by (simp_all add: dg_def)
    then show ?thesis by (simp add: dg_def row_0)
  next
    case False
    then show ?thesis by (subst row.simps) (simp add: m)
  qed
qed

lemma row_multiples: "(\<And>i. 0 < i \<Longrightarrow> i < 16 \<Longrightarrow> f i = i * y) \<Longrightarrow> row f x = x * y"
proof (induction x rule: less_induct)
  case (less x)
  show ?case
  proof (cases "x = 0")
    case False
    have "row f x = (if x mod 16 = 0 then 0 else f (x mod 16)) + 16 * row f (x div 16)"
      by (subst row.simps) (simp add: False)
    also have "\<dots> = x mod 16 * y + 16 * (x div 16 * y)" using less False by simp
    also have "\<dots> = (x mod 16 + 16 * (x div 16)) * y" by (simp only: add_mult_distrib mult.assoc)
    finally show ?thesis by simp
  qed (simp add: row_0)
qed

text \<open>The table as a list; \<open>HT\<close> extends it by the next multiple until it is full.\<close>

definition HR :: "nat \<Rightarrow> nat list \<Rightarrow> nat" where "HR x t = row (\<lambda>i. t ! (i - 1)) x"

definition HT :: "nat \<Rightarrow> nat \<Rightarrow> nat list \<Rightarrow> nat \<Rightarrow> nat" where
  "HT x y t z = HR x (t @ map (\<lambda>i. z + i * y) [0 ..< 15 - length t])"

definition HM :: "nat \<Rightarrow> nat \<Rightarrow> nat" where "HM x y = x * y"

lemma HM_start: "HM x y = HT x y [] y"
  unfolding HT_def HR_def HM_def by (rule row_multiples [symmetric]) (auto simp: gr0_conv_Suc simp del: upt_Suc)

lemma HT_next: "length t < 14 \<Longrightarrow> HT x y t z = HT x y (t @ [z]) (HA z y)"
proof -
  assume "length t < 14"
  then have "15 - length t = Suc (14 - length t)" by simp
  then have "[0 ..< 15 - length t] = 0 # map Suc [0 ..< 14 - length t]"
    by (simp add: upt_conv_Cons map_Suc_upt del: upt_Suc)
  then show ?thesis by (simp add: HT_def HA_def ac_simps comp_def del: upt_Suc)
qed

lemma HT_last: "length t = 14 \<Longrightarrow> HT x y t z = HR x (t @ [z])"
  by (simp add: HT_def)

lemma HT_rules:
  "HT x y [] z = HT x y [z] (HA z y)"
  "HT x y [y1] z = HT x y [y1, z] (HA z y)"
  "HT x y [y1, y2] z = HT x y [y1, y2, z] (HA z y)"
  "HT x y [y1, y2, y3] z = HT x y [y1, y2, y3, z] (HA z y)"
  "HT x y [y1, y2, y3, y4] z = HT x y [y1, y2, y3, y4, z] (HA z y)"
  "HT x y [y1, y2, y3, y4, y5] z = HT x y [y1, y2, y3, y4, y5, z] (HA z y)"
  "HT x y [y1, y2, y3, y4, y5, y6] z = HT x y [y1, y2, y3, y4, y5, y6, z] (HA z y)"
  "HT x y [y1, y2, y3, y4, y5, y6, y7] z = HT x y [y1, y2, y3, y4, y5, y6, y7, z] (HA z y)"
  "HT x y [y1, y2, y3, y4, y5, y6, y7, y8] z = HT x y [y1, y2, y3, y4, y5, y6, y7, y8, z] (HA z y)"
  "HT x y [y1, y2, y3, y4, y5, y6, y7, y8, y9] z = HT x y [y1, y2, y3, y4, y5, y6, y7, y8, y9, z] (HA z y)"
  "HT x y [y1, y2, y3, y4, y5, y6, y7, y8, y9, y10] z = HT x y [y1, y2, y3, y4, y5, y6, y7, y8, y9, y10, z] (HA z y)"
  "HT x y [y1, y2, y3, y4, y5, y6, y7, y8, y9, y10, y11] z = HT x y [y1, y2, y3, y4, y5, y6, y7, y8, y9, y10, y11, z] (HA z y)"
  "HT x y [y1, y2, y3, y4, y5, y6, y7, y8, y9, y10, y11, y12] z = HT x y [y1, y2, y3, y4, y5, y6, y7, y8, y9, y10, y11, y12, z] (HA z y)"
  "HT x y [y1, y2, y3, y4, y5, y6, y7, y8, y9, y10, y11, y12, y13] z = HT x y [y1, y2, y3, y4, y5, y6, y7, y8, y9, y10, y11, y12, y13, z] (HA z y)"
  "HT x y [y1, y2, y3, y4, y5, y6, y7, y8, y9, y10, y11, y12, y13, y14] z = HR x [y1, y2, y3, y4, y5, y6, y7, y8, y9, y10, y11, y12, y13, y14, z]"
  by (simp_all add: HT_next HT_last)

lemma HR_rules:
  "HR 0 t = 0" "HR (d0 x) t = d0 (HR x t)"
  "HR (d1 x) (y1 # t) = HA (d0 (HR x (y1 # t))) y1"
  "HR (d2 x) (y1 # y2 # t) = HA (d0 (HR x (y1 # y2 # t))) y2"
  "HR (d3 x) (y1 # y2 # y3 # t) = HA (d0 (HR x (y1 # y2 # y3 # t))) y3"
  "HR (d4 x) (y1 # y2 # y3 # y4 # t) = HA (d0 (HR x (y1 # y2 # y3 # y4 # t))) y4"
  "HR (d5 x) (y1 # y2 # y3 # y4 # y5 # t) = HA (d0 (HR x (y1 # y2 # y3 # y4 # y5 # t))) y5"
  "HR (d6 x) (y1 # y2 # y3 # y4 # y5 # y6 # t) = HA (d0 (HR x (y1 # y2 # y3 # y4 # y5 # y6 # t))) y6"
  "HR (d7 x) (y1 # y2 # y3 # y4 # y5 # y6 # y7 # t) = HA (d0 (HR x (y1 # y2 # y3 # y4 # y5 # y6 # y7 # t))) y7"
  "HR (d8 x) (y1 # y2 # y3 # y4 # y5 # y6 # y7 # y8 # t) = HA (d0 (HR x (y1 # y2 # y3 # y4 # y5 # y6 # y7 # y8 # t))) y8"
  "HR (d9 x) (y1 # y2 # y3 # y4 # y5 # y6 # y7 # y8 # y9 # t) = HA (d0 (HR x (y1 # y2 # y3 # y4 # y5 # y6 # y7 # y8 # y9 # t))) y9"
  "HR (dA x) (y1 # y2 # y3 # y4 # y5 # y6 # y7 # y8 # y9 # y10 # t) = HA (d0 (HR x (y1 # y2 # y3 # y4 # y5 # y6 # y7 # y8 # y9 # y10 # t))) y10"
  "HR (dB x) (y1 # y2 # y3 # y4 # y5 # y6 # y7 # y8 # y9 # y10 # y11 # t) = HA (d0 (HR x (y1 # y2 # y3 # y4 # y5 # y6 # y7 # y8 # y9 # y10 # y11 # t))) y11"
  "HR (dC x) (y1 # y2 # y3 # y4 # y5 # y6 # y7 # y8 # y9 # y10 # y11 # y12 # t) = HA (d0 (HR x (y1 # y2 # y3 # y4 # y5 # y6 # y7 # y8 # y9 # y10 # y11 # y12 # t))) y12"
  "HR (dD x) (y1 # y2 # y3 # y4 # y5 # y6 # y7 # y8 # y9 # y10 # y11 # y12 # y13 # t) = HA (d0 (HR x (y1 # y2 # y3 # y4 # y5 # y6 # y7 # y8 # y9 # y10 # y11 # y12 # y13 # t))) y13"
  "HR (dE x) (y1 # y2 # y3 # y4 # y5 # y6 # y7 # y8 # y9 # y10 # y11 # y12 # y13 # y14 # t) = HA (d0 (HR x (y1 # y2 # y3 # y4 # y5 # y6 # y7 # y8 # y9 # y10 # y11 # y12 # y13 # y14 # t))) y14"
  "HR (dF x) (y1 # y2 # y3 # y4 # y5 # y6 # y7 # y8 # y9 # y10 # y11 # y12 # y13 # y14 # y15 # t) = HA (d0 (HR x (y1 # y2 # y3 # y4 # y5 # y6 # y7 # y8 # y9 # y10 # y11 # y12 # y13 # y14 # y15 # t))) y15"
  by (simp_all only: HR_def row_0 digit_defs row_dg) (simp_all add: dg_def HA_def)

lemmas mul_rules = HM_start HT_rules HR_rules add_rules

section \<open>Digits below and above, complements\<close>

primrec dlo :: "nat \<Rightarrow> nat \<Rightarrow> nat" where
  "dlo 0 x = 0"
| "dlo (Suc n) x = x mod 16 + 16 * dlo n (x div 16)"

primrec dhi :: "nat \<Rightarrow> nat \<Rightarrow> nat" where
  "dhi 0 x = x"
| "dhi (Suc n) x = dhi n (x div 16)"

lemma dlo_dhi: "dlo n x + 16 ^ n * dhi n x = x"
proof (induction n arbitrary: x)
  case (Suc n)
  have "dlo (Suc n) x + 16 ^ Suc n * dhi (Suc n) x = x mod 16 + 16 * (dlo n (x div 16) + 16 ^ n * dhi n (x div 16))"
    by (simp add: algebra_simps)
  then show ?case by (simp only: Suc.IH mod_mult_div_eq)
qed simp

lemma split_0: "dlo n 0 = 0" "dhi n 0 = 0"
  by (induction n) simp_all

text \<open>The complement to n digits; a number that is longer goes on modulo m, so that
  \<open>ng m n x\<close> is \<open>16 ^ n - 1 - x\<close> modulo m in any case.\<close>

primrec ng :: "nat \<Rightarrow> nat \<Rightarrow> nat \<Rightarrow> nat" where
  "ng m 0 x = (m - 1) * x"
| "ng m (Suc n) x = 15 - x mod 16 + 16 * ng m n (x div 16)"

lemma ng_cong:
  assumes "0 < m"
  shows "(ng m n x + x + 1) mod m = 16 ^ n mod m"
proof (induction n arbitrary: x)
  case 0
  have "ng m 0 x + x + 1 = 1 + m * x" using assms by (cases m) simp_all
  then show ?case by (simp only: mod_mult_self2 power_0)
next
  case (Suc n)
  have "15 - a + 16 * g + (a + 16 * q) + 1 = 16 * (g + q + 1)" if "a \<le> 15" for a g q :: nat using that by simp
  from this [of "x mod 16" "ng m n (x div 16)" "x div 16"]
  have e: "ng m (Suc n) x + x + 1 = 16 * (ng m n (x div 16) + x div 16 + 1)" by simp
  have "(ng m (Suc n) x + x + 1) mod m = 16 * ((ng m n (x div 16) + x div 16 + 1) mod m) mod m"
    unfolding e by (simp only: mod_mult_right_eq)
  then show ?case unfolding Suc.IH by (simp add: mod_mult_right_eq)
qed

lemma split_dg:
  assumes "i < 16"
  shows "dlo (Suc n) (dg i x) = dg i (dlo n x)" "dhi (Suc n) (dg i x) = dhi n x" "ng m (Suc n) (dg i x) = dg (15 - i) (ng m n x)"
proof -
  have "dg i x mod 16 = i" "dg i x div 16 = x" using assms by (simp_all add: dg_def)
  then show "dlo (Suc n) (dg i x) = dg i (dlo n x)" "dhi (Suc n) (dg i x) = dhi n x" "ng m (Suc n) (dg i x) = dg (15 - i) (ng m n x)"
    by (simp_all add: dg_def)
qed

lemma split_rules:
  "dlo n 0 = 0" "dhi n 0 = 0" "dlo 0 x = 0" "dhi 0 x = x" "ng m 0 0 = 0"
  "dlo (Suc n) (d0 x) = d0 (dlo n x)" "dhi (Suc n) (d0 x) = dhi n x" "ng m (Suc n) (d0 x) = dF (ng m n x)"
  "dlo (Suc n) (d1 x) = d1 (dlo n x)" "dhi (Suc n) (d1 x) = dhi n x" "ng m (Suc n) (d1 x) = dE (ng m n x)"
  "dlo (Suc n) (d2 x) = d2 (dlo n x)" "dhi (Suc n) (d2 x) = dhi n x" "ng m (Suc n) (d2 x) = dD (ng m n x)"
  "dlo (Suc n) (d3 x) = d3 (dlo n x)" "dhi (Suc n) (d3 x) = dhi n x" "ng m (Suc n) (d3 x) = dC (ng m n x)"
  "dlo (Suc n) (d4 x) = d4 (dlo n x)" "dhi (Suc n) (d4 x) = dhi n x" "ng m (Suc n) (d4 x) = dB (ng m n x)"
  "dlo (Suc n) (d5 x) = d5 (dlo n x)" "dhi (Suc n) (d5 x) = dhi n x" "ng m (Suc n) (d5 x) = dA (ng m n x)"
  "dlo (Suc n) (d6 x) = d6 (dlo n x)" "dhi (Suc n) (d6 x) = dhi n x" "ng m (Suc n) (d6 x) = d9 (ng m n x)"
  "dlo (Suc n) (d7 x) = d7 (dlo n x)" "dhi (Suc n) (d7 x) = dhi n x" "ng m (Suc n) (d7 x) = d8 (ng m n x)"
  "dlo (Suc n) (d8 x) = d8 (dlo n x)" "dhi (Suc n) (d8 x) = dhi n x" "ng m (Suc n) (d8 x) = d7 (ng m n x)"
  "dlo (Suc n) (d9 x) = d9 (dlo n x)" "dhi (Suc n) (d9 x) = dhi n x" "ng m (Suc n) (d9 x) = d6 (ng m n x)"
  "dlo (Suc n) (dA x) = dA (dlo n x)" "dhi (Suc n) (dA x) = dhi n x" "ng m (Suc n) (dA x) = d5 (ng m n x)"
  "dlo (Suc n) (dB x) = dB (dlo n x)" "dhi (Suc n) (dB x) = dhi n x" "ng m (Suc n) (dB x) = d4 (ng m n x)"
  "dlo (Suc n) (dC x) = dC (dlo n x)" "dhi (Suc n) (dC x) = dhi n x" "ng m (Suc n) (dC x) = d3 (ng m n x)"
  "dlo (Suc n) (dD x) = dD (dlo n x)" "dhi (Suc n) (dD x) = dhi n x" "ng m (Suc n) (dD x) = d2 (ng m n x)"
  "dlo (Suc n) (dE x) = dE (dlo n x)" "dhi (Suc n) (dE x) = dhi n x" "ng m (Suc n) (dE x) = d1 (ng m n x)"
  "dlo (Suc n) (dF x) = dF (dlo n x)" "dhi (Suc n) (dF x) = dhi n x" "ng m (Suc n) (dF x) = d0 (ng m n x)"
  "ng m (Suc n) 0 = dF (ng m n 0)"
  by (simp_all only: digit_defs split_dg split_0) (simp_all add: dg_def)

end
