(* ===== verification/VL_Fips.thy ===== *)
theory VL_Fips
  imports VL_Sha256 VL_Sha512 VL_Hex
begin

text \<open>
  The hashes of FIPS 180-4, written as the standard writes them and independently of the
  code: the message schedule as a recursive function of the word index, the rounds with the
  named functions on rotations, the constants as the fractional parts of the cube roots and
  square roots of the first primes, the padded message cut into blocks. The lemmas show that
  \<^verbatim>\<open>core/vl_sha256.c\<close> and \<^verbatim>\<open>core/vl_sha512.c\<close> compute them for any
  sequence of updates.
\<close>

section \<open>Schedule, rounds and blocks, for any word size\<close>

fun fips_W :: "('a::len word \<Rightarrow> 'a word) \<Rightarrow> ('a word \<Rightarrow> 'a word) \<Rightarrow> (nat \<Rightarrow> 'a word) \<Rightarrow> nat \<Rightarrow> 'a word" where
  "fips_W ssig0 ssig1 M t =
     (if t < 16 then M t
      else ssig1 (fips_W ssig0 ssig1 M (t - 2)) + fips_W ssig0 ssig1 M (t - 7) +
           ssig0 (fips_W ssig0 ssig1 M (t - 15)) + fips_W ssig0 ssig1 M (t - 16))"

declare fips_W.simps [simp del]

definition fips_Ch :: "'a::len word \<Rightarrow> 'a word \<Rightarrow> 'a word \<Rightarrow> 'a word" where
  "fips_Ch x y z = (x AND y) XOR (NOT x AND z)"

definition fips_Maj :: "'a::len word \<Rightarrow> 'a word \<Rightarrow> 'a word \<Rightarrow> 'a word" where
  "fips_Maj x y z = (x AND y) XOR (x AND z) XOR (y AND z)"

fun fips_round :: "('a::len word \<Rightarrow> 'a word) \<Rightarrow> ('a word \<Rightarrow> 'a word) \<Rightarrow> (nat \<Rightarrow> 'a word) \<Rightarrow> (nat \<Rightarrow> 'a word) \<Rightarrow> nat \<Rightarrow>
    'a word list \<Rightarrow> 'a word list" where
  "fips_round bsig0 bsig1 K W t [a, b, c, d, e, f, g, h] =
     (let T1 = h + bsig1 e + fips_Ch e f g + K t + W t;
          T2 = bsig0 a + fips_Maj a b c
      in [T1 + T2, a, b, c, d + T1, e, f, g])"
| "fips_round bsig0 bsig1 K W t v = v"

text \<open>
  \<open>int_root k p\<close> is the integer part of the \<open>k\<close>-th root of \<open>p\<close> (below 8 for every
  prime used), and \<open>root_frac\<close> says that \<open>w\<close> is the first \<open>n\<close> bits of its fractional
  part.
\<close>

definition int_root :: "nat \<Rightarrow> nat \<Rightarrow> nat" where
  "int_root k p = length (takeWhile (\<lambda>c. c ^ k \<le> p) [1, 2, 3, 4, 5, 6, 7, 8])"

definition root_frac :: "nat \<Rightarrow> nat \<Rightarrow> nat \<Rightarrow> nat \<Rightarrow> bool" where
  "root_frac k n p w \<longleftrightarrow> w < 2 ^ n \<and>
     (int_root k p * 2 ^ n + w) ^ k \<le> p * 2 ^ (n * k) \<and> p * 2 ^ (n * k) < (int_root k p * 2 ^ n + w + 1) ^ k"

definition fips_primes :: "nat list" where
  "fips_primes = [2, 3, 5, 7, 11, 13, 17, 19, 23, 29, 31, 37, 41, 43, 47, 53, 59, 61, 67, 71, 73, 79, 83,
     89, 97, 101, 103, 107, 109, 113, 127, 131, 137, 139, 149, 151, 157, 163, 167, 173,
     179, 181, 191, 193, 197, 199, 211, 223, 227, 229, 233, 239, 241, 251, 257, 263, 269,
     271, 277, 281, 283, 293, 307, 311, 313, 317, 331, 337, 347, 349, 353, 359, 367, 373,
     379, 383, 389, 397, 401, 409]"

definition word_bytes :: "nat \<Rightarrow> 'a::len word \<Rightarrow> bytes" where
  "word_bytes k w = map (\<lambda>i. ucast (drop_bit (8 * (k - 1 - i)) w)) [0..<k]"

section \<open>SHA-256 and SHA-512\<close>

definition fips256_compress :: "u32 list \<Rightarrow> bytes \<Rightarrow> u32 list" where
  "fips256_compress H block =
     (let W = fips_W (\<lambda>x. word_rotr 7 x XOR word_rotr 18 x XOR drop_bit 3 x)
                (\<lambda>x. word_rotr 17 x XOR word_rotr 19 x XOR drop_bit 10 x)
                (\<lambda>t. word_rcat (take 4 (drop (4 * t) block)))
      in map2 (+) H (fold (fips_round (\<lambda>x. word_rotr 2 x XOR word_rotr 13 x XOR word_rotr 22 x)
           (\<lambda>x. word_rotr 6 x XOR word_rotr 11 x XOR word_rotr 25 x) (\<lambda>t. K256 ! t) W) [0..<64] H))"

definition fips512_compress :: "u64 list \<Rightarrow> bytes \<Rightarrow> u64 list" where
  "fips512_compress H block =
     (let W = fips_W (\<lambda>x. word_rotr 1 x XOR word_rotr 8 x XOR drop_bit 7 x)
                (\<lambda>x. word_rotr 19 x XOR word_rotr 61 x XOR drop_bit 6 x)
                (\<lambda>t. word_rcat (take 8 (drop (8 * t) block)))
      in map2 (+) H (fold (fips_round (\<lambda>x. word_rotr 28 x XOR word_rotr 34 x XOR word_rotr 39 x)
           (\<lambda>x. word_rotr 14 x XOR word_rotr 18 x XOR word_rotr 41 x) (\<lambda>t. K512 ! t) W) [0..<80] H))"

definition fips256 :: "bytes \<Rightarrow> bytes" where
  "fips256 msg =
     concat (map (word_bytes 4) (foldl fips256_compress sha256_iv
       (slices 64 (msg @ md_padding 64 8 (length msg) @ be64_bytes (word_of_nat (8 * length msg))))))"

definition fips512 :: "bytes \<Rightarrow> bytes" where
  "fips512 msg =
     concat (map (word_bytes 8) (foldl fips512_compress sha512_iv
       (slices 128 (msg @ md_padding 128 16 (length msg) @ be128_bytes (8 * length msg)))))"

section \<open>The constants\<close>

lemma K256_roots: "list_all2 (\<lambda>p w. root_frac 3 32 p (unat w)) (take 64 fips_primes) K256"
  by (simp add: fips_primes_def K256_def root_frac_def int_root_def)

lemma sha256_iv_roots: "list_all2 (\<lambda>p w. root_frac 2 32 p (unat w)) (take 8 fips_primes) sha256_iv"
  by (simp add: fips_primes_def sha256_iv_def root_frac_def int_root_def)

text \<open>The cubes of the 64-bit constants are computed digit by digit.\<close>

lemma cube_hex: "c ^ 3 = HM c (HM c c)"
  by (simp add: HM_def eval_nat_numeral)

lemma root_frac_3_64: "root_frac 3 64 p w \<longleftrightarrow> w < 18446744073709551616 \<and>
    (let c = int_root 3 p * 18446744073709551616 + w; q = p * 6277101735386680763835789423207666416102355444464034512896
     in HM c (HM c c) \<le> q \<and> q < HM (c + 1) (HM (c + 1) (c + 1)))"
  unfolding root_frac_def cube_hex Let_def by simp

text \<open>Twenty at a time, which keeps each evaluation small.\<close>

lemma K512_roots_0:
  "list_all2 (\<lambda>p w. root_frac 3 64 p (unat w)) (take 20 (drop 0 fips_primes)) (take 20 (drop 0 K512))"
  by (simp only: fips_primes_def K512_def drop_Cons' take_Cons' list_all2_Cons list_all2_Nil rel_simps arith_simps
      if_True if_False take0 drop0) (simp add: root_frac_3_64 int_root_def, simp only: mul_rules numeral_hex numeral_top,
      simp only: hex_numeral, simp)

lemma K512_roots_1:
  "list_all2 (\<lambda>p w. root_frac 3 64 p (unat w)) (take 20 (drop 20 fips_primes)) (take 20 (drop 20 K512))"
  by (simp only: fips_primes_def K512_def drop_Cons' take_Cons' list_all2_Cons list_all2_Nil rel_simps arith_simps
      if_True if_False take0 drop0) (simp add: root_frac_3_64 int_root_def, simp only: mul_rules numeral_hex numeral_top,
      simp only: hex_numeral, simp)

lemma K512_roots_2:
  "list_all2 (\<lambda>p w. root_frac 3 64 p (unat w)) (take 20 (drop 40 fips_primes)) (take 20 (drop 40 K512))"
  by (simp only: fips_primes_def K512_def drop_Cons' take_Cons' list_all2_Cons list_all2_Nil rel_simps arith_simps
      if_True if_False take0 drop0) (simp add: root_frac_3_64 int_root_def, simp only: mul_rules numeral_hex numeral_top,
      simp only: hex_numeral, simp)

lemma K512_roots_3:
  "list_all2 (\<lambda>p w. root_frac 3 64 p (unat w)) (take 20 (drop 60 fips_primes)) (take 20 (drop 60 K512))"
  by (simp only: fips_primes_def K512_def drop_Cons' take_Cons' list_all2_Cons list_all2_Nil rel_simps arith_simps
      if_True if_False take0 drop0) (simp add: root_frac_3_64 int_root_def, simp only: mul_rules numeral_hex numeral_top,
      simp only: hex_numeral, simp)

lemma list_all2_chunks:
  assumes "list_all2 P (take 20 xs) (take 20 ys)" and "list_all2 P (drop 20 xs) (drop 20 ys)"
  shows "list_all2 P xs ys"
  using list_all2_appendI [OF assms] by simp

lemma K512_roots: "list_all2 (\<lambda>p w. root_frac 3 64 p (unat w)) fips_primes K512"
proof -
  let ?P = "list_all2 (\<lambda>p w. root_frac 3 64 p (unat w))"
  have len: "length fips_primes = 80" "length K512 = 80" by (simp_all add: fips_primes_def K512_def)
  have "?P (drop 60 fips_primes) (drop 60 K512)" using K512_roots_3 len by simp
  with K512_roots_2 have "?P (drop 40 fips_primes) (drop 40 K512)"
    by (intro list_all2_chunks [of _ "drop 40 fips_primes"]) (simp_all only: drop_drop arith_simps)
  with K512_roots_1 have "?P (drop 20 fips_primes) (drop 20 K512)"
    by (intro list_all2_chunks [of _ "drop 20 fips_primes"]) (simp_all only: drop_drop arith_simps)
  with K512_roots_0 show ?thesis
    by (intro list_all2_chunks [of _ fips_primes]) (simp_all only: drop0)
qed

lemma sha512_iv_roots: "list_all2 (\<lambda>p w. root_frac 2 64 p (unat w)) (take 8 fips_primes) sha512_iv"
  by (simp add: fips_primes_def sha512_iv_def root_frac_def int_root_def)

section \<open>Rotations, words and schedules\<close>

lemma rotr_rotr:
  fixes x :: "'a::len word"
  assumes "0 < n" and "n < LENGTH('a)"
  shows "drop_bit n x OR push_bit (LENGTH('a) - n) x = word_rotr n x"
proof (rule bit_word_eqI)
  fix k assume k: "k < LENGTH('a)"
  have "(k + n) mod LENGTH('a) = (if k + n < LENGTH('a) then k + n else k - (LENGTH('a) - n))"
    using assms k by (simp add: mod_if)
  moreover have "\<not> bit x (n + k)" if "LENGTH('a) \<le> n + k" using that bit_imp_le_length [of x "n + k"] by auto
  ultimately show "bit (drop_bit n x OR push_bit (LENGTH('a) - n) x) k = bit (word_rotr n x) k"
    using k assms by (auto simp: bit_word_rotr_iff bit_simps add.commute)
qed

lemma rotr32_word_rotr: "0 < n \<Longrightarrow> n < 32 \<Longrightarrow> rotr32 x n = word_rotr n x"
  using rotr_rotr [of n x] by (simp add: rotr32_def)

lemma rotr64_word_rotr: "0 < n \<Longrightarrow> n < 64 \<Longrightarrow> rotr64 x n = word_rotr n x"
  using rotr_rotr [of n x] by (simp add: rotr64_def)

lemma shift_in_byte:
  fixes x :: "'a::len word"
  shows "push_bit 8 x OR ucast (b :: u8) = 256 * x + ucast b"
proof -
  have "push_bit 8 x AND ucast b = 0"
    by (rule bit_word_eqI) (auto simp: bit_simps dest: bit_imp_le_length)
  then have "push_bit 8 x OR ucast b = push_bit 8 x + ucast b" by (rule disjunctive_add_eq_or [symmetric])
  then show ?thesis by (simp add: push_bit_eq_mult mult.commute)
qed

lemma word_rcat_fold: "(word_rcat bs :: 'a::len word) = fold (\<lambda>b x. push_bit 8 x OR ucast b) (bs :: bytes) 0"
proof (induction bs rule: rev_induct)
  case Nil
  then show ?case by (simp add: word_rcat_def)
next
  case (snoc b bs)
  have "(word_rcat (bs @ [b]) :: 'a word) = 256 * word_rcat bs + ucast b"
    by (simp add: word_rcat_def)
  then show ?case using snoc by (simp add: shift_in_byte)
qed
lemma take_drop_4: "k + 4 \<le> length xs \<Longrightarrow> take 4 (drop k xs) = [xs ! k, xs ! (k + 1), xs ! (k + 2), xs ! (k + 3)]"
 by (rule nth_equalityI) (auto simp: nth_Cons' less_Suc_eq numeral_eq_Suc)

lemma sha256_word_rcat:
  "length block = 64 \<Longrightarrow> t < 16 \<Longrightarrow> sha256_word block t = word_rcat (take 4 (drop (4 * t) block))"
  by (simp add: take_drop_4 word_rcat_fold sha256_word_def mult.commute push_bit_or ac_simps)

lemma sha512_word_rcat:
  assumes "length block = 128" and "t < 16" shows "sha512_word block t = word_rcat (take 8 (drop (8 * t) block))"
proof -
  have "take 8 (drop (8 * t) block) = map (\<lambda>j. block ! (t * 8 + j)) [0..<8]"
    using assms by (intro nth_equalityI) (auto simp: mult.commute)
  then show ?thesis by (simp add: word_rcat_fold sha512_word_def fold_map comp_def)
qed

lemma schedule_spec:
  assumes "\<And>i w. ext i w = w @ [w ! (i - 16) + s0 (w ! (i - 15)) + w ! (i - 7) + s1 (w ! (i - 2))]"
    and "length w0 = 16" and "\<And>t. t < 16 \<Longrightarrow> w0 ! t = M t" and "16 \<le> n"
  shows "length (fold ext [16..<n] w0) = n \<and> (\<forall>t<n. fold ext [16..<n] w0 ! t = fips_W s0 s1 M t)"
  using assms(4)
proof (induction n rule: nat_induct_at_least)
  case base
  then show ?case using assms(2,3) by (simp add: fips_W.simps)
next
  case (Suc n)
  have "fips_W s0 s1 M n = s1 (fips_W s0 s1 M (n - 2)) + fips_W s0 s1 M (n - 7) +
      s0 (fips_W s0 s1 M (n - 15)) + fips_W s0 s1 M (n - 16)"
    using Suc.hyps by (subst fips_W.simps) simp
  then show ?case
    using Suc assms(1) by (auto simp: nth_append less_Suc_eq ac_simps)
qed

lemma sha256_schedule_spec:
  assumes "length block = 64" and "t < 64"
  shows "sha256_schedule block ! t =
    fips_W (\<lambda>x. word_rotr 7 x XOR word_rotr 18 x XOR drop_bit 3 x)
      (\<lambda>x. word_rotr 17 x XOR word_rotr 19 x XOR drop_bit 10 x)
      (\<lambda>t. word_rcat (take 4 (drop (4 * t) block))) t"
proof -
  let ?s0 = "\<lambda>x. word_rotr 7 x XOR word_rotr 18 x XOR drop_bit 3 x"
  let ?s1 = "\<lambda>x. word_rotr 17 x XOR word_rotr 19 x XOR drop_bit 10 x"
  have ext: "sha256_extend i w = w @ [w ! (i - 16) + ?s0 (w ! (i - 15)) + w ! (i - 7) + ?s1 (w ! (i - 2))]" for i w
    by (simp add: sha256_extend_def rotr32_word_rotr Let_def)
  have w0: "map (sha256_word block) [0..<16] ! t = word_rcat (take 4 (drop (4 * t) block))" if "t < 16" for t
    using that sha256_word_rcat [OF assms(1) that] by (subst nth_map_upt) simp_all
  have l: "length (map (sha256_word block) [0..<16]) = 16" and le: "(16 :: nat) \<le> 64" by simp_all
  show ?thesis
    using schedule_spec [of sha256_extend ?s0 ?s1, OF ext l w0 le] assms(2) unfolding sha256_schedule_def by blast
qed

lemma sha512_schedule_spec:
  assumes "length block = 128" and "t < 80"
  shows "sha512_schedule block ! t =
    fips_W (\<lambda>x. word_rotr 1 x XOR word_rotr 8 x XOR drop_bit 7 x)
      (\<lambda>x. word_rotr 19 x XOR word_rotr 61 x XOR drop_bit 6 x)
      (\<lambda>t. word_rcat (take 8 (drop (8 * t) block))) t"
proof -
  let ?s0 = "\<lambda>x. word_rotr 1 x XOR word_rotr 8 x XOR drop_bit 7 x"
  let ?s1 = "\<lambda>x. word_rotr 19 x XOR word_rotr 61 x XOR drop_bit 6 x"
  have ext: "sha512_extend i w = w @ [w ! (i - 16) + ?s0 (w ! (i - 15)) + w ! (i - 7) + ?s1 (w ! (i - 2))]" for i w
    by (simp add: sha512_extend_def rotr64_word_rotr Let_def)
  have w0: "map (sha512_word block) [0..<16] ! t = word_rcat (take 8 (drop (8 * t) block))" if "t < 16" for t
    using that sha512_word_rcat [OF assms(1) that] by (subst nth_map_upt) simp_all
  have l: "length (map (sha512_word block) [0..<16]) = 16" and le: "(16 :: nat) \<le> 80" by simp_all
  show ?thesis
    using schedule_spec [of sha512_extend ?s0 ?s1, OF ext l w0 le] assms(2) unfolding sha512_schedule_def by blast
qed

section \<open>Compression\<close>

fun regs_list :: "'a \<times> 'a \<times> 'a \<times> 'a \<times> 'a \<times> 'a \<times> 'a \<times> 'a \<Rightarrow> 'a list" where
  "regs_list (a, b, c, d, e, f, g, h) = [a, b, c, d, e, f, g, h]"

lemma regs_cases: obtains a b c d e f g h where "r = (a, b, c, d, e, f, g, h)"
  by (metis surj_pair)

lemma list_of_8: "length xs = 8 \<Longrightarrow> xs = [xs ! 0, xs ! 1, xs ! 2, xs ! 3, xs ! 4, xs ! 5, xs ! 6, xs ! 7]"
  by (rule nth_equalityI) (auto simp: nth_Cons' less_Suc_eq numeral_eq_Suc)

lemma sha256_rounds:
  assumes "\<And>t. t < n \<Longrightarrow> w ! t = W t"
  shows "regs_list (fold (sha256_round w) [0..<n] r) =
    fold (fips_round (\<lambda>x. word_rotr 2 x XOR word_rotr 13 x XOR word_rotr 22 x)
      (\<lambda>x. word_rotr 6 x XOR word_rotr 11 x XOR word_rotr 25 x) ((!) K256) W) [0..<n] (regs_list r)"
  using assms
proof (induction n)
  case 0
  then show ?case by simp
next
  case (Suc n)
  obtain a b c d e f g h where r: "fold (sha256_round w) [0..<n] r = (a, b, c, d, e, f, g, h)"
    by (rule regs_cases)
  show ?case
    using Suc r by (simp flip: Suc.IH)
      (simp add: sha256_round_def fips_Ch_def fips_Maj_def rotr32_word_rotr Let_def)
qed

lemma sha512_rounds:
  assumes "\<And>t. t < n \<Longrightarrow> w ! t = W t"
  shows "regs_list (fold (sha512_round w) [0..<n] r) =
    fold (fips_round (\<lambda>x. word_rotr 28 x XOR word_rotr 34 x XOR word_rotr 39 x)
      (\<lambda>x. word_rotr 14 x XOR word_rotr 18 x XOR word_rotr 41 x) ((!) K512) W) [0..<n] (regs_list r)"
  using assms
proof (induction n)
  case 0
  then show ?case by simp
next
  case (Suc n)
  obtain a b c d e f g h where r: "fold (sha512_round w) [0..<n] r = (a, b, c, d, e, f, g, h)"
    by (rule regs_cases)
  show ?case
    using Suc r by (simp flip: Suc.IH)
      (simp add: sha512_round_def fips_Ch_def fips_Maj_def rotr64_word_rotr Let_def)
qed

lemma sha256_compress_fips:
  assumes "length st = 8" and "length block = 64"
  shows "sha256_compress st block = fips256_compress st block"
proof -
  let ?r = "(st ! 0, st ! 1, st ! 2, st ! 3, st ! 4, st ! 5, st ! 6, st ! 7)"
  obtain a b c d e f g h where r: "fold (sha256_round (sha256_schedule block)) [0..<64] ?r = (a, b, c, d, e, f, g, h)"
    by (rule regs_cases)
  have st: "regs_list ?r = st" using list_of_8 [OF assms(1)] by simp
  have "regs_list (fold (sha256_round (sha256_schedule block)) [0..<64] ?r) =
    fold (fips_round (\<lambda>x. word_rotr 2 x XOR word_rotr 13 x XOR word_rotr 22 x)
      (\<lambda>x. word_rotr 6 x XOR word_rotr 11 x XOR word_rotr 25 x) ((!) K256)
      (fips_W (\<lambda>x. word_rotr 7 x XOR word_rotr 18 x XOR drop_bit 3 x)
        (\<lambda>x. word_rotr 17 x XOR word_rotr 19 x XOR drop_bit 10 x)
        (\<lambda>t. word_rcat (take 4 (drop (4 * t) block))))) [0..<64] (regs_list ?r)"
    by (rule sha256_rounds) (rule sha256_schedule_spec [OF assms(2)])
  note rounds = this [unfolded st, unfolded r regs_list.simps]
  have "map2 (+) st [a, b, c, d, e, f, g, h] =
      [st ! 0 + a, st ! 1 + b, st ! 2 + c, st ! 3 + d, st ! 4 + e, st ! 5 + f, st ! 6 + g, st ! 7 + h]"
    by (subst list_of_8 [OF assms(1)]) simp
  moreover have "sha256_compress st block =
      [st ! 0 + a, st ! 1 + b, st ! 2 + c, st ! 3 + d, st ! 4 + e, st ! 5 + f, st ! 6 + g, st ! 7 + h]"
    by (simp only: sha256_compress_def r prod.case)
  moreover have "fips256_compress st block = map2 (+) st [a, b, c, d, e, f, g, h]"
    unfolding fips256_compress_def Let_def by (subst rounds) (rule refl)
  ultimately show ?thesis by simp
qed

lemma sha512_compress_fips:
  assumes "length st = 8" and "length block = 128"
  shows "sha512_compress st block = fips512_compress st block"
proof -
  let ?r = "(st ! 0, st ! 1, st ! 2, st ! 3, st ! 4, st ! 5, st ! 6, st ! 7)"
  obtain a b c d e f g h where r: "fold (sha512_round (sha512_schedule block)) [0..<80] ?r = (a, b, c, d, e, f, g, h)"
    by (rule regs_cases)
  have st: "regs_list ?r = st" using list_of_8 [OF assms(1)] by simp
  have "regs_list (fold (sha512_round (sha512_schedule block)) [0..<80] ?r) =
    fold (fips_round (\<lambda>x. word_rotr 28 x XOR word_rotr 34 x XOR word_rotr 39 x)
      (\<lambda>x. word_rotr 14 x XOR word_rotr 18 x XOR word_rotr 41 x) ((!) K512)
      (fips_W (\<lambda>x. word_rotr 1 x XOR word_rotr 8 x XOR drop_bit 7 x)
        (\<lambda>x. word_rotr 19 x XOR word_rotr 61 x XOR drop_bit 6 x)
        (\<lambda>t. word_rcat (take 8 (drop (8 * t) block))))) [0..<80] (regs_list ?r)"
    by (rule sha512_rounds) (rule sha512_schedule_spec [OF assms(2)])
  note rounds = this [unfolded st, unfolded r regs_list.simps]
  have "map2 (+) st [a, b, c, d, e, f, g, h] =
      [st ! 0 + a, st ! 1 + b, st ! 2 + c, st ! 3 + d, st ! 4 + e, st ! 5 + f, st ! 6 + g, st ! 7 + h]"
    by (subst list_of_8 [OF assms(1)]) simp
  moreover have "sha512_compress st block =
      [st ! 0 + a, st ! 1 + b, st ! 2 + c, st ! 3 + d, st ! 4 + e, st ! 5 + f, st ! 6 + g, st ! 7 + h]"
    by (simp only: sha512_compress_def r prod.case)
  moreover have "fips512_compress st block = map2 (+) st [a, b, c, d, e, f, g, h]"
    unfolding fips512_compress_def Let_def by (subst rounds) (rule refl)
  ultimately show ?thesis by simp
qed

lemma length_sha256_compress [simp]: "length (sha256_compress st block) = 8"
  by (simp add: sha256_compress_def split: prod.split)

lemma length_sha512_compress [simp]: "length (sha512_compress st block) = 8"
  by (simp add: sha512_compress_def split: prod.split)

section \<open>The whole hash\<close>

lemma foldl_blocks_cong:
  assumes "\<And>h b. length h = 8 \<Longrightarrow> length b = B \<Longrightarrow> f h b = g h b" and "\<And>h b. length (f h b) = (8 :: nat)"
    and "length h = 8" and "\<forall>b \<in> set bs. length b = B"
  shows "foldl f h bs = foldl g h bs"
  using assms(3,4)
proof (induction bs arbitrary: h)
  case Nil
  then show ?case by simp
next
  case (Cons b bs)
  then have e: "f h b = g h b" using assms(1) by simp
  have "foldl f (f h b) bs = foldl g (f h b) bs" by (rule Cons.IH) (use Cons.prems assms(2) in auto)
  then show ?case using e by simp
qed

lemma sha256_digest_word_bytes: "length st = 8 \<Longrightarrow> sha256_digest_bytes st = concat (map (word_bytes 4) st)"
proof -
  assume "length st = 8"
  then have "concat (map (word_bytes 4) st) = concat (map (word_bytes 4) (map ((!) st) [0..<8]))"
    by (simp only: take_map_upt_nth take_all order_refl)
  also have "\<dots> = sha256_digest_bytes st"
    by (simp add: sha256_digest_bytes_def word_bytes_def upt_rec)
  finally show "sha256_digest_bytes st = concat (map (word_bytes 4) st)" by simp
qed

lemma sha512_digest_word_bytes: "length st = 8 \<Longrightarrow> sha512_digest_bytes st = concat (map (word_bytes 8) st)"
proof -
  assume "length st = 8"
  then have "concat (map (word_bytes 8) st) = concat (map (word_bytes 8) (map ((!) st) [0..<8]))"
    by (simp only: take_map_upt_nth take_all order_refl)
  also have "\<dots> = sha512_digest_bytes st"
    by (simp add: sha512_digest_bytes_def word_bytes_def upt_rec)
  finally show "sha512_digest_bytes st = concat (map (word_bytes 8) st)" by simp
qed

lemma sha256_spec_fips: "sha256_spec msg = fips256 msg"
proof -
  let ?m = "msg @ md_padding 64 8 (length msg) @ be64_bytes (word_of_nat (8 * length msg))"
  have e: "foldl sha256_compress sha256_iv (slices 64 ?m) = foldl fips256_compress sha256_iv (slices 64 ?m)"
    by (rule foldl_blocks_cong [where B = 64]) (use sha256_compress_fips slices_length in \<open>auto simp: sha256_iv_def\<close>)
  have len: "length (foldl sha256_compress sha256_iv bs) = 8" for bs
    by (cases bs rule: rev_cases) (simp_all add: sha256_iv_def)
  show ?thesis
    unfolding sha256_spec_def fips256_def s256.blocks_slices e [symmetric] by (rule sha256_digest_word_bytes [OF len])
qed

lemma sha512_spec_fips: "sha512_spec msg = fips512 msg"
proof -
  let ?m = "msg @ md_padding 128 16 (length msg) @ be128_bytes (8 * length msg)"
  have e: "foldl sha512_compress sha512_iv (slices 128 ?m) = foldl fips512_compress sha512_iv (slices 128 ?m)"
    by (rule foldl_blocks_cong [where B = 128]) (use sha512_compress_fips slices_length in \<open>auto simp: sha512_iv_def\<close>)
  have len: "length (foldl sha512_compress sha512_iv bs) = 8" for bs
    by (cases bs rule: rev_cases) (simp_all add: sha512_iv_def)
  show ?thesis
    unfolding sha512_spec_def fips512_def s512.blocks_slices e [symmetric] by (rule sha512_digest_word_bytes [OF len])
qed

section \<open>Properties\<close>

text \<open>C12. SHA-256 as FIPS 180-4 has it, however the message is cut: initialising any context,
  updating it with any sequence of pieces and finishing writes the standard's digest of their
  concatenation and wipes the context.\<close>

theorem sha256_is_fips:
  assumes "length (s256_buffer raw) = 64" and "length out = 32"
  shows "vl_sha256_final (foldl (\<lambda>c p. vl_sha256_update c (Some p) (length p)) (vl_sha256_init (Some raw)) ps) (Some out) =
    (Some (fips256 (concat ps)), Some sha256_zero_ctx)"
proof -
  obtain c0 where c0: "vl_sha256_init (Some raw) = Some c0" by (simp add: vl_sha256_init_def)
  have "foldl (\<lambda>c p. vl_sha256_update c (Some p) (length p)) (Some c0) ps = Some (foldl sha256_absorb c0 ps)"
    by (induction ps arbitrary: c0) (simp_all add: vl_sha256_update_def)
  moreover have "sha256_rep (foldl sha256_absorb c0 ps) (concat ps)"
    by (induction ps rule: rev_induct) (use sha256_rep_init [OF assms(1) c0] sha256_rep_absorb in auto)
  ultimately show ?thesis
    using vl_sha256_final_rep [OF _ assms(2)] c0 by (simp add: sha256_spec_fips)
qed

lemma sha256_is_fips_witness:
  "vl_sha256_final (foldl (\<lambda>c p. vl_sha256_update c (Some p) (length p)) (vl_sha256_init (Some sha256_zero_ctx))
     [str_bytes ''ab'', [], str_bytes ''c'']) (Some (replicate 32 0)) =
   (Some (fips256 (str_bytes ''ab'' @ [] @ str_bytes ''c'' @ [])), Some sha256_zero_ctx)"
  using sha256_is_fips [of sha256_zero_ctx "replicate 32 0" "[str_bytes ''ab'', [], str_bytes ''c'']"]
  by (simp only: concat.simps) (simp add: sha256_zero_ctx_def)

text \<open>C13. SHA-512 as FIPS 180-4 has it, for every message shorter than 2^64 bytes and every way
  of cutting it into updates.\<close>

theorem sha512_is_fips:
  assumes "length (s512_buffer raw) = 128" and "length out = 64" and "length (concat ps) < 2 ^ 64"
  shows "vl_sha512_final (foldl (\<lambda>c p. vl_sha512_update c (Some p) (length p)) (vl_sha512_init (Some raw)) ps) (Some out) =
    (Some (fips512 (concat ps)), Some sha512_zero_ctx)"
proof -
  obtain c0 where c0: "vl_sha512_init (Some raw) = Some c0" by (simp add: vl_sha512_init_def)
  have "foldl (\<lambda>c p. vl_sha512_update c (Some p) (length p)) (Some c0) ps = Some (foldl sha512_absorb c0 ps)"
    by (induction ps arbitrary: c0) (simp_all add: vl_sha512_update_def)
  moreover have "sha512_rep (foldl sha512_absorb c0 ps) (concat ps)"
    by (induction ps rule: rev_induct) (use sha512_rep_init [OF assms(1) c0] sha512_rep_absorb in auto)
  ultimately show ?thesis
    using vl_sha512_final_rep [OF _ assms(3,2)] c0 by (simp add: sha512_spec_fips)
qed

lemma sha512_is_fips_witness:
  "vl_sha512_final (foldl (\<lambda>c p. vl_sha512_update c (Some p) (length p)) (vl_sha512_init (Some sha512_zero_ctx))
     [str_bytes ''ab'', [], str_bytes ''c'']) (Some (replicate 64 0)) =
   (Some (fips512 (str_bytes ''ab'' @ [] @ str_bytes ''c'' @ [])), Some sha512_zero_ctx)"
  using sha512_is_fips [of sha512_zero_ctx "replicate 64 0" "[str_bytes ''ab'', [], str_bytes ''c'']"]
  by (simp only: concat.simps) (simp add: sha512_zero_ctx_def)

text \<open>The tables of the code are the constants of the standard: the round constants are the
  first 32 and 64 bits of the fractional parts of the cube roots of the first 64 and 80 primes, the
  initial values those of the square roots of the first eight.\<close>

theorem sha_constants:
  "list_all2 (\<lambda>p w. root_frac 3 32 p (unat w)) (take 64 fips_primes) K256 \<and>
   list_all2 (\<lambda>p w. root_frac 3 64 p (unat w)) fips_primes K512 \<and>
   list_all2 (\<lambda>p w. root_frac 2 32 p (unat w)) (take 8 fips_primes) sha256_iv \<and>
   list_all2 (\<lambda>p w. root_frac 2 64 p (unat w)) (take 8 fips_primes) sha512_iv"
  using K256_roots K512_roots sha256_iv_roots sha512_iv_roots by blast

end
