(* ===== verification/VL_Chunk.thy ===== *)
theory VL_Chunk
  imports VL_Types
begin

text \<open>
  \<^verbatim>\<open>transport/vl_chunk.c\<close>: reassembly of a blob from numbered pieces. The state is the
  C struct with its 32-bit counters and its bitmap; the operations are the functions of the
  source, with the sequence arithmetic on \<open>32 word\<close>. The abstract view of a state is the
  partial map from sequence numbers to the pieces held; the refinement lemmas show that
  \<open>vl_chunk_feed\<close> is the first-copy-wins update of that map and that
  \<open>vl_chunk_complete\<close> succeeds exactly when the map is total on the message.
\<close>

section \<open>State and operations\<close>

definition VL_CHUNK_MAX_LEN :: nat where "VL_CHUNK_MAX_LEN = 192"
definition VL_CHUNK_BITMAP_LEN :: nat where "VL_CHUNK_BITMAP_LEN = (VL_CHUNK_MAX_LEN + 7) div 8"

record vl_chunk =
  c_buf :: bytes
  seen :: bytes
  chunk_size :: u32
  total_len :: u32
  expect :: u32
  have_cnt :: u32
  armed :: u8

definition zero_chunk :: vl_chunk where
  "zero_chunk = \<lparr>c_buf = replicate (VL_CHUNK_MAX_LEN + 1) 0, seen = replicate VL_CHUNK_BITMAP_LEN 0,
     chunk_size = 0, total_len = 0, expect = 0, have_cnt = 0, armed = 0\<rparr>"

text \<open>
  \<open>csize\<close> and \<open>tlen\<close> are \<^verbatim>\<open>size_t\<close> values; the check compares the value with
  its own truncation to 32 bits.
\<close>

definition vl_chunk_reset :: "vl_chunk option \<Rightarrow> nat \<Rightarrow> nat \<Rightarrow> vl_status \<times> vl_chunk option" where
  "vl_chunk_reset c csize tlen =
     (case c of None \<Rightarrow> (VL_ERR_INVALID_ARG, None)
      | Some _ \<Rightarrow>
          let c0 = zero_chunk; cs = (word_of_nat csize :: u32) in
          if cs = 0 \<or> unat cs \<noteq> csize then (VL_ERR_INVALID_ARG, Some c0)
          else if tlen = 0 \<or> tlen > VL_CHUNK_MAX_LEN then (VL_ERR_INVALID_ARG, Some c0)
          else (VL_OK, Some (c0\<lparr>chunk_size := cs, total_len := word_of_nat tlen,
                  expect := word_of_nat ((tlen - 1) div unat cs + 1), armed := 1\<rparr>)))"

text \<open>\<^verbatim>\<open>(uint8_t)(1u << n)\<close>\<close>

definition bit8 :: "nat \<Rightarrow> u8" where
  "bit8 n = ucast (push_bit n (1 :: u32))"

definition vl_chunk_feed ::
    "vl_chunk option \<Rightarrow> u32 \<Rightarrow> bytes option \<Rightarrow> nat \<Rightarrow> vl_status \<times> vl_chunk option" where
  "vl_chunk_feed c seq data len =
     (case c of None \<Rightarrow> (VL_ERR_INVALID_ARG, None)
      | Some c \<Rightarrow>
          if armed c = 0 then (VL_ERR_INVALID_ARG, Some c)
          else if data = None \<and> len \<noteq> 0 then (VL_ERR_INVALID_ARG, Some c)
          else if seq \<ge> expect c then (VL_ERR_BAD_FORMAT, Some c)
          else
            let off = seq * chunk_size c;
                want0 = total_len c - off;
                want = (if want0 > chunk_size c then chunk_size c else want0)
            in if len \<noteq> unat want then (VL_ERR_BAD_FORMAT, Some c)
            else
              let d = take len (case data of None \<Rightarrow> [] | Some d \<Rightarrow> d);
                  mask = bit8 (unat (seq AND 7));
                  byte = unat (drop_bit 3 seq)
              in if (seen c ! byte) AND mask \<noteq> 0 then
                   (if take len (drop (unat off) (c_buf c)) = d then VL_OK else VL_ERR_BAD_FORMAT, Some c)
                 else (VL_OK, Some (c\<lparr>c_buf := overlay (c_buf c) (unat off) d,
                         seen := (seen c)[byte := (seen c ! byte) OR mask],
                         have_cnt := have_cnt c + 1\<rparr>)))"

text \<open>Result: status, the caller's buffer and the value stored in \<^verbatim>\<open>*out_len\<close>.\<close>

definition vl_chunk_complete ::
    "vl_chunk option \<Rightarrow> bytes option \<Rightarrow> nat \<Rightarrow> nat option \<Rightarrow> vl_status \<times> bytes option \<times> nat option" where
  "vl_chunk_complete c out cap out_len =
     (case (c, out, out_len) of
        (Some c, Some buf, Some _) \<Rightarrow>
          if armed c = 0 then (VL_ERR_INVALID_ARG, out, Some 0)
          else if have_cnt c \<noteq> expect c then (VL_ERR_NOT_FOUND, out, Some 0)
          else if cap < unat (total_len c) + 1 then (VL_ERR_BUFFER_TOO_SMALL, out, Some 0)
          else
            let n = unat (total_len c)
            in (VL_OK, Some ((overlay buf 0 (take n (c_buf c)))[n := 0]), Some n)
      | _ \<Rightarrow> (VL_ERR_INVALID_ARG, out, out_len))"

section \<open>The abstract view\<close>

definition seen_bit :: "bytes \<Rightarrow> nat \<Rightarrow> bool" where
  "seen_bit s i = bit (s ! (i div 8)) (i mod 8)"

definition piece_off :: "vl_chunk \<Rightarrow> nat \<Rightarrow> nat" where
  "piece_off c i = i * unat (chunk_size c)"

definition piece_len :: "vl_chunk \<Rightarrow> nat \<Rightarrow> nat" where
  "piece_len c i = min (unat (chunk_size c)) (unat (total_len c) - piece_off c i)"

definition piece :: "vl_chunk \<Rightarrow> nat \<Rightarrow> bytes" where
  "piece c i = take (piece_len c i) (drop (piece_off c i) (c_buf c))"

definition pieces :: "vl_chunk \<Rightarrow> nat \<Rightarrow> bytes option" where
  "pieces c i = (if i < unat (expect c) \<and> seen_bit (seen c) i then Some (piece c i) else None)"

text \<open>
  The invariant of an armed state: the sizes are those a reset stored, and the counter is
  the number of bits set in the bitmap.
\<close>

definition chunk_inv :: "vl_chunk \<Rightarrow> bool" where
  "chunk_inv c \<longleftrightarrow>
     length (c_buf c) = VL_CHUNK_MAX_LEN + 1 \<and> length (seen c) = VL_CHUNK_BITMAP_LEN \<and>
     0 < unat (chunk_size c) \<and> 0 < unat (total_len c) \<and> unat (total_len c) \<le> VL_CHUNK_MAX_LEN \<and>
     unat (expect c) = (unat (total_len c) - 1) div unat (chunk_size c) + 1 \<and>
     unat (have_cnt c) = card {i. i < unat (expect c) \<and> seen_bit (seen c) i} \<and>
     armed c \<noteq> 0"

text \<open>What an abstract reassembly does with a piece: the first acceptable copy is kept.\<close>

definition map_feed :: "(nat \<Rightarrow> nat) \<Rightarrow> nat \<Rightarrow> (nat \<rightharpoonup> bytes) \<Rightarrow> nat \<Rightarrow> bytes \<Rightarrow> (nat \<rightharpoonup> bytes)" where
  "map_feed plen n m i d = (if i < n \<and> length d = plen i \<and> m i = None then m(i \<mapsto> d) else m)"

section \<open>Geometry of the pieces\<close>

lemma expect_bound: "chunk_inv c \<Longrightarrow> unat (expect c) \<le> VL_CHUNK_MAX_LEN"
proof -
  assume inv: "chunk_inv c"
  have "(unat (total_len c) - 1) div unat (chunk_size c) \<le> unat (total_len c) - 1"
    by (rule div_le_dividend)
  moreover have "unat (expect c) = (unat (total_len c) - 1) div unat (chunk_size c) + 1"
    "unat (total_len c) \<le> VL_CHUNK_MAX_LEN" "0 < unat (total_len c)"
    using inv unfolding chunk_inv_def by blast+
  ultimately show ?thesis by linarith
qed

lemma piece_off_less:
  assumes "chunk_inv c" and "i < unat (expect c)"
  shows "piece_off c i < unat (total_len c)"
proof -
  have "i \<le> (unat (total_len c) - 1) div unat (chunk_size c)"
    using assms by (simp add: chunk_inv_def)
  then have "i * unat (chunk_size c) \<le> unat (total_len c) - 1"
    by (metis mult_le_mono1 div_times_less_eq_dividend le_trans)
  moreover have "0 < unat (total_len c)" using assms unfolding chunk_inv_def by blast
  ultimately show ?thesis unfolding piece_off_def by linarith
qed

lemma piece_bounds:
  assumes "chunk_inv c" and "i < unat (expect c)"
  shows "0 < piece_len c i" and "piece_off c i + piece_len c i \<le> unat (total_len c)"
    and "length (piece c i) = piece_len c i"
  using piece_off_less [OF assms] assms(1) by (auto simp: piece_len_def piece_def chunk_inv_def)

lemma pieces_disjoint:
  assumes "i \<noteq> j"
  shows "piece_off c i + piece_len c i \<le> piece_off c j \<or> piece_off c j + unat (chunk_size c) \<le> piece_off c i"
proof (cases "i < j")
  case True
  then have "(i + 1) * unat (chunk_size c) \<le> j * unat (chunk_size c)" by (intro mult_le_mono1) simp
  then show ?thesis by (auto simp: piece_off_def piece_len_def)
next
  case False
  with assms have "(j + 1) * unat (chunk_size c) \<le> i * unat (chunk_size c)" by (intro mult_le_mono1) simp
  then show ?thesis by (auto simp: piece_off_def)
qed

text \<open>The 32-bit sequence arithmetic of the code does not wrap.\<close>

lemma feed_arith:
  assumes inv: "chunk_inv c" and seq: "seq < expect c"
  shows "unat (seq * chunk_size c) = piece_off c (unat seq)"
    and "unat (total_len c - seq * chunk_size c) = unat (total_len c) - piece_off c (unat seq)"
proof -
  have i: "unat seq < unat (expect c)" using seq by (simp add: word_less_nat_alt)
  have off: "piece_off c (unat seq) < unat (total_len c)" using piece_off_less [OF inv i] .
  have tl: "unat (total_len c) < 2 ^ 32" using unsigned_less [of "total_len c"] by simp
  show e: "unat (seq * chunk_size c) = piece_off c (unat seq)"
    using off tl by (simp add: unat_word_ariths piece_off_def)
  show "unat (total_len c - seq * chunk_size c) = unat (total_len c) - piece_off c (unat seq)"
    using off e by (subst unat_sub) (simp_all add: word_le_nat_alt)
qed

lemma feed_want:
  assumes inv: "chunk_inv c" and seq: "seq < expect c"
  shows "unat (if total_len c - seq * chunk_size c > chunk_size c then chunk_size c
     else total_len c - seq * chunk_size c) = piece_len c (unat seq)"
  using feed_arith [OF assms] by (auto simp: piece_len_def word_less_nat_alt)

section \<open>The bitmap\<close>

lemma and_7: "unat ((x :: u32) AND 7) = unat x mod 8"
proof -
  have "x AND 7 = take_bit 3 x" by (simp add: take_bit_eq_mask mask_eq_exp_minus_1)
  then show ?thesis by (simp add: take_bit_eq_mod unat_mod)
qed

lemma drop_3: "unat (drop_bit 3 (x :: u32)) = unat x div 8"
  by (simp add: drop_bit_eq_div unat_div)

lemma bit_mask_byte:
  "n < 8 \<Longrightarrow> bit (bit8 n) j \<longleftrightarrow> j = n"
  unfolding bit8_def
  by (auto simp: bit_ucast_iff bit_push_bit_iff bit_1_iff simp del: push_bit_of_1)

lemma and_mask_nonzero: "n < 8 \<Longrightarrow> (b AND bit8 n) \<noteq> 0 \<longleftrightarrow> bit b n"
proof -
  assume n: "n < 8"
  have "(b AND bit8 n) \<noteq> 0 \<longleftrightarrow> (\<exists>j. bit (b AND bit8 n) j)"
    using bit_eq_iff [of "b AND bit8 n" 0] by (auto dest: bit_imp_le_length)
  then show ?thesis using n by (simp add: bit_and_iff bit_mask_byte)
qed

lemma seen_bit_update:
  assumes "i div 8 < length s" and "j div 8 < length s"
  shows "seen_bit (s[i div 8 := s ! (i div 8) OR bit8 (i mod 8)]) j
    \<longleftrightarrow> j = i \<or> seen_bit s j"
proof -
  have "j = i \<longleftrightarrow> j div 8 = i div 8 \<and> j mod 8 = i mod 8"
    by (metis div_mult_mod_eq)
  then show ?thesis
    using assms by (auto simp: seen_bit_def nth_list_update bit_or_iff bit_mask_byte)
qed

lemma bitmap_index: "chunk_inv c \<Longrightarrow> i < unat (expect c) \<Longrightarrow> i div 8 < length (seen c)"
  using expect_bound [of c] by (simp add: chunk_inv_def VL_CHUNK_BITMAP_LEN_def VL_CHUNK_MAX_LEN_def)

section \<open>Feeding is the first-copy-wins update of the map\<close>

text \<open>The accepted case: the piece is stored and its bit set.\<close>

definition store_piece :: "vl_chunk \<Rightarrow> nat \<Rightarrow> bytes \<Rightarrow> vl_chunk" where
  "store_piece c i d =
     c\<lparr>c_buf := overlay (c_buf c) (piece_off c i) d,
       seen := (seen c)[i div 8 := (seen c ! (i div 8)) OR bit8 (i mod 8)],
       have_cnt := have_cnt c + 1\<rparr>"

lemma vl_chunk_feed_cases:
  assumes inv: "chunk_inv c" and len: "len \<le> length d"
  shows "vl_chunk_feed (Some c) seq (Some d) len =
    (let i = unat seq; p = take len d in
     if \<not> (i < unat (expect c) \<and> len = piece_len c i) then (VL_ERR_BAD_FORMAT, Some c)
     else case pieces c i of
         Some q \<Rightarrow> (if q = p then VL_OK else VL_ERR_BAD_FORMAT, Some c)
       | None \<Rightarrow> (VL_OK, Some (store_piece c i p)))"
proof (cases "seq < expect c")
  case False
  then show ?thesis
    using inv by (simp add: vl_chunk_feed_def chunk_inv_def word_less_nat_alt word_le_nat_alt Let_def)
next
  case True
  have bit: "((seen c ! unat (drop_bit 3 seq)) AND bit8 (unat (seq AND 7))) \<noteq> 0
      \<longleftrightarrow> seen_bit (seen c) (unat seq)"
    by (simp add: and_mask_nonzero and_7 drop_3 seen_bit_def)
  have i: "unat seq < unat (expect c)" using True by (simp add: word_less_nat_alt)
  have arm: "armed c \<noteq> 0" using inv by (simp add: chunk_inv_def)
  show ?thesis
  proof (cases "len = piece_len c (unat seq)")
    case False
    then show ?thesis
      using True i arm feed_want [OF inv True] by (simp add: vl_chunk_feed_def Let_def)
  next
    case len: True
    have "vl_chunk_feed (Some c) seq (Some d) len =
      (if seen_bit (seen c) (unat seq)
       then (if piece c (unat seq) = take len d then VL_OK else VL_ERR_BAD_FORMAT, Some c)
       else (VL_OK, Some (store_piece c (unat seq) (take len d))))"
      using True [unfolded not_le [symmetric]] arm feed_want [OF inv True] feed_arith(1) [OF inv True] bit len
      unfolding vl_chunk_feed_def Let_def
      by (simp add: store_piece_def piece_def and_7 drop_3)
    then show ?thesis using i len by (simp add: Let_def pieces_def)
  qed
qed

lemma store_piece_inv:
  assumes inv: "chunk_inv c" and i: "i < unat (expect c)" and d: "length d = piece_len c i"
    and new: "\<not> seen_bit (seen c) i"
  shows "chunk_inv (store_piece c i d)" and "pieces (store_piece c i d) = (pieces c)(i \<mapsto> d)"
proof -
  let ?c = "store_piece c i d"
  have fit: "piece_off c i + length d \<le> length (c_buf c)"
    using piece_bounds(2) [OF inv i] inv d by (simp add: chunk_inv_def)
  have bits: "seen_bit (seen ?c) j \<longleftrightarrow> j = i \<or> seen_bit (seen c) j" if "j < unat (expect c)" for j
    unfolding store_piece_def using bitmap_index [OF inv i] bitmap_index [OF inv that]
    by (simp add: seen_bit_update)
  have set: "{j. j < unat (expect c) \<and> seen_bit (seen ?c) j}
      = insert i {j. j < unat (expect c) \<and> seen_bit (seen c) j}"
    using i bits by auto
  have sub: "card {j. j < unat (expect c) \<and> seen_bit (seen c) j} < unat (expect c)"
    using i new psubset_card_mono [of "{..<unat (expect c)}" "{j. j < unat (expect c) \<and> seen_bit (seen c) j}"]
    by auto
  have cnt: "unat (have_cnt c + 1) = unat (have_cnt c) + 1"
    using sub inv expect_bound [OF inv] by (simp add: unat_word_ariths chunk_inv_def VL_CHUNK_MAX_LEN_def)
  have same: "chunk_size ?c = chunk_size c" "total_len ?c = total_len c" "expect ?c = expect c" "armed ?c = armed c"
    by (simp_all add: store_piece_def)
  have "unat (have_cnt ?c) = card {j. j < unat (expect c) \<and> seen_bit (seen ?c) j}"
    unfolding set using inv new cnt by (simp add: store_piece_def chunk_inv_def)
  then show "chunk_inv ?c"
    using inv fit by (simp add: chunk_inv_def same) (simp add: store_piece_def)
  have own: "piece ?c i = d"
    using fit d by (simp add: piece_def piece_len_def piece_off_def store_piece_def overlay_def)
  have other: "piece ?c j = piece c j" if j: "j < unat (expect c)" "j \<noteq> i" for j
  proof -
    have "piece_off c j + piece_len c j \<le> length (c_buf c)"
      using piece_bounds(2) [OF inv j(1)] inv by (simp add: chunk_inv_def)
    moreover have "piece_off c j + piece_len c j \<le> piece_off c i \<or> piece_off c i + length d \<le> piece_off c j"
      using pieces_disjoint [OF j(2), of c] pieces_disjoint [of i j c] j(2) d
      by (auto simp: piece_len_def)
    ultimately show ?thesis using fit
      by (intro nth_equalityI)
         (auto simp: piece_def piece_len_def piece_off_def store_piece_def nth_overlay)
  qed
  show "pieces ?c = (pieces c)(i \<mapsto> d)"
    using own other bits i by (auto simp: pieces_def same fun_eq_iff)
qed

text \<open>
  The refinement: a feed of well-formed arguments changes the map exactly as \<open>map_feed\<close>
  says, keeps the invariant and the geometry, and reports whether the map now holds the
  piece that was offered.
\<close>

definition geometry :: "vl_chunk \<Rightarrow> u32 \<times> u32 \<times> u32" where
  "geometry c = (chunk_size c, total_len c, expect c)"

lemma geometry_store [simp]: "geometry (store_piece c i d) = geometry c"
  by (simp add: geometry_def store_piece_def)

lemma vl_chunk_feed_refines:
  assumes inv: "chunk_inv c" and len: "len \<le> length d"
    and feed: "vl_chunk_feed (Some c) seq (Some d) len = (st, Some c')"
  shows "chunk_inv c'" and "geometry c' = geometry c"
    and "pieces c' = map_feed (piece_len c) (unat (expect c)) (pieces c) (unat seq) (take len d)"
    and "st = (if pieces c' (unat seq) = Some (take len d) then VL_OK else VL_ERR_BAD_FORMAT)"
proof -
  let ?i = "unat seq" and ?p = "take len d"
  have lp: "length ?p = len" using len by simp
  consider (bad) "\<not> (?i < unat (expect c) \<and> len = piece_len c ?i)"
    | (held) q where "?i < unat (expect c)" "len = piece_len c ?i" "pieces c ?i = Some q"
    | (new) "?i < unat (expect c)" "len = piece_len c ?i" "pieces c ?i = None"
    by (cases "pieces c ?i") auto
  then have "chunk_inv c' \<and> geometry c' = geometry c \<and>
      pieces c' = map_feed (piece_len c) (unat (expect c)) (pieces c) ?i ?p \<and>
      st = (if pieces c' ?i = Some ?p then VL_OK else VL_ERR_BAD_FORMAT)"
  proof cases
    case bad
    have no: "pieces c ?i \<noteq> Some ?p"
      using bad lp piece_bounds(3) [OF inv, of ?i] by (auto simp: pieces_def)
    from bad have "st = VL_ERR_BAD_FORMAT" "c' = c"
      using feed vl_chunk_feed_cases [OF inv len, of seq] by (auto simp: Let_def split: if_splits)
    with bad inv no lp show ?thesis by (auto simp: map_feed_def)
  next
    case held
    then have "c' = c" "st = (if q = ?p then VL_OK else VL_ERR_BAD_FORMAT)"
      using feed vl_chunk_feed_cases [OF inv len, of seq] by (auto simp: Let_def split: if_splits)
    with held inv show ?thesis by (auto simp: map_feed_def)
  next
    case new
    then have c': "c' = store_piece c ?i ?p" "st = VL_OK"
      using feed vl_chunk_feed_cases [OF inv len, of seq] by (auto simp: Let_def)
    have "\<not> seen_bit (seen c) ?i" using new by (auto simp: pieces_def)
    from store_piece_inv [OF inv new(1) _ this, of ?p] new lp c' show ?thesis
      by (simp add: map_feed_def)
  qed
  then show "chunk_inv c'" and "geometry c' = geometry c"
    and "pieces c' = map_feed (piece_len c) (unat (expect c)) (pieces c) ?i ?p"
    and "st = (if pieces c' ?i = Some ?p then VL_OK else VL_ERR_BAD_FORMAT)"
    by simp_all
qed

lemma vl_chunk_feed_Some: "\<exists>st c'. vl_chunk_feed (Some c) seq d len = (st, Some c')"
  by (auto simp: vl_chunk_feed_def Let_def)

section \<open>Reset and completion\<close>

lemma len32_less: "unat (x :: u32) < 2 ^ 32"
  using unsigned_less [of x, where 'a = nat] by simp

lemma vl_chunk_reset_ok:
  assumes "0 < cs" and "cs < 2 ^ 32" and "0 < n" and "n \<le> VL_CHUNK_MAX_LEN"
  shows "\<exists>c'. vl_chunk_reset (Some c) cs n = (VL_OK, Some c') \<and> chunk_inv c' \<and>
    pieces c' = Map.empty \<and> unat (chunk_size c') = cs \<and> unat (total_len c') = n"
proof -
  have cs: "unat (word_of_nat cs :: u32) = cs" using assms(2) by (simp add: unat_of_nat)
  have nz: "(word_of_nat cs :: u32) \<noteq> 0" using cs assms(1) by auto
  have n: "unat (word_of_nat n :: u32) = n"
    using assms(4) by (simp add: unat_of_nat VL_CHUNK_MAX_LEN_def)
  have le: "(n - 1) div cs \<le> n - 1" by (rule div_le_dividend)
  have ex: "unat (word_of_nat ((n - 1) div cs + 1) :: u32) = (n - 1) div cs + 1"
  proof -
    have "(n - 1) div cs + 1 \<le> 192" using le assms(3,4) unfolding VL_CHUNK_MAX_LEN_def by linarith
    then have "(n - 1) div cs + 1 < 2 ^ 32" by simp
    then show ?thesis unfolding unat_of_nat by (intro mod_less) simp
  qed
  have none: "\<not> seen_bit (replicate VL_CHUNK_BITMAP_LEN 0) i" if "i < (n - 1) div cs + 1" for i
  proof -
    have "i < 192" using that le assms(3,4) unfolding VL_CHUNK_MAX_LEN_def by linarith
    then have "i div 8 < VL_CHUNK_BITMAP_LEN"
      by (simp add: VL_CHUNK_BITMAP_LEN_def VL_CHUNK_MAX_LEN_def)
    then show ?thesis by (simp add: seen_bit_def)
  qed
  let ?c = "zero_chunk\<lparr>chunk_size := word_of_nat cs, total_len := word_of_nat n,
    expect := word_of_nat ((n - 1) div cs + 1), armed := 1\<rparr>"
  have "{i. i < (n - 1) div cs + 1 \<and> seen_bit (replicate VL_CHUNK_BITMAP_LEN 0) i} = {}"
    using none by blast
  then have "chunk_inv ?c"
    using assms cs n ex by (simp add: chunk_inv_def zero_chunk_def)
  moreover have "pieces ?c = Map.empty"
    using none ex by (auto simp: pieces_def zero_chunk_def fun_eq_iff)
  moreover have "vl_chunk_reset (Some c) cs n = (VL_OK, Some ?c)"
    using assms cs nz by (simp add: vl_chunk_reset_def Let_def)
  ultimately show ?thesis using cs n by simp
qed

lemma vl_chunk_reset_bad:
  "\<not> (0 < cs \<and> cs < 2 ^ 32 \<and> 0 < n \<and> n \<le> VL_CHUNK_MAX_LEN) \<Longrightarrow>
   vl_chunk_reset (Some c) cs n = (VL_ERR_INVALID_ARG, Some zero_chunk)"
proof -
  assume bad: "\<not> (0 < cs \<and> cs < 2 ^ 32 \<and> 0 < n \<and> n \<le> VL_CHUNK_MAX_LEN)"
  have "unat (word_of_nat cs :: u32) = cs \<Longrightarrow> cs < 2 ^ 32"
    by (metis len32_less)
  with bad show ?thesis by (auto simp: vl_chunk_reset_def Let_def)
qed

text \<open>The pieces of a buffer, in order, are its prefix.\<close>

lemma concat_slices:
  "concat (map (\<lambda>i. take (min cs (n - i * cs)) (drop (i * cs) xs)) [0..<k]) = take (min (k * cs) n) xs"
proof (induction k)
  case 0
  then show ?case by simp
next
  case (Suc k)
  have "take (min (k * cs) n) xs @ take (min cs (n - k * cs)) (drop (k * cs) xs)
      = take (min (Suc k * cs) n) xs"
  proof (cases "k * cs \<le> n")
    case True
    have "min (Suc k * cs) n = k * cs + min cs (n - k * cs)" using True by (auto simp: min_def)
    then show ?thesis using True by (simp add: take_add min_absorb1)
  next
    case False
    then show ?thesis by (simp add: min_def)
  qed
  with Suc show ?case by simp
qed

lemma pieces_total_iff:
  assumes "chunk_inv c"
  shows "have_cnt c = expect c \<longleftrightarrow> (\<forall>i<unat (expect c). pieces c i \<noteq> None)"
proof -
  let ?S = "{i. i < unat (expect c) \<and> seen_bit (seen c) i}"
  have "have_cnt c = expect c \<longleftrightarrow> card ?S = card {..<unat (expect c)}"
    using assms by (simp add: chunk_inv_def word_unat_eq_iff)
  also have "\<dots> \<longleftrightarrow> ?S = {..<unat (expect c)}"
  proof
    assume "card ?S = card {..<unat (expect c)}"
    then show "?S = {..<unat (expect c)}" by (intro card_subset_eq) auto
  qed simp
  also have "\<dots> \<longleftrightarrow> (\<forall>i<unat (expect c). pieces c i \<noteq> None)"
    by (auto simp: pieces_def)
  finally show ?thesis .
qed

lemma message_is_pieces:
  assumes "chunk_inv c" and "\<forall>i<unat (expect c). pieces c i \<noteq> None"
  shows "take (unat (total_len c)) (c_buf c) = concat (map (\<lambda>i. the (pieces c i)) [0..<unat (expect c)])"
proof -
  let ?n = "unat (total_len c)" and ?cs = "unat (chunk_size c)" and ?k = "unat (expect c)"
  have "?n \<le> ?k * ?cs"
  proof -
    have "(?n - 1) < ((?n - 1) div ?cs + 1) * ?cs"
      using assms(1) by (simp add: chunk_inv_def dividend_less_div_times)
    then show ?thesis using assms(1) by (simp add: chunk_inv_def)
  qed
  then have "take ?n (c_buf c) = concat (map (piece c) [0..<?k])"
    using concat_slices [of ?cs ?n "c_buf c" ?k]
    by (simp add: piece_def [abs_def] piece_len_def piece_off_def min_absorb2)
  also have "map (piece c) [0..<?k] = map (\<lambda>i. the (pieces c i)) [0..<?k]"
    using assms(2) by (auto simp: pieces_def split: if_splits)
  finally show ?thesis .
qed

lemma vl_chunk_complete_cases:
  assumes inv: "chunk_inv c" and cap: "cap \<le> length buf"
  shows "vl_chunk_complete (Some c) (Some buf) cap (Some z) =
    (let n = unat (total_len c) in
     if \<not> (\<forall>i<unat (expect c). pieces c i \<noteq> None) then (VL_ERR_NOT_FOUND, Some buf, Some 0)
     else if cap < n + 1 then (VL_ERR_BUFFER_TOO_SMALL, Some buf, Some 0)
     else (VL_OK, Some (concat (map (\<lambda>i. the (pieces c i)) [0..<unat (expect c)]) @ 0 # drop (n + 1) buf),
       Some n))"
proof -
  let ?n = "unat (total_len c)"
  have len: "length (take ?n (c_buf c)) = ?n" using inv by (simp add: chunk_inv_def)
  have "(overlay buf 0 (take ?n (c_buf c)))[?n := 0] = take ?n (c_buf c) @ 0 # drop (?n + 1) buf"
    if "?n + 1 \<le> cap"
    using that cap len by (simp add: overlay_def list_update_append upd_conv_take_nth_drop drop_Suc tl_drop)
  moreover have "armed c \<noteq> 0" using inv by (simp add: chunk_inv_def)
  ultimately show ?thesis
    using pieces_total_iff [OF inv] message_is_pieces [OF inv]
    by (auto simp: vl_chunk_complete_def Let_def)
qed

section \<open>Deliveries\<close>

text \<open>A link delivers pieces in any order, any number of times, some of them corrupt.\<close>

fun deliver :: "vl_chunk \<Rightarrow> (u32 \<times> bytes) list \<Rightarrow> vl_chunk" where
  "deliver c [] = c"
| "deliver c ((q, d) # xs) =
     deliver (case snd (vl_chunk_feed (Some c) q (Some d) (length d)) of Some c' \<Rightarrow> c' | None \<Rightarrow> c) xs"

definition first_copy :: "(nat \<Rightarrow> nat) \<Rightarrow> (u32 \<times> bytes) list \<Rightarrow> nat \<Rightarrow> bytes option" where
  "first_copy plen xs i = map_option snd (find (\<lambda>(q, d). unat q = i \<and> length d = plen i) xs)"

lemma geometry_piece_len: "geometry c' = geometry c \<Longrightarrow> piece_len c' = piece_len c \<and> expect c' = expect c"
  by (auto simp: geometry_def piece_len_def piece_off_def fun_eq_iff)

lemma deliver_pieces:
  assumes "chunk_inv c"
  shows "chunk_inv (deliver c xs) \<and> geometry (deliver c xs) = geometry c \<and>
    (\<forall>i<unat (expect c). pieces (deliver c xs) i =
       (case pieces c i of Some p \<Rightarrow> Some p | None \<Rightarrow> first_copy (piece_len c) xs i))"
  using assms
proof (induction xs arbitrary: c)
  case Nil
  then show ?case by (auto simp: first_copy_def split: option.splits)
next
  case (Cons x xs)
  obtain q d where x: "x = (q, d)" by (cases x)
  obtain st c' where feed: "vl_chunk_feed (Some c) q (Some d) (length d) = (st, Some c')"
    using vl_chunk_feed_Some by blast
  note step = vl_chunk_feed_refines [OF Cons.prems order_refl feed]
  have geo: "piece_len c' = piece_len c" "expect c' = expect c"
    using geometry_piece_len [OF step(2)] by simp_all
  have run: "deliver c (x # xs) = deliver c' xs" using feed by (simp add: x)
  have IH: "chunk_inv (deliver c' xs) \<and> geometry (deliver c' xs) = geometry c' \<and>
    (\<forall>i<unat (expect c). pieces (deliver c' xs) i =
       (case pieces c' i of Some p \<Rightarrow> Some p | None \<Rightarrow> first_copy (piece_len c) xs i))"
    using Cons.IH [OF step(1)] unfolding geo by simp
  then show ?case
    unfolding run by (auto simp: step(2,3) map_feed_def first_copy_def x split: option.splits)
qed

section \<open>Properties\<close>

text \<open>C20. Feeding one piece is the first-copy-wins update of the map of pieces held: the
  invariant and the geometry are kept, a piece with a sequence number or a length out of place
  changes nothing, a second copy changes nothing, and the status is \<open>VL_OK\<close> exactly when
  the map now holds the piece that was offered.\<close>

theorem chunk_feed_refines:
  assumes "chunk_inv c" and "len \<le> length d"
  shows "\<exists>st c'. vl_chunk_feed (Some c) seq (Some d) len = (st, Some c') \<and>
    chunk_inv c' \<and> geometry c' = geometry c \<and>
    pieces c' = map_feed (piece_len c) (unat (expect c)) (pieces c) (unat seq) (take len d) \<and>
    st = (if pieces c' (unat seq) = Some (take len d) then VL_OK else VL_ERR_BAD_FORMAT)"
proof -
  obtain st c' where f: "vl_chunk_feed (Some c) seq (Some d) len = (st, Some c')"
    using vl_chunk_feed_Some by blast
  show ?thesis using vl_chunk_feed_refines [OF assms f] f by blast
qed

definition chunk_demo :: vl_chunk where
  "chunk_demo = zero_chunk\<lparr>chunk_size := 3, total_len := 7, expect := 3, armed := 1\<rparr>"

lemma chunk_demo_reset: "vl_chunk_reset (Some zero_chunk) 3 7 = (VL_OK, Some chunk_demo)"
  by (simp add: vl_chunk_reset_def chunk_demo_def VL_CHUNK_MAX_LEN_def Let_def)

lemma chunk_demo_inv: "chunk_inv chunk_demo"
  using vl_chunk_reset_ok [of 3 7 zero_chunk] chunk_demo_reset by (simp add: VL_CHUNK_MAX_LEN_def)

lemma chunk_feed_refines_witness:
  "\<exists>st c'. vl_chunk_feed (Some chunk_demo) 2 (Some [9]) 1 = (st, Some c') \<and>
    chunk_inv c' \<and> geometry c' = geometry chunk_demo \<and>
    pieces c' = map_feed (piece_len chunk_demo) (unat (expect chunk_demo)) (pieces chunk_demo) (unat (2 :: u32)) (take 1 [9]) \<and>
    st = (if pieces c' (unat (2 :: u32)) = Some (take 1 [9]) then VL_OK else VL_ERR_BAD_FORMAT)"
  using chunk_feed_refines [OF chunk_demo_inv, of 1 "[9]" 2] by (simp only: list.size One_nat_def order_refl add_0_right add_0 plus_nat.simps simp_thms)

text \<open>C19. A message cut into pieces comes back whole: after a reset for its length, if the
  first well-sized copy of every piece the link delivered is the right slice, then whatever the
  order, the duplicates, the strays and the later corrupt copies, completion returns the message
  with a terminating NUL and its length.\<close>

theorem chunk_reassembles:
  assumes reset: "vl_chunk_reset (Some c0) cs n = (VL_OK, Some c)"
    and cap: "n + 1 \<le> cap" "cap \<le> length buf"
    and len: "length m = n" and cs: "0 < cs" "cs < 2 ^ 32" "0 < n" "n \<le> VL_CHUNK_MAX_LEN"
    and all: "\<forall>i < (n - 1) div cs + 1.
      first_copy (\<lambda>i. min cs (n - i * cs)) xs i = Some (take cs (drop (i * cs) m))"
  shows "vl_chunk_complete (Some (deliver c xs)) (Some buf) cap (Some z) =
    (VL_OK, Some (m @ 0 # drop (n + 1) buf), Some n)"
proof -
  have c: "chunk_inv c" "pieces c = Map.empty" "unat (chunk_size c) = cs" "unat (total_len c) = n"
    using vl_chunk_reset_ok [OF cs, of c0] reset by auto
  have k: "unat (expect c) = (n - 1) div cs + 1" using c by (simp add: chunk_inv_def)
  let ?d = "deliver c xs"
  have d: "chunk_inv ?d" "geometry ?d = geometry c"
    "\<And>i. i < unat (expect c) \<Longrightarrow> pieces ?d i = first_copy (piece_len c) xs i"
    using deliver_pieces [OF c(1), of xs] c(2) by auto
  have gd: "expect ?d = expect c" "total_len ?d = total_len c" using d(2) by (simp_all add: geometry_def)
  have pl: "piece_len c = (\<lambda>i. min cs (n - i * cs))"
    using c by (simp add: piece_len_def piece_off_def fun_eq_iff)
  have held: "pieces ?d i = Some (take cs (drop (i * cs) m))" if "i < unat (expect c)" for i
    using d(3) [OF that] all that k pl by simp
  have slice: "take cs (drop (i * cs) m) = take (min cs (n - i * cs)) (drop (i * cs) m)" for i
    using len by (simp add: min_def)
  have "n \<le> ((n - 1) div cs + 1) * cs"
    using cs dividend_less_div_times [of cs "n - 1"] by simp
  then have "concat (map (\<lambda>i. take (min cs (n - i * cs)) (drop (i * cs) m)) [0..<unat (expect c)]) = m"
    unfolding concat_slices k using len by (simp only: min_absorb2 take_all_iff)
  moreover have "map (\<lambda>i. the (pieces ?d i)) [0..<unat (expect c)]
      = map (\<lambda>i. take (min cs (n - i * cs)) (drop (i * cs) m)) [0..<unat (expect c)]"
    by (rule map_cong) (use held slice in auto)
  ultimately have "concat (map (\<lambda>i. the (pieces ?d i)) [0..<unat (expect c)]) = m" by (simp only:)
  then show ?thesis
    using vl_chunk_complete_cases [OF d(1) cap(2), of z] held cap(1)
    by (simp add: gd c(4) Let_def)
qed

lemma chunk_reassembles_witness:
  "vl_chunk_complete (Some (deliver chunk_demo [(2, [7]), (9, [1]), (0, [1, 2, 3]), (1, [4, 5]), (1, [4, 5, 6]), (0, [0, 0, 0])]))
     (Some (replicate 8 0xFF)) 8 (Some 0) = (VL_OK, Some ([1, 2, 3, 4, 5, 6, 7] @ 0 # drop (7 + 1) (replicate 8 0xFF)), Some 7)"
proof (rule chunk_reassembles [OF chunk_demo_reset])
  show "\<forall>i < (7 - 1) div 3 + 1.
      first_copy (\<lambda>i. min 3 (7 - i * 3)) [(2, [7]), (9, [1]), (0, [1, 2, 3]), (1, [4, 5]), (1, [4, 5, 6]), (0, [0, 0, 0])] i =
      Some (take 3 (drop (i * 3) [1, 2, 3, 4, 5, 6, 7]))"
  proof (intro allI impI)
    fix i :: nat assume "i < (7 - 1) div 3 + 1"
    then consider "i = 0" | "i = 1" | "i = 2" by fastforce
    then show "first_copy (\<lambda>i. min 3 (7 - i * 3)) [(2, [7]), (9, [1]), (0, [1, 2, 3]), (1, [4, 5]), (1, [4, 5, 6]), (0, [0, 0, 0])] i =
      Some (take 3 (drop (i * 3) [1, 2, 3, 4, 5, 6, 7]))"
      by cases (simp_all add: first_copy_def)
  qed
qed (simp_all add: VL_CHUNK_MAX_LEN_def)

text \<open>C21. Completion fails closed: after any deliveries it succeeds only when every piece has
  been delivered, and then returns exactly the first well-sized copies in order; otherwise it
  reports \<open>VL_ERR_NOT_FOUND\<close> or a buffer that is too small, with length 0 and the
  caller's buffer untouched.\<close>

theorem chunk_complete_fails_closed:
  assumes reset: "vl_chunk_reset (Some c0) cs n = (VL_OK, Some c)" and cap: "cap \<le> length buf"
  shows "vl_chunk_complete (Some (deliver c xs)) (Some buf) cap (Some z) =
    (let k = (n - 1) div cs + 1; got = first_copy (\<lambda>i. min cs (n - i * cs)) xs in
     if \<exists>i<k. got i = None then (VL_ERR_NOT_FOUND, Some buf, Some 0)
     else if cap < n + 1 then (VL_ERR_BUFFER_TOO_SMALL, Some buf, Some 0)
     else (VL_OK, Some (concat (map (\<lambda>i. the (got i)) [0..<k]) @ 0 # drop (n + 1) buf), Some n))"
proof -
  have cs: "0 < cs" "cs < 2 ^ 32" "0 < n" "n \<le> VL_CHUNK_MAX_LEN"
    using vl_chunk_reset_bad [of cs n c0] reset by (metis vl_status.distinct(1) prod.inject)+
  have c: "chunk_inv c" "pieces c = Map.empty" "unat (chunk_size c) = cs" "unat (total_len c) = n"
    using vl_chunk_reset_ok [OF cs, of c0] reset by auto
  let ?d = "deliver c xs" and ?k = "(n - 1) div cs + 1"
  have k: "unat (expect c) = ?k" using c by (simp add: chunk_inv_def)
  have pl: "piece_len c = (\<lambda>i. min cs (n - i * cs))"
    using c by (simp add: piece_len_def piece_off_def fun_eq_iff)
  have d: "chunk_inv ?d" "geometry ?d = geometry c"
    "\<And>i. i < ?k \<Longrightarrow> pieces ?d i = first_copy (\<lambda>i. min cs (n - i * cs)) xs i"
    using deliver_pieces [OF c(1), of xs] c(2) k pl by auto
  have gd: "unat (expect ?d) = ?k" "unat (total_len ?d) = n" using d(2) k c(4) by (simp_all add: geometry_def)
  have m: "map (\<lambda>i. the (pieces ?d i)) [0..<?k] = map (\<lambda>i. the (first_copy (\<lambda>i. min cs (n - i * cs)) xs i)) [0..<?k]"
    by (rule map_cong) (use d(3) in auto)
  have iff: "(\<forall>i<?k. pieces ?d i \<noteq> None) \<longleftrightarrow> \<not> (\<exists>i<?k. first_copy (\<lambda>i. min cs (n - i * cs)) xs i = None)"
    using d(3) by auto
  show ?thesis
    using vl_chunk_complete_cases [OF d(1) cap, of z] unfolding gd m iff Let_def by (simp only: not_not)
qed

lemma chunk_complete_fails_closed_witness:
  "vl_chunk_complete (Some (deliver chunk_demo [(2, [7]), (0, [1, 2, 3])])) (Some [5, 5]) 2 (Some 4) =
    (VL_ERR_NOT_FOUND, Some [5, 5], Some 0)"
proof -
  have "\<exists>i<(7 - 1) div 3 + 1. first_copy (\<lambda>i. min 3 (7 - i * 3)) [(2, [7]), (0, [1, 2, 3])] i = None"
    by (rule exI [of _ 1]) (simp add: first_copy_def)
  then show ?thesis
    using chunk_complete_fails_closed [OF chunk_demo_reset, of 2 "[5, 5]" "[(2, [7]), (0, [1, 2, 3])]" 4]
    by (simp only: Let_def if_True list.size numeral_2_eq_2 One_nat_def plus_nat.simps order_refl simp_thms)
qed

end
