(* ===== verification/VL_Field_Correct.thy ===== *)
theory VL_Field_Correct
  imports VL_Field
begin

text \<open>
  The limb arithmetic computes in GF(p), \<open>p = 2^255 - 19\<close>: \<open>gval\<close> is the integer a
  list of limbs stands for, \<open>gf_ok\<close> the bound every operand of the group formulas keeps,
  \<open>gf_red\<close> the tighter one a product comes back with. Every operation is related to the
  residue of its value, and packing to the canonical little-endian encoding of that residue.
\<close>

section \<open>The value of a limb list\<close>

definition p25519 :: int where "p25519 = 2 ^ 255 - 19"

primrec gval :: "int list \<Rightarrow> int" where
  "gval [] = 0"
| "gval (x # xs) = x + 65536 * gval xs"

lemma gval_append: "gval (xs @ ys) = gval xs + 65536 ^ length xs * gval ys"
  by (induction xs) (simp_all add: algebra_simps)

lemma gval_update: "i < length xs \<Longrightarrow> gval (xs[i := v]) = gval xs + (v - xs ! i) * 65536 ^ i"
proof (induction xs arbitrary: i)
  case Nil
  then show ?case by simp
next
  case (Cons x xs)
  show ?case
  proof (cases i)
    case 0
    then show ?thesis by simp
  next
    case (Suc k)
    then have "gval (xs[k := v]) = gval xs + (v - xs ! k) * 65536 ^ k" using Cons by simp
    then show ?thesis by (simp add: Suc algebra_simps)
  qed
qed

lemma gval_replicate_0 [simp]: "gval (replicate n 0) = 0"
  by (induction n) simp_all

definition limbs_in :: "int \<Rightarrow> int \<Rightarrow> int list \<Rightarrow> bool" where
  "limbs_in l u xs \<longleftrightarrow> (\<forall>x \<in> set xs. l \<le> x \<and> x \<le> u)"

lemma limbs_in_nth: "limbs_in l u xs \<longleftrightarrow> (\<forall>i < length xs. l \<le> xs ! i \<and> xs ! i \<le> u)"
  by (auto simp: limbs_in_def set_conv_nth)

lemma limbs_in_Cons [simp]: "limbs_in l u (x # xs) \<longleftrightarrow> l \<le> x \<and> x \<le> u \<and> limbs_in l u xs"
  by (auto simp: limbs_in_def)

lemma limbs_in_Nil [simp]: "limbs_in l u []"
  by (simp add: limbs_in_def)

lemma limbs_in_append [simp]: "limbs_in l u (xs @ ys) \<longleftrightarrow> limbs_in l u xs \<and> limbs_in l u ys"
  by (auto simp: limbs_in_def)

lemma limbs_in_take: "limbs_in l u xs \<Longrightarrow> limbs_in l u (take k xs)"
  unfolding limbs_in_def by (meson in_set_takeD)

lemma gval_bounds: "limbs_in l u xs \<Longrightarrow> l * (65536 ^ length xs - 1) \<le> 65535 * gval xs \<and> 65535 * gval xs \<le> u * (65536 ^ length xs - 1)"
  by (induction xs) (auto simp: algebra_simps)

lemma gval_digits:
  assumes "limbs_in 0 65535 xs"
  shows "0 \<le> gval xs \<and> gval xs < 65536 ^ length xs"
  using gval_bounds [OF assms] by auto

lemma int_div_mod_unique:
  fixes v r m q :: int
  assumes "v = r + m * q" and "0 \<le> r" and "r < m"
  shows "v div m = q" and "v mod m = r"
  using assms by (simp_all add: div_pos_pos_trivial)

lemma mult_div_mod_split: "(k :: int) * h = k * (h mod b) + (k * b) * (h div b)"
proof -
  have "k * h = k * (b * (h div b) + h mod b)" by simp
  then show ?thesis by (simp only: algebra_simps)
qed

section \<open>Carry\<close>

lemma length_car_step [simp]: "length (car_step i xs) = length xs"
  by (simp add: car_step_def Let_def)

text \<open>One step moves the excess of limb \<open>i\<close> up; from the last limb it wraps with weight 38.\<close>

lemma car_step_low:
  assumes "length xs = 16" and "i < 15"
  shows "car_step i xs = xs[i := xs ! i mod 65536, Suc i := xs ! Suc i + xs ! i div 65536]"
proof -
  have "(xs ! i + 65536) div 65536 = xs ! i div 65536 + 1" by simp
  moreover have "xs ! i + 65536 - (xs ! i div 65536 + 1) * 65536 = xs ! i mod 65536"
    by (simp add: algebra_simps flip: minus_mult_div_eq_mod)
  ultimately show ?thesis
    using assms by (auto simp: car_step_def Let_def list_eq_iff_nth_eq nth_list_update)
qed

lemma car_step_top:
  assumes "length xs = 16"
  shows "car_step 15 xs = xs[15 := xs ! 15 mod 65536, 0 := xs ! 0 + 38 * (xs ! 15 div 65536)]"
proof -
  have "(xs ! 15 + 65536) div 65536 = xs ! 15 div 65536 + 1" by simp
  moreover have "xs ! 15 + 65536 - (xs ! 15 div 65536 + 1) * 65536 = xs ! 15 mod 65536"
    by (simp add: algebra_simps flip: minus_mult_div_eq_mod)
  ultimately show ?thesis
    using assms by (auto simp: car_step_def Let_def list_eq_iff_nth_eq nth_list_update)
qed

definition carried :: "int list \<Rightarrow> nat \<Rightarrow> int list \<Rightarrow> bool" where
  "carried a i xs \<longleftrightarrow> length xs = 16 \<and> gval xs = gval a \<and> limbs_in 0 65535 (take i xs)"

lemma carried_step:
  assumes "carried a i xs" and "i < 15"
  shows "carried a (Suc i) (car_step i xs)"
proof -
  have len: "length xs = 16" using assms(1) by (simp add: carried_def)
  have "gval (car_step i xs) = gval xs + (xs ! i mod 65536 - xs ! i) * 65536 ^ i + (xs ! i div 65536) * 65536 ^ Suc i"
    using assms(2) len by (simp add: car_step_low gval_update)
  also have "\<dots> = gval xs"
    by (simp add: algebra_simps minus_mult_div_eq_mod [symmetric])
  finally show ?thesis
    using assms len by (simp add: carried_def car_step_low take_Suc_update)
qed

lemma carried_15:
  assumes "length a = 16"
  shows "carried a 15 (fold car_step [0..<15] a)"
  by (rule fold_invariant_upt [where P = "carried a"])
    (use assms in \<open>auto simp: carried_step\<close>, simp add: carried_def)

text \<open>
  A whole pass: limbs 1 to 15 and the untouched part of limb 0 are the digits of the value
  modulo 2^256; its quotient is added to limb 0 with weight 38.
\<close>

lemma car25519_spec:
  assumes "length a = 16"
  shows "\<exists>ys. length ys = 16 \<and> limbs_in 0 65535 ys \<and> gval ys = gval a mod 2 ^ 256 \<and>
    car25519 a = ys[0 := ys ! 0 + 38 * (gval a div 2 ^ 256)]"
proof -
  let ?xs = "fold car_step [0..<15] a"
  have c: "length ?xs = 16" "gval ?xs = gval a" "limbs_in 0 65535 (take 15 ?xs)"
    using carried_15 [OF assms] by (simp_all add: carried_def)
  let ?h = "?xs ! 15"
  let ?ys = "?xs[15 := ?h mod 65536]"
  have split: "?xs = take 15 ?xs @ [?h]" using c(1) take_Suc_conv_app_nth [of 15 ?xs] by simp
  have g: "gval a = gval (take 15 ?xs) + 65536 ^ 15 * ?h"
    using c(1,2) gval_append [of "take 15 ?xs" "[?h]"] split by simp
  have low: "0 \<le> gval (take 15 ?xs)" "gval (take 15 ?xs) < 65536 ^ 15"
    using gval_digits [OF c(3)] c(1) by simp_all
  have ys: "?ys = take 15 ?xs @ [?h mod 65536]" using c(1) by (subst split) (simp add: list_update_append)
  have gy: "gval ?ys = gval (take 15 ?xs) + 65536 ^ 15 * (?h mod 65536)"
    unfolding ys using c(1) by (simp add: gval_append)
  have d: "limbs_in 0 65535 ?ys" unfolding ys using c(3) by (auto simp: limbs_in_def)
  then have rng: "0 \<le> gval ?ys" "gval ?ys < 2 ^ 256" using gval_digits [of ?ys] c(1) by simp_all
  have "gval a = gval ?ys + 2 ^ 256 * (?h div 65536)"
  proof -
    have "(65536 :: int) ^ 15 * 65536 = 2 ^ 256" by simp
    then show ?thesis unfolding gy g using mult_div_mod_split [of "65536 ^ 15" ?h 65536] by (simp only: ac_simps)
  qed
  note q = int_div_mod_unique [OF this rng]
  have "[0..<16] = [0..<15] @ [15 :: nat]" using upt_Suc_append [of 0 15] by simp
  then have "car25519 a = car_step 15 ?xs" by (simp only: car25519_def fold_append fold.simps comp_def id_apply)
  also have "\<dots> = ?ys[0 := ?ys ! 0 + 38 * (gval a div 2 ^ 256)]"
    using c(1) q(1) by (simp add: car_step_top)
  finally show ?thesis using c(1) d q(2) by (intro exI [of _ ?ys]) simp
qed

lemma length_car25519 [simp]: "length (car25519 a) = length a"
proof -
  have "length (fold car_step is xs) = length xs" for "is" xs by (induction "is" arbitrary: xs) simp_all
  then show ?thesis by (simp add: car25519_def)
qed

lemma car25519_gval:
  assumes "length a = 16"
  shows "gval (car25519 a) = gval a mod 2 ^ 256 + 38 * (gval a div 2 ^ 256)"
    and "gval (car25519 a) mod p25519 = gval a mod p25519"
    and "limbs_in 0 65535 (tl (car25519 a))"
    and "0 \<le> hd (car25519 a) - 38 * (gval a div 2 ^ 256) \<and> hd (car25519 a) - 38 * (gval a div 2 ^ 256) \<le> 65535"
proof -
  obtain ys where ys: "length ys = 16" "limbs_in 0 65535 ys" "gval ys = gval a mod 2 ^ 256"
    "car25519 a = ys[0 := ys ! 0 + 38 * (gval a div 2 ^ 256)]"
    using car25519_spec [OF assms] by blast
  show eq: "gval (car25519 a) = gval a mod 2 ^ 256 + 38 * (gval a div 2 ^ 256)"
    using ys by (simp add: gval_update)
  have "gval (car25519 a) = gval a - 2 * p25519 * (gval a div 2 ^ 256)"
    unfolding eq p25519_def by (simp add: algebra_simps minus_mult_div_eq_mod [symmetric])
  then show "gval (car25519 a) mod p25519 = gval a mod p25519"
    by (simp add: mod_diff_eq flip: mod_diff_right_eq)
  obtain y zs where "ys = y # zs" using ys(1) by (cases ys) auto
  then show "limbs_in 0 65535 (tl (car25519 a))"
    and "0 \<le> hd (car25519 a) - 38 * (gval a div 2 ^ 256) \<and> hd (car25519 a) - 38 * (gval a div 2 ^ 256) \<le> 65535"
    using ys by simp_all
qed


section \<open>Bounds\<close>

definition gf_ok :: "gf \<Rightarrow> bool" where
  "gf_ok a \<longleftrightarrow> length a = 16 \<and> limbs_in (- 262144) 262144 a"

definition gf_red :: "gf \<Rightarrow> bool" where
  "gf_red a \<longleftrightarrow> length a = 16 \<and> limbs_in (- 38) 65573 a"

lemma limbs_in_weaken: "limbs_in l u xs \<Longrightarrow> l' \<le> l \<Longrightarrow> u \<le> u' \<Longrightarrow> limbs_in l' u' xs"
  unfolding limbs_in_def by fastforce

lemma gf_red_ok: "gf_red a \<Longrightarrow> gf_ok a"
  unfolding gf_red_def gf_ok_def by (auto intro: limbs_in_weaken)

lemma gf_ok_length: "gf_ok a \<Longrightarrow> length a = 16"
  by (simp add: gf_ok_def)

lemma int_div_ge: "0 < m \<Longrightarrow> k * m \<le> v \<Longrightarrow> k \<le> v div (m :: int)"
  using zdiv_mono1 [of "k * m" v m] by simp

lemma int_div_le: "0 < m \<Longrightarrow> v < (k + 1) * m \<Longrightarrow> v div m \<le> (k :: int)"
proof (rule ccontr)
  assume m: "0 < m" "v < (k + 1) * m" and "\<not> v div m \<le> k"
  then have "(k + 1) * m \<le> v div m * m" by (intro mult_right_mono) simp_all
  also have "\<dots> \<le> v" using m(1) by (simp add: minus_mod_eq_div_mult [symmetric])
  finally show False using m(2) by simp
qed

lemma div_256_bounds:
  fixes v b :: int
  assumes "- b * (65536 ^ 16 - 1) \<le> 65535 * v" and "65535 * v \<le> b * (65536 ^ 16 - 1)" and "0 \<le> b" and "b \<le> 65535 * k"
  shows "- k \<le> v div 2 ^ 256" and "v div 2 ^ 256 \<le> k"
proof -
  have "b * (65536 ^ 16 - 1) \<le> 65535 * k * (65536 ^ 16 - 1)" by (rule mult_right_mono) (use assms(4) in simp_all)
  then have "65535 * v \<le> 65535 * (k * (65536 ^ 16 - 1))" "65535 * (- k * (65536 ^ 16 - 1)) \<le> 65535 * v"
    using assms(1,2) by linarith+
  then have "v \<le> k * (65536 ^ 16 - 1)" "- k * (65536 ^ 16 - 1) \<le> v" by simp_all
  moreover have "0 \<le> k" using assms(3,4) by linarith
  ultimately have "v < (k + 1) * 2 ^ 256" "- k * 2 ^ 256 \<le> v" by (simp_all add: algebra_simps)
  then show "- k \<le> v div 2 ^ 256" and "v div 2 ^ 256 \<le> k"
    by (auto intro: int_div_ge int_div_le)
qed


lemma car_div_bounds:
  assumes "length a = 16" and "limbs_in (- b) b a" and "0 \<le> b" and "b \<le> 65535 * k"
  shows "- k \<le> gval a div 2 ^ 256" and "gval a div 2 ^ 256 \<le> k"
  using gval_bounds [OF assms(2)] div_256_bounds [of b "gval a" k] assms by simp_all

text \<open>
  Two passes bring any limbs of less than 62 bits into the reduced range: the first quotient
  is too small to move the value by another multiple of 2^256.
\<close>

lemma car_twice:
  assumes a: "length a = 16" "limbs_in (- (2 ^ 62)) (2 ^ 62) a"
  shows "gf_red (car25519 (car25519 a))" and "gval (car25519 (car25519 a)) mod p25519 = gval a mod p25519"
proof -
  let ?a1 = "car25519 a" and ?q = "gval a div 2 ^ 256"
  have q: "- (2 ^ 47) \<le> ?q" "?q \<le> 2 ^ 47" using car_div_bounds [OF a, of "2 ^ 47"] by simp_all
  have v: "gval ?a1 = gval a mod 2 ^ 256 + 38 * ?q" using car25519_gval(1) [OF a(1)] .
  have r: "0 \<le> gval a mod 2 ^ 256" "gval a mod 2 ^ 256 < 2 ^ 256" by simp_all
  have "- 1 * 2 ^ 256 \<le> gval ?a1" "gval ?a1 < (1 + 1) * 2 ^ 256" unfolding v using q r by simp_all
  then have q1: "- 1 \<le> gval ?a1 div 2 ^ 256" "gval ?a1 div 2 ^ 256 \<le> 1"
    by (intro int_div_ge int_div_le; simp)+
  have len: "length ?a1 = 16" using a(1) by simp
  note c = car25519_gval(3,4) [OF len]
  obtain x xs where xs: "car25519 ?a1 = x # xs" using len by (cases "car25519 ?a1") (auto dest: arg_cong [where f = length])
  have x: "- 38 \<le> x" "x \<le> 65573" and y: "limbs_in 0 65535 xs" using c q1 unfolding xs by simp_all
  have "limbs_in (- 38) 65573 xs" by (rule limbs_in_weaken [OF y]) simp_all
  moreover have "length (x # xs) = 16" using len by (simp flip: xs)
  ultimately show "gf_red (car25519 ?a1)" using x by (simp add: gf_red_def xs)
  show "gval (car25519 ?a1) mod p25519 = gval a mod p25519"
    using car25519_gval(2) [OF len] car25519_gval(2) [OF a(1)] by simp
qed

section \<open>Addition, subtraction and multiplication\<close>

lemma gval_map2:
  "length a = n \<Longrightarrow> length b = n \<Longrightarrow> gval (map (\<lambda>i. a ! i + c * b ! i) [0..<n]) = gval a + c * gval b"
proof (induction n arbitrary: a b)
  case 0
  then show ?case by simp
next
  case (Suc n)
  obtain x xs y ys where ab: "a = x # xs" "b = y # ys" using Suc.prems by (metis length_Suc_conv)
  have "map (\<lambda>i. a ! i + c * b ! i) [0..<Suc n] = (x + c * y) # map (\<lambda>i. xs ! i + c * ys ! i) [0..<n]"
    unfolding ab by (simp add: upt_conv_Cons map_Suc_upt [symmetric] del: upt_Suc)
  then show ?case using Suc ab by (simp add: algebra_simps)
qed

lemma fA_gval: "length a = 16 \<Longrightarrow> length b = 16 \<Longrightarrow> gval (fA a b) = gval a + gval b"
  using gval_map2 [of a 16 b 1] by (simp add: fA_def)

lemma fZ_gval: "length a = 16 \<Longrightarrow> length b = 16 \<Longrightarrow> gval (fZ a b) = gval a - gval b"
  using gval_map2 [of a 16 b "-1"] by (simp add: fZ_def)

lemma set25519_id [simp]: "length a = 16 \<Longrightarrow> set25519 a = a"
  by (simp add: set25519_def take_map_upt_nth)

lemma length_fA [simp]: "length (fA a b) = 16" and length_fZ [simp]: "length (fZ a b) = 16"
  by (simp_all add: fA_def fZ_def)

lemma limbs_in_fA: "length a = 16 \<Longrightarrow> length b = 16 \<Longrightarrow> limbs_in l u a \<Longrightarrow> limbs_in l' u' b \<Longrightarrow> limbs_in (l + l') (u + u') (fA a b)"
  unfolding limbs_in_nth by (force simp: fA_def intro: add_mono)

lemma limbs_in_fZ: "length a = 16 \<Longrightarrow> length b = 16 \<Longrightarrow> limbs_in l u a \<Longrightarrow> limbs_in l' u' b \<Longrightarrow> limbs_in (l - u') (u - l') (fZ a b)"
  unfolding limbs_in_nth by (force simp: fZ_def intro: diff_mono)

text \<open>One row of the schoolbook product.\<close>

lemma row_prefix:
  fixes x :: int
  assumes "i + n \<le> length t"
  shows "length (fold (\<lambda>j t. t[i + j := t ! (i + j) + x * b ! j]) [0..<n] t) = length t \<and>
    (\<forall>k < length t. fold (\<lambda>j t. t[i + j := t ! (i + j) + x * b ! j]) [0..<n] t ! k =
       t ! k + (if i \<le> k \<and> k < i + n then x * b ! (k - i) else 0))"
  using assms
proof (induction n)
  case 0
  then show ?case by auto
next
  case (Suc n)
  then show ?case by (auto simp: nth_list_update less_Suc_eq)
qed

lemma row_gval:
  assumes "i + n \<le> length t" and "n \<le> length b"
  shows "gval (fold (\<lambda>j t. t[i + j := t ! (i + j) + x * b ! j]) [0..<n] t) = gval t + x * 65536 ^ i * gval (take n b)"
  using assms
proof (induction n)
  case 0
  then show ?case by simp
next
  case (Suc n)
  let ?t = "fold (\<lambda>j t. t[i + j := t ! (i + j) + x * b ! j]) [0..<n] t"
  have len: "length ?t = length t" using row_prefix [of i n t x b] Suc.prems by simp
  have tk: "take (Suc n) b = take n b @ [b ! n]" using Suc.prems by (simp add: take_Suc_conv_app_nth)
  have "gval (fold (\<lambda>j t. t[i + j := t ! (i + j) + x * b ! j]) [0..<Suc n] t) = gval ?t + x * b ! n * 65536 ^ (i + n)"
    using Suc.prems len by (simp add: gval_update)
  also have "\<dots> = gval t + x * 65536 ^ i * gval (take (Suc n) b)"
    using Suc unfolding tk by (simp add: gval_append power_add algebra_simps)
  finally show ?case .
qed

definition rows :: "gf \<Rightarrow> gf \<Rightarrow> nat \<Rightarrow> int list" where
  "rows a b n = fold (mul_row a b) [0..<n] (replicate 31 0)"

lemma rows_spec:
  assumes "length a = 16" and "length b = 16" and "n \<le> 16"
    and "limbs_in (- c) c a" and "limbs_in (- d) d b" and "0 \<le> c" and "0 \<le> d"
  shows "length (rows a b n) = 31 \<and> gval (rows a b n) = gval (take n a) * gval b \<and>
    limbs_in (- (int n * (c * d))) (int n * (c * d)) (rows a b n)"
  using assms(3)
proof (induction n)
  case 0
  then show ?case by (simp add: rows_def limbs_in_def)
next
  case (Suc n)
  let ?t = "rows a b n"
  have t: "length ?t = 31" "gval ?t = gval (take n a) * gval b" "limbs_in (- (int n * (c * d))) (int n * (c * d)) ?t"
    using Suc by simp_all
  have step: "rows a b (Suc n) = mul_row a b n ?t" by (simp add: rows_def)
  have tk: "take (Suc n) a = take n a @ [a ! n]" using Suc.prems assms(1) by (simp add: take_Suc_conv_app_nth)
  have g: "gval (mul_row a b n ?t) = gval (take (Suc n) a) * gval b"
    using row_gval [of n 16 ?t b "a ! n"] Suc.prems t assms(1,2) unfolding tk mul_row_def
    by (simp add: gval_append algebra_simps)
  have nth: "mul_row a b n ?t ! k = ?t ! k + (if n \<le> k \<and> k < n + 16 then a ! n * b ! (k - n) else 0)" if "k < 31" for k :: nat
    using row_prefix [of n 16 ?t "a ! n" b] Suc.prems t(1) that by (simp add: mul_row_def)
  have prod: "\<bar>a ! n * b ! j\<bar> \<le> c * d" if "j < 16" for j
  proof -
    have "- c \<le> a ! n \<and> a ! n \<le> c" using assms(1,4) Suc.prems by (simp add: limbs_in_nth)
    then have "\<bar>a ! n\<bar> \<le> c" by linarith
    moreover have "- d \<le> b ! j \<and> b ! j \<le> d" using assms(2,5) that by (simp add: limbs_in_nth)
    then have "\<bar>b ! j\<bar> \<le> d" by linarith
    ultimately show ?thesis using assms(6) by (simp add: abs_mult mult_mono)
  qed
  have len: "length (mul_row a b n ?t) = 31" using row_prefix [of n 16 ?t "a ! n" b] Suc.prems t(1) by (simp add: mul_row_def)
  have "limbs_in (- (int (Suc n) * (c * d))) (int (Suc n) * (c * d)) (mul_row a b n ?t)"
    unfolding limbs_in_nth len
  proof (intro allI impI)
    fix k :: nat assume k: "k < 31"
    have "- (int n * (c * d)) \<le> ?t ! k \<and> ?t ! k \<le> int n * (c * d)" using t(1,3) k by (simp add: limbs_in_nth)
    moreover have "0 \<le> c * d" using assms(6,7) by simp
    moreover have "int (Suc n) * (c * d) = int n * (c * d) + c * d" by (simp add: algebra_simps)
    moreover have "\<bar>if n \<le> k \<and> k < n + 16 then a ! n * b ! (k - n) else 0\<bar> \<le> c * d"
      using prod [of "k - n"] \<open>0 \<le> c * d\<close> less_diff_conv2 [of n k 16] by (simp add: add.commute)
    ultimately show "- (int (Suc n) * (c * d)) \<le> mul_row a b n ?t ! k \<and> mul_row a b n ?t ! k \<le> int (Suc n) * (c * d)"
      using nth [OF k] by linarith
  qed
  then show ?case using g len step by simp
qed

text \<open>The fold of the upper half onto the lower with weight 38.\<close>

lemma fold_top:
  assumes "length t = 31" and "n \<le> 15"
  shows "length (fold (\<lambda>i t. t[i := t ! i + 38 * t ! (i + 16)]) [0..<n] t) = 31 \<and>
    (\<forall>k < 31. fold (\<lambda>i t. t[i := t ! i + 38 * t ! (i + 16)]) [0..<n] t ! k =
       (if k < n then t ! k + 38 * t ! (k + 16) else t ! k))"
  using assms(2)
proof (induction n)
  case 0
  then show ?case using assms(1) by simp
next
  case (Suc n)
  then show ?case by (auto simp: nth_list_update less_Suc_eq)
qed

definition folded :: "int list \<Rightarrow> int list" where
  "folded t = map (\<lambda>i. fold (\<lambda>i t. t[i := t ! i + 38 * t ! (i + 16)]) [0..<15] t ! i) [0..<16]"

lemma folded_nth: "length t = 31 \<Longrightarrow> i < 16 \<Longrightarrow> folded t ! i = t ! i + 38 * (drop 16 t @ [0]) ! i"
  using fold_top [of t 15] by (auto simp: folded_def nth_append add.commute)

lemma folded_gval:
  assumes "length t = 31"
  shows "gval (folded t) mod p25519 = gval t mod p25519"
proof -
  have "folded t = map (\<lambda>i. take 16 t ! i + 38 * (drop 16 t @ [0]) ! i) [0..<16]"
  proof (rule nth_equalityI)
    fix i assume "i < length (folded t)"
    then have "i < 16" by (simp add: folded_def)
    then show "folded t ! i = map (\<lambda>i. take 16 t ! i + 38 * (drop 16 t @ [0]) ! i) [0..<16] ! i"
      using folded_nth [OF assms] by simp
  qed (simp add: folded_def)
  then have "gval (folded t) = gval (take 16 t) + 38 * gval (drop 16 t)"
    using gval_map2 [of "take 16 t" 16 "drop 16 t @ [0]" 38] assms by (simp add: gval_append)
  moreover have "gval t = gval (take 16 t) + 65536 ^ 16 * gval (drop 16 t)"
    using gval_append [of "take 16 t" "drop 16 t"] assms by simp
  ultimately have "gval t = gval (folded t) + p25519 * (2 * gval (drop 16 t))"
    by (simp add: p25519_def algebra_simps)
  then show ?thesis by simp
qed

lemma fM_unfold: "fM a b = car25519 (car25519 (folded (rows a b 16)))"
  by (simp add: fM_def folded_def rows_def Let_def)

lemma fM_limbs:
  assumes "gf_ok a" and "gf_ok b"
  shows "length (folded (rows a b 16)) = 16" and "limbs_in (- (2 ^ 62)) (2 ^ 62) (folded (rows a b 16))"
proof -
  let ?t = "rows a b 16"
  have r: "length ?t = 31" "limbs_in (- (2 ^ 40)) (2 ^ 40) ?t"
    using rows_spec [of a b 16 262144 262144] assms by (simp_all add: gf_ok_def)
  show "length (folded ?t) = 16" by (simp add: folded_def)
  have "- (2 ^ 62) \<le> folded ?t ! i \<and> folded ?t ! i \<le> 2 ^ 62" if "i < 16" for i
  proof -
    have "- (2 ^ 40) \<le> ?t ! i \<and> ?t ! i \<le> 2 ^ 40" using r that by (simp add: limbs_in_nth)
    moreover have "- (2 ^ 40) \<le> (drop 16 ?t @ [0]) ! i \<and> (drop 16 ?t @ [0]) ! i \<le> 2 ^ 40"
      using r that by (auto simp: limbs_in_nth nth_append)
    ultimately show ?thesis unfolding folded_nth [OF r(1) that] by simp
  qed
  then show "limbs_in (- (2 ^ 62)) (2 ^ 62) (folded ?t)" unfolding limbs_in_nth by (simp add: folded_def)
qed

lemma fM_gval:
  assumes "gf_ok a" and "gf_ok b"
  shows "gval (fM a b) mod p25519 = gval a * gval b mod p25519" and "gf_red (fM a b)"
proof -
  have r: "length (rows a b 16) = 31" "gval (rows a b 16) = gval a * gval b"
    using rows_spec [of a b 16 262144 262144] assms by (simp_all add: gf_ok_def)
  show "gval (fM a b) mod p25519 = gval a * gval b mod p25519"
    unfolding fM_unfold using car_twice(2) [OF fM_limbs [OF assms]] folded_gval [OF r(1)] r(2) by simp
  show "gf_red (fM a b)" unfolding fM_unfold by (rule car_twice(1) [OF fM_limbs [OF assms]])
qed


section \<open>Selection\<close>

lemma sel25519_0: "length p = length q \<Longrightarrow> sel25519 p q 0 = (p, q)"
  by (auto simp: sel25519_def sel_limb_def list_eq_iff_nth_eq)

lemma sel25519_1: "length p = length q \<Longrightarrow> sel25519 p q 1 = (q, p)"
proof -
  have x: "x XOR (x XOR y) = y" "y XOR (x XOR y) = x" for x y :: int
    by (auto simp: bit_eq_iff bit_xor_iff)
  assume "length p = length q"
  then show ?thesis by (auto simp: sel25519_def sel_limb_def list_eq_iff_nth_eq x)
qed

section \<open>Packing\<close>

primrec le_val :: "bytes \<Rightarrow> int" where
  "le_val [] = 0"
| "le_val (b # bs) = uint b + 256 * le_val bs"

lemma uint_less_256: "0 \<le> uint (b :: u8) \<and> uint b < 256"
  using unsigned_less [of b, where 'a = int] by simp

lemma le_val_bounds: "0 \<le> le_val bs \<and> le_val bs < 256 ^ length bs"
proof (induction bs)
  case Nil
  then show ?case by simp
next
  case (Cons b bs)
  then have "le_val bs + 1 \<le> 256 ^ length bs" by linarith
  then show ?case using Cons uint_less_256 [of b] by simp
qed

lemma le_val_inj: "length xs = length ys \<Longrightarrow> le_val xs = le_val ys \<Longrightarrow> xs = ys"
proof (induction xs arbitrary: ys)
  case Nil
  then show ?case by simp
next
  case (Cons x xs)
  then obtain y zs where ys: "ys = y # zs" by (cases ys) auto
  have e: "uint x + 256 * le_val xs = uint y + 256 * le_val zs" using Cons.prems ys by simp
  then have "(uint x + 256 * le_val xs) mod 256 = (uint y + 256 * le_val zs) mod 256" by simp
  then have "uint x = uint y" using uint_less_256 [of x] uint_less_256 [of y] by simp
  then have "x = y" by (simp add: word_uint_eq_iff)
  then show ?case using e Cons ys by simp
qed

lemma le_val_append: "le_val (xs @ ys) = le_val xs + 256 ^ length xs * le_val ys"
  by (induction xs) (simp_all add: algebra_simps)

lemma and_mask8: "(x :: int) AND 0xff = x mod 256"
proof -
  have "x AND 0xff = take_bit 8 x" by (simp add: take_bit_eq_mask mask_eq_exp_minus_1)
  then show ?thesis by (simp add: take_bit_eq_mod)
qed

lemma and_mask16: "(x :: int) AND 0xffff = x mod 65536"
proof -
  have "x AND 0xffff = take_bit 16 x" by (simp add: take_bit_eq_mask mask_eq_exp_minus_1)
  then show ?thesis by (simp add: take_bit_eq_mod)
qed

lemma le_val_pack_bytes:
  assumes "length t = 16" and "limbs_in 0 65535 t"
  shows "le_val (pack_bytes t) = gval t" and "length (pack_bytes t) = 32"
proof -
  let ?f = "\<lambda>x. [word_of_int (x AND 0xff), word_of_int (x div 256) :: u8]"
  have "pack_bytes t = concat (map ?f (map ((!) t) [0..<16]))" by (simp add: pack_bytes_def comp_def)
  then have p: "pack_bytes t = concat (map ?f t)" using assms(1) by (simp add: take_map_upt_nth)
  have limb: "le_val (?f x) = x" if "0 \<le> x" "x \<le> 65535" for x
  proof -
    have "uint (word_of_int (x mod 256) :: u8) = x mod 256" by (simp add: uint_word_of_int)
    moreover have "uint (word_of_int (x div 256) :: u8) = x div 256"
      using that by (simp add: uint_word_of_int mod_pos_pos_trivial)
    ultimately show ?thesis by (simp add: and_mask8)
  qed
  have "limbs_in 0 65535 xs \<Longrightarrow> le_val (concat (map ?f xs)) = gval xs" for xs
  proof (induction xs)
    case Nil
    then show ?case by simp
  next
    case (Cons x xs)
    then show ?case using limb [of x] by (simp add: algebra_simps)
  qed
  then show "le_val (pack_bytes t) = gval t" unfolding p using assms(2) .
  have "length (concat (map ?f xs)) = 2 * length xs" for xs by (induction xs) simp_all
  then show "length (pack_bytes t) = 32" unfolding p using assms(1) by simp
qed

text \<open>The borrow chain, one limb at a time, for any subtrahend.\<close>

definition borrow_step :: "int list \<Rightarrow> gf \<Rightarrow> nat \<Rightarrow> gf \<Rightarrow> gf" where
  "borrow_step ps t i m =
     (let m1 = m[i := t ! i - ps ! i - ((m ! (i - 1)) div 65536 AND 1)]
      in m1[i - 1 := m1 ! (i - 1) AND 0xffff])"

definition borrowed :: "int list \<Rightarrow> gf \<Rightarrow> nat \<Rightarrow> gf \<Rightarrow> bool" where
  "borrowed ps t i m \<longleftrightarrow> length m = 16 \<and> limbs_in 0 65535 (take (i - 1) m) \<and>
     - 65536 \<le> m ! (i - 1) \<and> m ! (i - 1) \<le> 65535 \<and>
     gval (take i m) = gval (take i t) - gval (take i ps)"

lemma borrowed_step:
  assumes "borrowed ps t i m" and "0 < i" and "i < 16" and t: "length t = 16" "limbs_in 0 65535 t"
    and ps: "length ps = 16" "limbs_in 0 65535 ps"
  shows "borrowed ps t (Suc i) (borrow_step ps t i m)"
proof -
  obtain k where i: "i = Suc k" using assms(2) by (cases i) auto
  have m: "length m = 16" "limbs_in 0 65535 (take k m)" "- 65536 \<le> m ! k" "m ! k \<le> 65535"
    "gval (take i m) = gval (take i t) - gval (take i ps)"
    using assms(1) by (simp_all add: borrowed_def i)
  have d: "m ! k div 65536 = 0 \<or> m ! k div 65536 = - 1"
  proof (cases "0 \<le> m ! k")
    case True
    then show ?thesis using m(4) by (simp add: div_pos_pos_trivial)
  next
    case False
    have "- 1 \<le> m ! k div 65536" using m(3) by (intro int_div_ge) simp_all
    moreover have "m ! k div 65536 < 0" using False by (simp add: pos_imp_zdiv_neg_iff)
    ultimately show ?thesis by linarith
  qed
  then have b: "m ! k div 65536 AND 1 = - (m ! k div 65536)" by auto
  let ?v = "t ! i - ps ! i + m ! k div 65536"
  have bs: "borrow_step ps t i m = m[i := ?v, k := m ! k mod 65536]"
    using m(1) assms(3) by (simp add: borrow_step_def i b and_mask16)
  have tk: "take i m = take k m @ [m ! k]" using m(1) assms(3) i by (simp add: take_Suc_conv_app_nth)
  have nw: "take (Suc i) (m[i := ?v, k := m ! k mod 65536]) = take k m @ [m ! k mod 65536, ?v]"
    using m(1) assms(3) by (intro nth_equalityI) (auto simp: i nth_list_update nth_append less_Suc_eq)
  have "gval (take k m @ [m ! k mod 65536, ?v]) = gval (take i m) + 65536 ^ i * (t ! i - ps ! i)"
    using m(1) assms(3) i mult_div_mod_split [of "65536 ^ k" "m ! k" 65536]
    unfolding tk by (simp add: gval_append algebra_simps)
  moreover have "take (Suc i) t = take i t @ [t ! i]" "take (Suc i) ps = take i ps @ [ps ! i]"
    using t(1) ps(1) assms(3) by (simp_all add: take_Suc_conv_app_nth)
  ultimately have g: "gval (take k m @ [m ! k mod 65536, ?v]) = gval (take (Suc i) t) - gval (take (Suc i) ps)"
    using m(5) t(1) ps(1) assms(3) by (simp add: gval_append algebra_simps)
  have "0 \<le> t ! i \<and> t ! i \<le> 65535" "0 \<le> ps ! i \<and> ps ! i \<le> 65535"
    using t ps assms(3) by (simp_all add: limbs_in_nth)
  then have v: "- 65536 \<le> ?v" "?v \<le> 65535" using d by auto
  have lower: "limbs_in 0 65535 (take k m @ [m ! k mod 65536])" using m(2) by simp
  have "take i (m[i := ?v, k := m ! k mod 65536]) = take k m @ [m ! k mod 65536]"
    using m(1) assms(3) by (intro nth_equalityI) (auto simp: i nth_list_update nth_append less_Suc_eq)
  then show ?thesis
    unfolding borrowed_def bs using m(1) assms(3) nw g v lower i by simp
qed

definition p_limbs :: "int list" where
  "p_limbs = 0xffed # replicate 14 0xffff @ [0x7fff]"

lemma gval_p_limbs: "gval p_limbs = p25519"
  by (simp add: p_limbs_def p25519_def eval_nat_numeral)

lemma p_limbs_nth: "p_limbs ! 0 = 0xffed" "0 < i \<Longrightarrow> i < 15 \<Longrightarrow> p_limbs ! i = 0xffff" "p_limbs ! 15 = 0x7fff"
  by (simp_all add: p_limbs_def nth_Cons' nth_append)

lemma pack_sub_spec:
  assumes t: "length t = 16" "limbs_in 0 65535 t" and m: "length m = 16"
  shows "\<exists>m'. pack_sub (t, m) = (if p25519 \<le> gval t then (m', t) else (t, m')) \<and> length m' = 16 \<and>
    (p25519 \<le> gval t \<longrightarrow> limbs_in 0 65535 m' \<and> gval m' = gval t - p25519)"
proof -
  let ?m0 = "m[0 := t ! 0 - 0xffed]"
  let ?m1 = "fold (borrow_step p_limbs t) [1..<15] ?m0"
  let ?m3 = "borrow_step p_limbs t 15 ?m1"
  have ps: "length p_limbs = 16" "limbs_in 0 65535 p_limbs" by (simp_all add: p_limbs_def limbs_in_def)
  have t0: "0 \<le> t ! 0" "t ! 0 \<le> 65535" using t by (simp_all add: limbs_in_nth)
  have tk1: "take 1 xs = [xs ! 0]" if "length xs = 16" for xs :: "int list"
    using that by (cases xs) auto
  have "borrowed p_limbs t 1 ?m0"
    using t0 m by (simp add: borrowed_def tk1 t(1) p_limbs_nth(1) ps(1) del: One_nat_def)
  then have "borrowed p_limbs t 15 ?m1"
    by (rule fold_invariant_upt) (auto intro!: borrowed_step t ps)
  then have last: "borrowed p_limbs t 16 ?m3" using borrowed_step [of p_limbs t 15 ?m1] t ps by simp
  then have b: "length ?m3 = 16" "limbs_in 0 65535 (take 15 ?m3)" "- 65536 \<le> ?m3 ! 15" "?m3 ! 15 \<le> 65535"
    by (simp_all add: borrowed_def)
  have gt: "gval (take 16 ?m3) = gval (take 16 t) - gval (take 16 p_limbs)"
    using last unfolding borrowed_def by blast
  have b5: "gval ?m3 = gval t - p25519"
    using gt unfolding take_all [OF eq_imp_le [OF b(1)]] by (simp add: t(1) ps(1) gval_p_limbs)
  have b1: "fold (pack_borrow t) [1..<15] ?m0 = ?m1"
    by (rule fold_cong) (auto simp: pack_borrow_def borrow_step_def p_limbs_nth fun_eq_iff)
  have "length ?m1 = 16" using \<open>borrowed p_limbs t 15 ?m1\<close> by (simp add: borrowed_def)
  then have eq: "?m1[15 := t ! 15 - 0x7fff - ((?m1 ! 14) div 65536 AND 1),
      14 := ?m1[15 := t ! 15 - 0x7fff - ((?m1 ! 14) div 65536 AND 1)] ! 14 AND 0xffff] = ?m3"
    by (simp add: borrow_step_def p_limbs_nth)
  have top: "(?m1[15 := t ! 15 - 0x7fff - ((?m1 ! 14) div 65536 AND 1)]) ! 15 = ?m3 ! 15"
    using \<open>length ?m1 = 16\<close> by (simp add: borrow_step_def p_limbs_nth)
  have ps': "pack_sub (t, m) = sel25519 t ?m3 (1 - ((?m3 ! 15) div 65536 AND 1))"
    unfolding pack_sub_def Let_def prod.case b1 top eq ..
  have split: "?m3 = take 15 ?m3 @ [?m3 ! 15]" using b(1) take_Suc_conv_app_nth [of 15 ?m3] by simp
  have g: "gval ?m3 = gval (take 15 ?m3) + 65536 ^ 15 * ?m3 ! 15"
    by (subst split) (use b(1) in \<open>simp add: gval_append\<close>)
  have low: "0 \<le> gval (take 15 ?m3)" "gval (take 15 ?m3) < 65536 ^ 15"
    using gval_digits [OF b(2)] b(1) by simp_all
  show ?thesis
  proof (cases "0 \<le> ?m3 ! 15")
    case True
    then have "(?m3 ! 15) div 65536 = 0" using b(4) by (simp add: div_pos_pos_trivial)
    moreover have "p25519 \<le> gval t" using g low True b5 by simp
    moreover have "limbs_in 0 65535 ?m3" by (subst split) (use b True in simp)
    ultimately show ?thesis using b b5 t(1) by (intro exI [of _ ?m3]) (simp add: ps' sel25519_1)
  next
    case False
    have "(?m3 ! 15) div 65536 < 0" using False by (simp add: pos_imp_zdiv_neg_iff)
    moreover have "- 1 \<le> (?m3 ! 15) div 65536" using b(3) by (intro int_div_ge) simp_all
    ultimately have "(?m3 ! 15) div 65536 = - 1" by linarith
    moreover have "\<not> p25519 \<le> gval t"
    proof -
      have "65536 ^ 15 * ?m3 ! 15 \<le> 65536 ^ 15 * (- 1)" using False by (intro mult_left_mono) simp_all
      then show ?thesis using g low b5 by linarith
    qed
    ultimately show ?thesis using b t(1) by (intro exI [of _ ?m3]) (simp add: ps' sel25519_0)
  qed
qed


lemma settled:
  fixes v w r q m :: int
  assumes "w = r + 38 * q" and "v = m * q + r" and "0 \<le> r" and "r < m"
    and "- 190 \<le> v" and "v < m + 190" and "- 1 \<le> q" and "q \<le> 1" and "228 \<le> m"
  shows "0 \<le> w \<and> w < m"
proof -
  consider "q = - 1" | "q = 0" | "q = 1" using assms(7,8) by linarith
  then show ?thesis using assms by cases simp_all
qed

text \<open>
  Three passes settle every limb: after the first the value is within 190 of the range, so
  the second can wrap by one multiple at most and the third not at all.
\<close>

lemma car_thrice:
  assumes "gf_ok n"
  shows "length (car25519 (car25519 (car25519 n))) = 16" and "limbs_in 0 65535 (car25519 (car25519 (car25519 n)))"
    and "gval (car25519 (car25519 (car25519 n))) mod p25519 = gval n mod p25519"
proof -
  let ?a1 = "car25519 n" and ?q = "gval n div 2 ^ 256"
  let ?a2 = "car25519 ?a1" and ?q1 = "gval ?a1 div 2 ^ 256"
  let ?a3 = "car25519 ?a2" and ?q2 = "gval ?a2 div 2 ^ 256"
  have len: "length n = 16" using assms by (simp add: gf_ok_def)
  have q: "- 5 \<le> ?q" "?q \<le> 5"
    using car_div_bounds [OF len, of 262144 5] assms by (simp_all add: gf_ok_def)
  have v1: "gval ?a1 = gval n mod 2 ^ 256 + 38 * ?q" using car25519_gval(1) [OF len] .
  have r1: "0 \<le> gval n mod 2 ^ 256" "gval n mod 2 ^ 256 < 2 ^ 256" by simp_all
  have s1: "- 190 \<le> gval ?a1" "gval ?a1 < 2 ^ 256 + 190" unfolding v1 using q r1 by linarith+
  have q1: "- 1 \<le> ?q1" "?q1 \<le> 1" using s1 by (auto intro!: int_div_ge int_div_le)
  have v2: "gval ?a2 = gval ?a1 mod 2 ^ 256 + 38 * ?q1" using car25519_gval(1) [of ?a1] len by simp
  have "0 \<le> gval ?a2 \<and> gval ?a2 < 2 ^ 256"
    by (rule settled [OF v2 mult_div_mod_eq [of "2 ^ 256" "gval ?a1", symmetric] _ _ s1 q1]) simp_all
  then have q2: "?q2 = 0" by simp
  show "length ?a3 = 16" using len by simp
  show "gval ?a3 mod p25519 = gval n mod p25519"
    using car25519_gval(2) [of n] car25519_gval(2) [of ?a1] car25519_gval(2) [of ?a2] len by simp
  note c = car25519_gval(3,4) [of ?a2]
  obtain x xs where xs: "?a3 = x # xs" using len by (cases ?a3) (auto dest: arg_cong [where f = length])
  show "limbs_in 0 65535 ?a3" using c len q2 unfolding xs by simp
qed

theorem pack25519_spec:
  assumes "gf_ok n"
  shows "le_val (pack25519 n) = gval n mod p25519" and "length (pack25519 n) = 32"
proof -
  have len: "length n = 16" using assms by (simp add: gf_ok_def)
  let ?t = "car25519 (car25519 (car25519 n))"
  have id: "map (\<lambda>i. n ! i) [0..<16] = n" using len by (simp add: take_map_upt_nth)
  note t = car_thrice [OF assms]
  have lt: "0 \<le> gval ?t" "gval ?t < 2 * p25519 + 38"
    using gval_digits [OF t(2)] t(1) by (simp_all add: p25519_def)
  have g0: "length gf0 = 16" by (simp add: gf0_def)
  obtain m1 where m1: "pack_sub (?t, gf0) = (if p25519 \<le> gval ?t then (m1, ?t) else (?t, m1))" "length m1 = 16"
    "p25519 \<le> gval ?t \<longrightarrow> limbs_in 0 65535 m1 \<and> gval m1 = gval ?t - p25519"
    using pack_sub_spec [OF t(1,2) g0] by blast
  obtain t1 s1 where p1: "pack_sub (?t, gf0) = (t1, s1)" by fastforce
  have t1: "length t1 = 16" "limbs_in 0 65535 t1" "length s1 = 16"
    "gval t1 = (if p25519 \<le> gval ?t then gval ?t - p25519 else gval ?t)"
    using m1 p1 t by (auto split: if_splits)
  obtain m2 where m2: "pack_sub (t1, s1) = (if p25519 \<le> gval t1 then (m2, t1) else (t1, m2))" "length m2 = 16"
    "p25519 \<le> gval t1 \<longrightarrow> limbs_in 0 65535 m2 \<and> gval m2 = gval t1 - p25519"
    using pack_sub_spec [OF t1(1,2,3)] by blast
  let ?t2 = "fst (pack_sub (t1, s1))"
  have t2: "length ?t2 = 16" "limbs_in 0 65535 ?t2"
    "gval ?t2 = (if p25519 \<le> gval t1 then gval t1 - p25519 else gval t1)"
    using m2 t1 by (auto split: if_splits)
  have "0 \<le> gval ?t2 \<and> gval ?t2 < p25519" "\<exists>k. gval ?t = gval ?t2 + p25519 * k"
    using lt t1(4) t2(3) by (auto simp: p25519_def split: if_splits intro: exI [of _ 0] exI [of _ 1] exI [of _ 2])
  then have "gval ?t2 = gval ?t mod p25519" using int_div_mod_unique(2) by metis
  then have g: "gval ?t2 = gval n mod p25519" using t(3) by simp
  have pk: "pack25519 n = pack_bytes ?t2" by (simp add: pack25519_def id p1)
  show "le_val (pack25519 n) = gval n mod p25519" and "length (pack25519 n) = 32"
    unfolding pk using le_val_pack_bytes [OF t2(1,2)] g by simp_all
qed

lemma pack25519_eq_iff:
  assumes "gf_ok a" and "gf_ok b"
  shows "pack25519 a = pack25519 b \<longleftrightarrow> gval a mod p25519 = gval b mod p25519"
  using pack25519_spec [OF assms(1)] pack25519_spec [OF assms(2)] le_val_inj [of "pack25519 a" "pack25519 b"] by auto

lemma neq25519_spec:
  assumes "gf_ok a" and "gf_ok b"
  shows "neq25519 a b \<longleftrightarrow> gval a mod p25519 \<noteq> gval b mod p25519"
  using pack25519_eq_iff [OF assms] pack25519_spec(2) [OF assms(1)] pack25519_spec(2) [OF assms(2)]
  by (simp add: neq25519_def vl_ct_eq_full)

lemma par25519_spec:
  assumes "gf_ok a"
  shows "par25519 a = of_int (gval a mod p25519 mod 2)"
proof -
  obtain b bs where b: "pack25519 a = b # bs" using pack25519_spec(2) [OF assms] by (cases "pack25519 a") auto
  have "gval a mod p25519 = uint b + 2 * (128 * le_val bs)" using pack25519_spec(1) [OF assms] b by simp
  then have "gval a mod p25519 mod 2 = uint b mod 2" by presburger
  then have "of_int (gval a mod p25519 mod 2) = (of_int (uint (b AND 1)) :: u8)"
    by (simp add: and_one_eq word_uint_eq_iff uint_mod uint_word_of_int)
  then show ?thesis by (simp add: par25519_def b)
qed

section \<open>Unpacking\<close>

lemma and_mask15: "(x :: int) AND 0x7fff = x mod 32768"
proof -
  have "x AND 0x7fff = take_bit 15 x" by (simp add: take_bit_eq_mask mask_eq_exp_minus_1)
  then show ?thesis by (simp add: take_bit_eq_mod)
qed

lemma unpack_pairs:
  "length n = 2 * k \<Longrightarrow> gval (map (\<lambda>i. uint (n ! (2 * i)) + push_bit 8 (uint (n ! (2 * i + 1)))) [0..<k]) = le_val n"
proof (induction k arbitrary: n)
  case 0
  then show ?case by simp
next
  case (Suc k)
  then obtain x y ns where n: "n = x # y # ns" by (metis length_Suc_conv mult_Suc_right add_2_eq_Suc)
  have "map (\<lambda>i. uint (n ! (2 * i)) + push_bit 8 (uint (n ! (2 * i + 1)))) [0..<Suc k] =
      (uint x + 256 * uint y) # map (\<lambda>i. uint (ns ! (2 * i)) + push_bit 8 (uint (ns ! (2 * i + 1)))) [0..<k]"
    unfolding n by (simp add: upt_conv_Cons map_Suc_upt [symmetric] push_bit_eq_mult ac_simps del: upt_Suc)
  then show ?case using Suc n by simp
qed

lemma unpack25519_spec:
  assumes "length n = 32"
  shows "gval (unpack25519 n) = le_val n mod 2 ^ 255" and "gf_red (unpack25519 n)"
proof -
  let ?o = "map (\<lambda>i. uint (n ! (2 * i)) + push_bit 8 (uint (n ! (2 * i + 1)))) [0..<16]"
  have o: "length ?o = 16" "gval ?o = le_val n" using unpack_pairs [of n 16] assms by simp_all
  have d: "limbs_in 0 65535 ?o"
    unfolding limbs_in_nth
  proof (intro allI impI)
    fix i assume "i < length ?o"
    then have "?o ! i = uint (n ! (2 * i)) + 256 * uint (n ! (2 * i + 1))" by (simp add: push_bit_eq_mult)
    then show "0 \<le> ?o ! i \<and> ?o ! i \<le> 65535"
      using uint_less_256 [of "n ! (2 * i)"] uint_less_256 [of "n ! (2 * i + 1)"] by linarith
  qed
  have u: "unpack25519 n = ?o[15 := ?o ! 15 mod 32768]" by (simp add: unpack25519_def Let_def and_mask15 del: nth_map)
  have split: "?o = take 15 ?o @ [?o ! 15]" using o(1) take_Suc_conv_app_nth [of 15 ?o] by simp
  let ?lo = "take 15 ?o" and ?h = "?o ! 15"
  have us: "unpack25519 n = ?lo @ [?h mod 32768]"
    unfolding u by (subst split) (use o(1) in \<open>simp add: list_update_append del: nth_map take_map\<close>)
  have ld: "limbs_in 0 65535 ?lo" using d by (rule limbs_in_take)
  have ll: "length ?lo = 15" using o(1) by simp
  have low: "0 \<le> gval ?lo" "gval ?lo < 65536 ^ 15" using gval_digits [OF ld] ll by simp_all
  have g: "le_val n = gval ?lo + 65536 ^ 15 * ?h"
    using o(2) gval_append [of ?lo "[?h]"] ll split by simp
  have gu: "gval (unpack25519 n) = gval ?lo + 65536 ^ 15 * (?h mod 32768)"
    unfolding us using gval_append [of ?lo "[?h mod 32768]"] ll by simp
  have "le_val n = gval (unpack25519 n) + 2 ^ 255 * (?h div 32768)"
  proof -
    have "(65536 :: int) ^ 15 * 32768 = 2 ^ 255" by simp
    then show ?thesis unfolding g gu using mult_div_mod_split [of "65536 ^ 15" ?h 32768] by (simp only: ac_simps)
  qed
  moreover have "0 \<le> gval (unpack25519 n)" unfolding gu using low(1) by simp
  moreover have "gval (unpack25519 n) < 2 ^ 255"
  proof -
    have "?h mod 32768 \<le> 32767" using pos_mod_bound [of 32768 ?h] by linarith
    then have "65536 ^ 15 * (?h mod 32768) \<le> 65536 ^ 15 * 32767" by (intro mult_left_mono) simp_all
    then show ?thesis unfolding gu using low(2) by simp
  qed
  ultimately show "gval (unpack25519 n) = le_val n mod 2 ^ 255" by (rule int_div_mod_unique(2) [symmetric])
  have "?h mod 32768 \<le> 65535" using pos_mod_bound [of 32768 ?h] by linarith
  moreover have "0 \<le> ?h mod 32768" by simp
  ultimately have ul: "limbs_in 0 65535 (unpack25519 n)"
    unfolding us using ld by (simp only: limbs_in_append limbs_in_Cons limbs_in_Nil)
  have "limbs_in (- 38) 65573 (unpack25519 n)" by (rule limbs_in_weaken [OF ul]) simp_all
  moreover have "length (unpack25519 n) = 16" unfolding us length_append ll by simp
  ultimately show "gf_red (unpack25519 n)" by (simp only: gf_red_def)
qed

end
