(* ===== verification/VL_Ed25519_Correct.thy ===== *)
theory VL_Ed25519_Correct
  imports VL_Field_Correct VL_Ed25519
begin

text \<open>
  The group code of \<open>VL_Ed25519\<close> refines arithmetic on residues modulo p. A point of the
  refined level is four integers; \<open>ep_add\<close> is the unified addition of the twisted Edwards
  curve in extended coordinates, \<open>ep_mult\<close> the ladder over the bits of a scalar, and
  \<open>ed_accepts\<close> the verification equation. The relation \<open>repr\<close> carries a limb bound
  with the value, so that every use of the multiplication is within its precondition.
\<close>

section \<open>Limbs represent residues\<close>

definition repr :: "int \<Rightarrow> gf \<Rightarrow> int \<Rightarrow> bool" where
  "repr c x v \<longleftrightarrow> length x = 16 \<and> limbs_in (- c) c x \<and> gval x mod p25519 = v mod p25519"

lemma repr_ok: "repr c x v \<Longrightarrow> c \<le> 262144 \<Longrightarrow> gf_ok x"
  unfolding repr_def gf_ok_def using limbs_in_weaken [of "- c" c x "- 262144" 262144] by simp

lemma repr_red: "gf_red x \<Longrightarrow> gval x mod p25519 = v mod p25519 \<Longrightarrow> repr 65573 x v"
  unfolding repr_def gf_red_def using limbs_in_weaken [of "- 38" 65573 x "- 65573" 65573] by simp

lemma repr_weaken: "repr c x v \<Longrightarrow> c \<le> c' \<Longrightarrow> repr c' x v"
  unfolding repr_def using limbs_in_weaken [of "- c" c x "- c'" c'] by simp

lemma repr_cong: "repr c x v \<Longrightarrow> v mod p25519 = w mod p25519 \<Longrightarrow> repr c x w"
  by (simp add: repr_def)

lemma repr_unique: "repr c x v \<Longrightarrow> gval x mod p25519 = v mod p25519"
  by (simp add: repr_def)

lemma repr_M:
  assumes "repr c x v" and "repr d y w" and "c \<le> 262144" and "d \<le> 262144"
  shows "repr 65573 (fM x y) (v * w)"
proof (rule repr_red)
  show "gf_red (fM x y)" using fM_gval(2) repr_ok assms by blast
  show "gval (fM x y) mod p25519 = v * w mod p25519"
    using fM_gval(1) [of x y] repr_ok [OF assms(1,3)] repr_ok [OF assms(2,4)] assms(1,2)
      mod_mult_cong [of "gval x" p25519 v "gval y" w] by (simp add: repr_def)
qed

lemma repr_S: "repr c x v \<Longrightarrow> c \<le> 262144 \<Longrightarrow> repr 65573 (fS x) (v * v)"
  by (simp add: fS_def repr_M)

lemma repr_A: "repr c x v \<Longrightarrow> repr d y w \<Longrightarrow> repr (c + d) (fA x y) (v + w)"
  using limbs_in_fA [of x y "- c" c "- d" d] mod_add_cong [of "gval x" p25519 v "gval y" w]
  by (simp add: repr_def fA_gval)

lemma repr_Z: "repr c x v \<Longrightarrow> repr d y w \<Longrightarrow> repr (c + d) (fZ x y) (v - w)"
  using limbs_in_fZ [of x y "- c" c "- d" d] mod_diff_cong [of "gval x" p25519 v "gval y" w]
  by (simp add: repr_def fZ_gval)

text \<open>The constants.\<close>

definition ed_d :: int where
  "ed_d = 37095705934669439343138083508754565189542113879843219016388785533085940283555"

definition sqrt_m1 :: int where
  "sqrt_m1 = 19681161376707505956807079304988542015446066515923890162744021073123829784752"

definition base_x :: int where
  "base_x = 15112221349535400772501151409588531511454012693041857206046113283949847762202"

definition base_y :: int where
  "base_y = 46316835694926478169428394003475163141307993866256225615783033603165251855960"

lemma gf_const_vals: "gval gf_D = ed_d" "gval gf_D2 mod p25519 = (2 * ed_d) mod p25519" "gval gf_I = sqrt_m1"
  "gval gf_X = base_x" "gval gf_Y = base_y" "gval gf0 = 0" "gval gf1 = 1"
  by (simp_all add: gf_D_def gf_D2_def gf_I_def gf_X_def gf_Y_def gf0_def gf1_def ed_d_def sqrt_m1_def
      base_x_def base_y_def p25519_def)

lemma gf_const_limbs: "limbs_in (- 65573) 65573 gf_D" "limbs_in (- 65573) 65573 gf_D2" "limbs_in (- 65573) 65573 gf_I"
  "limbs_in (- 65573) 65573 gf_X" "limbs_in (- 65573) 65573 gf_Y" "limbs_in 0 0 gf0" "limbs_in (- 1) 1 gf1"
  "length gf_D = 16" "length gf_D2 = 16" "length gf_I = 16" "length gf_X = 16" "length gf_Y = 16"
  "length gf0 = 16" "length gf1 = 16"
  by (simp_all add: gf_D_def gf_D2_def gf_I_def gf_X_def gf_Y_def gf0_def gf1_def limbs_in_def)

lemma repr_consts:
  "repr 65573 gf_D ed_d" "repr 65573 gf_D2 (2 * ed_d)" "repr 65573 gf_I sqrt_m1"
  "repr 65573 gf_X base_x" "repr 65573 gf_Y base_y" "repr 0 gf0 0" "repr 1 gf1 1"
  using gf_const_vals gf_const_limbs by (simp_all add: repr_def)

text \<open>The constants are the ones they are meant to be.\<close>

lemma mod_by_quot: "a = q * m + r \<Longrightarrow> 0 \<le> r \<Longrightarrow> r < m \<Longrightarrow> a mod m = (r :: int)"
  by simp

lemma ed_d_eq: "(ed_d * 121666 + 121665) mod p25519 = 0"
  by (rule mod_by_quot [where q = 77955]) (simp_all add: ed_d_def p25519_def)

lemma sqrt_m1_eq: "(sqrt_m1 * sqrt_m1) mod p25519 = p25519 - 1"
  by (rule mod_by_quot [where q = 6690407189080634018507799843845558368979872843924222843531373839242004886244])
    (simp_all add: sqrt_m1_def p25519_def)

lemma mod_eqI: "a = q * m + r \<Longrightarrow> a mod m = (r mod m :: int)"
  by simp

lemma base_on_curve:
  "(base_y * base_y - base_x * base_x) mod p25519 =
   (1 + ed_d * (base_x * base_x) * (base_y * base_y)) mod p25519"
proof -
  let ?A = "26187595835145689230469591415084376402084551887632582719101735842039498021991 :: int"
  let ?B = "37053468555941182535542715202780130513046395093004980492626426882532201484768 :: int"
  let ?C = "45925948435572007145069502170446592761695376174804512530996725752748131570562 :: int"
  let ?D = "10865872720795493305073123787695754110961843205372397773524691040492703462776 :: int"
  have a: "(base_x * base_x) mod p25519 = ?A mod p25519"
    by (rule mod_eqI [where q = 3944643120641682540557488748386534817562863454810087094083181913524639656337]) (simp add: base_x_def p25519_def)
  have b: "(base_y * base_y) mod p25519 = ?B mod p25519"
    by (rule mod_eqI [where q = 37053468555941182535542715202780130513046395093004980492626426882532201484768]) (simp add: base_y_def p25519_def)
  have "ed_d * ?A mod p25519 = ?C mod p25519"
    by (rule mod_eqI [where q = 16779166187174577975451292873628643683728414202820820819847581227016496542207]) (simp add: ed_d_def p25519_def)
  then have c: "ed_d * (base_x * base_x) mod p25519 = ?C mod p25519"
    using trans [OF mod_mult_cong [OF refl a]] by blast
  have "?C * ?B mod p25519 = ?D mod p25519"
    by (rule mod_eqI [where q = 29392606998766084572844481389085819367485040751874888019837904481758804205160]) (simp add: p25519_def)
  then have dd: "ed_d * (base_x * base_x) * (base_y * base_y) mod p25519 = ?D mod p25519"
    using mod_mult_cong [OF c b] by simp
  have "(?B - ?A) mod p25519 = (1 + ?D) mod p25519"
    by (rule mod_eqI [where q = "0"]) (simp add: p25519_def)
  then show ?thesis
    using mod_diff_cong [OF b a] mod_add_cong [OF refl dd, of 1] by simp
qed

lemma base_y_eq: "(5 * base_y) mod p25519 = 4"
  by (rule mod_by_quot [where q = 4]) (simp_all add: base_y_def p25519_def)

section \<open>Powers\<close>

lemma pow_chain:
  assumes x: "repr c x v" and c: "c \<le> 262144"
  shows "repr c' y (v ^ e) \<Longrightarrow> c' \<le> 262144 \<Longrightarrow> is \<noteq> [] \<Longrightarrow>
    repr 65573 (fold (\<lambda>a r. let r = fS r in if P a then fM r x else r) is y)
      (v ^ fold (\<lambda>a e. if P a then 2 * e + 1 else 2 * e) is e)"
proof (induction "is" arbitrary: y e c')
  case Nil
  then show ?case by simp
next
  case (Cons a as)
  have sq: "repr 65573 (fS y) (v ^ (2 * e))"
    using repr_S [OF Cons.prems(1,2)] by (simp add: power_add [symmetric] mult_2)
  have st: "repr 65573 (let r = fS y in if P a then fM r x else r) (v ^ (if P a then 2 * e + 1 else 2 * e))"
    using repr_M [OF sq x _ c] sq by (simp add: Let_def ac_simps)
  show ?case
  proof (cases "as = []")
    case True
    then show ?thesis using st by simp
  next
    case False
    from Cons.IH [OF st _ this] show ?thesis by simp
  qed
qed

lemma all_ones: "fold (\<lambda>a e. 2 * e + 1) xs (e :: nat) + 1 = (e + 1) * 2 ^ length xs"
proof (induction xs arbitrary: e)
  case Nil
  then show ?case by simp
next
  case (Cons x xs)
  show ?case using Cons [of "2 * e + 1"] by (simp add: algebra_simps)
qed

lemma pred_of_sum: "a = b \<Longrightarrow> b + 1 = c \<Longrightarrow> a = c - (1 :: nat)"
  by simp

lemma split_down: "k \<le> n \<Longrightarrow> rev [0..<n] = rev [k..<n] @ rev [0..<k]"
  by (metis rev_append upt_add_eq_append le0 le_add_diff_inverse)

text \<open>The loop that skips a few low bits: ones down to \<open>k\<close>, then the rest.\<close>

lemma ones_then:
  assumes "\<And>a. k \<le> a \<Longrightarrow> P a" and "k \<le> n"
  shows "fold (\<lambda>a e. if P a then 2 * e + 1 else 2 * e) (rev [0..<n]) (1 :: nat) =
    fold (\<lambda>a e. if P a then 2 * e + 1 else 2 * e) (rev [0..<k]) (2 * 2 ^ (n - k) - 1)"
proof -
  have "fold (\<lambda>a e. if P a then 2 * e + 1 else 2 * e) (rev [k..<n]) (1 :: nat) = fold (\<lambda>a e. 2 * e + 1) (rev [k..<n]) 1"
    by (rule fold_cong [OF refl refl]) (use assms(1) in \<open>auto simp only: set_rev set_upt atLeastLessThan_iff if_True\<close>)
  moreover have "fold (\<lambda>a e. 2 * e + 1) (rev [k..<n]) (1 :: nat) + 1 = 2 * 2 ^ (n - k)"
    unfolding all_ones by (simp only: length_rev length_upt one_add_one)
  ultimately have "fold (\<lambda>a e. if P a then 2 * e + 1 else 2 * e) (rev [k..<n]) (1 :: nat) = 2 * 2 ^ (n - k) - 1"
    by (rule pred_of_sum)
  then show ?thesis by (simp only: split_down [OF assms(2)] fold_append comp_apply)
qed

lemma exponent_inv: "fold (\<lambda>a e. if a \<noteq> 2 \<and> a \<noteq> 4 then 2 * e + 1 else 2 * e) (rev [0..<254]) (1 :: nat) = 2 ^ 255 - 21"
proof -
  have low: "rev [0..<5] = [4, 3, 2, 1, 0 :: nat]" by (simp add: upt_rec)
  show ?thesis by (subst ones_then [where k = 5]) (simp_all add: low)
qed

lemma exponent_2523: "fold (\<lambda>a e. if a \<noteq> 1 then 2 * e + 1 else 2 * e) (rev [0..<251]) (1 :: nat) = 2 ^ 252 - 3"
proof -
  have low: "rev [0..<2] = [1, 0 :: nat]" by (simp add: upt_rec)
  show ?thesis by (subst ones_then [where k = 2]) (simp_all add: low)
qed

definition fp_inv :: "int \<Rightarrow> int" where
  "fp_inv v = v ^ (2 ^ 255 - 21) mod p25519"

definition fp_pow2523 :: "int \<Rightarrow> int" where
  "fp_pow2523 v = v ^ (2 ^ 252 - 3) mod p25519"

lemma repr_inv:
  assumes "repr c x v" and "c \<le> 262144"
  shows "repr 65573 (inv25519 x) (fp_inv v)"
proof -
  have x: "repr c (map (\<lambda>i. x ! i) [0..<16]) (v ^ 1)"
    using assms(1) by (simp add: repr_def take_map_upt_nth)
  have ne: "rev [0..<254] \<noteq> ([] :: nat list)" by simp
  show ?thesis
    using pow_chain [OF assms x assms(2) ne, of "\<lambda>a. a \<noteq> 2 \<and> a \<noteq> 4"]
    unfolding inv25519_def exponent_inv fp_inv_def by (rule repr_cong) simp
qed

lemma repr_pow2523:
  assumes "repr c x v" and "c \<le> 262144"
  shows "repr 65573 (pow2523 x) (fp_pow2523 v)"
proof -
  have x: "repr c (map (\<lambda>i. x ! i) [0..<16]) (v ^ 1)"
    using assms(1) by (simp add: repr_def take_map_upt_nth)
  have ne: "rev [0..<251] \<noteq> ([] :: nat list)" by simp
  show ?thesis
    using pow_chain [OF assms x assms(2) ne, of "\<lambda>a. a \<noteq> 1"]
    unfolding pow2523_def exponent_2523 fp_pow2523_def by (rule repr_cong) simp
qed

end
