(* ===== verification/VL_Primes.thy ===== *)
theory VL_Primes
  imports Complex_Main
begin

text \<open>
  Primality over the natural numbers, from what is in the library's main image: Euclid's lemma,
  Fermat's little theorem, and the criterion of Pocklington in the form of Brillhart, Lehmer and
  Selfridge, by which a large number is prime because one prime factor of its predecessor is.
\<close>

definition is_prime :: "nat \<Rightarrow> bool" where
  "is_prime p \<longleftrightarrow> 1 < p \<and> (\<forall>d. d dvd p \<longrightarrow> d = 1 \<or> d = p)"

lemma is_prime_coprime: "is_prime p \<Longrightarrow> \<not> p dvd a \<Longrightarrow> coprime p a"
  by (metis coprime_iff_gcd_eq_1 gcd_dvd1 gcd_dvd2 is_prime_def)

lemma is_prime_dvd_mult: "is_prime p \<Longrightarrow> p dvd a * b \<longleftrightarrow> p dvd a \<or> p dvd b"
  using is_prime_coprime [of p a] coprime_dvd_mult_right_iff [of p a b] by auto

lemma prime_divisor: "1 < n \<Longrightarrow> \<exists>p. is_prime p \<and> p dvd n"
proof (induction n rule: less_induct)
  case (less n)
  show ?case
  proof (cases "is_prime n")
    case True
    then show ?thesis by auto
  next
    case False
    then obtain d where d: "d dvd n" "d \<noteq> 1" "d \<noteq> n" using less.prems by (auto simp: is_prime_def)
    then have "1 < d" "d < n" using less.prems by (auto dest: dvd_imp_le intro!: Suc_lessI)
    then show ?thesis using less.IH [of d] d(1) dvd_trans by blast
  qed
qed

section \<open>Fermat's little theorem\<close>

lemma prime_dvd_binomial:
  assumes "is_prime p" and "0 < k" and "k < p"
  shows "p dvd (p choose k)"
proof -
  obtain j where k: "k = Suc j" using assms(2) by (cases k) auto
  obtain m where p: "p = Suc m" using assms(3) by (cases p) auto
  have "k * (p choose k) = p * (m choose j)" using Suc_times_binomial_eq [of m j] by (simp add: k p ac_simps)
  then have "p dvd k * (p choose k)" by simp
  moreover have "\<not> p dvd k" using assms(2,3) by (auto dest: dvd_imp_le)
  ultimately show ?thesis using is_prime_dvd_mult [OF assms(1)] by blast
qed

lemma fermat_power:
  assumes "is_prime p"
  shows "a ^ p mod p = a mod p"
proof (induction a)
  case 0
  then show ?case using assms by (simp add: is_prime_def power_0_left)
next
  case (Suc a)
  have "(a + 1) ^ p = (\<Sum>k\<le>p. (p choose k) * a ^ k)" using binomial_ring [of a 1 p] by simp
  also have "\<dots> = (\<Sum>k\<in>{0, p}. (p choose k) * a ^ k) + (\<Sum>k\<in>{0<..<p}. (p choose k) * a ^ k)"
  proof -
    have "{..p} = {0, p} \<union> {0<..<p}" by auto
    then show ?thesis by (simp only:) (rule sum.union_disjoint, auto)
  qed
  also have "(\<Sum>k\<in>{0, p}. (p choose k) * a ^ k) = 1 + a ^ p" using assms by (simp add: is_prime_def)
  finally have e: "(a + 1) ^ p = 1 + a ^ p + (\<Sum>k\<in>{0<..<p}. (p choose k) * a ^ k)" .
  have "p dvd (\<Sum>k\<in>{0<..<p}. (p choose k) * a ^ k)"
    by (rule dvd_sum) (auto intro: dvd_mult2 prime_dvd_binomial [OF assms])
  then have "(1 + a ^ p + (\<Sum>k\<in>{0<..<p}. (p choose k) * a ^ k)) mod p = (1 + a ^ p) mod p" by (auto elim!: dvdE)
  also have "\<dots> = (1 + a) mod p" by (rule mod_add_cong [OF refl Suc])
  finally show ?case unfolding e [symmetric] by (simp add: add.commute)
qed

lemma mod_one_iff: "1 < q \<Longrightarrow> 1 \<le> a \<Longrightarrow> a mod q = 1 \<longleftrightarrow> q dvd a - (1 :: nat)"
  using mod_eq_dvd_iff_nat [of 1 a q] by auto

lemma fermat_little:
  assumes "is_prime p" and "\<not> p dvd a"
  shows "a ^ (p - 1) mod p = 1"
proof -
  have p: "1 < p" using assms(1) by (simp add: is_prime_def)
  have le: "1 \<le> a ^ (p - 1)" using assms(2) by (cases a) auto
  have "a ^ p = a * a ^ (p - 1)" using p by (cases p) auto
  moreover have "a \<le> a * a ^ (p - 1)" using le using mult_le_mono2 [OF le, of a] by simp
  ultimately have "p dvd a * a ^ (p - 1) - a"
    using fermat_power [OF assms(1), of a] mod_eq_dvd_iff_nat [of a "a * a ^ (p - 1)" p] by simp
  moreover have "a * a ^ (p - 1) - a = a * (a ^ (p - 1) - 1)" by (simp add: diff_mult_distrib2)
  ultimately have "p dvd a ^ (p - 1) - 1" using assms is_prime_dvd_mult by metis
  then show ?thesis using mod_one_iff [OF p le] by simp
qed

section \<open>The criterion\<close>

lemma power_one_mod: "(a :: nat) mod q = 1 \<Longrightarrow> a ^ n mod q = 1 mod q"
  by (metis power_mod power_one)

lemma prime_factor_form:
  assumes q: "is_prime q" and r: "is_prime r" and b: "b ^ r mod q = 1" "b mod q \<noteq> 1"
  shows "r dvd q - 1"
proof (rule ccontr)
  assume "\<not> r dvd q - 1"
  then have "coprime r (q - 1)" by (rule is_prime_coprime [OF r])
  moreover have "r \<noteq> 0" using r by (simp add: is_prime_def)
  ultimately obtain x y where e: "r * x = (q - 1) * y + 1" using bezout_nat [of r "q - 1"] by auto
  have q1: "1 < q" using q by (simp add: is_prime_def)
  have "\<not> q dvd b"
  proof
    assume "q dvd b"
    then have "q dvd b ^ r" using \<open>r \<noteq> 0\<close> by (auto intro: dvd_power_same dvd_trans [of q b] simp: dvd_power)
    then show False using b(1) by (simp add: dvd_eq_mod_eq_0)
  qed
  then have "b ^ (q - 1) mod q = 1" by (rule fermat_little [OF q])
  then have f: "b ^ ((q - 1) * y) mod q = 1" using power_one_mod [of "b ^ (q - 1)" q y] q1 by (simp add: power_mult)
  have "b ^ (r * x) mod q = 1" using power_one_mod [OF b(1), of x] q1 by (simp add: power_mult)
  then have "b ^ ((q - 1) * y) * b mod q = 1" by (simp only: e power_add power_one_right)
  then have "(b ^ ((q - 1) * y) mod q) * b mod q = 1" by (simp add: mod_mult_left_eq)
  then show False using f b(2) by simp
qed

lemma divisors_form:
  assumes "\<And>q. is_prime q \<Longrightarrow> q dvd n \<Longrightarrow> r dvd q - 1" and "0 < n"
  shows "d dvd n \<Longrightarrow> \<exists>s. d = 1 + r * s"
proof (induction d rule: less_induct)
  case (less d)
  show ?case
  proof (cases "d = 1")
    case True
    then show ?thesis by (intro exI [of _ 0]) simp
  next
    case False
    moreover have "d \<noteq> 0" using less.prems assms(2) by auto
    ultimately obtain q where q: "is_prime q" "q dvd d" using prime_divisor [of d] by auto
    then obtain e where e: "d = q * e" by (auto elim: dvdE)
    have q1: "1 < q" using q by (simp add: is_prime_def)
    have "e dvd n" using less.prems e by (metis dvd_mult_right)
    moreover have "e < d" using e q1 \<open>d \<noteq> 0\<close> by auto
    ultimately obtain s where s: "e = 1 + r * s" using less.IH by blast
    have "r dvd q - 1" using assms(1) [OF q(1)] q(2) less.prems dvd_trans by blast
    then obtain t where "q - 1 = r * t" by (auto elim: dvdE)
    then have "q = 1 + r * t" using q1 by simp
    then have "d = 1 + r * (s + t + r * s * t)" by (simp add: e s algebra_simps)
    then show ?thesis by blast
  qed
qed

theorem pocklington:
  fixes n r R u :: nat
  assumes r: "is_prime r" and n: "n = r * R + 1" and small: "R div r + 1 < R mod r"
    and one: "2 ^ (n - 1) mod n = 1" and u: "(2 ^ R - 1) * u mod n = 1"
  shows "is_prime n"
proof -
  have r1: "1 < r" using r by (simp add: is_prime_def)
  have R: "0 < R" using small by (cases R) auto
  have n1: "1 < n" using n r1 R by simp
  have fac: "r dvd q - 1" if q: "is_prime q" "q dvd n" for q
  proof (rule prime_factor_form [OF q(1) r])
    have q1: "1 < q" using q by (simp add: is_prime_def)
    have "2 ^ (n - 1) mod q = 1"
      using mod_mod_cancel [OF q(2), of "2 ^ (n - 1)"] one q1 by simp
    then show "(2 ^ R) ^ r mod q = (1 :: nat)" using n by (simp add: power_mult [symmetric] mult.commute)
    show "(2 ^ R) mod q \<noteq> (1 :: nat)"
    proof
      assume "(2 ^ R) mod q = (1 :: nat)"
      then have "q dvd 2 ^ R - 1" using mod_eq_dvd_iff_nat [of 1 "2 ^ R" q] q1 by simp
      then have "q dvd (2 ^ R - 1) * u" by simp
      moreover have "(2 ^ R - 1) * u mod q = 1" using mod_mod_cancel [OF q(2), of "(2 ^ R - 1) * u"] u q1 by simp
      ultimately show False by (simp add: dvd_eq_mod_eq_0)
    qed
  qed
  have "d = 1 \<or> d = n" if d: "d dvd n" for d
  proof (rule ccontr)
    assume no: "\<not> (d = 1 \<or> d = n)"
    obtain e where e: "n = d * e" using d by (auto elim: dvdE)
    have "e dvd n" using e by simp
    obtain s where s: "d = 1 + r * s" using divisors_form [OF fac _ d] n1 by auto
    obtain t where t: "e = 1 + r * t" using divisors_form [OF fac _ \<open>e dvd n\<close>] n1 by auto
    have "s \<noteq> 0" "t \<noteq> 0" using no s t e by auto
    then have st: "1 \<le> s" "1 \<le> t" by simp_all
    have "r * R = r * (s + t + r * (s * t))" using e n by (simp add: s t algebra_simps)
    then have Re: "R = s + t + r * (s * t)" using r1 by simp
    have le: "s + t \<le> s * t + 1"
    proof -
      obtain s' t' where "s = Suc s'" "t = Suc t'" using st by (metis Suc_le_D One_nat_def)
      then show ?thesis by simp
    qed
    show False
    proof (cases "s + t < r")
      case True
      then have "R mod r = s + t" "R div r = s * t" by (simp_all add: Re)
      then show False using small le by simp
    next
      case False
      then have "r * (s * t + 1) \<le> R" by (simp add: Re)
      then have "s * t + 1 \<le> R div r" using r1 by (simp add: less_eq_div_iff_mult_less_eq mult.commute)
      moreover have "R mod r < r" using r1 by simp
      ultimately show False using small le False by linarith
    qed
  qed
  then show ?thesis using n1 by (simp add: is_prime_def)
qed

end
