(* ===== verification/VL_Modexp.thy ===== *)
theory VL_Modexp
  imports VL_Primes "HOL-Library.Word"
begin

text \<open>
  Powers of two modulo a long number, evaluated by rewriting. A sum takes two bits of both numerals at
  a step, a square is made of shifts and sums, and a residue modulo a divisor of \<open>2 ^ k - c\<close> is
  taken by folding what is above bit \<open>k\<close>. \<open>run\<close> goes through the bits of an exponent.
\<close>

section \<open>Numerals\<close>

definition ad :: "num \<Rightarrow> num \<Rightarrow> num" where "ad m n = m + n"

definition adc :: "num \<Rightarrow> num \<Rightarrow> num" where "adc m n = m + n + num.One"

definition sq :: "num \<Rightarrow> num" where "sq m = m * m"

definition mu :: "num \<Rightarrow> num \<Rightarrow> num" where "mu m n = m * n"

lemma inc_One: "Num.inc n = n + num.One"
  by (simp add: add_One)

lemma ad_simps:
  "ad num.One num.One = (num.Bit0 num.One)" "ad num.One (num.Bit0 num.One) = (num.Bit1 num.One)" "ad num.One (num.Bit1 num.One) = (num.Bit0 (num.Bit0 num.One))"
  "ad num.One (num.Bit0 (num.Bit0 n)) = num.Bit1 (num.Bit0 n)" "ad num.One (num.Bit0 (num.Bit1 n)) = num.Bit1 (num.Bit1 n)"
  "ad num.One (num.Bit1 (num.Bit0 n)) = num.Bit0 (num.Bit1 n)" "ad num.One (num.Bit1 (num.Bit1 n)) = num.Bit0 (num.Bit0 (Num.inc n))"
  "ad (num.Bit0 num.One) num.One = (num.Bit1 num.One)" "ad (num.Bit0 num.One) (num.Bit0 num.One) = (num.Bit0 (num.Bit0 num.One))"
  "ad (num.Bit0 num.One) (num.Bit1 num.One) = (num.Bit1 (num.Bit0 num.One))" "ad (num.Bit0 num.One) (num.Bit0 (num.Bit0 n)) = num.Bit0 (num.Bit1 n)"
  "ad (num.Bit0 num.One) (num.Bit0 (num.Bit1 n)) = num.Bit0 (num.Bit0 (Num.inc n))" "ad (num.Bit0 num.One) (num.Bit1 (num.Bit0 n)) = num.Bit1 (num.Bit1 n)"
  "ad (num.Bit0 num.One) (num.Bit1 (num.Bit1 n)) = num.Bit1 (num.Bit0 (Num.inc n))" "ad (num.Bit1 num.One) num.One = (num.Bit0 (num.Bit0 num.One))"
  "ad (num.Bit1 num.One) (num.Bit0 num.One) = (num.Bit1 (num.Bit0 num.One))" "ad (num.Bit1 num.One) (num.Bit1 num.One) = (num.Bit0 (num.Bit1 num.One))"
  "ad (num.Bit1 num.One) (num.Bit0 (num.Bit0 n)) = num.Bit1 (num.Bit1 n)" "ad (num.Bit1 num.One) (num.Bit0 (num.Bit1 n)) = num.Bit1 (num.Bit0 (Num.inc n))"
  "ad (num.Bit1 num.One) (num.Bit1 (num.Bit0 n)) = num.Bit0 (num.Bit0 (Num.inc n))" "ad (num.Bit1 num.One) (num.Bit1 (num.Bit1 n)) = num.Bit0 (num.Bit1 (Num.inc n))"
  "ad (num.Bit0 (num.Bit0 m)) num.One = num.Bit1 (num.Bit0 m)" "ad (num.Bit0 (num.Bit0 m)) (num.Bit0 num.One) = num.Bit0 (num.Bit1 m)"
  "ad (num.Bit0 (num.Bit0 m)) (num.Bit1 num.One) = num.Bit1 (num.Bit1 m)" "ad (num.Bit0 (num.Bit0 m)) (num.Bit0 (num.Bit0 n)) = num.Bit0 (num.Bit0 (ad m n))"
  "ad (num.Bit0 (num.Bit0 m)) (num.Bit0 (num.Bit1 n)) = num.Bit0 (num.Bit1 (ad m n))" "ad (num.Bit0 (num.Bit0 m)) (num.Bit1 (num.Bit0 n)) = num.Bit1 (num.Bit0 (ad m n))"
  "ad (num.Bit0 (num.Bit0 m)) (num.Bit1 (num.Bit1 n)) = num.Bit1 (num.Bit1 (ad m n))" "ad (num.Bit0 (num.Bit1 m)) num.One = num.Bit1 (num.Bit1 m)"
  "ad (num.Bit0 (num.Bit1 m)) (num.Bit0 num.One) = num.Bit0 (num.Bit0 (Num.inc m))" "ad (num.Bit0 (num.Bit1 m)) (num.Bit1 num.One) = num.Bit1 (num.Bit0 (Num.inc m))"
  "ad (num.Bit0 (num.Bit1 m)) (num.Bit0 (num.Bit0 n)) = num.Bit0 (num.Bit1 (ad m n))" "ad (num.Bit0 (num.Bit1 m)) (num.Bit0 (num.Bit1 n)) = num.Bit0 (num.Bit0 (adc m n))"
  "ad (num.Bit0 (num.Bit1 m)) (num.Bit1 (num.Bit0 n)) = num.Bit1 (num.Bit1 (ad m n))" "ad (num.Bit0 (num.Bit1 m)) (num.Bit1 (num.Bit1 n)) = num.Bit1 (num.Bit0 (adc m n))"
  "ad (num.Bit1 (num.Bit0 m)) num.One = num.Bit0 (num.Bit1 m)" "ad (num.Bit1 (num.Bit0 m)) (num.Bit0 num.One) = num.Bit1 (num.Bit1 m)"
  "ad (num.Bit1 (num.Bit0 m)) (num.Bit1 num.One) = num.Bit0 (num.Bit0 (Num.inc m))" "ad (num.Bit1 (num.Bit0 m)) (num.Bit0 (num.Bit0 n)) = num.Bit1 (num.Bit0 (ad m n))"
  "ad (num.Bit1 (num.Bit0 m)) (num.Bit0 (num.Bit1 n)) = num.Bit1 (num.Bit1 (ad m n))" "ad (num.Bit1 (num.Bit0 m)) (num.Bit1 (num.Bit0 n)) = num.Bit0 (num.Bit1 (ad m n))"
  "ad (num.Bit1 (num.Bit0 m)) (num.Bit1 (num.Bit1 n)) = num.Bit0 (num.Bit0 (adc m n))" "ad (num.Bit1 (num.Bit1 m)) num.One = num.Bit0 (num.Bit0 (Num.inc m))"
  "ad (num.Bit1 (num.Bit1 m)) (num.Bit0 num.One) = num.Bit1 (num.Bit0 (Num.inc m))" "ad (num.Bit1 (num.Bit1 m)) (num.Bit1 num.One) = num.Bit0 (num.Bit1 (Num.inc m))"
  "ad (num.Bit1 (num.Bit1 m)) (num.Bit0 (num.Bit0 n)) = num.Bit1 (num.Bit1 (ad m n))" "ad (num.Bit1 (num.Bit1 m)) (num.Bit0 (num.Bit1 n)) = num.Bit1 (num.Bit0 (adc m n))"
  "ad (num.Bit1 (num.Bit1 m)) (num.Bit1 (num.Bit0 n)) = num.Bit0 (num.Bit0 (adc m n))" "ad (num.Bit1 (num.Bit1 m)) (num.Bit1 (num.Bit1 n)) = num.Bit0 (num.Bit1 (adc m n))"
  by (simp_all add: ad_def adc_def inc_One)

lemma adc_simps:
  "adc num.One num.One = (num.Bit1 num.One)" "adc num.One (num.Bit0 num.One) = (num.Bit0 (num.Bit0 num.One))" "adc num.One (num.Bit1 num.One) = (num.Bit1 (num.Bit0 num.One))"
  "adc num.One (num.Bit0 (num.Bit0 n)) = num.Bit0 (num.Bit1 n)" "adc num.One (num.Bit0 (num.Bit1 n)) = num.Bit0 (num.Bit0 (Num.inc n))"
  "adc num.One (num.Bit1 (num.Bit0 n)) = num.Bit1 (num.Bit1 n)" "adc num.One (num.Bit1 (num.Bit1 n)) = num.Bit1 (num.Bit0 (Num.inc n))"
  "adc (num.Bit0 num.One) num.One = (num.Bit0 (num.Bit0 num.One))" "adc (num.Bit0 num.One) (num.Bit0 num.One) = (num.Bit1 (num.Bit0 num.One))"
  "adc (num.Bit0 num.One) (num.Bit1 num.One) = (num.Bit0 (num.Bit1 num.One))" "adc (num.Bit0 num.One) (num.Bit0 (num.Bit0 n)) = num.Bit1 (num.Bit1 n)"
  "adc (num.Bit0 num.One) (num.Bit0 (num.Bit1 n)) = num.Bit1 (num.Bit0 (Num.inc n))" "adc (num.Bit0 num.One) (num.Bit1 (num.Bit0 n)) = num.Bit0 (num.Bit0 (Num.inc n))"
  "adc (num.Bit0 num.One) (num.Bit1 (num.Bit1 n)) = num.Bit0 (num.Bit1 (Num.inc n))" "adc (num.Bit1 num.One) num.One = (num.Bit1 (num.Bit0 num.One))"
  "adc (num.Bit1 num.One) (num.Bit0 num.One) = (num.Bit0 (num.Bit1 num.One))" "adc (num.Bit1 num.One) (num.Bit1 num.One) = (num.Bit1 (num.Bit1 num.One))"
  "adc (num.Bit1 num.One) (num.Bit0 (num.Bit0 n)) = num.Bit0 (num.Bit0 (Num.inc n))" "adc (num.Bit1 num.One) (num.Bit0 (num.Bit1 n)) = num.Bit0 (num.Bit1 (Num.inc n))"
  "adc (num.Bit1 num.One) (num.Bit1 (num.Bit0 n)) = num.Bit1 (num.Bit0 (Num.inc n))" "adc (num.Bit1 num.One) (num.Bit1 (num.Bit1 n)) = num.Bit1 (num.Bit1 (Num.inc n))"
  "adc (num.Bit0 (num.Bit0 m)) num.One = num.Bit0 (num.Bit1 m)" "adc (num.Bit0 (num.Bit0 m)) (num.Bit0 num.One) = num.Bit1 (num.Bit1 m)"
  "adc (num.Bit0 (num.Bit0 m)) (num.Bit1 num.One) = num.Bit0 (num.Bit0 (Num.inc m))" "adc (num.Bit0 (num.Bit0 m)) (num.Bit0 (num.Bit0 n)) = num.Bit1 (num.Bit0 (ad m n))"
  "adc (num.Bit0 (num.Bit0 m)) (num.Bit0 (num.Bit1 n)) = num.Bit1 (num.Bit1 (ad m n))" "adc (num.Bit0 (num.Bit0 m)) (num.Bit1 (num.Bit0 n)) = num.Bit0 (num.Bit1 (ad m n))"
  "adc (num.Bit0 (num.Bit0 m)) (num.Bit1 (num.Bit1 n)) = num.Bit0 (num.Bit0 (adc m n))" "adc (num.Bit0 (num.Bit1 m)) num.One = num.Bit0 (num.Bit0 (Num.inc m))"
  "adc (num.Bit0 (num.Bit1 m)) (num.Bit0 num.One) = num.Bit1 (num.Bit0 (Num.inc m))" "adc (num.Bit0 (num.Bit1 m)) (num.Bit1 num.One) = num.Bit0 (num.Bit1 (Num.inc m))"
  "adc (num.Bit0 (num.Bit1 m)) (num.Bit0 (num.Bit0 n)) = num.Bit1 (num.Bit1 (ad m n))" "adc (num.Bit0 (num.Bit1 m)) (num.Bit0 (num.Bit1 n)) = num.Bit1 (num.Bit0 (adc m n))"
  "adc (num.Bit0 (num.Bit1 m)) (num.Bit1 (num.Bit0 n)) = num.Bit0 (num.Bit0 (adc m n))" "adc (num.Bit0 (num.Bit1 m)) (num.Bit1 (num.Bit1 n)) = num.Bit0 (num.Bit1 (adc m n))"
  "adc (num.Bit1 (num.Bit0 m)) num.One = num.Bit1 (num.Bit1 m)" "adc (num.Bit1 (num.Bit0 m)) (num.Bit0 num.One) = num.Bit0 (num.Bit0 (Num.inc m))"
  "adc (num.Bit1 (num.Bit0 m)) (num.Bit1 num.One) = num.Bit1 (num.Bit0 (Num.inc m))" "adc (num.Bit1 (num.Bit0 m)) (num.Bit0 (num.Bit0 n)) = num.Bit0 (num.Bit1 (ad m n))"
  "adc (num.Bit1 (num.Bit0 m)) (num.Bit0 (num.Bit1 n)) = num.Bit0 (num.Bit0 (adc m n))" "adc (num.Bit1 (num.Bit0 m)) (num.Bit1 (num.Bit0 n)) = num.Bit1 (num.Bit1 (ad m n))"
  "adc (num.Bit1 (num.Bit0 m)) (num.Bit1 (num.Bit1 n)) = num.Bit1 (num.Bit0 (adc m n))" "adc (num.Bit1 (num.Bit1 m)) num.One = num.Bit1 (num.Bit0 (Num.inc m))"
  "adc (num.Bit1 (num.Bit1 m)) (num.Bit0 num.One) = num.Bit0 (num.Bit1 (Num.inc m))" "adc (num.Bit1 (num.Bit1 m)) (num.Bit1 num.One) = num.Bit1 (num.Bit1 (Num.inc m))"
  "adc (num.Bit1 (num.Bit1 m)) (num.Bit0 (num.Bit0 n)) = num.Bit0 (num.Bit0 (adc m n))" "adc (num.Bit1 (num.Bit1 m)) (num.Bit0 (num.Bit1 n)) = num.Bit0 (num.Bit1 (adc m n))"
  "adc (num.Bit1 (num.Bit1 m)) (num.Bit1 (num.Bit0 n)) = num.Bit1 (num.Bit0 (adc m n))" "adc (num.Bit1 (num.Bit1 m)) (num.Bit1 (num.Bit1 n)) = num.Bit1 (num.Bit1 (adc m n))"
  by (simp_all add: ad_def adc_def inc_One)

lemma sq_simps:
  "sq num.One = num.One" "sq (num.Bit0 n) = num.Bit0 (num.Bit0 (sq n))"
  "sq (num.Bit1 n) = num.Bit1 (num.Bit0 (ad (sq n) n))"
  by (simp_all add: sq_def ad_def Num.sqr_conv_mult [symmetric])

lemma mu_simps:
  "mu num.One n = n" "mu (num.Bit0 m) n = num.Bit0 (mu m n)" "mu (num.Bit1 m) n = ad (num.Bit0 (mu m n)) n"
  by (simp_all add: mu_def ad_def num_eq_iff nat_of_num_mult nat_of_num_add algebra_simps)

section \<open>Folding\<close>

definition lo :: "nat \<Rightarrow> int \<Rightarrow> int" where "lo k x = take_bit k x"

definition hi :: "nat \<Rightarrow> int \<Rightarrow> int" where "hi k x = drop_bit k x"

definition addmul :: "int \<Rightarrow> num \<Rightarrow> int \<Rightarrow> int" where "addmul l c h = l + numeral c * h"

definition red :: "nat \<Rightarrow> num \<Rightarrow> int \<Rightarrow> int" where "red k c x = addmul (lo k x) c (hi k x)"

definition sqstep :: "nat \<Rightarrow> num \<Rightarrow> bool \<Rightarrow> int \<Rightarrow> int" where
  "sqstep k c b x = red k c (red k c (if b then 2 * (x * x) else x * x))"

text \<open>The bits of \<open>n\<close> below its leading one, from the top.\<close>

primrec run_num :: "nat \<Rightarrow> num \<Rightarrow> num \<Rightarrow> int \<Rightarrow> int" where
  "run_num k c num.One x = x"
| "run_num k c (num.Bit0 n) x = sqstep k c False (run_num k c n x)"
| "run_num k c (num.Bit1 n) x = sqstep k c True (run_num k c n x)"

primrec exp_num :: "num \<Rightarrow> nat \<Rightarrow> nat" where
  "exp_num num.One e = e"
| "exp_num (num.Bit0 n) e = 2 * exp_num n e"
| "exp_num (num.Bit1 n) e = 2 * exp_num n e + 1"

definition run :: "nat \<Rightarrow> num \<Rightarrow> nat \<Rightarrow> int \<Rightarrow> int" where "run k c b x = run_num k c (num_of_nat b) x"

definition bval :: "nat \<Rightarrow> nat \<Rightarrow> nat" where "bval e b = exp_num (num_of_nat b) e"

lemma lo_Suc:
  "lo (Suc k) (numeral (num.Bit0 n)) = Num.dbl (lo k (numeral n))"
  "lo (Suc k) (numeral (num.Bit1 n)) = Num.dbl_inc (lo k (numeral n))"
proof -
  have "numeral (num.Bit0 n) = 2 * (numeral n :: int)" "numeral (num.Bit1 n) = 1 + 2 * (numeral n :: int)" by simp_all
  then show "lo (Suc k) (numeral (num.Bit0 n)) = Num.dbl (lo k (numeral n))"
    "lo (Suc k) (numeral (num.Bit1 n)) = Num.dbl_inc (lo k (numeral n))"
    unfolding lo_def Num.dbl_def Num.dbl_inc_def by (simp_all only: take_bit_Suc) simp_all
qed

lemma lo_simps:
  "lo 0 x = 0" "lo (numeral k) 1 = 1" "lo (numeral k) (numeral num.One) = 1"
  "lo (numeral k) (numeral (num.Bit0 n)) = Num.dbl (lo (pred_numeral k) (numeral n))"
  "lo (numeral k) (numeral (num.Bit1 n)) = Num.dbl_inc (lo (pred_numeral k) (numeral n))"
  by (simp_all only: numeral_eq_Suc [of k] lo_Suc) (simp_all add: lo_def)

lemma hi_simps:
  "hi 0 x = x" "hi (numeral k) 1 = 0" "hi (numeral k) (numeral num.One) = 0"
  "hi (numeral k) (numeral (num.Bit0 n)) = hi (pred_numeral k) (numeral n)"
  "hi (numeral k) (numeral (num.Bit1 n)) = hi (pred_numeral k) (numeral n)"
  by (simp_all add: hi_def)

lemma addmul_simps:
  "addmul l c 0 = l" "addmul 0 c 1 = numeral c" "addmul 0 c (numeral h) = numeral (mu c h)"
  "addmul 1 c (numeral h) = numeral (Num.inc (mu c h))" "addmul 1 c 1 = numeral (Num.inc c)"
  "addmul (numeral m) c 1 = numeral (ad m c)" "addmul (numeral m) c (numeral h) = numeral (ad m (mu c h))"
  by (simp_all only: addmul_def mu_def ad_def numeral_add numeral_mult numeral_inc mult_zero_right add_0_right add_0_left
      mult_1_right add.commute [of 1])

lemma numeral_sq: "numeral a * numeral a = (numeral (sq a) :: int)"
  by (simp only: sq_def numeral_mult)

lemma numeral_dbl:
  "2 * numeral a = (numeral (num.Bit0 a) :: int)" "2 * numeral a = (numeral (num.Bit0 a) :: nat)"
  "numeral (num.Bit0 a) + 1 = (numeral (num.Bit1 a) :: nat)"
  by simp_all

lemma sqstep_simps:
  "sqstep k c False (numeral n) = red k c (red k c (numeral (sq n)))"
  "sqstep k c True (numeral n) = red k c (red k c (numeral (num.Bit0 (sq n))))"
  by (simp_all only: sqstep_def numeral_sq numeral_dbl if_True if_False)

lemma run_numeral: "run k c (numeral b) x = run_num k c b x"
  by (simp add: run_def num_of_nat_numeral_eq)

lemmas mx = run_numeral run_num.simps sqstep_simps red_def addmul_simps hi_simps lo_simps mu_simps ad_simps adc_simps sq_simps Num.inc.simps
  pred_numeral_simps Num.BitM.simps Num.dbl_simps Num.dbl_inc_simps

section \<open>Meaning\<close>

lemma red_mod:
  assumes "m dvd 2 ^ k - numeral c"
  shows "red k c x mod m = x mod m"
proof -
  have "x = lo k x + 2 ^ k * hi k x"
    by (simp only: lo_def hi_def take_bit_eq_mod drop_bit_eq_div mod_mult_div_eq)
  moreover have "(lo k x + 2 ^ k * hi k x) - red k c x = (2 ^ k - numeral c) * hi k x"
    by (simp only: red_def addmul_def left_diff_distrib)
  ultimately have "x - red k c x = (2 ^ k - numeral c) * hi k x" by simp
  then have "m dvd x - red k c x" using assms by simp
  then show ?thesis by (simp add: mod_eq_dvd_iff dvd_diff_commute)
qed

text \<open>\<open>x\<close> is the power of two with exponent \<open>e\<close>, modulo \<open>m\<close>.\<close>

definition pw :: "int \<Rightarrow> nat \<Rightarrow> int \<Rightarrow> bool" where
  "pw m e x \<longleftrightarrow> x mod m = 2 ^ e mod m"

lemma pw_step:
  assumes "m dvd 2 ^ k - numeral c" and "pw m e x"
  shows "pw m (if b then 2 * e + 1 else 2 * e) (sqstep k c b x)"
proof -
  have "2 ^ (2 * e) = (2 ^ e * 2 ^ e :: int)" by (simp only: mult_2 power_add)
  moreover have "2 ^ (2 * e + 1) = (2 * 2 ^ (2 * e) :: int)" by simp
  ultimately have p: "2 ^ (2 * e) = (2 ^ e * 2 ^ e :: int)" "2 ^ (2 * e + 1) = (2 * (2 ^ e * 2 ^ e) :: int)" by simp_all
  have sq: "x * x mod m = 2 ^ e * 2 ^ e mod m" by (rule mod_mult_cong) (use assms(2) in \<open>simp_all only: pw_def\<close>)
  have "2 * (x * x) mod m = 2 * (2 ^ e * 2 ^ e) mod m" by (rule mod_mult_cong [OF refl sq])
  with sq show ?thesis
    by (cases b) (simp_all only: pw_def sqstep_def red_mod [OF assms(1)] p if_True if_False)
qed

lemma pw_run_num:
  assumes "m dvd 2 ^ k - numeral c" and "pw m e x"
  shows "pw m (exp_num n e) (run_num k c n x)"
proof (induction n)
  case One
  then show ?case using assms(2) by simp
next
  case (Bit0 n)
  then show ?case using pw_step [OF assms(1), of "exp_num n e" _ False] by (simp only: exp_num.simps run_num.simps if_False)
next
  case (Bit1 n)
  then show ?case using pw_step [OF assms(1), of "exp_num n e" _ True] by (simp only: exp_num.simps run_num.simps if_True)
qed

lemma pw_mod: "pw m e x \<Longrightarrow> x = y + k * m \<Longrightarrow> pw m e y"
  by (simp add: pw_def)

lemma pw_square: "pw m e x \<Longrightarrow> pw m (2 * e) (x * x)"
  unfolding pw_def mult_2 power_add by (rule mod_mult_cong)

text \<open>The exponent of a chunk, on its own.\<close>

lemma bval_simps: "bval e (numeral b) = exp_num b e" "exp_num num.One e = e"
  "exp_num (num.Bit0 n) e = 2 * exp_num n e" "exp_num (num.Bit1 n) e = 2 * exp_num n e + 1"
  by (simp_all add: bval_def num_of_nat_numeral_eq)

lemma pw_chunk:
  assumes "pw m e x" and "m dvd 2 ^ k - numeral c" and "bval e b = e'" and "run k c b x = y"
  shows "pw m e' y"
  using pw_run_num [OF assms(2,1), of "num_of_nat b"] assms(3,4) by (simp add: bval_def run_def)

lemma pw_pocklington:
  assumes "is_prime r" and "n = r * R + 1" and "R div r + 1 < R mod r"
    and "pw (int n) (r * R) 1" and "pw (int n) R v" and "(v - 1) * u mod int n = 1"
  shows "is_prime n"
proof (rule pocklington [OF assms(1-3)])
  have "0 < r" "0 < R" using assms(1,3) by (auto simp: is_prime_def intro: gr0I)
  then have n1: "1 < n" using assms(2) by simp
  have "int (2 ^ (r * R) mod n) = 1" using assms(4) n1 by (simp add: pw_def zmod_int)
  then show "2 ^ (n - 1) mod n = 1" using assms(2) by simp
  have "int ((2 ^ R - 1) * nat (u mod int n) mod n) = (2 ^ R - 1) * u mod int n"
    using n1 by (simp add: zmod_int of_nat_diff mod_mult_right_eq)
  also have "\<dots> = (v - 1) * u mod int n"
    using assms(5) by (intro mod_mult_cong mod_diff_cong refl) (simp only: pw_def)
  finally have "int ((2 ^ R - 1) * nat (u mod int n) mod n) = 1" using assms(6) by simp
  then show "(2 ^ R - 1) * nat (u mod int n) mod n = 1" by simp
qed

end
