(* ===== verification/VL_Prime.thy ===== *)
theory VL_Prime
  imports VL_Modexp
begin

text \<open>
  The prime \<open>2 ^ 255 - 19\<close> of the curve, certified: each number of the chain is prime because a
  large prime factor of its predecessor is, which takes two powers of two modulo the number.
  The powers are cut into pieces of a few dozen squarings.
\<close>

definition p255 :: nat where "p255 = 57896044618658097711785492504343953926634992332820282019728792003956564819949"

definition q236 :: nat where "q236 = 74058212732561358302231226437062788676166966415465897661863160754340907"

definition q116 :: nat where "q116 = 75445702479781427272750846543864801"

definition q51 :: nat where "q51 = 1919519569386763"

definition q23 :: nat where "q23 = 8574133"

lemma p255_dvd: "int p255 dvd 2 ^ 255 - 19"
  by (rule dvdI [where k = 1]) (simp add: p255_def)

lemma q236_dvd: "int q236 dvd 2 ^ 255 - 20"
  by (rule dvdI [where k = 781764]) (simp add: q236_def)

lemma q116_dvd: "int q116 dvd 2 ^ 255 - 781784"
  by (rule dvdI [where k = 767386911589478085828632471834407565874984]) (simp add: q116_def)

lemma q51_dvd: "int q51 dvd 2 ^ 110 - 1455091829343720"
  by (rule dvdI [where k = 676249534172974408]) (simp add: q51_def)

lemma q23_dvd: "int q23 dvd 2 ^ 60 - 517808"
  by (rule dvdI [where k = 134465082896]) (simp add: q23_def)

section \<open>The small end\<close>

lemma is_prime_trial:
  fixes p k :: nat
  assumes "1 < p" and "p < k * k" and "\<And>d. d \<in> {2..<k} \<Longrightarrow> p mod d \<noteq> 0"
  shows "is_prime p"
proof -
  have big: "d = 1 \<or> k \<le> d" if d: "d dvd p" for d
  proof -
    have "d \<noteq> 0" using d assms(1) by (cases d) auto
    moreover have "\<not> (2 \<le> d \<and> d < k)" using assms(3) [of d] d by (auto simp: dvd_eq_mod_eq_0)
    ultimately show ?thesis by linarith
  qed
  have "d = 1 \<or> d = p" if d: "d dvd p" for d
  proof (rule ccontr)
    assume "\<not> ?thesis"
    moreover obtain e where e: "p = d * e" using d by (auto elim: dvdE)
    ultimately have "k \<le> d" "k \<le> e" using big [OF d] big [of e] by auto
    then show False using mult_le_mono [of k d k e] assms(2) e by simp
  qed
  then show ?thesis using assms(1) by (simp add: is_prime_def)
qed

lemma is_prime_991: "is_prime 991"
proof (rule is_prime_trial [where k = 32])
  have "list_all (\<lambda>d. 991 mod d \<noteq> (0 :: nat)) [2..<32]" by (simp add: upt_rec)
  then show "991 mod d \<noteq> 0" if "d \<in> {2..<32}" for d :: nat using that unfolding list_all_iff set_upt by blast
qed simp_all

lemma mod_mult_Suc: "1 < m \<Longrightarrow> (k * m + 1) mod m = (1 :: int)"
  by simp

section \<open>The prime of 24 bits\<close>

lemma q23_low_1:
  assumes "pw (int q23) 33 8589934592"
  shows "pw (int q23) 8652 31958854205487680"
  by (rule pw_chunk [OF assms q23_dvd, where b = 460]) (simp_all only: bval_simps numeral_dbl mx)

lemma q23_low: "pw (int q23) 8652 3435729"
proof (rule pw_mod [where k = 3727356947])
  have "pw (int q23) 33 8589934592" by (simp add: pw_def)
  from q23_low_1 [OF this]
  show "pw (int q23) 8652 31958854205487680" .
qed (simp add: q23_def)

lemma q23_high_1:
  assumes "pw (int q23) 32 4294967296"
  shows "pw (int q23) 8574132 1015320571189587936"
  by (rule pw_chunk [OF assms q23_dvd, where b = 447668]) (simp_all only: bval_simps numeral_dbl mx)

lemma q23_high: "pw (int q23) 8574132 1"
proof (rule pw_mod [where k = 118416704195])
  have "pw (int q23) 32 4294967296" by (simp add: pw_def)
  from q23_high_1 [OF this]
  show "pw (int q23) 8574132 1015320571189587936" .
qed (simp add: q23_def)

theorem is_prime_q23: "is_prime q23"
proof (rule pw_pocklington [OF is_prime_991])
  have e: "991 * 8652 = (8574132 :: nat)" by (simp)
  show "q23 = 991 * 8652 + 1" by (simp only: e) (simp add: q23_def)
  show "8652 div 991 + 1 < 8652 mod (991 :: nat)" by (simp)
  show "pw (int q23) (991 * 8652) 1" unfolding e by (rule q23_high)
  show "pw (int q23) 8652 3435729" by (rule q23_low)
  have e: "(3435729 - 1) * 1014251 = 406419 * int q23 + 1" by (simp add: q23_def)
  show "(3435729 - 1) * 1014251 mod int q23 = 1" unfolding e by (rule mod_mult_Suc) (simp add: q23_def)
qed

section \<open>The prime of 51 bits\<close>

lemma q51_low_1:
  assumes "pw (int q51) 53 9007199254740992"
  shows "pw (int q51) 223873314 464077019433552310219587260570736"
  by (rule pw_chunk [OF assms q51_dvd, where b = 5769506]) (simp_all only: bval_simps numeral_dbl mx)

lemma q51_low: "pw (int q51) 223873314 1059928654987441"
proof (rule pw_mod [where k = 241767276997239965])
  have "pw (int q51) 53 9007199254740992" by (simp add: pw_def)
  from q51_low_1 [OF this]
  show "pw (int q51) 223873314 464077019433552310219587260570736" .
qed (simp add: q51_def)

lemma q51_high_1:
  assumes "pw (int q51) 54 18014398509481984"
  shows "pw (int q51) 1919519569386762 446669206296952869012257658886208"
  by (rule pw_chunk [OF assms q51_dvd, where b = 54747848678666]) (simp_all only: bval_simps numeral_dbl mx)

lemma q51_high: "pw (int q51) 1919519569386762 1"
proof (rule pw_mod [where k = 232698438411676189])
  have "pw (int q51) 54 18014398509481984" by (simp add: pw_def)
  from q51_high_1 [OF this]
  show "pw (int q51) 1919519569386762 446669206296952869012257658886208" .
qed (simp add: q51_def)

theorem is_prime_q51: "is_prime q51"
proof (rule pw_pocklington [OF is_prime_q23])
  have e: "q23 * 223873314 = (1919519569386762 :: nat)" by (simp add: q23_def)
  show "q51 = q23 * 223873314 + 1" by (simp only: e) (simp add: q51_def)
  show "223873314 div q23 + 1 < 223873314 mod (q23 :: nat)" by (simp add: q23_def)
  show "pw (int q51) (q23 * 223873314) 1" unfolding e by (rule q51_high)
  show "pw (int q51) 223873314 1059928654987441" by (rule q51_low)
  have e: "(1059928654987441 - 1) * 1290547218147893 = 712619969572013 * int q51 + 1" by (simp add: q51_def)
  show "(1059928654987441 - 1) * 1290547218147893 mod int q51 = 1" unfolding e by (rule mod_mult_Suc) (simp add: q51_def)
qed

section \<open>The prime of 116 bits\<close>

lemma q116_low_1:
  assumes "pw (int q116) 34 17179869184"
  shows "pw (int q116) 37483665124175 14680911328190824268514585975869141625826042814245956522083112440813428022072"
  by (rule pw_chunk [OF assms q116_dvd, where b = 1199781407567]) (simp_all only: bval_simps numeral_dbl mx)

lemma q116_low_2:
  assumes "pw (int q116) 37483665124175 14680911328190824268514585975869141625826042814245956522083112440813428022072"
  shows "pw (int q116) 39304471641247389600 1527549958691509154920204335086173669350263101381302670432054683411697056328"
  by (rule pw_chunk [OF assms q116_dvd, where b = 1513376]) (simp_all only: bval_simps numeral_dbl mx)

lemma q116_low: "pw (int q116) 39304471641247389600 56747016255153332959347766392083459"
proof (rule pw_mod [where k = 20247010876476030120279409901201018621669])
  have "pw (int q116) 34 17179869184" by (simp add: pw_def)
  from q116_low_2 [OF q116_low_1 [OF this]]
  show "pw (int q116) 39304471641247389600 1527549958691509154920204335086173669350263101381302670432054683411697056328" .
qed (simp add: q116_def)

lemma q116_high_1:
  assumes "pw (int q116) 58 288230376151711744"
  shows "pw (int q116) 63904995729120 6350878283378350731400957661940923393050043167509152583041721404388335784256"
  by (rule pw_chunk [OF assms q116_dvd, where b = 1232832945888]) (simp_all only: bval_simps numeral_dbl mx)

lemma q116_high_2:
  assumes "pw (int q116) 63904995729120 6350878283378350731400957661940923393050043167509152583041721404388335784256"
  shows "pw (int q116) 70264285877143430777593372 31403564701145528451408071930801709446279362430398451668589580670049145611656"
  by (rule pw_chunk [OF assms q116_dvd, where b = 1471125184028]) (simp_all only: bval_simps numeral_dbl mx)

lemma q116_high_3:
  assumes "pw (int q116) 70264285877143430777593372 31403564701145528451408071930801709446279362430398451668589580670049145611656"
  shows "pw (int q116) 75445702479781427272750846543864800 979373265992207686614604952189499211209147209915156606674249722314753763448"
  by (rule pw_chunk [OF assms q116_dvd, where b = 2036016096]) (simp_all only: bval_simps numeral_dbl mx)

lemma q116_high: "pw (int q116) 75445702479781427272750846543864800 1"
proof (rule pw_mod [where k = 12981167035387712857523736489471630677847])
  have "pw (int q116) 58 288230376151711744" by (simp add: pw_def)
  from q116_high_3 [OF q116_high_2 [OF q116_high_1 [OF this]]]
  show "pw (int q116) 75445702479781427272750846543864800 979373265992207686614604952189499211209147209915156606674249722314753763448" .
qed (simp add: q116_def)

theorem is_prime_q116: "is_prime q116"
proof (rule pw_pocklington [OF is_prime_q51])
  have e: "q51 * 39304471641247389600 = (75445702479781427272750846543864800 :: nat)" by (simp add: q51_def)
  show "q116 = q51 * 39304471641247389600 + 1" by (simp only: e) (simp add: q116_def)
  show "39304471641247389600 div q51 + 1 < 39304471641247389600 mod (q51 :: nat)" by (simp add: q51_def)
  show "pw (int q116) (q51 * 39304471641247389600) 1" unfolding e by (rule q116_high)
  show "pw (int q116) 39304471641247389600 56747016255153332959347766392083459" by (rule q116_low)
  have e: "(56747016255153332959347766392083459 - 1) * 74602835786463724888147869570305675 = 56113048138023733339996598108928949 * int q116 + 1" by (simp add: q116_def)
  show "(56747016255153332959347766392083459 - 1) * 74602835786463724888147869570305675 mod int q116 = 1" unfolding e by (rule mod_mult_Suc) (simp add: q116_def)
qed

section \<open>The prime of 236 bits\<close>

lemma q236_low_1:
  assumes "pw (int q236) 47 140737488355328"
  shows "pw (int q236) 51965970341433 55908380629442628276511448415173177879167646314760688285040713031193567059148"
  by (rule pw_chunk [OF assms q236_dvd, where b = 1388435463737]) (simp_all only: bval_simps numeral_dbl mx)

lemma q236_low_2:
  assumes "pw (int q236) 51965970341433 55908380629442628276511448415173177879167646314760688285040713031193567059148"
  shows "pw (int q236) 57137188639069249116873826 17619384567401044590520255356575361437979682789576992038159342017734548606488"
  by (rule pw_chunk [OF assms q236_dvd, where b = 2012302058594]) (simp_all only: bval_simps numeral_dbl mx)

lemma q236_low_3:
  assumes "pw (int q236) 57137188639069249116873826 17619384567401044590520255356575361437979682789576992038159342017734548606488"
  shows "pw (int q236) 981609426360740691344999861639072106 54174540803231134683060494650026597741865019527785709117939538589068012509744"
  by (rule pw_chunk [OF assms q236_dvd, where b = 21105363306]) (simp_all only: bval_simps numeral_dbl mx)

lemma q236_low: "pw (int q236) 981609426360740691344999861639072106 69490809710348678725736597923071784769591275419387514694139338586948360"
proof (rule pw_mod [where k = 731512])
  have "pw (int q236) 47 140737488355328" by (simp add: pw_def)
  from q236_low_3 [OF q236_low_2 [OF q236_low_1 [OF this]]]
  show "pw (int q236) 981609426360740691344999861639072106 54174540803231134683060494650026597741865019527785709117939538589068012509744" .
qed (simp add: q236_def)

lemma q236_high_1:
  assumes "pw (int q236) 42 4398046511104"
  shows "pw (int q236) 47192615862867 38473119289408430622707987138118621743471742368193502273190689740110684798912"
  by (rule pw_chunk [OF assms q236_dvd, where b = 2112639124051]) (simp_all only: bval_simps numeral_dbl mx)

lemma q236_high_2:
  assumes "pw (int q236) 47192615862867 38473119289408430622707987138118621743471742368193502273190689740110684798912"
  shows "pw (int q236) 51888829886389422956153650 9289866611851244966137391347046929396845284148073576598973251363726611790104"
  by (rule pw_chunk [OF assms q236_dvd, where b = 2148503587634]) (simp_all only: bval_simps numeral_dbl mx)

lemma q236_high_3:
  assumes "pw (int q236) 51888829886389422956153650 9289866611851244966137391347046929396845284148073576598973251363726611790104"
  shows "pw (int q236) 57052371811775991581949842337708979963 26432787404221283041697136867465745876737095698775834679080339572081025561060"
  by (rule pw_chunk [OF assms q236_dvd, where b = 1849756825339]) (simp_all only: bval_simps numeral_dbl mx)

lemma q236_high_4:
  assumes "pw (int q236) 57052371811775991581949842337708979963 26432787404221283041697136867465745876737095698775834679080339572081025561060"
  shows "pw (int q236) 62729746199247398789746144448720961665924309522919 26530582984693135309985762033357467959567696196480937566564284049420281667652"
  by (rule pw_chunk [OF assms q236_dvd, where b = 1333122898407]) (simp_all only: bval_simps numeral_dbl mx)

lemma q236_high_5:
  assumes "pw (int q236) 62729746199247398789746144448720961665924309522919 26530582984693135309985762033357467959567696196480937566564284049420281667652"
  shows "pw (int q236) 68972085353509856669447595660633210722512534275153556523717158 28723059137034680415495224685404909427973607095053094489320909164582297104852"
  by (rule pw_chunk [OF assms q236_dvd, where b = 1128366346790]) (simp_all only: bval_simps numeral_dbl mx)

lemma q236_high_6:
  assumes "pw (int q236) 68972085353509856669447595660633210722512534275153556523717158 28723059137034680415495224685404909427973607095053094489320909164582297104852"
  shows "pw (int q236) 74058212732561358302231226437062788676166966415465897661863160754340906 33571254355584656770626135024958495672004571378828430603201527538389522211264"
  by (rule pw_chunk [OF assms q236_dvd, where b = 1337066538]) (simp_all only: bval_simps numeral_dbl mx)

lemma q236_high: "pw (int q236) 74058212732561358302231226437062788676166966415465897661863160754340906 1"
proof (rule pw_mod [where k = 453309])
  have "pw (int q236) 42 4398046511104" by (simp add: pw_def)
  from q236_high_6 [OF q236_high_5 [OF q236_high_4 [OF q236_high_3 [OF q236_high_2 [OF q236_high_1 [OF this]]]]]]
  show "pw (int q236) 74058212732561358302231226437062788676166966415465897661863160754340906 33571254355584656770626135024958495672004571378828430603201527538389522211264" .
qed (simp add: q236_def)

theorem is_prime_q236: "is_prime q236"
proof (rule pw_pocklington [OF is_prime_q116])
  have e: "q116 * 981609426360740691344999861639072106 = (74058212732561358302231226437062788676166966415465897661863160754340906 :: nat)" by (simp add: q116_def)
  show "q236 = q116 * 981609426360740691344999861639072106 + 1" by (simp only: e) (simp add: q236_def)
  show "981609426360740691344999861639072106 div q116 + 1 < 981609426360740691344999861639072106 mod (q116 :: nat)" by (simp add: q116_def)
  show "pw (int q236) (q116 * 981609426360740691344999861639072106) 1" unfolding e by (rule q236_high)
  show "pw (int q236) 981609426360740691344999861639072106 69490809710348678725736597923071784769591275419387514694139338586948360" by (rule q236_low)
  have e: "(69490809710348678725736597923071784769591275419387514694139338586948360 - 1) * 70463328703800545008217672123162676565183935400628861884889913886334520 = 66117633491858138461393741777649859022484251587227054915412604379442197 * int q236 + 1" by (simp add: q236_def)
  show "(69490809710348678725736597923071784769591275419387514694139338586948360 - 1) * 70463328703800545008217672123162676565183935400628861884889913886334520 mod int q236 = 1" unfolding e by (rule mod_mult_Suc) (simp add: q236_def)
qed

section \<open>The prime of 255 bits\<close>

lemma p255_low_1:
  assumes "pw (int p255) 47 140737488355328"
  shows "pw (int p255) 781764 427094198651976259540344842774561673889945192655078505504941250475370961481"
  by (rule pw_chunk [OF assms p255_dvd, where b = 28100]) (simp_all only: bval_simps numeral_dbl mx)

lemma p255_low: "pw (int p255) 781764 427094198651976259540344842774561673889945192655078505504941250475370961481"
proof (rule pw_mod [where k = 0])
  have "pw (int p255) 47 140737488355328" by (simp add: pw_def)
  from p255_low_1 [OF this]
  show "pw (int p255) 781764 427094198651976259540344842774561673889945192655078505504941250475370961481" .
qed (simp add: p255_def)

lemma p255_half_1:
  assumes "pw (int p255) 63 9223372036854775808"
  shows "pw (int p255) 70368744177663 46829877536710347127320434698448566838685447823836470715081022519073557726773"
  by (rule pw_chunk [OF assms p255_dvd, where b = 2199023255551]) (simp_all only: bval_simps numeral_dbl mx)

lemma p255_half_2:
  assumes "pw (int p255) 70368744177663 46829877536710347127320434698448566838685447823836470715081022519073557726773"
  shows "pw (int p255) 77371252455336267181195263 839549009537373727335591448127933459387573416171681425111262846257465607395"
  by (rule pw_chunk [OF assms p255_dvd, where b = 2199023255551]) (simp_all only: bval_simps numeral_dbl mx)

lemma p255_half_3:
  assumes "pw (int p255) 77371252455336267181195263 839549009537373727335591448127933459387573416171681425111262846257465607395"
  shows "pw (int p255) 85070591730234615865843651857942052863 11338079573254137144714295952580911299677830590163390051859627963489637121218"
  by (rule pw_chunk [OF assms p255_dvd, where b = 2199023255551]) (simp_all only: bval_simps numeral_dbl mx)

lemma p255_half_4:
  assumes "pw (int p255) 85070591730234615865843651857942052863 11338079573254137144714295952580911299677830590163390051859627963489637121218"
  shows "pw (int p255) 93536104789177786765035829293842113257979682750463 35579438349793358381572025108442492934664453576748305360961308541578088690388"
  by (rule pw_chunk [OF assms p255_dvd, where b = 2199023255551]) (simp_all only: bval_simps numeral_dbl mx)

lemma p255_half_5:
  assumes "pw (int p255) 93536104789177786765035829293842113257979682750463 35579438349793358381572025108442492934664453576748305360961308541578088690388"
  shows "pw (int p255) 102844034832575377634685573909834406561420991602098741459288063 6867356314802072500137672020365772398649811024958711628042637258408446576935"
  by (rule pw_chunk [OF assms p255_dvd, where b = 2199023255551]) (simp_all only: bval_simps numeral_dbl mx)

lemma p255_half_6:
  assumes "pw (int p255) 102844034832575377634685573909834406561420991602098741459288063 6867356314802072500137672020365772398649811024958711628042637258408446576935"
  shows "pw (int p255) 113078212145816597093331040047546785012958969400039613319782796882727665663 15513182470649566372280220337745372463859220538938362347543710404034055407928"
  by (rule pw_chunk [OF assms p255_dvd, where b = 2199023255551]) (simp_all only: bval_simps numeral_dbl mx)

lemma p255_half_7:
  assumes "pw (int p255) 113078212145816597093331040047546785012958969400039613319782796882727665663 15513182470649566372280220337745372463859220538938362347543710404034055407928"
  shows "pw (int p255) 28948022309329048855892746252171976963317496166410141009864396001978282409974 57896044618658097711785492504343953926634992332820282019728792003956564819948"
  by (rule pw_chunk [OF assms p255_dvd, where b = 502]) (simp_all only: bval_simps numeral_dbl mx)

lemma p255_half: "pw (int p255) 28948022309329048855892746252171976963317496166410141009864396001978282409974 (- 1)"
proof (rule pw_mod [where k = 1])
  have "pw (int p255) 63 9223372036854775808" by (simp add: pw_def)
  from p255_half_7 [OF p255_half_6 [OF p255_half_5 [OF p255_half_4 [OF p255_half_3 [OF p255_half_2 [OF p255_half_1 [OF this]]]]]]]
  show "pw (int p255) 28948022309329048855892746252171976963317496166410141009864396001978282409974 57896044618658097711785492504343953926634992332820282019728792003956564819948" .
qed (simp add: p255_def)

lemma p255_high: "pw (int p255) 57896044618658097711785492504343953926634992332820282019728792003956564819948 1"
  using pw_square [OF p255_half] by simp

theorem is_prime_p255: "is_prime p255"
proof (rule pw_pocklington [OF is_prime_q236])
  have e: "q236 * 781764 = (57896044618658097711785492504343953926634992332820282019728792003956564819948 :: nat)" by (simp add: q236_def)
  show "p255 = q236 * 781764 + 1" by (simp only: e) (simp add: p255_def)
  show "781764 div q236 + 1 < 781764 mod (q236 :: nat)" by (simp add: q236_def)
  show "pw (int p255) (q236 * 781764) 1" unfolding e by (rule p255_high)
  show "pw (int p255) 781764 427094198651976259540344842774561673889945192655078505504941250475370961481" by (rule p255_low)
  have e: "(427094198651976259540344842774561673889945192655078505504941250475370961481 - 1) * 55540832096118778044507775605005710249233119951144946814680141076505643269084 = 409719996120619553712206717513598108624848060785013849502386565616653579131 * int p255 + 1" by (simp add: p255_def)
  show "(427094198651976259540344842774561673889945192655078505504941250475370961481 - 1) * 55540832096118778044507775605005710249233119951144946814680141076505643269084 mod int p255 = 1" unfolding e by (rule mod_mult_Suc) (simp add: p255_def)
qed

end
