(* ===== verification/VL_Fp.thy ===== *)
theory VL_Fp
  imports VL_Ed25519_Correct VL_Prime
begin

text \<open>
  The residues modulo p as a type of their own, a field since p is prime, so that the library's
  ring automation proves the identities of the curve. \<open>of_int\<close> is the reduction: two
  integers have the same image exactly when they agree modulo p.
\<close>

typedef fp = "{0 ..< p25519}"
  by (rule exI [of _ 0]) (simp add: p25519_def)

setup_lifting type_definition_fp

instantiation fp :: comm_ring_1
begin

lift_definition zero_fp :: fp is 0 by (simp add: p25519_def)

lift_definition one_fp :: fp is 1 by (simp add: p25519_def)

lift_definition plus_fp :: "fp \<Rightarrow> fp \<Rightarrow> fp" is "\<lambda>x y. (x + y) mod p25519" by (simp add: p25519_def)

lift_definition minus_fp :: "fp \<Rightarrow> fp \<Rightarrow> fp" is "\<lambda>x y. (x - y) mod p25519" by (simp add: p25519_def)

lift_definition uminus_fp :: "fp \<Rightarrow> fp" is "\<lambda>x. - x mod p25519" by (simp add: p25519_def)

lift_definition times_fp :: "fp \<Rightarrow> fp \<Rightarrow> fp" is "\<lambda>x y. x * y mod p25519" by (simp add: p25519_def)

instance
proof
  fix a b c :: fp
  show "a * b * c = a * (b * c)" by transfer (simp add: mod_mult_left_eq mod_mult_right_eq mult.assoc)
  show "a * b = b * a" by transfer (simp add: mult.commute)
  show "1 * a = a" by transfer simp
  show "a + b + c = a + (b + c)" by transfer (simp add: mod_simps add.assoc)
  show "a + b = b + a" by transfer (simp add: add.commute)
  show "0 + a = a" by transfer simp
  show "- a + a = 0" by transfer (simp add: mod_simps)
  show "a - b = a + - b" by transfer (simp add: mod_simps)
  show "(a + b) * c = a * c + b * c" by transfer (simp add: mod_simps distrib_right)
  show "(0 :: fp) \<noteq> 1" by transfer simp
qed

end

lemma of_nat_fp: "Rep_fp (of_nat n) = int n mod p25519"
  by (induction n) (simp_all add: zero_fp.rep_eq plus_fp.rep_eq one_fp.rep_eq mod_simps)

lemma of_int_fp: "Rep_fp (of_int v) = v mod p25519"
  by (cases v rule: int_cases2) (simp_all add: of_nat_fp uminus_fp.rep_eq mod_minus_eq)

lemma of_int_fp_eq: "(of_int v :: fp) = of_int w \<longleftrightarrow> v mod p25519 = w mod p25519"
  by (simp add: Rep_fp_inject [symmetric] of_int_fp)

lemma of_int_fp_mod [simp]: "of_int (v mod p25519) = (of_int v :: fp)"
  by (simp add: of_int_fp_eq)

lemma fp_cases: obtains v where "(x :: fp) = of_int v" "0 \<le> v" "v < p25519"
proof
  show "x = of_int (Rep_fp x)" by (simp add: Rep_fp_inject [symmetric] of_int_fp) (use Rep_fp [of x] in simp)
qed (use Rep_fp [of x] in simp_all)

section \<open>The field\<close>

lemma p25519_eq: "p25519 = int p255"
  by (simp add: p25519_def p255_def)

lemma of_nat_fp_eq: "(of_nat v :: fp) = of_nat w \<longleftrightarrow> v mod p255 = w mod p255"
proof -
  have "(of_nat v :: fp) = of_nat w \<longleftrightarrow> int v mod int p255 = int w mod int p255"
    using of_int_fp_eq [of "int v" "int w"] by (simp add: p25519_eq)
  then show ?thesis by (simp flip: zmod_int)
qed

lemma fp_nat_cases: obtains v where "(x :: fp) = of_nat v" "v < p255"
proof -
  obtain v where "x = of_int v" "0 \<le> v" "v < p25519" by (rule fp_cases)
  then show ?thesis by (intro that [of "nat v"]) (simp_all add: p25519_eq nat_less_iff)
qed

lemma fp_fermat: "x \<noteq> 0 \<Longrightarrow> x ^ (p255 - 1) = (1 :: fp)"
proof -
  assume x: "x \<noteq> 0"
  obtain v where v: "x = of_nat v" "v < p255" by (rule fp_nat_cases)
  have "v mod p255 \<noteq> 0" using x v of_nat_fp_eq [of v 0] by auto
  then have "\<not> p255 dvd v" by (simp add: dvd_eq_mod_eq_0)
  from fermat_little [OF is_prime_p255 this] have "v ^ (p255 - 1) mod p255 = 1 mod p255"
    using is_prime_p255 by (simp add: is_prime_def)
  then show ?thesis using of_nat_fp_eq [of "v ^ (p255 - 1)" 1] by (simp add: v)
qed

lemma p255_ge: "2 < p255"
  by (simp add: p255_def)

instantiation fp :: field
begin

definition inverse_fp :: "fp \<Rightarrow> fp" where "inverse_fp x = x ^ (p255 - 2)"

definition divide_fp :: "fp \<Rightarrow> fp \<Rightarrow> fp" where "divide_fp x y = x * inverse y"

instance
proof
  fix a b :: fp
  have "p255 - 1 = Suc (p255 - 2)" using p255_ge by simp
  then show "a \<noteq> 0 \<Longrightarrow> inverse a * a = 1"
    using fp_fermat [of a] by (simp add: inverse_fp_def mult.commute)
  show "a div b = a * inverse b" by (rule divide_fp_def)
  show "inverse (0 :: fp) = 0" using p255_ge by (simp add: inverse_fp_def power_0_left)
qed

end

lemma fp_inverse_power: "inverse (x :: fp) = x ^ (2 ^ 255 - 21)"
proof -
  have "p255 - 2 = 2 ^ 255 - 21" by (simp add: p255_def)
  then show ?thesis by (simp only: inverse_fp_def)
qed

lemma of_int_fp_inv: "(of_int (fp_inv v) :: fp) = inverse (of_int v)"
  unfolding fp_inv_def of_int_fp_mod fp_inverse_power by (rule of_int_power)

lemma of_int_fp_pow2523: "(of_int (fp_pow2523 v) :: fp) = of_int v ^ (2 ^ 252 - 3)"
  unfolding fp_pow2523_def of_int_fp_mod by (rule of_int_power)

section \<open>Squares\<close>

text \<open>Half of the order of the multiplicative group.\<close>

definition half :: nat where "half = 2 ^ 254 - 10"

lemma half_twice: "p255 - 1 = half * 2"
  by (simp add: half_def p255_def)

lemma fp_euler:
  assumes "x \<noteq> 0"
  shows "x ^ half = 1 \<or> x ^ half = (- 1 :: fp)"
proof -
  have "(x ^ half) ^ 2 = 1" using fp_fermat [OF assms] by (simp only: half_twice power_mult)
  then show ?thesis by (simp add: power2_eq_1_iff)
qed

lemma fp_square_half:
  assumes "x \<noteq> 0"
  shows "(x * x) ^ half = (1 :: fp)"
proof -
  have "(x * x) ^ half = x ^ (p255 - 1)" unfolding half_twice by (simp add: power_mult power2_eq_square mult.commute [of half])
  then show ?thesis using fp_fermat [OF assms] by simp
qed

lemma two_half: "(2 :: fp) ^ half = - 1"
proof -
  have h: "half = 28948022309329048855892746252171976963317496166410141009864396001978282409974"
    by (simp add: half_def)
  have "(2 ^ half :: int) mod p25519 = - 1 mod p25519"
    using p255_half unfolding pw_def p25519_eq h by (rule sym)
  then have "(of_int (2 ^ half) :: fp) = of_int (- 1)" by (simp only: of_int_fp_eq)
  then show ?thesis by simp
qed

lemma fp_two_neq [simp]: "(2 :: fp) \<noteq> 0" "(1 :: fp) \<noteq> - 1"
proof -
  have "(of_int 2 :: fp) \<noteq> of_int 0" by (subst of_int_fp_eq) (simp add: p25519_def)
  then show "(2 :: fp) \<noteq> 0" by simp
  have "(of_int 1 :: fp) \<noteq> of_int (- 1)" by (subst of_int_fp_eq) (simp add: p25519_def)
  then show "(1 :: fp) \<noteq> - 1" by simp
qed

definition fp_d :: fp where "fp_d = of_int ed_d"

definition fp_i :: fp where "fp_i = of_int sqrt_m1"

lemma fp_i_square: "fp_i * fp_i = - 1"
proof -
  have "(of_int (sqrt_m1 * sqrt_m1) :: fp) = of_int (- 1)"
    using sqrt_m1_eq by (subst of_int_fp_eq) (simp add: p25519_def)
  then show ?thesis by (simp add: fp_i_def)
qed

text \<open>\<open>d\<close> is twice a square, and two is not a square.\<close>

lemma fp_d_eq: "\<exists>s. fp_d = 2 * (s * s)"
proof -
  have "(2 * (27743816457963812774641206959592307466129752884024662119645920050325439466584 * 27743816457963812774641206959592307466129752884024662119645920050325439466584)) mod p25519 = ed_d mod p25519"
    by (rule mod_eqI [where q = 26589704243979633535490931800496649562179815830676115052593067986100212495793]) (simp add: ed_d_def p25519_def)
  then have "(of_int (2 * (27743816457963812774641206959592307466129752884024662119645920050325439466584 * 27743816457963812774641206959592307466129752884024662119645920050325439466584)) :: fp) = of_int ed_d" by (simp only: of_int_fp_eq)
  then show ?thesis unfolding fp_d_def by (intro exI [of _ "of_int 27743816457963812774641206959592307466129752884024662119645920050325439466584"]) (simp only: of_int_mult of_int_numeral)
qed

lemma fp_d_nonsquare: "fp_d \<noteq> x * x"
proof
  assume e: "fp_d = x * x"
  obtain s where s: "fp_d = 2 * (s * s)" using fp_d_eq by blast
  have "fp_d \<noteq> 0"
  proof -
    have "(of_int ed_d :: fp) \<noteq> of_int 0" by (subst of_int_fp_eq) (simp add: p25519_def ed_d_def)
    then show ?thesis by (simp add: fp_d_def)
  qed
  then have "x \<noteq> 0" "s \<noteq> 0" using e s by auto
  have "fp_d ^ half = 1" unfolding e by (rule fp_square_half [OF \<open>x \<noteq> 0\<close>])
  moreover have "fp_d ^ half = 2 ^ half * (s * s) ^ half" unfolding s by (rule power_mult_distrib)
  ultimately have "1 = (- 1 :: fp)" by (simp only: fp_square_half [OF \<open>s \<noteq> 0\<close>] two_half mult_1_right)
  then show False by (simp only: fp_two_neq)
qed

end
