(* ===== verification/VL_Curve.thy ===== *)
theory VL_Curve
  imports VL_Fp
begin

text \<open>
  The twisted Edwards curve of Ed25519 over the field of \<open>p\<close> elements, and its group. The
  addition is complete because \<open>d\<close> is not a square and -1 is one: no denominator of it vanishes
  on the curve (Bernstein and Lange).
\<close>

section \<open>The curve\<close>

definition on_curve :: "fp \<Rightarrow> fp \<Rightarrow> bool" where
  "on_curve x y \<longleftrightarrow> y * y - x * x = 1 + fp_d * (x * x) * (y * y)"

lemma square_quotient: "b \<noteq> 0 \<Longrightarrow> a * a = c * b * b \<Longrightarrow> c = a / b * (a / b :: fp)"
  by (simp add: field_simps)

lemma completeness:
  assumes c1: "on_curve x1 y1" and c2: "on_curve x2 y2" and e: "e = fp_d * x1 * x2 * y1 * y2"
  shows "e * e \<noteq> 1"
proof
  assume one: "e * e = 1"
  have nz: "x1 \<noteq> 0" "x2 \<noteq> 0" "y1 \<noteq> 0" "y2 \<noteq> 0" using one e by auto
  have sq: "(fp_i * x1 + u * e * y1) * (fp_i * x1 + u * e * y1) = fp_d * (x1 * y1 * (fp_i * x2 + u * y2)) * (x1 * y1 * (fp_i * x2 + u * y2))"
    if "u * u = 1" for u
    using c1 c2 e one fp_i_square that unfolding on_curve_def by algebra
  have no: "fp_i * x2 + u * y2 = 0" if u: "u * u = 1" for u
  proof (rule ccontr)
    assume ne: "fp_i * x2 + u * y2 \<noteq> 0"
    let ?b = "x1 * y1 * (fp_i * x2 + u * y2)"
    have "?b \<noteq> 0" using nz ne by simp
    then have "fp_d = (fp_i * x1 + u * e * y1) / ?b * ((fp_i * x1 + u * e * y1) / ?b)"
      using sq [OF u] by (rule square_quotient)
    then show False using fp_d_nonsquare by blast
  qed
  have "fp_i * x2 + 1 * y2 = 0" "fp_i * x2 + - 1 * y2 = 0" by (rule no; simp)+
  then have "2 * y2 = 0" by algebra
  then show False using nz by simp
qed

definition add_x :: "fp \<Rightarrow> fp \<Rightarrow> fp \<Rightarrow> fp \<Rightarrow> fp" where
  "add_x x1 y1 x2 y2 = (x1 * y2 + x2 * y1) / (1 + fp_d * x1 * x2 * y1 * y2)"

definition add_y :: "fp \<Rightarrow> fp \<Rightarrow> fp \<Rightarrow> fp \<Rightarrow> fp" where
  "add_y x1 y1 x2 y2 = (y1 * y2 + x1 * x2) / (1 - fp_d * x1 * x2 * y1 * y2)"

lemma denominators:
  assumes "on_curve x1 y1" and "on_curve x2 y2"
  shows "1 + fp_d * x1 * x2 * y1 * y2 \<noteq> 0" and "1 - fp_d * x1 * x2 * y1 * y2 \<noteq> 0"
proof -
  have n: "fp_d * x1 * x2 * y1 * y2 * (fp_d * x1 * x2 * y1 * y2) \<noteq> 1" by (rule completeness [OF assms refl])
  show "1 + fp_d * x1 * x2 * y1 * y2 \<noteq> 0" using n by (metis add.inverse_unique mult_minus_left mult_minus_right minus_minus mult_1_right)
  show "1 - fp_d * x1 * x2 * y1 * y2 \<noteq> 0" using n by (metis eq_iff_diff_eq_0 mult_1_right)
qed

lemma sum_eqs:
  assumes "on_curve x1 y1" and "on_curve x2 y2"
  shows "add_x x1 y1 x2 y2 * (1 + fp_d * x1 * x2 * y1 * y2) = x1 * y2 + x2 * y1"
    and "add_y x1 y1 x2 y2 * (1 - fp_d * x1 * x2 * y1 * y2) = y1 * y2 + x1 * x2"
  using denominators [OF assms] by (simp_all add: add_x_def add_y_def)

lemma closed:
  assumes c: "on_curve x1 y1" "on_curve x2 y2"
  shows "on_curve (add_x x1 y1 x2 y2) (add_y x1 y1 x2 y2)"
proof -
  let ?x = "add_x x1 y1 x2 y2" and ?y = "add_y x1 y1 x2 y2" and ?e = "fp_d * x1 * x2 * y1 * y2"
  have "(?y * ?y - ?x * ?x - 1 - fp_d * (?x * ?x) * (?y * ?y)) * ((1 + ?e) * (1 + ?e) * (1 - ?e) * (1 - ?e)) = 0"
    using sum_eqs [OF c] c unfolding on_curve_def by algebra
  then have "?y * ?y - ?x * ?x - 1 - fp_d * (?x * ?x) * (?y * ?y) = 0" using denominators [OF c] by simp
  then show ?thesis unfolding on_curve_def by algebra
qed


lemma quotients_eq: "g \<noteq> 0 \<Longrightarrow> h \<noteq> 0 \<Longrightarrow> (m * h - n * g) * k = 0 \<Longrightarrow> k \<noteq> 0 \<Longrightarrow> m / g = n / (h :: fp)"
  by (simp add: field_simps)

lemma assoc:
  assumes c: "on_curve x1 y1" "on_curve x2 y2" "on_curve x3 y3"
  defines "a \<equiv> add_x x1 y1 x2 y2" and "b \<equiv> add_y x1 y1 x2 y2"
    and "u \<equiv> add_x x2 y2 x3 y3" and "v \<equiv> add_y x2 y2 x3 y3"
  shows "add_x a b x3 y3 = add_x x1 y1 u v" and "add_y a b x3 y3 = add_y x1 y1 u v"
proof -
  let ?e = "fp_d * x1 * x2 * y1 * y2" and ?f = "fp_d * x2 * x3 * y2 * y3"
  let ?g = "fp_d * a * x3 * b * y3" and ?h = "fp_d * x1 * u * y1 * v"
  have ab: "on_curve a b" and uv: "on_curve u v" unfolding a_def b_def u_def v_def by (rule closed c)+
  note s1 = sum_eqs [OF c(1,2), folded a_def b_def] and s2 = sum_eqs [OF c(2,3), folded u_def v_def]
  note n = denominators [OF c(1,2)] denominators [OF c(2,3)]
  have k: "(1 + ?e) * (1 - ?e) * (1 + ?f) * (1 - ?f) \<noteq> 0" using n by simp
  have "((a * y3 + x3 * b) * (1 + ?h) - (x1 * v + u * y1) * (1 + ?g)) * ((1 + ?e) * (1 - ?e) * (1 + ?f) * (1 - ?f)) = 0"
    using s1 s2 c unfolding on_curve_def by algebra
  then show "add_x a b x3 y3 = add_x x1 y1 u v"
    unfolding add_x_def [of a] add_x_def [of x1 y1 u] by (rule quotients_eq [OF denominators(1) [OF ab c(3)] denominators(1) [OF c(1) uv] _ k])
  have "((b * y3 + a * x3) * (1 - ?h) - (y1 * v + x1 * u) * (1 - ?g)) * ((1 + ?e) * (1 - ?e) * (1 + ?f) * (1 - ?f)) = 0"
    using s1 s2 c unfolding on_curve_def by algebra
  then show "add_y a b x3 y3 = add_y x1 y1 u v"
    unfolding add_y_def [of a] add_y_def [of x1 y1 u] by (rule quotients_eq [OF denominators(2) [OF ab c(3)] denominators(2) [OF c(1) uv] _ k])
qed

section \<open>The group\<close>

typedef curve = "{(x, y). on_curve x y}"
  by (rule exI [of _ "(0, 1)"]) (simp add: on_curve_def)

definition px :: "curve \<Rightarrow> fp" where "px P = fst (Rep_curve P)"

definition py :: "curve \<Rightarrow> fp" where "py P = snd (Rep_curve P)"

definition point :: "fp \<Rightarrow> fp \<Rightarrow> curve" where "point x y = Abs_curve (x, y)"

lemma curve_coords [simp]: "on_curve (px P) (py P)"
  using Rep_curve [of P] by (auto simp: px_def py_def)

lemma point_coords [simp]: "on_curve x y \<Longrightarrow> px (point x y) = x" "on_curve x y \<Longrightarrow> py (point x y) = y"
  by (simp_all add: px_def py_def point_def Abs_curve_inverse)

lemma curve_eq_iff: "P = Q \<longleftrightarrow> px P = px Q \<and> py P = py Q"
  by (auto simp: px_def py_def Rep_curve_inject [symmetric] prod_eq_iff)

instantiation curve :: ab_group_add
begin

definition zero_curve :: curve where "0 = point 0 1"

definition uminus_curve :: "curve \<Rightarrow> curve" where "- P = point (- px P) (py P)"

definition plus_curve :: "curve \<Rightarrow> curve \<Rightarrow> curve" where
  "P + Q = point (add_x (px P) (py P) (px Q) (py Q)) (add_y (px P) (py P) (px Q) (py Q))"

definition minus_curve :: "curve \<Rightarrow> curve \<Rightarrow> curve" where "P - Q = P + - (Q :: curve)"

lemma zero_coords [simp]: "px 0 = 0" "py 0 = 1"
  by (simp_all add: zero_curve_def on_curve_def)

lemma uminus_coords [simp]: "px (- P) = - px P" "py (- P) = py P"
proof -
  have "on_curve (- px P) (py P)" using curve_coords [of P] by (simp add: on_curve_def)
  then show "px (- P) = - px P" "py (- P) = py P" by (simp_all add: uminus_curve_def)
qed

lemma plus_coords:
  "px (P + Q) = add_x (px P) (py P) (px Q) (py Q)" "py (P + Q) = add_y (px P) (py P) (px Q) (py Q)"
  by (simp_all add: plus_curve_def closed)

instance
proof
  fix P Q R :: curve
  show "P + Q + R = P + (Q + R)"
    using assoc [OF curve_coords curve_coords curve_coords, of P Q R] by (simp only: curve_eq_iff plus_coords)
  show "P + Q = Q + P"
    by (simp add: curve_eq_iff plus_coords add_x_def add_y_def ac_simps)
  show "0 + P = P"
    by (simp add: curve_eq_iff plus_coords add_x_def add_y_def)
  show "- P + P = 0"
  proof -
    have "py P * py P - px P * px P = 1 + fp_d * px P * px P * py P * py P"
      using curve_coords [of P] by (simp add: on_curve_def ac_simps)
    then show ?thesis
      using denominators(1) [OF curve_coords curve_coords, of P P]
      by (simp add: curve_eq_iff plus_coords add_x_def add_y_def)
  qed
  show "P - Q = P + - Q" by (rule minus_curve_def)
qed

end

text \<open>Multiples.\<close>

definition smul :: "nat \<Rightarrow> 'a :: ab_group_add \<Rightarrow> 'a" where
  "smul n P = ((+) P ^^ n) 0"

lemma smul_simps [simp]: "smul 0 P = 0" "smul (Suc n) P = P + smul n P"
  by (simp_all add: smul_def)

lemma smul_add: "smul (m + n) P = smul m P + smul n P"
  by (induction m) (simp_all add: add.assoc)

lemma smul_minus: "smul n (- P) = - smul n P"
  by (induction n) simp_all

lemma smul_double: "smul (2 * n) P = smul n P + smul n P"
  by (simp add: mult_2 smul_add)

end
