(* ===== verification/VL_Ed25519_Group.thy ===== *)
theory VL_Ed25519_Group
  imports VL_Ed25519_Correct
begin

text \<open>
  Points and scalars. \<open>ep_add\<close> is the unified addition of RFC 8032, 5.1.4, on four
  residues in extended coordinates, \<open>ep_ladder\<close> the double-and-add ladder by recursion on
  the number of bits, \<open>ep_encode\<close> the encoding of 5.1.2; the limb code refines each of
  them. The scalar side, \<open>modL\<close> and \<open>scalar_is_reduced\<close>, is related to the residue
  modulo the group order of the little-endian value of the bytes.
\<close>

section \<open>Points over residues\<close>

type_synonym epoint = "int \<times> int \<times> int \<times> int"

definition ep_add :: "epoint \<Rightarrow> epoint \<Rightarrow> epoint" where
  "ep_add P Q =
     (case (P, Q) of ((x1, y1, z1, t1), (x2, y2, z2, t2)) \<Rightarrow>
        let a = (y1 - x1) * (y2 - x2); b = (y1 + x1) * (y2 + x2);
            c = t1 * 2 * ed_d * t2; d = z1 * 2 * z2;
            e = b - a; f = d - c; g = d + c; h = b + a
        in (e * f mod p25519, g * h mod p25519, f * g mod p25519, e * h mod p25519))"

definition ep_neutral :: epoint where "ep_neutral = (0, 1, 1, 0)"

definition ep_base :: epoint where "ep_base = (base_x, base_y, 1, base_x * base_y mod p25519)"

text \<open>The two points of the ladder after the top \<open>k\<close> bits, \<open>n\<close> the number they write.\<close>

primrec ep_ladder :: "nat \<Rightarrow> int \<Rightarrow> epoint \<Rightarrow> epoint \<times> epoint" where
  "ep_ladder 0 n Q = (ep_neutral, Q)"
| "ep_ladder (Suc k) n Q =
     (let (R0, R1) = ep_ladder k (n div 2) Q
      in if even n then (ep_add R0 R0, ep_add R1 R0) else (ep_add R0 R1, ep_add R1 R1))"

definition ep_mult :: "int \<Rightarrow> epoint \<Rightarrow> epoint" where
  "ep_mult n Q = fst (ep_ladder 256 n Q)"

fun prepr :: "point \<Rightarrow> epoint \<Rightarrow> bool" where
  "prepr (p0, p1, p2, p3) (x, y, z, t) \<longleftrightarrow>
     repr 65573 p0 x \<and> repr 65573 p1 y \<and> repr 65573 p2 z \<and> repr 65573 p3 t"

lemma repr_mod [simp]: "repr c x (v mod p25519) \<longleftrightarrow> repr c x v"
  by (simp add: repr_def)

lemma repr_eq: "repr c x v \<Longrightarrow> v = w \<Longrightarrow> repr c x w"
  by simp

lemma prepr_add:
  assumes "prepr p P" and "prepr q Q"
  shows "prepr (ed_add p q) (ep_add P Q)"
proof -
  obtain p0 p1 p2 p3 x1 y1 z1 t1 q0 q1 q2 q3 x2 y2 z2 t2 where
    e: "p = (p0, p1, p2, p3)" "P = (x1, y1, z1, t1)" "q = (q0, q1, q2, q3)" "Q = (x2, y2, z2, t2)"
    by (metis prod_cases4)
  have r: "repr 65573 p0 x1" "repr 65573 p1 y1" "repr 65573 p2 z1" "repr 65573 p3 t1"
    "repr 65573 q0 x2" "repr 65573 q1 y2" "repr 65573 q2 z2" "repr 65573 q3 t2"
    using assms by (simp_all add: e)
  define A where "A = fM (fZ p1 p0) (fZ q1 q0)"
  define B where "B = fM (fA p0 p1) (fA q0 q1)"
  define C where "C = fM (fM p3 q3) gf_D2"
  define D where "D = fA (fM p2 q2) (fM p2 q2)"
  have A: "repr 65573 A ((y1 - x1) * (y2 - x2))"
    unfolding A_def by (rule repr_M [OF repr_Z [OF r(2,1)] repr_Z [OF r(6,5)]]) simp_all
  have "repr 65573 B ((x1 + y1) * (x2 + y2))"
    unfolding B_def by (rule repr_M [OF repr_A [OF r(1,2)] repr_A [OF r(5,6)]]) simp_all
  then have B: "repr 65573 B ((y1 + x1) * (y2 + x2))" by (simp add: add.commute)
  have "repr 65573 C (t1 * t2 * (2 * ed_d))"
    unfolding C_def by (rule repr_M [OF repr_M [OF r(4,8)] repr_consts(2)]) simp_all
  then have C: "repr 65573 C (t1 * 2 * ed_d * t2)" by (simp add: ac_simps)
  have m: "repr 65573 (fM p2 q2) (z1 * z2)" by (rule repr_M [OF r(3,7)]) simp_all
  have "repr 131146 D (z1 * z2 + z1 * z2)"
    unfolding D_def using repr_A [OF m m] by simp
  then have D: "repr 131146 D (z1 * 2 * z2)" by (simp add: algebra_simps)
  note E = repr_Z [OF B A, simplified] and F = repr_Z [OF D C, simplified]
    and G = repr_A [OF D C, simplified] and H = repr_A [OF B A, simplified]
  have "repr 65573 (fM (fZ B A) (fZ D C)) (((y1 + x1) * (y2 + x2) - (y1 - x1) * (y2 - x2)) * (z1 * 2 * z2 - t1 * 2 * ed_d * t2))"
    by (rule repr_M [OF E F]) simp_all
  moreover have "repr 65573 (fM (fA B A) (fA D C)) ((z1 * 2 * z2 + t1 * 2 * ed_d * t2) * ((y1 + x1) * (y2 + x2) + (y1 - x1) * (y2 - x2)))"
    by (rule repr_eq [OF repr_M [OF H G]]) simp_all
  moreover have "repr 65573 (fM (fA D C) (fZ D C)) ((z1 * 2 * z2 - t1 * 2 * ed_d * t2) * (z1 * 2 * z2 + t1 * 2 * ed_d * t2))"
    by (rule repr_eq [OF repr_M [OF G F]]) simp_all
  moreover have "repr 65573 (fM (fZ B A) (fA B A)) (((y1 + x1) * (y2 + x2) - (y1 - x1) * (y2 - x2)) * ((y1 + x1) * (y2 + x2) + (y1 - x1) * (y2 - x2)))"
    by (rule repr_M [OF E H]) simp_all
  moreover have "ed_add p q = (fM (fZ B A) (fZ D C), fM (fA B A) (fA D C), fM (fA D C) (fZ D C), fM (fZ B A) (fA B A))"
    by (simp add: ed_add_def e A_def B_def C_def D_def Let_def)
  moreover have "ep_add P Q =
      (((y1 + x1) * (y2 + x2) - (y1 - x1) * (y2 - x2)) * (z1 * 2 * z2 - t1 * 2 * ed_d * t2) mod p25519,
       (z1 * 2 * z2 + t1 * 2 * ed_d * t2) * ((y1 + x1) * (y2 + x2) + (y1 - x1) * (y2 - x2)) mod p25519,
       (z1 * 2 * z2 - t1 * 2 * ed_d * t2) * (z1 * 2 * z2 + t1 * 2 * ed_d * t2) mod p25519,
       ((y1 + x1) * (y2 + x2) - (y1 - x1) * (y2 - x2)) * ((y1 + x1) * (y2 + x2) + (y1 - x1) * (y2 - x2)) mod p25519)"
    unfolding ep_add_def e by (simp only: Let_def split)
  ultimately show ?thesis by (simp only: prepr.simps repr_mod simp_thms)
qed

section \<open>The ladder\<close>

lemma le_val_drop: "k \<le> length bs \<Longrightarrow> le_val (drop k bs) = le_val bs div 256 ^ k"
proof -
  assume k: "k \<le> length bs"
  have "le_val bs = le_val (take k bs @ drop k bs)" by simp
  also have "\<dots> = le_val (take k bs) + 256 ^ k * le_val (drop k bs)"
    using k by (simp only: le_val_append length_take min.absorb2)
  finally have v: "le_val bs = le_val (take k bs) + 256 ^ k * le_val (drop k bs)" .
  have "le_val (take k bs) < 256 ^ k" using le_val_bounds [of "take k bs"] k by (simp add: min.absorb2)
  then show ?thesis using int_div_mod_unique(1) [OF v] le_val_bounds [of "take k bs"] by simp
qed

lemma scalar_bit_val:
  assumes "i < 8 * length s"
  shows "uint (scalar_bit s i) = le_val s div 2 ^ i mod 2"
proof -
  define k m where "k = i div 8" and "m = i mod 8"
  have i: "i = 8 * k + m" and m: "m < 8" by (simp_all add: k_def m_def)
  have k: "k < length s" using assms by (simp add: k_def)
  obtain r where r: "le_val (drop k s) = uint (s ! k) + 256 * r"
    using k by (metis Cons_nth_drop_Suc le_val.simps(2))
  have p8: "(256 :: int) = 2 ^ m * 2 ^ (8 - m)"
  proof -
    have "(256 :: int) = 2 ^ (m + (8 - m))" using m by simp
    then show ?thesis by (simp only: power_add)
  qed
  have e: "even (2 ^ (8 - m) * r)" using m by simp
  have "le_val s div 2 ^ i = le_val s div 256 ^ k div 2 ^ m"
    by (simp add: i power_add power_mult zdiv_zmult2_eq)
  also have "\<dots> = (uint (s ! k) + 256 * r) div 2 ^ m"
    using k r by (simp add: le_val_drop [symmetric])
  also have "\<dots> = (uint (s ! k) + 2 ^ m * (2 ^ (8 - m) * r)) div 2 ^ m"
    by (subst p8) (simp only: mult.assoc)
  also have "\<dots> = uint (s ! k) div 2 ^ m + 2 ^ (8 - m) * r" by simp
  finally have "le_val s div 2 ^ i mod 2 = uint (s ! k) div 2 ^ m mod 2"
    using e by (simp add: mod_2_eq_odd)
  moreover have "uint (scalar_bit s i) = uint (s ! k) div 2 ^ m mod 2"
    unfolding scalar_bit_def k_def m_def unsigned_and_eq unsigned_drop_bit_eq
    using uint_less_256 [of "s ! (i div 8)"] by (simp add: drop_bit_eq_div and_one_eq take_bit_int_eq_self)
  ultimately show ?thesis by simp
qed

lemma prepr_length: "prepr (p0, p1, p2, p3) P \<Longrightarrow> length p0 = 16 \<and> length p1 = 16 \<and> length p2 = 16 \<and> length p3 = 16"
  by (cases P) (auto simp: repr_def)

lemma cswap_spec:
  assumes "prepr p P" and "prepr q Q"
  shows "cswap p q 0 = (p, q)" and "cswap p q 1 = (q, p)"
proof -
  obtain p0 p1 p2 p3 q0 q1 q2 q3 where e: "p = (p0, p1, p2, p3)" "q = (q0, q1, q2, q3)" by (metis prod_cases4)
  have "length p0 = 16 \<and> length p1 = 16 \<and> length p2 = 16 \<and> length p3 = 16"
    "length q0 = 16 \<and> length q1 = 16 \<and> length q2 = 16 \<and> length q3 = 16"
    using assms unfolding e by (blast dest: prepr_length)+
  then show "cswap p q 0 = (p, q)" "cswap p q 1 = (q, p)"
    by (simp_all add: e cswap_def sel25519_0 sel25519_1)
qed

fun prepr2 :: "point \<times> point \<Rightarrow> epoint \<times> epoint \<Rightarrow> bool" where
  "prepr2 (p, q) (P, Q) \<longleftrightarrow> prepr p P \<and> prepr q Q"

lemma ladder_step_refines:
  assumes "prepr2 pq (ep_ladder k (n div 2) Q)" and "uint (scalar_bit s i) = n mod 2"
  shows "prepr2 (ladder_step s i pq) (ep_ladder (Suc k) n Q)"
proof -
  obtain p q P P' where e: "pq = (p, q)" "ep_ladder k (n div 2) Q = (P, P')" by (metis surj_pair)
  have r: "prepr p P" "prepr q P'" using assms(1) by (simp_all add: e)
  show ?thesis
  proof (cases "even n")
    case True
    then have "uint (scalar_bit s i) = 0" using assms(2) by presburger
    then have b: "scalar_bit s i = 0" by (metis uint_0_iff)
    show ?thesis
      using True cswap_spec(1) [OF r] cswap_spec(1) [OF prepr_add [OF r(1) r(1)] prepr_add [OF r(2) r(1)]]
        prepr_add [OF r(1) r(1)] prepr_add [OF r(2) r(1)]
      by (simp add: ladder_step_def e b Let_def)
  next
    case False
    then have "uint (scalar_bit s i) = 1" using assms(2) by presburger
    then have b: "scalar_bit s i = 1" by (metis word_of_int_uint word_of_int_1)
    show ?thesis
      using False cswap_spec(2) [OF r] cswap_spec(2) [OF prepr_add [OF r(2) r(2)] prepr_add [OF r(1) r(2)]]
        prepr_add [OF r(2) r(2)] prepr_add [OF r(1) r(2)]
      by (simp add: ladder_step_def e b Let_def)
  qed
qed

lemma ladder_refines:
  assumes "prepr q Q" and "32 \<le> length s"
  shows "k \<le> 256 \<Longrightarrow>
    prepr2 (fold (ladder_step s) (rev [256 - k..<256]) ((gf0, gf1, gf1, gf0), q)) (ep_ladder k (le_val s div 2 ^ (256 - k)) Q)"
proof (induction k)
  case 0
  show ?case using assms(1) repr_weaken [OF repr_consts(6), of 65573] repr_weaken [OF repr_consts(7), of 65573]
    by (simp add: ep_neutral_def)
next
  case (Suc k)
  define i where "i = 255 - k"
  have i: "256 - Suc k = i" "256 - k = Suc i" using Suc.prems by (simp_all add: i_def)
  have l: "rev [i..<256] = rev [Suc i..<256] @ [i]" using Suc.prems by (simp add: i_def upt_conv_Cons [of "255 - k"] Suc_diff_le del: upt_Suc)
  have h: "le_val s div 2 ^ Suc i = le_val s div 2 ^ i div 2"
    by (simp only: power_Suc2) (simp add: zdiv_zmult2_eq)
  have b: "uint (scalar_bit s i) = le_val s div 2 ^ i mod 2"
    by (rule scalar_bit_val) (use assms(2) in \<open>simp add: i_def\<close>)
  have "prepr2 (fold (ladder_step s) (rev [Suc i..<256]) ((gf0, gf1, gf1, gf0), q)) (ep_ladder k (le_val s div 2 ^ i div 2) Q)"
    using Suc by (simp only: i h)
  from ladder_step_refines [OF this b] show ?case by (simp only: i l fold_append o_apply fold_simps)
qed

lemma prepr_scalarmult:
  assumes "prepr q Q" and "32 \<le> length s"
  shows "prepr (fst (scalarmult q s)) (ep_mult (le_val s) Q)"
proof -
  obtain a b c d where e: "scalarmult q s = (a, b)" "ep_ladder 256 (le_val s) Q = (c, d)" by (metis surj_pair)
  have "prepr2 (scalarmult q s) (ep_ladder 256 (le_val s) Q)"
    using ladder_refines [OF assms, of 256] by (simp add: scalarmult_def set25519_id gf_const_limbs)
  then show ?thesis by (simp add: e ep_mult_def)
qed

lemma prepr_base: "prepr (gf_X, gf_Y, gf1, fM gf_X gf_Y) ep_base"
  using repr_consts(4,5) repr_weaken [OF repr_consts(7), of 65573] repr_M [OF repr_consts(4,5)]
  by (simp add: ep_base_def)

lemma prepr_scalarbase:
  assumes "32 \<le> length s"
  shows "prepr (scalarbase s) (ep_mult (le_val s) ep_base)"
  using prepr_scalarmult [OF prepr_base assms] by (simp add: scalarbase_def set25519_id gf_const_limbs)

section \<open>Encoding\<close>

definition ep_encode :: "epoint \<Rightarrow> int" where
  "ep_encode P =
     (case P of (x, y, z, t) \<Rightarrow>
        y * fp_inv z mod p25519 + 2 ^ 255 * (x * fp_inv z mod p25519 mod 2))"

lemma p25519_less: "p25519 < 2 ^ 255" "0 < p25519"
  by (simp_all add: p25519_def)

lemma le_val_update:
  "k < length bs \<Longrightarrow> le_val (bs[k := b]) = le_val bs + (uint b - uint (bs ! k)) * 256 ^ k"
proof (induction bs arbitrary: k)
  case (Cons x xs)
  show ?case
  proof (cases k)
    case (Suc j)
    then have "le_val (xs[j := b]) = le_val xs + (uint b - uint (xs ! j)) * 256 ^ j" using Cons by simp
    then show ?thesis by (simp add: Suc algebra_simps)
  qed simp
qed simp

text \<open>The sign bit goes into the top bit of an encoding below 2^255, which is clear.\<close>

lemma top_byte_clear:
  assumes "length r = 32" and "le_val r < 2 ^ 255"
  shows "uint (r ! 31) < 128"
proof -
  have "uint (r ! 31) = le_val (drop 31 r)"
    using assms(1) by (simp add: Cons_nth_drop_Suc [of 31 r, symmetric])
  also have "\<dots> = le_val r div 256 ^ 31" using assms(1) by (simp add: le_val_drop)
  also have "\<dots> < 128" using assms(2) by (simp add: div_less_iff_less_mult)
  finally show ?thesis .
qed

lemma sign_bit_set:
  fixes b c :: u8
  assumes "uint b < 128" and "uint c < 2"
  shows "uint (b XOR push_bit 7 c) = uint b + 128 * uint c" and "uint (b OR push_bit 7 c) = uint b + 128 * uint c"
proof -
  have c: "c = 0 \<or> c = 1"
  proof -
    have "uint c = 0 \<or> uint c = 1" using assms(2) uint_less_256 [of c] by arith
    then show ?thesis by (metis uint_0_iff word_of_int_uint word_of_int_1)
  qed
  have "\<not> bit (uint b) 7" using assms(1) uint_less_256 [of b] by (simp add: bit_iff_odd)
  then have d: "uint b AND 128 = 0" using and_exp_eq_0_iff_not_bit [of "uint b" 7] by simp
  show "uint (b XOR push_bit 7 c) = uint b + 128 * uint c" "uint (b OR push_bit 7 c) = uint b + 128 * uint c"
    using c disjunctive_add_eq_xor [OF d] disjunctive_add_eq_or [OF d]
    by (auto simp: unsigned_xor_eq unsigned_or_eq)
qed

lemma repr_gval: "repr c x v \<Longrightarrow> c \<le> 262144 \<Longrightarrow> gf_ok x \<and> gval x mod p25519 = v mod p25519"
  using repr_ok repr_unique by blast

lemma ed_pack_spec:
  assumes "prepr p P"
  shows "le_val (ed_pack p) = ep_encode P" and "length (ed_pack p) = 32"
proof -
  obtain p0 p1 p2 p3 x y z t where e: "p = (p0, p1, p2, p3)" "P = (x, y, z, t)" by (metis prod_cases4)
  have r: "repr 65573 p0 x" "repr 65573 p1 y" "repr 65573 p2 z" using assms by (simp_all add: e)
  define zi where "zi = inv25519 p2"
  define b where "b = pack25519 (fM p1 zi)"
  have zi: "repr 65573 zi (fp_inv z)" unfolding zi_def by (rule repr_inv [OF r(3)]) simp
  have tx: "repr 65573 (fM p0 zi) (x * fp_inv z)" by (rule repr_M [OF r(1) zi]) simp_all
  have ty: "repr 65573 (fM p1 zi) (y * fp_inv z)" by (rule repr_M [OF r(2) zi]) simp_all
  have lb: "length b = 32" and vb: "le_val b = y * fp_inv z mod p25519"
    using pack25519_spec repr_gval [OF ty] by (simp_all add: b_def)
  have b31: "uint (b ! 31) < 128"
    by (rule top_byte_clear [OF lb]) (simp only: vb less_trans [OF pos_mod_bound [OF p25519_less(2)] p25519_less(1)])
  have "par25519 (fM p0 zi) = of_int (x * fp_inv z mod p25519 mod 2)"
    using par25519_spec repr_gval [OF tx] by simp
  then have par: "uint (par25519 (fM p0 zi)) = x * fp_inv z mod p25519 mod 2"
    using pos_mod_bound [of 2 "x * fp_inv z mod p25519"] pos_mod_sign [of 2 "x * fp_inv z mod p25519"]
    by (simp add: uint_word_of_int)
  have "ed_pack p = b[31 := b ! 31 XOR push_bit 7 (par25519 (fM p0 zi))]"
    by (simp add: ed_pack_def e zi_def b_def Let_def)
  moreover have "uint (b ! 31 XOR push_bit 7 (par25519 (fM p0 zi))) = uint (b ! 31) + 128 * (x * fp_inv z mod p25519 mod 2)"
    by (subst sign_bit_set(1) [OF b31]) (simp_all add: par)
  ultimately show "le_val (ed_pack p) = ep_encode P" "length (ed_pack p) = 32"
    by (simp_all add: le_val_update lb vb ep_encode_def e)
qed

lemma vl_ct_eq_32: "length a = 32 \<Longrightarrow> length b = 32 \<Longrightarrow> vl_ct_eq (Some a) (Some b) 32 = (if a = b then 1 else 0)"
  by (simp add: vl_ct_eq_full)

lemma ct_eq_le_val:
  assumes "length a = 32" and "length b = 32"
  shows "vl_ct_eq (Some a) (Some b) 32 = (if le_val a = le_val b then 1 else 0)"
  using assms le_val_inj [of a b] by (auto simp: vl_ct_eq_32)

section \<open>Decoding\<close>

definition ep_double3 :: "epoint \<Rightarrow> epoint" where
  "ep_double3 P = (let P2 = ep_add P P; P4 = ep_add P2 P2 in ep_add P4 P4)"

definition ep_low_order :: "epoint \<Rightarrow> bool" where
  "ep_low_order P \<longleftrightarrow> ep_encode (ep_double3 P) = 1"

text \<open>
  The decoding of 5.1.3, with the sign of the result turned round and the two extra
  rejections of the code: an encoding that is not canonical and a point of small order.
\<close>

definition ep_sqrt_ratio :: "int \<Rightarrow> int \<Rightarrow> int" where
  "ep_sqrt_ratio u v =
     (let x = u * v ^ 3 * fp_pow2523 (u * v ^ 7) mod p25519
      in if v * x ^ 2 mod p25519 = u mod p25519 then x else x * sqrt_m1 mod p25519)"

definition ep_decode_neg :: "int \<Rightarrow> epoint option" where
  "ep_decode_neg n =
     (let y = n mod 2 ^ 255; s = n div 2 ^ 255;
          u = y ^ 2 - 1; v = ed_d * y ^ 2 + 1;
          x = ep_sqrt_ratio u v;
          x' = (if x mod 2 = s then - x mod p25519 else x);
          P = (x', y, 1, x' * y mod p25519)
      in if p25519 \<le> y then None
         else if v * x ^ 2 mod p25519 \<noteq> u mod p25519 then None
         else if ep_low_order P then None
         else Some P)"

lemma is_low_order_spec:
  assumes "prepr p P"
  shows "is_low_order p \<longleftrightarrow> ep_low_order P"
proof -
  obtain p0 p1 p2 p3 where e: "p = (p0, p1, p2, p3)" by (metis prod_cases4)
  have l: "length p0 = 16 \<and> length p1 = 16 \<and> length p2 = 16 \<and> length p3 = 16"
    using assms unfolding e by (rule prepr_length)
  define q where "q = (let t = ed_add p p; t = ed_add t t in ed_add t t)"
  have q: "prepr q (ep_double3 P)"
    unfolding q_def ep_double3_def Let_def using assms by (intro prepr_add)
  have "is_low_order p \<longleftrightarrow> vl_ct_eq (Some (ed_pack q)) (Some ed_identity) 32 \<noteq> 0"
    by (simp add: is_low_order_def q_def e l set25519_id Let_def)
  also have "\<dots> \<longleftrightarrow> ep_encode (ep_double3 P) = 1"
  proof -
    have "length ed_identity = 32" "le_val ed_identity = 1"
      by (simp_all add: ed_identity_def eval_nat_numeral)
    then show ?thesis using ct_eq_le_val [of "ed_pack q" ed_identity] ed_pack_spec [OF q] by simp
  qed
  finally show ?thesis by (simp add: ep_low_order_def)
qed

lemma repr_neq:
  assumes "repr c a v" and "repr d b w" and "c \<le> 262144" and "d \<le> 262144"
  shows "neq25519 a b \<longleftrightarrow> v mod p25519 \<noteq> w mod p25519"
  using assms by (simp add: neq25519_spec repr_gval)

lemma repr_par:
  assumes "repr c a v" and "c \<le> 262144"
  shows "par25519 a = of_int (v mod p25519 mod 2)"
  using assms by (simp add: par25519_spec repr_gval)

text \<open>The square root as the code computes it, from the numerator and the denominator.\<close>

definition gf_sqrt_ratio :: "gf \<Rightarrow> gf \<Rightarrow> gf" where
  "gf_sqrt_ratio num den =
     (let den2 = fS den; den4 = fS den2; den6 = fM den4 den2;
          t = fM den6 num; t = fM t den;
          t = pow2523 t; t = fM t num; t = fM t den; t = fM t den;
          r0 = fM t den;
          chk = fS r0; chk = fM chk den
      in if neq25519 chk num then fM r0 gf_I else r0)"

lemma power_3_7: "(v :: int) ^ 3 = v * v * v" "v ^ 7 = v * v * (v * v) * (v * v) * v"
  by (simp_all add: eval_nat_numeral ac_simps)

lemma repr_sqrt_ratio:
  assumes u: "repr 65574 num u" and v: "repr 65574 den v"
  shows "repr 65573 (gf_sqrt_ratio num den) (ep_sqrt_ratio u v)"
proof -
  define w where "w = v * v * (v * v) * (v * v) * u * v"
  define t where "t = fM (fM (fM (fS (fS den)) (fS den)) num) den"
  define r where "r = fM (fM (fM (fM (pow2523 t) num) den) den) den"
  define x where "x = fp_pow2523 w * u * v * v * v"
  have w: "w = u * v ^ 7" and x: "x = u * v ^ 3 * fp_pow2523 (u * v ^ 7)"
    by (simp_all add: w_def x_def power_3_7 ac_simps)
  have d2: "repr 65573 (fS den) (v * v)" by (rule repr_S [OF v]) simp
  have t: "repr 65573 t w"
    unfolding t_def w_def
    by (rule repr_M [OF repr_M [OF repr_M [OF repr_S [OF d2] d2] u] v]) simp_all
  have r: "repr 65573 r x"
    unfolding r_def x_def
    by (rule repr_M [OF repr_M [OF repr_M [OF repr_M [OF repr_pow2523 [OF t] u] v] v] v]) simp_all
  have c: "repr 65573 (fM (fS r) den) (x * x * v)"
    by (rule repr_M [OF repr_S [OF r] v]) simp_all
  have i: "repr 65573 (fM r gf_I) (x * sqrt_m1)"
    by (rule repr_M [OF r repr_consts(3)]) simp_all
  have n: "neq25519 (fM (fS r) den) num \<longleftrightarrow> x * x * v mod p25519 \<noteq> u mod p25519"
    by (rule repr_neq [OF c u]) simp_all
  have xm: "v * (x mod p25519) ^ 2 mod p25519 = x * x * v mod p25519"
    using mod_mult_right_eq [of v "(x mod p25519) ^ 2" p25519] mod_mult_right_eq [of v "x ^ 2" p25519]
    by (simp add: power_mod) (simp add: power2_eq_square ac_simps)
  have "gf_sqrt_ratio num den = (if neq25519 (fM (fS r) den) num then fM r gf_I else r)"
    by (simp add: gf_sqrt_ratio_def r_def t_def Let_def)
  moreover have "ep_sqrt_ratio u v =
      (if v * (x mod p25519) ^ 2 mod p25519 = u mod p25519 then x mod p25519 else x mod p25519 * sqrt_m1 mod p25519)"
    by (simp only: ep_sqrt_ratio_def Let_def x)
  moreover have "repr 65573 (fM r gf_I) (x mod p25519 * sqrt_m1 mod p25519)"
    by (rule repr_cong [OF i]) (simp add: mod_simps)
  ultimately show ?thesis using r n xm by simp
qed

text \<open>The canonicity check compares the bytes with the residue packed again under their own sign bit.\<close>

lemma sign_bit_val:
  assumes "length p = 32"
  shows "uint (drop_bit 7 (p ! 31)) = le_val p div 2 ^ 255" and "p ! 31 AND 0x80 = push_bit 7 (drop_bit 7 (p ! 31))"
proof -
  have "uint (p ! 31) = le_val p div 256 ^ 31"
    using assms le_val_drop [of 31 p] by (simp add: Cons_nth_drop_Suc [of 31 p, symmetric])
  then have "uint (p ! 31) div 128 = le_val p div (256 ^ 31 * 128)" by (simp only: zdiv_zmult2_eq)
  then show "uint (drop_bit 7 (p ! 31)) = le_val p div 2 ^ 255"
    by (simp add: drop_bit_eq_div uint_div)
  have "p ! 31 AND 2 ^ 7 = push_bit 7 (drop_bit 7 (p ! 31))"
  proof (rule bit_word_eqI)
    fix n assume "n < LENGTH(8)"
    then have "7 \<le> n \<longleftrightarrow> n = 7" by auto
    then show "bit (p ! 31 AND 2 ^ 7) n \<longleftrightarrow> bit (push_bit 7 (drop_bit 7 (p ! 31))) n"
      by (simp only: bit_and_iff bit_exp_iff bit_push_bit_iff bit_drop_bit_eq o_apply) auto
  qed
  then show "p ! 31 AND 0x80 = push_bit 7 (drop_bit 7 (p ! 31))" by simp
qed

definition canon_bytes :: "bytes \<Rightarrow> bytes" where
  "canon_bytes p =
     (let c = pack25519 (unpack25519 p) in c[31 := c ! 31 OR (p ! 31 AND 0x80)])"

lemma canon_bytes_spec:
  assumes l: "length p = 32"
  shows "length (canon_bytes p) = 32"
    and "le_val (canon_bytes p) = le_val p mod 2 ^ 255 mod p25519 + 2 ^ 255 * (le_val p div 2 ^ 255)"
proof -
  define c where "c = pack25519 (unpack25519 p)"
  have ok: "gf_ok (unpack25519 p)" using unpack25519_spec [OF l] gf_red_ok by blast
  have lc: "length c = 32" and vc: "le_val c = le_val p mod 2 ^ 255 mod p25519"
    using pack25519_spec [OF ok] unpack25519_spec [OF l] by (simp_all add: c_def)
  have c31: "uint (c ! 31) < 128"
    by (rule top_byte_clear [OF lc]) (simp only: vc less_trans [OF pos_mod_bound [OF p25519_less(2)] p25519_less(1)])
  have s: "uint (drop_bit 7 (p ! 31)) < 2"
    using sign_bit_val(1) [OF l] int_div_le [of "2 ^ 255" "le_val p" 1] le_val_bounds [of p] l by simp
  have "uint (c ! 31 OR (p ! 31 AND 0x80)) = uint (c ! 31) + 128 * (le_val p div 2 ^ 255)"
    unfolding sign_bit_val(2) [OF l] sign_bit_set(2) [OF c31 s] sign_bit_val(1) [OF l] ..
  then show "length (canon_bytes p) = 32"
      "le_val (canon_bytes p) = le_val p mod 2 ^ 255 mod p25519 + 2 ^ 255 * (le_val p div 2 ^ 255)"
    by (simp_all add: canon_bytes_def c_def [symmetric] le_val_update lc vc)
qed

lemma canon_check:
  assumes l: "length p = 32"
  shows "vl_ct_eq (Some (canon_bytes p)) (Some p) 32 = 0 \<longleftrightarrow> p25519 \<le> le_val p mod 2 ^ 255"
proof -
  define y where "y = le_val p mod 2 ^ 255"
  have y: "0 \<le> y" by (simp add: y_def)
  have "le_val p = y + 2 ^ 255 * (le_val p div 2 ^ 255)" by (simp add: y_def)
  then have "le_val (canon_bytes p) = le_val p \<longleftrightarrow> y mod p25519 = y"
    using canon_bytes_spec(2) [OF l] unfolding y_def [symmetric] by linarith
  also have "\<dots> \<longleftrightarrow> y < p25519"
    using y pos_mod_bound [OF p25519_less(2), of y] by (metis mod_pos_pos_trivial)
  finally show ?thesis
    using ct_eq_le_val [of "canon_bytes p" p] canon_bytes_spec(1) [OF l] l by (auto simp: y_def)
qed

lemma unpackneg_unfold:
  "unpackneg p =
     (let r1 = unpack25519 p; num = fZ (fS r1) gf1; den = fA gf1 (fM (fS r1) gf_D);
          r0 = gf_sqrt_ratio num den;
          r0' = (if par25519 r0 = drop_bit 7 (p ! 31) then fZ gf0 r0 else r0);
          q = (r0', r1, gf1, fM r0' r1)
      in if vl_ct_eq (Some (canon_bytes p)) (Some p) 32 = 0 then None
         else if neq25519 (fM (fS r0) den) num then None
         else if is_low_order q then None else Some q)"
  unfolding unpackneg_def gf_sqrt_ratio_def canon_bytes_def set25519_id [OF gf_const_limbs(14)] Let_def ..

theorem unpackneg_spec:
  assumes l: "length p = 32"
  shows "rel_option prepr (unpackneg p) (ep_decode_neg (le_val p))"
proof -
  define y where "y = le_val p mod 2 ^ 255"
  define s where "s = le_val p div 2 ^ 255"
  define u where "u = y ^ 2 - 1"
  define v where "v = ed_d * y ^ 2 + 1"
  define x where "x = ep_sqrt_ratio u v"
  define x' where "x' = (if x mod 2 = s then - x mod p25519 else x)"
  define r1 where "r1 = unpack25519 p"
  define num where "num = fZ (fS r1) gf1"
  define den where "den = fA gf1 (fM (fS r1) gf_D)"
  define r0 where "r0 = gf_sqrt_ratio num den"
  define r0' where "r0' = (if par25519 r0 = drop_bit 7 (p ! 31) then fZ gf0 r0 else r0)"
  have y: "repr 65573 r1 y" unfolding r1_def y_def using unpack25519_spec [OF l] by (intro repr_red) simp_all
  have y2: "repr 65573 (fS r1) (y * y)" by (rule repr_S [OF y]) simp
  have num: "repr 65574 num u" unfolding num_def u_def power2_eq_square by (rule repr_Z [OF y2 repr_consts(7), simplified])
  have "repr 65574 den (1 + y * y * ed_d)"
    unfolding den_def by (rule repr_A [OF repr_consts(7) repr_M [OF y2 repr_consts(1)], simplified])
  then have den: "repr 65574 den v" by (simp add: v_def power2_eq_square ac_simps)
  have x: "repr 65573 r0 x" unfolding r0_def x_def by (rule repr_sqrt_ratio [OF num den])
  have xm: "x mod p25519 = x" by (simp add: x_def ep_sqrt_ratio_def Let_def)
  have sgn: "par25519 r0 = drop_bit 7 (p ! 31) \<longleftrightarrow> x mod 2 = s"
  proof -
    have "par25519 r0 = of_int (x mod 2)" using repr_par [OF x] xm by simp
    moreover have "drop_bit 7 (p ! 31) = of_int s"
      unfolding s_def sign_bit_val(1) [OF l, symmetric] by simp
    moreover have "0 \<le> s \<and> s < 256"
      using sign_bit_val(1) [OF l] uint_less_256 [of "drop_bit 7 (p ! 31)"] by (simp add: s_def)
    moreover have "0 \<le> x mod 2 \<and> x mod 2 < 256" by (simp add: mod_2_eq_odd)
    ultimately show ?thesis by (simp add: word_of_int_eq_iff take_bit_int_eq_self)
  qed
  have "repr 65573 (fZ gf0 r0) (- x mod p25519)" using repr_Z [OF repr_consts(6) x] by simp
  then have x': "repr 65573 r0' x'" using x sgn by (simp add: r0'_def x'_def)
  have t: "repr 65573 (fM r0' r1) (x' * y)" by (rule repr_M [OF x' y]) simp_all
  have "repr 65573 (fM (fS r0) den) (x * x * v)" by (rule repr_M [OF repr_S [OF x] den]) simp_all
  then have chk: "neq25519 (fM (fS r0) den) num \<longleftrightarrow> v * x ^ 2 mod p25519 \<noteq> u mod p25519"
    using repr_neq [OF _ num] by (simp add: power2_eq_square ac_simps)
  define q where "q = (r0', r1, gf1, fM r0' r1)"
  define P where "P = (x', y, 1 :: int, x' * y mod p25519)"
  have q: "prepr q P"
    using x' y t repr_weaken [OF repr_consts(7), of 65573] by (simp add: q_def P_def)
  have "unpackneg p =
      (if p25519 \<le> y then None else if v * x ^ 2 mod p25519 \<noteq> u mod p25519 then None
       else if ep_low_order P then None else Some q)"
    unfolding unpackneg_unfold Let_def r1_def [symmetric] num_def [symmetric] den_def [symmetric]
      r0_def [symmetric] r0'_def [symmetric] q_def [symmetric] canon_check [OF l] y_def [symmetric]
      chk is_low_order_spec [OF q] ..
  moreover have "ep_decode_neg (le_val p) =
      (if p25519 \<le> y then None else if v * x ^ 2 mod p25519 \<noteq> u mod p25519 then None
       else if ep_low_order P then None else Some P)"
    unfolding ep_decode_neg_def Let_def y_def [symmetric] s_def [symmetric] u_def [symmetric] v_def [symmetric]
      x_def [symmetric] x'_def [symmetric] P_def [symmetric] ..
  ultimately show ?thesis using q by simp
qed

end
