(* ===== verification/VL_Ed25519_Scalar.thy ===== *)
theory VL_Ed25519_Scalar
  imports VL_Field_Correct VL_Ed25519
begin

text \<open>
  The scalars: the reduction \<open>modL\<close> of a 512-bit hash is the residue of its value
  modulo the group order, and \<open>scalar_is_reduced\<close> the comparison with that order. The
  limbs of the reduction are the digits of a signed radix-256 number, \<open>ival\<close>; every
  row keeps them within 257 of zero, so no \<^verbatim>\<open>i64\<close> of it comes near overflow.
\<close>

section \<open>Radix 256\<close>

primrec ival :: "int list \<Rightarrow> int" where
  "ival [] = 0"
| "ival (x # xs) = x + 256 * ival xs"

definition ed_order :: int where
  "ed_order = 2 ^ 252 + 27742317777372353535851937790883648493"

lemma ival_append: "ival (xs @ ys) = ival xs + 256 ^ length xs * ival ys"
  by (induction xs) (simp_all add: algebra_simps)

lemma ival_update: "i < length xs \<Longrightarrow> ival (xs[i := v]) = ival xs + (v - xs ! i) * 256 ^ i"
proof (induction xs arbitrary: i)
  case (Cons x xs)
  show ?case
  proof (cases i)
    case (Suc k)
    then have "ival (xs[k := v]) = ival xs + (v - xs ! k) * 256 ^ k" using Cons by simp
    then show ?thesis by (simp add: Suc algebra_simps)
  qed simp
qed simp

lemma ival_take_Suc: "k < length xs \<Longrightarrow> ival (take (Suc k) xs) = ival (take k xs) + xs ! k * 256 ^ k"
  by (simp add: take_Suc_conv_app_nth ival_append)

lemma ival_bytes: "ival (map uint bs) = le_val bs"
  by (induction bs) simp_all

lemma ed_L_facts: "length ed_L = 32" "ival ed_L = ed_order"
  "16 * ival (take 20 ed_L) + 256 ^ 32 = 16 * ed_order"
  by (simp_all add: ed_L_def ed_order_def)

lemma ed_L_nth: "k < 32 \<Longrightarrow> 0 \<le> ed_L ! k \<and> ed_L ! k \<le> 255" "16 \<le> k \<Longrightarrow> k < 31 \<Longrightarrow> ed_L ! k = 0"
proof -
  have "\<forall>x \<in> set ed_L. 0 \<le> x \<and> x \<le> 255" by (simp add: ed_L_def)
  then show "k < 32 \<Longrightarrow> 0 \<le> ed_L ! k \<and> ed_L ! k \<le> 255" using ed_L_facts(1) nth_mem by metis
  have "\<forall>k \<in> set [16..<31]. ed_L ! k = 0" by code_simp
  then show "16 \<le> k \<Longrightarrow> k < 31 \<Longrightarrow> ed_L ! k = 0" unfolding set_upt by (metis atLeastLessThan_iff)
qed

section \<open>One row\<close>

text \<open>The bound on the carry: from the nonzero bytes of the order it is below 4200, then it dies out.\<close>

definition carry_bound :: "nat \<Rightarrow> int" where
  "carry_bound k = (if k \<le> 16 then 4200 else if k = 17 then 17 else 1)"

definition digits_ok :: "int list \<Rightarrow> bool" where
  "digits_ok x \<longleftrightarrow> length x = 64 \<and> (\<forall>j < 64. - 129 \<le> x ! j \<and> x ! j \<le> 256)"

definition row_inv :: "int list \<Rightarrow> nat \<Rightarrow> nat \<Rightarrow> int list \<times> int \<Rightarrow> bool" where
  "row_inv x0 i k xc \<longleftrightarrow>
     (case xc of (x, carry) \<Rightarrow>
        length x = 64 \<and> - carry_bound k \<le> carry \<and> carry \<le> carry_bound k \<and>
        ival x + carry * 256 ^ (i - 32 + k) = ival x0 - 16 * x0 ! i * ival (take k ed_L) * 256 ^ (i - 32) \<and>
        (\<forall>j. i - 32 \<le> j \<and> j < i - 32 + k \<longrightarrow> - 128 \<le> x ! j \<and> x ! j \<le> 127) \<and>
        (\<forall>j. j < i - 32 \<or> i - 32 + k \<le> j \<longrightarrow> x ! j = x0 ! j))"

lemma carry_step:
  assumes c: "- carry_bound k \<le> c" "c \<le> carry_bound k" and x: "- 129 \<le> (x :: int)" "x \<le> 256"
    and y: "- 129 \<le> y" "y \<le> 256" and k: "k < 20" and w: "w = x + (c - 16 * y * ed_L ! k)"
  shows "- carry_bound (Suc k) \<le> (w + 128) div 256" and "(w + 128) div 256 \<le> carry_bound (Suc k)"
    and "\<bar>w\<bar> < 2 ^ 21"
proof -
  have l: "0 \<le> ed_L ! k" "ed_L ! k \<le> 255" "16 \<le> k \<Longrightarrow> ed_L ! k = 0" using k ed_L_nth [of k] by simp_all
  have "y * ed_L ! k \<le> 256 * ed_L ! k" "- 129 * ed_L ! k \<le> y * ed_L ! k"
    using y l by (intro mult_right_mono; simp)+
  then have m: "16 * y * ed_L ! k \<le> 1044480" "- 1044480 \<le> 16 * y * ed_L ! k" using l by auto
  have m0: "16 \<le> k \<Longrightarrow> 16 * y * ed_L ! k = 0" using l by simp
  have "- carry_bound (Suc k) \<le> (w + 128) div 256 \<and> (w + 128) div 256 \<le> carry_bound (Suc k)"
  proof (cases "k < 16")
    case True
    then have "- 4200 \<le> (w + 128) div 256 \<and> (w + 128) div 256 \<le> 4200"
      using c x m w by (auto simp: carry_bound_def)
    then show ?thesis using True by (simp add: carry_bound_def)
  next
    case False
    then have "w = x + c" using w m0 by simp
    then show ?thesis using False c x by (auto simp: carry_bound_def split: if_splits)
  qed
  then show "- carry_bound (Suc k) \<le> (w + 128) div 256" "(w + 128) div 256 \<le> carry_bound (Suc k)" by blast+
  have "carry_bound k \<le> 4200" by (simp add: carry_bound_def)
  then show "\<bar>w\<bar> < 2 ^ 21" using c x m w by auto
qed

lemma row_inv_step:
  assumes inv: "row_inv x0 i k xc" and ok: "digits_ok x0" and i: "32 \<le> i" "i < 64" and k: "k < 20"
  shows "row_inv x0 i (Suc k) (modL_cell i (i - 32 + k) xc)"
proof -
  obtain x c where xc: "xc = (x, c)" by (cases xc)
  define j where "j = i - 32 + k"
  define w where "w = x ! j + (c - 16 * x ! i * ed_L ! k)"
  define c1 where "c1 = (w + 128) div 256"
  have jl: "j < 64" "j \<noteq> i" "j < i" using i k by (auto simp: j_def)
  have len: "length x = 64" and xj: "x ! j = x0 ! j" and xi: "x ! i = x0 ! i"
    and cb: "- carry_bound k \<le> c" "c \<le> carry_bound k"
    and val: "ival x + c * 256 ^ j = ival x0 - 16 * x0 ! i * ival (take k ed_L) * 256 ^ (i - 32)"
    and dig: "\<And>j'. i - 32 \<le> j' \<Longrightarrow> j' < j \<Longrightarrow> - 128 \<le> x ! j' \<and> x ! j' \<le> 127"
    and old: "\<And>j'. j' < i - 32 \<or> j \<le> j' \<Longrightarrow> x ! j' = x0 ! j'"
    using inv jl by (auto simp: row_inv_def xc j_def)
  have b: "- 129 \<le> x ! j" "x ! j \<le> 256" "- 129 \<le> x ! i" "x ! i \<le> 256"
    using ok jl i by (simp_all add: xj xi digits_ok_def)
  note cs = carry_step [OF cb b k w_def]
  have cell: "modL_cell i j (x, c) = (x[j := w - c1 * 256], c1)"
    using jl len by (simp add: modL_cell_def w_def c1_def j_def Let_def)
  have "w - c1 * 256 = (w + 128) mod 256 - 128"
    using minus_div_mult_eq_mod [of "w + 128" 256] by (simp add: c1_def)
  then have r: "- 128 \<le> w - c1 * 256 \<and> w - c1 * 256 \<le> 127"
    using pos_mod_bound [of 256 "w + 128"] pos_mod_sign [of 256 "w + 128"] by linarith
  have "ival (x[j := w - c1 * 256]) + c1 * 256 ^ Suc j = ival x + c * 256 ^ j - 16 * x0 ! i * ed_L ! k * 256 ^ j"
    using jl len by (simp add: ival_update w_def xi algebra_simps)
  also have "\<dots> = ival x0 - 16 * x0 ! i * ival (take (Suc k) ed_L) * 256 ^ (i - 32)"
    using val k by (simp add: ival_take_Suc ed_L_facts(1) j_def power_add algebra_simps)
  finally have "ival (x[j := w - c1 * 256]) + c1 * 256 ^ Suc j =
    ival x0 - 16 * x0 ! i * ival (take (Suc k) ed_L) * 256 ^ (i - 32)" .
  then show ?thesis
    unfolding xc row_inv_def j_def [symmetric] cell
    using cs r dig old len jl by (auto simp: c1_def [symmetric] nth_list_update less_Suc_eq j_def)
qed

text \<open>A row removes the multiple of the order that clears its top digit.\<close>

lemma modL_row_spec:
  assumes ok: "digits_ok x" and i: "32 \<le> i" "i < 64" and top: "- 128 \<le> x ! (i - 12)" "x ! (i - 12) \<le> 255"
  shows "digits_ok (modL_row i x)"
    and "ival (modL_row i x) = ival x - x ! i * 256 ^ (i - 32) * 16 * ed_order"
    and "modL_row i x ! i = 0" and "\<And>j. j < i - 32 \<or> i - 12 < j \<Longrightarrow> j \<noteq> i \<Longrightarrow> modL_row i x ! j = x ! j"
    and "\<And>j. i - 32 \<le> j \<Longrightarrow> j < i - 12 \<Longrightarrow> - 128 \<le> modL_row i x ! j \<and> modL_row i x ! j \<le> 127"
    and "modL_row i x ! (i - 12) \<in> {x ! (i - 12) - 1..x ! (i - 12) + 1}"
proof -
  have len: "length x = 64" using ok by (simp add: digits_ok_def)
  have "k \<le> 20 \<Longrightarrow> row_inv x i k (fold (modL_cell i) [i - 32..<i - 32 + k] (x, 0))" for k
  proof (induction k)
    case 0
    show ?case using len by (simp add: row_inv_def carry_bound_def)
  next
    case (Suc k)
    then have "row_inv x i k (fold (modL_cell i) [i - 32..<i - 32 + k] (x, 0))" by simp
    from row_inv_step [OF this ok i] Suc.prems show ?case by simp
  qed
  from this [of 20] have inv: "row_inv x i 20 (fold (modL_cell i) [i - 32..<i - 12] (x, 0))" using i by simp
  obtain x1 c where f: "fold (modL_cell i) [i - 32..<i - 12] (x, 0) = (x1, c)" by fastforce
  have j: "i - 32 + 20 = i - 12" using i by simp
  have l1: "length x1 = 64" and c: "- 1 \<le> c" "c \<le> 1"
    and val: "ival x1 + c * 256 ^ (i - 12) = ival x - 16 * x ! i * ival (take 20 ed_L) * 256 ^ (i - 32)"
    and dig: "\<And>j. i - 32 \<le> j \<Longrightarrow> j < i - 12 \<Longrightarrow> - 128 \<le> x1 ! j \<and> x1 ! j \<le> 127"
    and old: "\<And>j. j < i - 32 \<or> i - 12 \<le> j \<Longrightarrow> x1 ! j = x ! j"
    using inv unfolding f row_inv_def split j by (auto simp: carry_bound_def)
  have r: "modL_row i x = x1[i - 12 := x1 ! (i - 12) + c, i := 0]"
    by (simp add: modL_row_def f)
  have xt: "x1 ! (i - 12) = x ! (i - 12)" "x1 ! i = x ! i" using old i by simp_all
  have il: "i - 12 < 64" "i - 12 \<noteq> i" using i by simp_all
  show "modL_row i x ! i = 0" using i l1 by (simp add: r)
  show n1: "\<And>j. j < i - 32 \<or> i - 12 < j \<Longrightarrow> j \<noteq> i \<Longrightarrow> modL_row i x ! j = x ! j"
    using old by (auto simp: r nth_list_update l1)
  show n2: "\<And>j. i - 32 \<le> j \<Longrightarrow> j < i - 12 \<Longrightarrow> - 128 \<le> modL_row i x ! j \<and> modL_row i x ! j \<le> 127"
    using dig i by (simp add: r)
  show n3: "modL_row i x ! (i - 12) \<in> {x ! (i - 12) - 1..x ! (i - 12) + 1}"
    using c il l1 by (simp add: r xt)
  have "ival (modL_row i x) = ival x1 + c * 256 ^ (i - 12) - x ! i * 256 ^ i"
    using il i l1 by (simp add: r ival_update xt)
  also have "\<dots> = ival x - x ! i * 256 ^ (i - 32) * (16 * ival (take 20 ed_L) + 256 ^ 32)"
  proof -
    have "(256 :: int) ^ i = 256 ^ (i - 32) * 256 ^ 32" using i by (simp only: power_add [symmetric] le_add_diff_inverse2)
    then show ?thesis by (simp only: val) (simp only: algebra_simps)
  qed
  finally show "ival (modL_row i x) = ival x - x ! i * 256 ^ (i - 32) * 16 * ed_order"
    by (simp only: ed_L_facts(3) mult.assoc)
  show "digits_ok (modL_row i x)"
    unfolding digits_ok_def
  proof (intro conjI allI impI)
    show "length (modL_row i x) = 64" using l1 by (simp add: r)
    fix j :: nat assume "j < 64"
    then have "- 129 \<le> x ! j \<and> x ! j \<le> 256" using ok by (simp add: digits_ok_def)
    then have "- 129 \<le> modL_row i x ! j \<and> modL_row i x ! j \<le> 256"
      using n1 [of j] n2 [of j] n3 top \<open>modL_row i x ! i = 0\<close>
      by (cases "j = i"; cases "j = i - 12"; cases "i - 32 \<le> j \<and> j < i - 12") auto
    then show "- 129 \<le> modL_row i x ! j" "modL_row i x ! j \<le> 256" by simp_all
  qed
qed

section \<open>All rows\<close>

definition rows_inv :: "int list \<Rightarrow> nat \<Rightarrow> int list \<Rightarrow> bool" where
  "rows_inv x0 m x \<longleftrightarrow> digits_ok x \<and> ival x mod ed_order = ival x0 mod ed_order \<and>
     (\<forall>j. 64 - m \<le> j \<and> j < 64 \<longrightarrow> x ! j = 0) \<and>
     (0 < m \<longrightarrow> (\<forall>j. 32 - m \<le> j \<and> j \<le> 50 \<longrightarrow> - 129 \<le> x ! j \<and> x ! j \<le> 128) \<and>
        (\<forall>j. 32 - m \<le> j \<and> j \<le> 51 - m \<longrightarrow> - 128 \<le> x ! j \<and> x ! j \<le> 127))"

lemma rows_inv_step:
  assumes inv: "rows_inv x0 m x" and m: "m < 32" and x0: "m = 0 \<Longrightarrow> \<forall>j < 64. 0 \<le> x ! j \<and> x ! j \<le> 255"
  shows "rows_inv x0 (Suc m) (modL_row (63 - m) x)"
proof -
  define i where "i = 63 - m"
  have i: "32 \<le> i" "i < 64" "i - 32 = 31 - m" "i - 12 = 51 - m" "64 - m = Suc i" using m by (auto simp: i_def)
  have ok: "digits_ok x" and v: "ival x mod ed_order = ival x0 mod ed_order"
    and z: "\<And>j. i < j \<Longrightarrow> j < 64 \<Longrightarrow> x ! j = 0"
    and d1: "\<And>j. 0 < m \<Longrightarrow> 32 - m \<le> j \<Longrightarrow> j \<le> 50 \<Longrightarrow> - 129 \<le> x ! j \<and> x ! j \<le> 128"
    and d2: "\<And>j. 0 < m \<Longrightarrow> 32 - m \<le> j \<Longrightarrow> j \<le> i - 12 \<Longrightarrow> - 128 \<le> x ! j \<and> x ! j \<le> 127"
    using inv i by (auto simp: rows_inv_def)
  have top: "- 128 \<le> x ! (i - 12)" "x ! (i - 12) \<le> 255"
  proof -
    have "- 128 \<le> x ! (i - 12) \<and> x ! (i - 12) \<le> 255"
    proof (cases "m = 0")
      case True
      have "i - 12 < 64" using i by simp
      then show ?thesis using x0 [OF True] by (auto intro: order_trans [of "- 128" "0 :: int"])
    next
      case False
      have q: "32 - m \<le> i - 12" unfolding i(4) by (rule diff_le_mono) simp
      from d2 [OF _ q] False show ?thesis by force
    qed
    then show "- 128 \<le> x ! (i - 12)" "x ! (i - 12) \<le> 255" by blast+
  qed
  note r = modL_row_spec [OF ok i(1,2) top]
  have "ival (modL_row i x) = ival x + (- x ! i * 256 ^ (i - 32) * 16) * ed_order" unfolding r(2) by simp
  then have vr: "ival (modL_row i x) mod ed_order = ival x0 mod ed_order" by (simp only: mod_mult_self1 v)
  have zr: "\<forall>j. 64 - Suc m \<le> j \<and> j < 64 \<longrightarrow> modL_row i x ! j = 0"
  proof (intro allI impI)
    fix j assume j: "64 - Suc m \<le> j \<and> j < 64"
    show "modL_row i x ! j = 0"
    proof (cases "j = i")
      case False
      then have "i < j" using j by (simp add: i_def)
      then have "i - 12 < j" by simp
      then show ?thesis using r(4) [of j] z [of j] j \<open>i < j\<close> by simp
    qed (simp add: r(3))
  qed
  have d2r: "- 128 \<le> modL_row i x ! j \<and> modL_row i x ! j \<le> 127" if "32 - Suc m \<le> j" "j \<le> 51 - Suc m" for j
    using that r(5) [of j] i m by simp
  have d1r: "- 129 \<le> modL_row i x ! j \<and> modL_row i x ! j \<le> 128" if j: "32 - Suc m \<le> j" "j \<le> 50" for j
  proof (cases "j < i - 12")
    case True
    then show ?thesis using r(5) [of j] j i m by simp
  next
    case False
    then have m0: "0 < m" using j i by (cases m) auto
    have "- 128 \<le> x ! (i - 12) \<and> x ! (i - 12) \<le> 127" by (rule d2 [OF m0]) (use i m in simp_all)
    then have "- 129 \<le> modL_row i x ! (i - 12) \<and> modL_row i x ! (i - 12) \<le> 128" using r(6) by auto
    moreover have "- 129 \<le> modL_row i x ! j \<and> modL_row i x ! j \<le> 128" if "i - 12 < j"
      using that d1 [OF m0, of j] r(3) r(4) [of j] j i m by (cases "j = i") auto
    ultimately show ?thesis using False by (cases "j = i - 12") auto
  qed
  show ?thesis
    unfolding i_def [symmetric] rows_inv_def using r(1) vr zr d1r d2r by simp
qed

definition modL_high :: "int list \<Rightarrow> int list" where
  "modL_high x = fold modL_row (rev [32..<64]) x"

lemma modL_high_spec:
  assumes l: "length x = 64" and b: "\<forall>j < 64. 0 \<le> x ! j \<and> x ! j \<le> 255"
  shows "rows_inv x 32 (modL_high x)"
proof -
  have "m \<le> 32 \<Longrightarrow> rows_inv x m (fold modL_row (rev [64 - m..<64]) x)" for m
  proof (induction m)
    case 0
    have "- 129 \<le> x ! j \<and> x ! j \<le> 256" if "j < 64" for j using b that by force
    then show ?case using l by (simp add: rows_inv_def digits_ok_def)
  next
    case (Suc m)
    have "Suc (63 - m) = 64 - m" using Suc.prems by simp
    then have u: "[64 - Suc m..<64] = (63 - m) # [64 - m..<64]" by (simp add: upt_conv_Cons)
    have "rows_inv x m (fold modL_row (rev [64 - m..<64]) x)" using Suc by simp
    from rows_inv_step [OF this] Suc.prems b
    have "rows_inv x (Suc m) (modL_row (63 - m) (fold modL_row (rev [64 - m..<64]) x))" by simp
    then show ?case by (simp only: u rev.simps fold_append fold_simps o_apply)
  qed
  from this [of 32] show ?thesis by (simp add: modL_high_def)
qed

section \<open>The last quotient\<close>

lemma ival_bounds:
  "\<forall>x \<in> set xs. l \<le> x \<and> x \<le> u \<Longrightarrow> l * (256 ^ length xs - 1) \<le> 255 * ival xs \<and> 255 * ival xs \<le> u * (256 ^ length xs - 1)"
  by (induction xs) (auto simp: algebra_simps)

lemma ival_zeros: "\<forall>x \<in> set xs. x = 0 \<Longrightarrow> ival xs = 0"
  by (induction xs) simp_all

lemma ival_low:
  assumes "length x = 64" and "\<forall>j. 32 \<le> j \<and> j < 64 \<longrightarrow> x ! j = 0"
  shows "ival x = ival (take 31 x) + x ! 31 * 256 ^ 31" and "ival x = ival (take 32 x)"
proof -
  have "ival (drop 32 x) = 0" by (rule ival_zeros) (use assms in \<open>auto simp: in_set_conv_nth\<close>)
  moreover have "ival x = ival (take 32 x @ drop 32 x)" by simp
  ultimately show "ival x = ival (take 32 x)" using assms(1) by (simp only: ival_append add_0_right mult_zero_right)
  then show "ival x = ival (take 31 x) + x ! 31 * 256 ^ 31"
    using ival_take_Suc [of 31 x] assms(1) by (simp add: eval_nat_numeral)
qed

definition low_inv :: "int list \<Rightarrow> nat \<Rightarrow> int list \<times> int \<Rightarrow> bool" where
  "low_inv x0 k xc \<longleftrightarrow>
     (case xc of (x, carry) \<Rightarrow>
        length x = 64 \<and> ival x + carry * 256 ^ k = ival x0 - x0 ! 31 div 16 * ival (take k ed_L) \<and>
        (\<forall>j < k. 0 \<le> x ! j \<and> x ! j \<le> 255) \<and> (\<forall>j. k \<le> j \<and> j < 64 \<longrightarrow> x ! j = x0 ! j))"

lemma low_inv_step:
  assumes inv: "low_inv x0 k xc" and k: "k < 32"
  shows "low_inv x0 (Suc k) (modL_low k xc)"
proof -
  obtain x c where xc: "xc = (x, c)" by (cases xc)
  define w where "w = x ! k + (c - x ! 31 div 16 * ed_L ! k)"
  have l: "length x = 64" and q: "x ! 31 = x0 ! 31" using inv k by (auto simp: low_inv_def xc)
  define m d where "m = w mod 256" and "d = w div 256"
  have s: "modL_low k (x, c) = (x[k := m], d)"
    using k l by (simp add: modL_low_def w_def m_def d_def Let_def and_mask8)
  have m: "0 \<le> m \<and> m \<le> 255" by (simp add: m_def)
  have e: "m + 256 * d = w" by (simp add: m_def d_def)
  have "ival (x[k := m]) + d * 256 ^ Suc k = ival x + (m + 256 * d - x ! k) * 256 ^ k"
    using k l by (simp add: ival_update algebra_simps)
  also have "\<dots> = ival x + c * 256 ^ k - x0 ! 31 div 16 * ed_L ! k * 256 ^ k"
    unfolding e by (simp add: w_def q algebra_simps)
  also have "\<dots> = ival x0 - x0 ! 31 div 16 * ival (take (Suc k) ed_L)"
    using inv k by (simp add: low_inv_def xc ival_take_Suc ed_L_facts(1) algebra_simps)
  finally show ?thesis
    using inv k m by (auto simp: low_inv_def xc s nth_list_update less_Suc_eq)
qed

lemma low_spec:
  assumes "length x = 64"
  shows "low_inv x 32 (fold modL_low [0..<32] (x, 0))"
proof -
  have "k \<le> 32 \<Longrightarrow> low_inv x k (fold modL_low [0..<k] (x, 0))" for k
  proof (induction k)
    case 0
    show ?case using assms by (simp add: low_inv_def)
  next
    case (Suc k)
    then show ?case using low_inv_step [of x k "fold modL_low [0..<k] (x, 0)"] by simp
  qed
  then show ?thesis by simp
qed

lemma sub_spec:
  assumes "length x = 64" and "k \<le> 32"
  shows "length (fold (\<lambda>j x. x[j := x ! j - c * ed_L ! j]) [0..<k] x) = 64 \<and>
    ival (fold (\<lambda>j x. x[j := x ! j - c * ed_L ! j]) [0..<k] x) = ival x - c * ival (take k ed_L)"
  using assms(2)
proof (induction k)
  case (Suc k)
  then show ?case by (simp add: ival_update ival_take_Suc ed_L_facts(1) algebra_simps)
qed (simp add: assms(1))

section \<open>The bytes\<close>

definition out_inv :: "int list \<Rightarrow> nat \<Rightarrow> int list \<times> bytes \<Rightarrow> bool" where
  "out_inv x0 k xr \<longleftrightarrow>
     (case xr of (x, r) \<Rightarrow>
        length x = 64 \<and> length r = 64 \<and> le_val (take k r) + ival (drop k x) * 256 ^ k = ival x0 \<and>
        (\<forall>j. k \<le> j \<and> j < 64 \<longrightarrow> r ! j = 0))"

lemma le_val_take_Suc: "k < length bs \<Longrightarrow> le_val (take (Suc k) bs) = le_val (take k bs) + uint (bs ! k) * 256 ^ k"
  by (simp add: take_Suc_conv_app_nth le_val_append)

lemma out_inv_step:
  assumes inv: "out_inv x0 k xr" and k: "k < 32"
  shows "out_inv x0 (Suc k) (modL_out k xr)"
proof -
  obtain x r where xr: "xr = (x, r)" by (cases xr)
  have l: "length x = 64" "length r = 64" and z: "\<And>j. k \<le> j \<Longrightarrow> j < 64 \<Longrightarrow> r ! j = 0"
    and v: "le_val (take k r) + ival (drop k x) * 256 ^ k = ival x0"
    using inv by (auto simp: out_inv_def xr)
  define m d where "m = x ! k mod 256" and "d = x ! k div 256"
  have e: "x ! k = m + 256 * d" and m: "0 \<le> m" "m < 256" by (simp_all add: m_def d_def)
  have um: "uint (word_of_int m :: u8) = m" using m by (simp add: uint_word_of_int)
  have s: "modL_out k (x, r) = (x[Suc k := x ! Suc k + d], r[k := word_of_int m])"
    using k l by (simp add: modL_out_def m_def d_def and_mask8 Let_def)
  have d1: "drop k x = x ! k # x ! Suc k # drop (Suc (Suc k)) x"
    using k l by (simp add: Cons_nth_drop_Suc)
  have d2: "drop (Suc k) (x[Suc k := x ! Suc k + d]) = (x ! Suc k + d) # drop (Suc (Suc k)) x"
    using k l by (simp add: drop_update_swap Cons_nth_drop_Suc [symmetric])
  have "le_val (take (Suc k) (r[k := word_of_int m])) = le_val (take k r) + m * 256 ^ k"
    using k l by (subst le_val_take_Suc) (simp_all add: um)
  then have "le_val (take (Suc k) (r[k := word_of_int m])) + ival (drop (Suc k) (x[Suc k := x ! Suc k + d])) * 256 ^ Suc k = ival x0"
    unfolding v [symmetric] d1 d2 by (simp add: e algebra_simps)
  then show ?thesis using l z by (simp add: out_inv_def xr s)
qed

lemma out_spec:
  assumes "length x = 64"
  shows "out_inv x 32 (fold modL_out [0..<32] (x, replicate 64 0))"
proof -
  have "k \<le> 32 \<Longrightarrow> out_inv x k (fold modL_out [0..<k] (x, replicate 64 0))" for k
  proof (induction k)
    case 0
    show ?case using assms by (simp add: out_inv_def)
  next
    case (Suc k)
    then show ?case using out_inv_step [of x k "fold modL_out [0..<k] (x, replicate 64 0)"] by simp
  qed
  then show ?thesis by simp
qed

lemma quotient_bounds:
  fixes w t c' :: int
  assumes w: "- 129 * (256 ^ 31 - 1) \<le> 255 * w" "255 * w \<le> 128 * (256 ^ 31 - 1)" and t: "- 129 \<le> t" "t \<le> 128"
  shows "- ed_order < w + t * 256 ^ 31 - t div 16 * ed_order" and "w + t * 256 ^ 31 - t div 16 * ed_order < ed_order"
proof -
  define q m where "q = t div 16" and "m = t mod 16"
  have tm: "t = 16 * q + m" "0 \<le> m" "m \<le> 15" by (simp_all add: q_def m_def)
  then have q: "- 9 \<le> q" "q \<le> 8" using t by simp_all
  have "w + t * 256 ^ 31 - q * ed_order = w + m * 256 ^ 31 - q * 27742317777372353535851937790883648493"
    by (simp add: tm ed_order_def algebra_simps)
  then show "- ed_order < w + t * 256 ^ 31 - t div 16 * ed_order" "w + t * 256 ^ 31 - t div 16 * ed_order < ed_order"
    using w q tm(2,3) unfolding q_def [symmetric] by (simp_all add: ed_order_def)
qed

lemma modL_spec:
  assumes l: "length x = 64" and b: "\<forall>j < 64. 0 \<le> x ! j \<and> x ! j \<le> 255"
  shows "length (modL (replicate 64 0) x) = 64" and "le_val (modL (replicate 64 0) x) = ival x mod ed_order"
proof -
  define h where "h = modL_high x"
  have inv: "rows_inv x 32 h" unfolding h_def by (rule modL_high_spec [OF l b])
  have lh: "length h = 64" and z: "\<forall>j. 32 \<le> j \<and> j < 64 \<longrightarrow> h ! j = 0" and hm: "ival h mod ed_order = ival x mod ed_order"
    and d: "\<And>j. j \<le> 50 \<Longrightarrow> - 129 \<le> h ! j \<and> h ! j \<le> 128"
    using inv by (simp_all add: rows_inv_def digits_ok_def)
  define y where "y = ival h - h ! 31 div 16 * ed_order"
  have "\<forall>a \<in> set (take 31 h). - 129 \<le> a \<and> a \<le> 128" using lh d by (auto simp: in_set_conv_nth)
  from ival_bounds [OF this] lh have w: "- 129 * (256 ^ 31 - 1) \<le> 255 * ival (take 31 h)" "255 * ival (take 31 h) \<le> 128 * (256 ^ 31 - 1)"
    by simp_all
  have y: "- ed_order < y" "y < ed_order"
    unfolding y_def ival_low(1) [OF lh z] using quotient_bounds [OF w] d [of 31] by simp_all
  obtain x2 c where f2: "fold modL_low [0..<32] (h, 0) = (x2, c)" by fastforce
  have "low_inv h 32 (x2, c)" using low_spec [OF lh] by (simp add: f2)
  then have l2: "length x2 = 64" and v2: "ival x2 + c * 256 ^ 32 = y" and d2: "\<forall>j < 32. 0 \<le> x2 ! j \<and> x2 ! j \<le> 255"
    and z2: "\<forall>j. 32 \<le> j \<and> j < 64 \<longrightarrow> x2 ! j = 0"
    using z ed_L_facts(1,2) by (auto simp: low_inv_def y_def)
  have "\<forall>a \<in> set (take 32 x2). 0 \<le> a \<and> a \<le> 255" using l2 d2 by (auto simp: in_set_conv_nth)
  from ival_bounds [OF this] l2 have x2: "0 \<le> ival x2" "ival x2 < 256 ^ 32"
    unfolding ival_low(2) [OF l2 z2] by simp_all
  define x3 where "x3 = fold (\<lambda>j x. x[j := x ! j - c * ed_L ! j]) [0..<32] x2"
  have l3: "length x3 = 64" and v3: "ival x3 = ival x2 - c * ed_order"
    using sub_spec [OF l2, of 32 c] ed_L_facts(1,2) by (simp_all add: x3_def)
  obtain x4 r where f4: "fold modL_out [0..<32] (x3, replicate 64 0) = (x4, r)" by fastforce
  have "out_inv x3 32 (x4, r)" using out_spec [OF l3] by (simp add: f4)
  then have lr: "length r = 64" and zr: "\<And>j. 32 \<le> j \<Longrightarrow> j < 64 \<Longrightarrow> r ! j = 0"
    and v4: "le_val (take 32 r) + ival (drop 32 x4) * 256 ^ 32 = ival x3"
    by (auto simp: out_inv_def)
  have m: "modL (replicate 64 0) x = r"
    unfolding modL_def modL_high_def [symmetric] h_def [symmetric]
    by (simp only: f2 Let_def split x3_def [symmetric] f4 snd_conv)
  have "drop 32 r = replicate 32 0" using lr zr by (auto simp: list_eq_iff_nth_eq)
  moreover have "le_val r = le_val (take 32 r @ drop 32 r)" by simp
  moreover have "le_val (replicate n 0) = 0" for n by (induction n) simp_all
  ultimately have r: "le_val r = le_val (take 32 r)" by (simp only: le_val_append)
  have r32: "le_val (take 32 r) = ival x3 mod 256 ^ 32"
    using le_val_bounds [of "take 32 r"] lr v4 by (metis int_div_mod_unique(2) length_take min.absorb2 mult.commute numeral_le_iff semiring_norm(68,71,72,69,76,73))
  have "ival x3 mod 256 ^ 32 = ival x mod ed_order"
  proof -
    have L: "ed_order < 256 ^ 32" by (simp add: ed_order_def)
    have "ival h = y + h ! 31 div 16 * ed_order" by (simp add: y_def)
    then have xy: "ival x mod ed_order = y mod ed_order" using hm by simp
    show ?thesis
    proof (cases "0 \<le> y")
      case True
      then have "c = 0" using v2 x2 y L by auto
      then show ?thesis using v2 v3 x2 y True xy by simp
    next
      case False
      then have "c = - 1" using v2 x2 y L by auto
      then have "ival x3 = (y + ed_order) + 256 ^ 32 * 1" using v2 v3 by simp
      from int_div_mod_unique(2) [OF this] have "ival x3 mod 256 ^ 32 = y + ed_order" using False y L by simp
      moreover have "y mod ed_order = y + ed_order"
        using int_div_mod_unique(2) [of y "y + ed_order" ed_order "- 1"] False y by simp
      ultimately show ?thesis using xy by simp
    qed
  qed
  then show "length (modL (replicate 64 0) x) = 64" "le_val (modL (replicate 64 0) x) = ival x mod ed_order"
    using m lr r r32 by simp_all
qed

lemma ed_reduce_spec:
  assumes "length h = 64"
  shows "length (ed_reduce h) = 64" and "le_val (ed_reduce h) = le_val h mod ed_order"
proof -
  have m: "map (\<lambda>i. uint (h ! i)) [0..<64] = map uint h" using assms by (simp add: list_eq_iff_nth_eq)
  have "\<forall>j < 64. 0 \<le> map uint h ! j \<and> map uint h ! j \<le> 255"
  proof (intro allI impI)
    fix j :: nat assume "j < 64"
    then show "0 \<le> map uint h ! j \<and> map uint h ! j \<le> 255" using assms uint_less_256 [of "h ! j"] by simp
  qed
  from modL_spec [OF _ this] assms show "length (ed_reduce h) = 64" "le_val (ed_reduce h) = le_val h mod ed_order"
    by (simp_all add: ed_reduce_def m ival_bytes)
qed

section \<open>The range of a signature scalar\<close>

lemma scalar_less_spec:
  "length s = 32 \<Longrightarrow> n \<le> 32 \<Longrightarrow> scalar_less s n \<longleftrightarrow> le_val (take n s) < ival (take n ed_L)"
proof (induction n)
  case (Suc n)
  have n: "n < length s" "n < length ed_L" using Suc.prems by (simp_all add: ed_L_facts)
  have a: "0 \<le> le_val (take n s)" "le_val (take n s) < 256 ^ n"
    using le_val_bounds [of "take n s"] n by simp_all
  have b: "0 \<le> ival (take n ed_L)" "ival (take n ed_L) < 256 ^ n"
  proof -
    have "\<forall>x \<in> set (take n ed_L). 0 \<le> x \<and> x \<le> 255"
      using ed_L_nth(1) ed_L_facts(1) by (auto simp: in_set_conv_nth)
    from ival_bounds [OF this] n show "0 \<le> ival (take n ed_L)" "ival (take n ed_L) < 256 ^ n" by auto
  qed
  have lt: "p + u * 256 ^ n < q + v * 256 ^ n" if "p < 256 ^ n" "0 \<le> q" "u < v" for p q u v :: int
  proof -
    have "(u + 1) * 256 ^ n \<le> v * 256 ^ n" using that(3) by (intro mult_right_mono) simp_all
    then show ?thesis using that by (simp add: algebra_simps)
  qed
  have "scalar_less s (Suc n) \<longleftrightarrow>
      (if uint (s ! n) < ed_L ! n then True else if uint (s ! n) > ed_L ! n then False
       else le_val (take n s) < ival (take n ed_L))"
    using Suc by simp
  also have "\<dots> \<longleftrightarrow> le_val (take n s) + uint (s ! n) * 256 ^ n < ival (take n ed_L) + ed_L ! n * 256 ^ n"
    using lt [OF a(2) b(1), of "uint (s ! n)" "ed_L ! n"] lt [OF b(2) a(1), of "ed_L ! n" "uint (s ! n)"] by auto
  finally show ?case by (simp only: le_val_take_Suc [OF n(1)] ival_take_Suc [OF n(2)])
qed simp

lemma scalar_is_reduced_spec:
  "length s = 32 \<Longrightarrow> scalar_is_reduced s \<longleftrightarrow> le_val s < ed_order"
  using scalar_less_spec [of s 32] by (simp add: scalar_is_reduced_def ed_L_facts)

section \<open>Properties\<close>

text \<open>C15. The scalars of a verification are what RFC 8032 says: the 64 bytes of the hash are
  replaced by the encoding of their value modulo the group order, for every one of the 2^512 values,
  and a signature scalar passes exactly if it is below that order.\<close>

theorem scalars_modulo_order:
  assumes "length h = 64" and "length s = 32"
  shows "le_val (ed_reduce h) = le_val h mod ed_order \<and> (scalar_is_reduced s \<longleftrightarrow> le_val s < ed_order)"
  using ed_reduce_spec(2) [OF assms(1)] scalar_is_reduced_spec [OF assms(2)] by blast

lemma scalars_modulo_order_witness:
  "le_val (ed_reduce (replicate 64 255)) = le_val (replicate 64 255) mod ed_order \<and>
   \<not> scalar_is_reduced (map word_of_int ed_L)"
proof -
  have l: "length (map word_of_int ed_L :: bytes) = 32" by (simp add: ed_L_facts)
  have "le_val (map word_of_int ed_L) = ed_order" by (simp add: ed_L_def ed_order_def)
  then show ?thesis using scalars_modulo_order [OF length_replicate l, of 255] by simp
qed

end
