(* ===== verification/VL_Ed25519_Verify.thy ===== *)
theory VL_Ed25519_Verify
  imports VL_Ed25519_Group VL_Ed25519_Scalar VL_Fips
begin

text \<open>
  The verification of a signature as RFC 8032, 5.1.7, states it, over residues: \<open>ed_accepts\<close>
  takes the four numbers of the equation, the two halves of the signature, the key and the
  hash. \<open>vl_ed25519_verify\<close> decides it for the numbers its byte strings write.
\<close>

definition ed_accepts :: "int \<Rightarrow> int \<Rightarrow> int \<Rightarrow> int \<Rightarrow> bool" where
  "ed_accepts R S A h \<longleftrightarrow>
     S < ed_order \<and>
     (case ep_decode_neg A of
        None \<Rightarrow> False
      | Some Q \<Rightarrow> ep_encode (ep_add (ep_mult h Q) (ep_mult S ep_base)) = R)"

text \<open>The bytes of the message the caller passes, none where the pointer is null and the length 0.\<close>

definition msg_bytes :: "bytes option \<Rightarrow> nat \<Rightarrow> bytes" where
  "msg_bytes msg n = (case msg of None \<Rightarrow> [] | Some m \<Rightarrow> take n m)"

lemma ed_hash_spec:
  assumes "length sig = 64" and "length key = 32" and "msg = None \<longrightarrow> n = 0" and "length (msg_bytes msg n) < 2 ^ 64 - 64"
  shows "ed_hash sig key msg n = Some (fips512 (take 32 sig @ key @ msg_bytes msg n))"
proof -
  define c0 where "c0 = the (vl_sha512_init (Some sha512_zero_ctx))"
  have c0: "vl_sha512_init (Some sha512_zero_ctx) = Some c0" by (simp add: c0_def vl_sha512_init_def)
  define c1 where "c1 = sha512_absorb (sha512_absorb c0 (take 32 sig)) key"
  have "sha512_rep c0 []" by (rule sha512_rep_init [OF _ c0]) (simp add: sha512_zero_ctx_def)
  from sha512_rep_absorb [OF sha512_rep_absorb [OF this]] have "sha512_rep c1 (([] @ take 32 sig) @ key)"
    unfolding c1_def .
  then have "sha512_rep c1 (take 32 sig @ key)" by simp
  then have r: "sha512_rep c1 (take 32 sig @ key)" "sha512_rep (sha512_absorb c1 m) ((take 32 sig @ key) @ m)" for m
    using sha512_rep_absorb by blast+
  have l: "length ((take 32 sig @ key) @ msg_bytes msg n) < 2 ^ 64" using assms by simp
  have u: "vl_sha512_update (vl_sha512_update (Some c0) (Some sig) 32) (Some key) 32 = Some c1"
    using assms(2) by (simp add: vl_sha512_update_def c1_def)
  obtain c2 where c2: "vl_sha512_update (Some c1) msg n = Some c2"
      "sha512_rep c2 ((take 32 sig @ key) @ msg_bytes msg n)"
    using r by (cases msg) (simp_all add: vl_sha512_update_def msg_bytes_def)
  show ?thesis
    using vl_sha512_final_rep [OF c2(2) l, of "replicate 64 0"]
    by (simp add: ed_hash_def c0 u c2(1) sha512_spec_fips)
qed

lemma verify_refines:
  assumes sg: "length sg = 64" and key: "length key = 32" and m: "msg = None \<longrightarrow> n = 0"
    and len: "length (msg_bytes msg n) < 2 ^ 64 - 64"
  shows "vl_ed25519_verify (Some sg) msg n (Some key) =
    (if ed_accepts (le_val (take 32 sg)) (le_val (drop 32 sg)) (le_val key)
        (le_val (fips512 (take 32 sg @ key @ msg_bytes msg n)) mod ed_order) then 1 else 0)"
proof -
  define h where "h = fips512 (take 32 sg @ key @ msg_bytes msg n)"
  have lh: "length h = 64" by (simp add: h_def sha512_spec_fips [symmetric])
  have s: "scalar_is_reduced (drop 32 sg) \<longleftrightarrow> le_val (drop 32 sg) < ed_order"
    using sg by (simp add: scalar_is_reduced_spec)
  have d: "rel_option prepr (unpackneg key) (ep_decode_neg (le_val key))" by (rule unpackneg_spec [OF key])
  have n: "\<not> (msg = None \<and> n \<noteq> 0)" using m by blast
  have "vl_ed25519_verify (Some sg) msg n (Some key) =
    (if \<not> scalar_is_reduced (drop 32 sg) then 0
     else case unpackneg key of None \<Rightarrow> 0
       | Some q \<Rightarrow> vl_ct_eq (Some sg) (Some (ed_pack (ed_add (fst (scalarmult q (ed_reduce h))) (scalarbase (drop 32 sg))))) 32)"
    unfolding vl_ed25519_verify_def prod.case option.case Let_def ed_hash_spec [OF assms] option.sel h_def
    using n by (simp only: if_False)
  also have "\<dots> = (if ed_accepts (le_val (take 32 sg)) (le_val (drop 32 sg)) (le_val key) (le_val h mod ed_order) then 1 else 0)"
  proof (cases "unpackneg key")
    case None
    then have "ep_decode_neg (le_val key) = None" using d by simp
    then show ?thesis by (simp add: None ed_accepts_def)
  next
    case (Some q)
    then obtain Q where Q: "ep_decode_neg (le_val key) = Some Q" "prepr q Q" using d by (auto simp: option_rel_Some1)
    define t where "t = ed_add (fst (scalarmult q (ed_reduce h))) (scalarbase (drop 32 sg))"
    define T where "T = ep_add (ep_mult (le_val h mod ed_order) Q) (ep_mult (le_val (drop 32 sg)) ep_base)"
    have "prepr t T"
      unfolding t_def T_def ed_reduce_spec(2) [OF lh, symmetric]
      by (intro prepr_add prepr_scalarmult prepr_scalarbase Q(2)) (simp_all add: ed_reduce_spec(1) [OF lh] sg)
    note pk = ed_pack_spec [OF this]
    have "vl_ct_eq (Some sg) (Some (ed_pack t)) 32 = (if take 32 sg = ed_pack t then 1 else 0)"
      using sg pk(2) by (simp add: vl_ct_eq_Some)
    moreover have "take 32 sg = ed_pack t \<longleftrightarrow> le_val (take 32 sg) = ep_encode T"
      using le_val_inj [of "take 32 sg" "ed_pack t"] sg pk by auto
    ultimately show ?thesis
      by (simp add: Some Q(1) s ed_accepts_def t_def [symmetric] T_def [symmetric] eq_commute [of "ep_encode T"])
  qed
  finally show ?thesis unfolding h_def .
qed

section \<open>What an accepted signature is\<close>

lemma ep_encode_canonical: "ep_encode P mod 2 ^ 255 < p25519 \<and> 0 \<le> ep_encode P"
proof (cases P)
  case (fields x y z t)
  define a b where "a = y * fp_inv z mod p25519" and "b = x * fp_inv z mod p25519 mod 2"
  have a: "0 \<le> a" "a < p25519" "a < 2 ^ 255" and b: "0 \<le> b"
    using p25519_less(2) less_trans [OF pos_mod_bound [OF p25519_less(2)] p25519_less(1)] by (simp_all only: a_def b_def) simp_all
  have "(a + 2 ^ 255 * b) mod 2 ^ 255 = a" using a by (intro int_div_mod_unique(2)) simp_all
  then show ?thesis using a b by (simp add: ep_encode_def fields a_def [symmetric] b_def [symmetric])
qed

lemma ep_decode_neg_sound:
  assumes "ep_decode_neg n = Some P"
  obtains x y where "P = (x, y, 1, x * y mod p25519)" and "y = n mod 2 ^ 255" and "y < p25519"
    and "(y * y - x * x) mod p25519 = (1 + ed_d * (x * x) * (y * y)) mod p25519" and "\<not> ep_low_order P"
proof -
  define y u v where "y = n mod 2 ^ 255" and "u = y ^ 2 - 1" and "v = ed_d * y ^ 2 + 1"
  define x where "x = ep_sqrt_ratio u v"
  define x' where "x' = (if x mod 2 = n div 2 ^ 255 then - x mod p25519 else x)"
  have d: "y < p25519" "v * x ^ 2 mod p25519 = u mod p25519" "\<not> ep_low_order P" "P = (x', y, 1, x' * y mod p25519)"
    using assms unfolding ep_decode_neg_def Let_def y_def [symmetric] u_def [symmetric] v_def [symmetric]
      x_def [symmetric] x'_def [symmetric] by (auto split: if_splits)
  have sq: "x' * x' mod p25519 = x * x mod p25519"
    using mod_mult_eq [of "- x" p25519 "- x"] by (simp add: x'_def)
  have "(y * y - x' * x') mod p25519 = (y * y - x * x) mod p25519"
    by (rule mod_diff_cong [OF refl sq])
  moreover have "(1 + ed_d * (x' * x') * (y * y)) mod p25519 = (1 + ed_d * (x * x) * (y * y)) mod p25519"
    by (rule mod_add_cong [OF refl mod_mult_cong [OF mod_mult_cong [OF refl sq] refl]])
  moreover have "(y * y - x * x) mod p25519 = (1 + ed_d * (x * x) * (y * y)) mod p25519"
  proof -
    have "p25519 dvd v * x ^ 2 - u" using d(2) by (simp add: mod_eq_dvd_iff)
    then have "p25519 dvd (1 + ed_d * (x * x) * (y * y)) - (y * y - x * x)"
      by (simp add: u_def v_def power2_eq_square algebra_simps)
    then show ?thesis by (simp add: mod_eq_dvd_iff dvd_diff_commute)
  qed
  ultimately show ?thesis using that [OF d(4) y_def d(1) _ d(3)] by simp
qed

lemma accepted_canonical:
  assumes "ed_accepts R S A h"
  shows "R mod 2 ^ 255 < p25519 \<and> S < ed_order \<and> A mod 2 ^ 255 < p25519"
proof -
  obtain Q where Q: "ep_decode_neg A = Some Q" "ep_encode (ep_add (ep_mult h Q) (ep_mult S ep_base)) = R" "S < ed_order"
    using assms by (auto simp: ed_accepts_def split: option.splits)
  have "R mod 2 ^ 255 < p25519" using ep_encode_canonical Q(2) by blast
  moreover have "A mod 2 ^ 255 < p25519" using ep_decode_neg_sound [OF Q(1)] by metis
  ultimately show ?thesis using Q(3) by simp
qed

lemma accepts_non_canonical_key: "p25519 \<le> A mod 2 ^ 255 \<Longrightarrow> \<not> ed_accepts R S A h"
  using accepted_canonical [of R S A h] by auto

section \<open>Properties\<close>

text \<open>C8. There is one spelling of an accepted signature and of its key: the y coordinates of R
  and of the key are below the prime and S is below the group order, so adding the prime to one of the
  first two or the order to the third turns an accepted licence into a rejected one.\<close>

theorem ed25519_accepts_canonical:
  assumes "length sg = 64" and "length key = 32" and "msg = None \<longrightarrow> n = 0" and "length (msg_bytes msg n) < 2 ^ 64 - 64"
    and "p25519 \<le> le_val (take 32 sg) mod 2 ^ 255 \<or> ed_order \<le> le_val (drop 32 sg) \<or> p25519 \<le> le_val key mod 2 ^ 255"
  shows "vl_ed25519_verify (Some sg) msg n (Some key) = 0"
  using verify_refines [OF assms(1-4)] accepted_canonical assms(5) by (metis linorder_not_less)

lemma ed25519_accepts_canonical_witness:
  "vl_ed25519_verify (Some (replicate 32 0 @ map word_of_int ed_L)) None 0 (Some (3 # replicate 31 0)) = 0"
proof (rule ed25519_accepts_canonical)
  have "le_val (map word_of_int ed_L) = ed_order" by (simp add: ed_L_def ed_order_def)
  then show "p25519 \<le> le_val (take 32 (replicate 32 0 @ map word_of_int ed_L)) mod 2 ^ 255 \<or>
      ed_order \<le> le_val (drop 32 (replicate 32 0 @ map word_of_int ed_L)) \<or>
      p25519 \<le> le_val (3 # replicate 31 0) mod 2 ^ 255" by simp
qed (simp_all add: ed_L_facts msg_bytes_def)

end
