(* ===== verification/VL_Ed25519_Curve.thy ===== *)
theory VL_Ed25519_Curve
  imports VL_Curve VL_Ed25519_Verify
begin

text \<open>
  The points the code computes with are points of the curve: its addition is the addition of the
  group, its ladder the multiple, its encoding and decoding those of RFC 8032, 5.1.2 and 5.1.3. So the
  equation it decides is the verification equation in the group of the curve.
\<close>

section \<open>Extended coordinates\<close>

definition ep_of :: "epoint \<Rightarrow> curve \<Rightarrow> bool" where
  "ep_of P A \<longleftrightarrow>
     (case P of (x, y, z, t) \<Rightarrow>
        (of_int z :: fp) \<noteq> 0 \<and> of_int x = px A * of_int z \<and> of_int y = py A * of_int z \<and>
        of_int t = px A * py A * of_int z)"

lemma ep_of_add:
  assumes "ep_of P A" and "ep_of Q B"
  shows "ep_of (ep_add P Q) (A + B)"
proof -
  obtain x1 y1 z1 t1 x2 y2 z2 t2 where P: "P = (x1, y1, z1, t1)" and Q: "Q = (x2, y2, z2, t2)"
    by (cases P; cases Q) auto
  let ?k = "fp_d * px A * px B * py A * py B" and ?z = "2 * of_int z1 * of_int z2 :: fp"
  have nz: "?z \<noteq> 0" using assms by (simp add: ep_of_def P Q)
  have s: "px (A + B) * (1 + ?k) = px A * py B + px B * py A" "py (A + B) * (1 - ?k) = py A * py B + px A * px B"
    unfolding plus_coords by (rule sum_eqs [OF curve_coords curve_coords])+
  have d: "1 + ?k \<noteq> 0" "1 - ?k \<noteq> 0" by (rule denominators [OF curve_coords curve_coords])+
  define a b c d where "a = (y1 - x1) * (y2 - x2)" and "b = (y1 + x1) * (y2 + x2)"
    and "c = t1 * 2 * ed_d * t2" and "d = z1 * 2 * z2"
  have q: "(of_int x1 :: fp) = px A * of_int z1" "(of_int y1 :: fp) = py A * of_int z1" "(of_int t1 :: fp) = px A * py A * of_int z1"
    "(of_int x2 :: fp) = px B * of_int z2" "(of_int y2 :: fp) = py B * of_int z2" "(of_int t2 :: fp) = px B * py B * of_int z2"
    using assms by (simp_all add: ep_of_def P Q)
  have "of_int (b - a) = ?z * (px A * py B + px B * py A)" "of_int (b + a) = ?z * (py A * py B + px A * px B)"
    by (simp_all add: a_def b_def q algebra_simps)
  then have eh: "of_int (b - a) = px (A + B) * (?z * (1 + ?k))" "of_int (b + a) = py (A + B) * (?z * (1 - ?k))"
    unfolding s [symmetric] by (simp_all only: ac_simps)
  have fg: "of_int (d - c) = ?z * (1 - ?k)" "of_int (d + c) = ?z * (1 + ?k)"
    by (simp_all add: c_def d_def q fp_d_def [symmetric] algebra_simps)
  have r: "ep_add P Q = ((b - a) * (d - c) mod p25519, (d + c) * (b + a) mod p25519, (d - c) * (d + c) mod p25519, (b - a) * (b + a) mod p25519)"
    by (simp add: ep_add_def P Q Let_def a_def b_def c_def d_def)
  define F G where "F = ?z * (1 - ?k)" and "G = ?z * (1 + ?k)"
  have "F \<noteq> 0" "G \<noteq> 0" unfolding F_def G_def using nz d by (simp_all only: mult_eq_0_iff de_Morgan_disj simp_thms)
  then show ?thesis
    unfolding r ep_of_def prod.case of_int_fp_mod of_int_mult eh fg F_def [symmetric] G_def [symmetric] by (simp add: ac_simps)
qed

lemma ep_of_neutral: "ep_of ep_neutral 0"
  by (simp add: ep_of_def ep_neutral_def)

lemma ep_of_ladder:
  assumes "ep_of Q A"
  shows "0 \<le> n \<Longrightarrow> n < 2 ^ k \<Longrightarrow>
    ep_of (fst (ep_ladder k n Q)) (smul (nat n) A) \<and> ep_of (snd (ep_ladder k n Q)) (smul (Suc (nat n)) A)"
proof (induction k arbitrary: n)
  case 0
  then show ?case using assms ep_of_neutral by simp
next
  case (Suc k)
  define m where "m = nat (n div 2)"
  obtain R0 R1 where r: "ep_ladder k (n div 2) Q = (R0, R1)" by (metis surj_pair)
  have IH: "ep_of R0 (smul m A)" "ep_of R1 (smul (Suc m) A)"
    using Suc.IH [of "n div 2"] Suc.prems r by (simp_all add: m_def)
  have e: "nat n = (if even n then m + m else m + Suc m)"
    using Suc.prems by (auto simp: m_def elim!: evenE oddE)
  have "smul (m + m) A = smul m A + smul m A" "smul (m + Suc m) A = smul m A + smul (Suc m) A"
    "smul (Suc (m + m)) A = smul (Suc m) A + smul m A" "smul (Suc (m + Suc m)) A = smul (Suc m) A + smul (Suc m) A"
    using smul_add [of m m A] smul_add [of m "Suc m" A] smul_add [of "Suc m" m A] smul_add [of "Suc m" "Suc m" A] by simp_all
  then show ?case
    using ep_of_add [OF IH(1,1)] ep_of_add [OF IH] ep_of_add [OF IH(2,1)] ep_of_add [OF IH(2,2)]
    by (simp add: r e ac_simps)
qed

lemma ep_of_mult: "ep_of Q A \<Longrightarrow> 0 \<le> n \<Longrightarrow> n < 2 ^ 256 \<Longrightarrow> ep_of (ep_mult n Q) (smul (nat n) A)"
  unfolding ep_mult_def using ep_of_ladder [of Q A n 256] by simp

definition base_point :: curve where "base_point = point (of_int base_x) (of_int base_y)"

lemma ep_of_base: "ep_of ep_base base_point"
proof -
  have "(of_int (base_y * base_y - base_x * base_x) :: fp) = of_int (1 + ed_d * (base_x * base_x) * (base_y * base_y))"
    unfolding of_int_fp_eq by (rule base_on_curve)
  then have "on_curve (of_int base_x) (of_int base_y)"
    by (simp only: on_curve_def fp_d_def of_int_diff of_int_add of_int_mult of_int_1)
  then show ?thesis by (simp add: ep_of_def ep_base_def base_point_def)
qed

section \<open>Encoding\<close>

text \<open>The little-endian value of the 32 bytes: y, and the parity of x above it.\<close>

definition enc :: "curve \<Rightarrow> int" where
  "enc A = Rep_fp (py A) + 2 ^ 255 * (Rep_fp (px A) mod 2)"

lemma ep_of_encode:
  assumes "ep_of P A"
  shows "ep_encode P = enc A"
proof -
  obtain x y z t where P: "P = (x, y, z, t)" by (cases P) auto
  have z: "(of_int z :: fp) \<noteq> 0" using assms by (simp add: ep_of_def P)
  have "of_int (y * fp_inv z) = py A" "of_int (x * fp_inv z) = px A"
    using assms z by (simp_all add: ep_of_def P of_int_fp_inv)
  then have "y * fp_inv z mod p25519 = Rep_fp (py A)" "x * fp_inv z mod p25519 = Rep_fp (px A)"
    by (metis of_int_fp)+
  then show ?thesis by (simp add: ep_encode_def P enc_def)
qed

lemma Rep_fp_bounds: "0 \<le> Rep_fp x" "Rep_fp x < p25519" "Rep_fp x < 2 ^ 255"
  using Rep_fp [of x] p25519_less(1) by auto

lemma Rep_fp_of_int: "0 \<le> v \<Longrightarrow> v < p25519 \<Longrightarrow> Rep_fp (of_int v) = v"
  by (simp add: of_int_fp)

lemma of_int_Rep_fp [simp]: "of_int (Rep_fp x) = x"
  by (simp add: Rep_fp_inject [symmetric] of_int_fp) (use Rep_fp_bounds [of x] in simp)

lemma enc_parts: "enc A mod 2 ^ 255 = Rep_fp (py A)" "enc A div 2 ^ 255 = Rep_fp (px A) mod 2"
  using Rep_fp_bounds [of "py A"] by (simp_all add: enc_def)

lemma enc_bounds: "0 \<le> enc A" "enc A < 2 ^ 256"
proof -
  have "0 \<le> Rep_fp (px A) mod 2" "Rep_fp (px A) mod 2 \<le> 1" by simp_all
  then show "0 \<le> enc A" "enc A < 2 ^ 256" using Rep_fp_bounds [of "py A"] unfolding enc_def by simp_all
qed

lemma parity_minus: "x \<noteq> 0 \<Longrightarrow> Rep_fp (- x) mod 2 = 1 - Rep_fp x mod 2"
proof -
  assume "x \<noteq> 0"
  then have "Rep_fp x \<noteq> 0" by (metis of_int_0 of_int_Rep_fp)
  then have r: "Rep_fp (- x) = p25519 - Rep_fp x"
    unfolding uminus_fp.rep_eq using Rep_fp_bounds [of x] by (simp add: zmod_zminus1_eq_if)
  have "p25519 mod 2 = 1" by (simp add: p25519_def)
  then show ?thesis unfolding r by presburger
qed

lemma denominator_nz: "1 + fp_d * (y * y) \<noteq> 0"
proof
  assume z: "1 + fp_d * (y * y) = 0"
  then have "y \<noteq> 0" by auto
  have "fp_i * fp_i = fp_d * y * y" using z fp_i_square by algebra
  then show False using square_quotient [OF \<open>y \<noteq> 0\<close>] fp_d_nonsquare by blast
qed

lemma on_curve_x: "on_curve x y \<longleftrightarrow> (1 + fp_d * (y * y)) * (x * x) = y * y - 1"
  unfolding on_curve_def by algebra

lemma same_y:
  assumes "on_curve x y" and "on_curve x' y"
  shows "x' = x \<or> x' = - x"
proof -
  have "(1 + fp_d * (y * y)) * (x * x) = (1 + fp_d * (y * y)) * (x' * x')" using assms by (simp only: on_curve_x)
  then have "x * x = x' * x'" by (rule mult_left_cancel [THEN iffD1, OF denominator_nz [of y]])
  then show ?thesis by (auto simp: square_eq_iff)
qed

lemma enc_inject: "enc A = enc B \<longleftrightarrow> A = B"
proof
  assume e: "enc A = enc B"
  have y: "py A = py B" using arg_cong [OF e, of "\<lambda>n. n mod 2 ^ 255"] unfolding enc_parts by (simp add: Rep_fp_inject)
  have par: "Rep_fp (px A) mod 2 = Rep_fp (px B) mod 2"
    using arg_cong [OF e, of "\<lambda>n. n div 2 ^ 255"] unfolding enc_parts .
  have "px B = px A \<or> px B = - px A"
    by (rule same_y [of _ "py A"]) (use curve_coords [of A] curve_coords [of B] y in simp_all)
  moreover have "px A = 0" if "px B = - px A"
  proof (rule ccontr)
    assume "px A \<noteq> 0"
    from parity_minus [OF this] have "Rep_fp (px B) mod 2 = 1 - Rep_fp (px A) mod 2" by (simp only: that)
    then show False using par by presburger
  qed
  ultimately show "A = B" using y by (auto simp: curve_eq_iff)
qed simp

lemma enc_zero: "enc 0 = 1"
  by (simp add: enc_def zero_fp.rep_eq one_fp.rep_eq)

section \<open>Decoding\<close>

lemma smul_8: "smul 8 A = (let B = A + A; C = B + B in C + C)"
proof -
  have "smul 8 A = smul 4 A + smul 4 A" "smul 4 A = smul 2 A + smul 2 A" "smul 2 A = A + A"
    using smul_double [of 4 A] smul_double [of 2 A] smul_double [of 1 A] by simp_all
  then show ?thesis by (simp add: Let_def)
qed

lemma ep_of_low_order: "ep_of P A \<Longrightarrow> ep_low_order P \<longleftrightarrow> smul 8 A = 0"
proof -
  assume a: "ep_of P A"
  have "ep_of (ep_double3 P) (smul 8 A)"
    unfolding ep_double3_def smul_8 Let_def by (intro ep_of_add a)
  from ep_of_encode [OF this] show ?thesis
    by (simp add: ep_low_order_def flip: enc_zero enc_inject)
qed

lemma x_zero_double:
  assumes "px A = 0"
  shows "A + A = 0"
proof -
  have "py A * py A = 1" using curve_coords [of A] assms by (simp add: on_curve_def)
  then show ?thesis by (simp add: curve_eq_iff plus_coords add_x_def add_y_def assms)
qed

lemma x_zero_order: "px A = 0 \<Longrightarrow> smul 8 A = 0"
  by (simp add: smul_8 x_zero_double)

text \<open>The candidate for the square root of \<open>u / v\<close> is one if there is one.\<close>

lemma sqrt_exponent:
  assumes "v * (r * r) = u" and "u \<noteq> 0" and "v \<noteq> (0 :: fp)"
  defines "x \<equiv> u * v ^ 3 * (u * v ^ 7) ^ (2 ^ 252 - 3)"
  shows "v * (x * x) = u \<or> v * (x * x) = - u"
proof -
  define e :: nat where "e = 2 ^ 252 - 3"
  define g where "g = r * v ^ 4"
  have h: "half = Suc (2 * e) * 2" by (simp add: half_def e_def)
  have "g \<noteq> 0" using assms(1-3) by (auto simp: g_def)
  have uv: "u * v ^ 7 = g ^ 2" unfolding g_def assms(1) [symmetric] by (simp add: eval_nat_numeral ac_simps)
  have "v * (x * x) = u * ((u * v ^ 7) * ((u * v ^ 7) ^ e * (u * v ^ 7) ^ e))"
    unfolding x_def e_def [symmetric] by (simp add: eval_nat_numeral ac_simps)
  also have "\<dots> = u * (u * v ^ 7) ^ Suc (2 * e)" by (simp add: power_add mult_2)
  also have "\<dots> = u * g ^ half" unfolding uv h by (simp only: power_mult [symmetric] mult.commute)
  finally show ?thesis using fp_euler [OF \<open>g \<noteq> 0\<close>] by auto
qed

lemma sqrt_ratio:
  assumes "of_int v * (r * r) = (of_int u :: fp)" and v: "(of_int v :: fp) \<noteq> 0"
  shows "of_int v * (of_int (ep_sqrt_ratio u v) * of_int (ep_sqrt_ratio u v)) = (of_int u :: fp)"
proof -
  define x0 where "x0 = u * v ^ 3 * fp_pow2523 (u * v ^ 7) mod p25519"
  have x0: "(of_int x0 :: fp) = of_int u * of_int v ^ 3 * (of_int u * of_int v ^ 7) ^ (2 ^ 252 - 3)"
    unfolding x0_def of_int_fp_mod of_int_mult of_int_fp_pow2523 of_int_power ..
  have t: "v * x0 ^ 2 mod p25519 = u mod p25519 \<longleftrightarrow> of_int v * (of_int x0 * of_int x0) = (of_int u :: fp)"
    unfolding of_int_fp_eq [symmetric] by (simp add: power2_eq_square)
  have s: "ep_sqrt_ratio u v = (if v * x0 ^ 2 mod p25519 = u mod p25519 then x0 else x0 * sqrt_m1 mod p25519)"
    unfolding ep_sqrt_ratio_def x0_def Let_def ..
  show ?thesis
  proof (cases "of_int v * (of_int x0 * of_int x0) = (of_int u :: fp)")
    case True
    then show ?thesis using s t by simp
  next
    case False
    have "(of_int u :: fp) \<noteq> 0" using False x0 by auto
    then have "of_int v * (of_int x0 * of_int x0) = - (of_int u :: fp)"
      using sqrt_exponent [OF assms(1) _ v, folded x0] False by blast
    moreover have "(of_int (ep_sqrt_ratio u v) :: fp) = of_int x0 * fp_i" using False s t by (simp add: fp_i_def)
    ultimately show ?thesis using fp_i_square by algebra
  qed
qed

text \<open>Two points with the same y, and the one with the wanted parity.\<close>

lemma enc_eq:
  assumes "0 \<le> n" and "n < 2 ^ 256"
  shows "enc A = n \<longleftrightarrow> py A = of_int (n mod 2 ^ 255) \<and> n mod 2 ^ 255 < p25519 \<and> Rep_fp (px A) mod 2 = n div 2 ^ 255"
proof
  assume e: "enc A = n"
  have "Rep_fp (py A) = n mod 2 ^ 255" "Rep_fp (px A) mod 2 = n div 2 ^ 255" using enc_parts [of A] by (simp_all only: e)
  then show "py A = of_int (n mod 2 ^ 255) \<and> n mod 2 ^ 255 < p25519 \<and> Rep_fp (px A) mod 2 = n div 2 ^ 255"
    using Rep_fp_bounds [of "py A"] by (metis of_int_Rep_fp)
next
  assume a: "py A = of_int (n mod 2 ^ 255) \<and> n mod 2 ^ 255 < p25519 \<and> Rep_fp (px A) mod 2 = n div 2 ^ 255"
  then have "Rep_fp (py A) = n mod 2 ^ 255" by (simp add: Rep_fp_of_int)
  then have "enc A = n mod 2 ^ 255 + 2 ^ 255 * (n div 2 ^ 255)" using a by (simp only: enc_def)
  also have "\<dots> = n" by (rule mod_mult_div_eq)
  finally show "enc A = n" .
qed

lemma decode_candidate:
  assumes n: "0 \<le> n" "n < 2 ^ 256"
  defines "y \<equiv> n mod 2 ^ 255" and "s \<equiv> n div 2 ^ 255"
  defines "u \<equiv> y ^ 2 - 1" and "v \<equiv> ed_d * y ^ 2 + 1"
  defines "x \<equiv> ep_sqrt_ratio u v"
  defines "x' \<equiv> if x mod 2 = s then - x mod p25519 else x"
  assumes y: "y < p25519"
  shows "v * x ^ 2 mod p25519 \<noteq> u mod p25519 \<Longrightarrow> enc A \<noteq> n"
    and "v * x ^ 2 mod p25519 = u mod p25519 \<Longrightarrow> ep_of (x', y, 1, x' * y mod p25519) (point (of_int x') (of_int y))"
    and "v * x ^ 2 mod p25519 = u mod p25519 \<Longrightarrow>
      enc (- point (of_int x') (of_int y)) = n \<or> smul 8 (point (of_int x') (of_int y)) = 0 \<and> (enc A = n \<longrightarrow> smul 8 A = 0)"
proof -
  define X Y :: fp where "X = of_int x" and "Y = of_int y"
  have uv: "(of_int u :: fp) = Y * Y - 1" "(of_int v :: fp) = 1 + fp_d * (Y * Y)"
    by (simp_all add: u_def v_def Y_def fp_d_def power2_eq_square)
  have v0: "(of_int v :: fp) \<noteq> 0" unfolding uv by (rule denominator_nz)
  have chk: "v * x ^ 2 mod p25519 = u mod p25519 \<longleftrightarrow> on_curve X Y"
    unfolding of_int_fp_eq [symmetric] on_curve_x by (simp add: uv power2_eq_square X_def)
  have root: "on_curve X Y" if "on_curve r Y" for r
    using sqrt_ratio [OF _ v0, of r u] that unfolding on_curve_x uv X_def x_def .
  have e: "on_curve (px A) Y" if "enc A = n"
  proof -
    have "py A = Y" using that by (simp only: enc_eq [OF n] Y_def y_def)
    then show ?thesis using curve_coords [of A] by simp
  qed
  show "enc A \<noteq> n" if "v * x ^ 2 mod p25519 \<noteq> u mod p25519"
    using that root e unfolding chk by blast
  assume "v * x ^ 2 mod p25519 = u mod p25519"
  then have c: "on_curve X Y" by (simp only: chk)
  have X': "(of_int x' :: fp) = (if x mod 2 = s then - X else X)" by (simp add: x'_def X_def)
  have c': "on_curve (of_int x') Y" using c unfolding X' by (simp add: on_curve_def)
  then show "ep_of (x', y, 1, x' * y mod p25519) (point (of_int x') (of_int y))"
    by (simp add: ep_of_def Y_def)
  have x: "Rep_fp X = x"
    unfolding X_def x_def ep_sqrt_ratio_def Let_def by (rule Rep_fp_of_int) (simp_all add: p25519_less)
  have s: "s = 0 \<or> s = 1" using n by (auto simp: s_def)
  show "enc (- point (of_int x') (of_int y)) = n \<or> smul 8 (point (of_int x') (of_int y)) = 0 \<and> (enc A = n \<longrightarrow> smul 8 A = 0)"
  proof (cases "X = 0")
    case True
    have "px A = 0" if "enc A = n"
      using same_y [OF c e [OF that]] True by auto
    moreover have "px (point (of_int x') (of_int y)) = 0" using c' True unfolding Y_def by (simp add: X')
    ultimately show ?thesis using x_zero_order by blast
  next
    case False
    have "Rep_fp (- of_int x') mod 2 = s"
      using parity_minus [OF False] s unfolding X' by (auto simp: x split: if_splits)
    then have "enc (- point (of_int x') (of_int y)) = n"
      unfolding enc_eq [OF n, folded y_def s_def] using c' y unfolding Y_def by simp
    then show ?thesis ..
  qed
qed

lemma ep_of_decode:
  assumes n: "0 \<le> n" "n < 2 ^ 256"
  shows "case ep_decode_neg n of
      None \<Rightarrow> \<not> (\<exists>A. enc A = n \<and> smul 8 A \<noteq> 0)
    | Some Q \<Rightarrow> (\<exists>A. enc A = n \<and> smul 8 A \<noteq> 0 \<and> ep_of Q (- A))"
proof -
  define y s where "y = n mod 2 ^ 255" and "s = n div 2 ^ 255"
  define u v where "u = y ^ 2 - 1" and "v = ed_d * y ^ 2 + 1"
  define x where "x = ep_sqrt_ratio u v"
  define x' where "x' = (if x mod 2 = s then - x mod p25519 else x)"
  let ?P = "(x', y, 1, x' * y mod p25519)" and ?C = "point (of_int x') (of_int y)"
  have dec: "ep_decode_neg n = (if p25519 \<le> y then None else if v * x ^ 2 mod p25519 \<noteq> u mod p25519 then None
      else if ep_low_order ?P then None else Some ?P)"
    unfolding ep_decode_neg_def Let_def x'_def x_def u_def v_def y_def s_def ..
  note cand = decode_candidate [OF n, folded y_def s_def, folded u_def v_def, folded x_def, folded x'_def]
  show ?thesis
  proof (cases "p25519 \<le> y \<or> v * x ^ 2 mod p25519 \<noteq> u mod p25519")
    case True
    moreover have "enc A \<noteq> n" if "p25519 \<le> y" for A using that by (simp only: enc_eq [OF n] y_def) linarith
    ultimately show ?thesis using cand(1) by (auto simp: dec)
  next
    case False
    then have y: "y < p25519" and sq: "v * x ^ 2 mod p25519 = u mod p25519" by simp_all
    have P: "ep_of ?P ?C" by (rule cand(2) [OF y sq])
    have low: "ep_low_order ?P \<longleftrightarrow> smul 8 ?C = 0" by (rule ep_of_low_order [OF P])
    have e: "enc (- ?C) = n \<or> smul 8 ?C = 0 \<and> (\<forall>A. enc A = n \<longrightarrow> smul 8 A = 0)"
      using cand(3) [OF y sq] by blast
    show ?thesis
    proof (cases "smul 8 ?C = 0")
      case True
      have "smul 8 A = 0" if a: "enc A = n" for A
      proof (cases "enc (- ?C) = n")
        case c: True
        have "A = - ?C" unfolding enc_inject [symmetric] a c ..
        then show ?thesis by (simp add: smul_minus True)
      next
        case False
        then show ?thesis using e a by blast
      qed
      then show ?thesis using False True low by (auto simp: dec)
    next
      case False
      then have "enc (- ?C) = n" "smul 8 (- ?C) \<noteq> 0" using e by (simp_all add: smul_minus)
      then show ?thesis using y sq low False P by (auto simp: dec intro!: exI [of _ "- ?C"])
    qed
  qed
qed

section \<open>The verification equation\<close>

definition eddsa_accepts :: "int \<Rightarrow> int \<Rightarrow> int \<Rightarrow> int \<Rightarrow> bool" where
  "eddsa_accepts R S K h \<longleftrightarrow>
     S < ed_order \<and>
     (\<exists>A. enc A = K \<and> smul 8 A \<noteq> 0 \<and> enc (smul (nat S) base_point - smul (nat h) A) = R)"

lemma ed_accepts_eddsa:
  assumes "0 \<le> S" and "0 \<le> K" and "K < 2 ^ 256" and "0 \<le> h" and "h < ed_order"
  shows "ed_accepts R S K h \<longleftrightarrow> eddsa_accepts R S K h"
proof (cases "S < ed_order")
  case True
  have o: "ed_order < 2 ^ 256" by (simp add: ed_order_def)
  have eq: "ep_encode (ep_add (ep_mult h Q) (ep_mult S ep_base)) = enc (smul (nat S) base_point - smul (nat h) A)"
    if "ep_of Q (- A)" for Q A
  proof -
    have "ep_of (ep_add (ep_mult h Q) (ep_mult S ep_base)) (smul (nat h) (- A) + smul (nat S) base_point)"
      by (intro ep_of_add ep_of_mult that ep_of_base) (use assms True o in simp_all)
    from ep_of_encode [OF this] show ?thesis by (simp add: smul_minus add.commute)
  qed
  show ?thesis
    using ep_of_decode [OF assms(2,3)] True eq
    by (auto simp: ed_accepts_def eddsa_accepts_def enc_inject split: option.splits)
next
  case False
  then show ?thesis by (simp add: ed_accepts_def eddsa_accepts_def)
qed

lemma verify_eddsa:
  assumes "length sg = 64" and "length key = 32" and "msg = None \<longrightarrow> n = 0" and "length (msg_bytes msg n) < 2 ^ 64 - 64"
  shows "vl_ed25519_verify (Some sg) msg n (Some key) =
    (if eddsa_accepts (le_val (take 32 sg)) (le_val (drop 32 sg)) (le_val key)
        (le_val (fips512 (take 32 sg @ key @ msg_bytes msg n)) mod ed_order) then 1 else 0)"
proof -
  have "le_val key < 2 ^ 256" using le_val_bounds [of key] assms(2) by simp
  moreover have "0 \<le> h mod ed_order" "h mod ed_order < ed_order" for h by (simp_all add: ed_order_def)
  ultimately show ?thesis using ed_accepts_eddsa le_val_bounds verify_refines [OF assms] by simp
qed

section \<open>Properties\<close>

text \<open>The limbs of a point of the curve.\<close>

definition limbs_of :: "point \<Rightarrow> curve \<Rightarrow> bool" where
  "limbs_of p A \<longleftrightarrow> (\<exists>P. prepr p P \<and> ep_of P A)"

lemma unpackneg_points:
  assumes "length key = 32"
  shows "case unpackneg key of
      None \<Rightarrow> \<not> (\<exists>C. enc C = le_val key \<and> smul 8 C \<noteq> 0)
    | Some r \<Rightarrow> \<exists>C. enc C = le_val key \<and> smul 8 C \<noteq> 0 \<and> limbs_of r (- C)"
proof -
  have "0 \<le> le_val key" "le_val key < 2 ^ 256" using le_val_bounds [of key] assms by simp_all
  note d = ep_of_decode [OF this] and r = unpackneg_spec [OF assms]
  show ?thesis
  proof (cases "unpackneg key")
    case None
    then have "ep_decode_neg (le_val key) = None" using r by simp
    then show ?thesis using d None by simp
  next
    case (Some q)
    then obtain Q where Q: "ep_decode_neg (le_val key) = Some Q" "prepr q Q" using r by (auto simp: option_rel_Some1)
    then obtain A where A: "enc A = le_val key" "smul 8 A \<noteq> 0" "ep_of Q (- A)" using d by auto
    have "limbs_of q (- A)" unfolding limbs_of_def using Q(2) A(3) by blast
    then show ?thesis using A Some by auto
  qed
qed

text \<open>C7. The point programs compute in the group of the curve, whose addition is complete and
  associative because p is prime and d is not a square modulo it: on limbs of points A and B, \<open>ed_add\<close>
  gives limbs of A + B, \<open>scalarmult\<close> and \<open>scalarbase\<close> limbs of the multiple by the number the 32 scalar
  bytes write, \<open>ed_pack\<close> the 32 bytes that encode the point, which no other point has, and \<open>unpackneg\<close>
  finds, for the 32 bytes of a key, limbs of the negative of the point they encode if there is one and
  its order does not divide 8, and otherwise nothing.\<close>

theorem point_programs_in_group:
  assumes "limbs_of p A" and "limbs_of q B" and "length s = 32" and "length key = 32"
  shows "limbs_of (ed_add p q) (A + B) \<and>
    limbs_of (fst (scalarmult q s)) (smul (nat (le_val s)) B) \<and>
    limbs_of (scalarbase s) (smul (nat (le_val s)) base_point) \<and>
    length (ed_pack p) = 32 \<and> le_val (ed_pack p) = enc A \<and> (\<forall>C. enc C = le_val (ed_pack p) \<longrightarrow> C = A) \<and>
    (case unpackneg key of
       None \<Rightarrow> \<not> (\<exists>C. enc C = le_val key \<and> smul 8 C \<noteq> 0)
     | Some r \<Rightarrow> \<exists>C. enc C = le_val key \<and> smul 8 C \<noteq> 0 \<and> limbs_of r (- C))"
proof -
  obtain P Q where P: "prepr p P" "ep_of P A" and Q: "prepr q Q" "ep_of Q B" using assms(1,2) by (auto simp: limbs_of_def)
  have n: "0 \<le> le_val s" "le_val s < 2 ^ 256" using le_val_bounds [of s] assms(3) by simp_all
  have l: "32 \<le> length s" using assms(3) by simp
  have "limbs_of (ed_add p q) (A + B)"
    using prepr_add [OF P(1) Q(1)] ep_of_add [OF P(2) Q(2)] unfolding limbs_of_def by blast
  moreover have "limbs_of (fst (scalarmult q s)) (smul (nat (le_val s)) B)"
    using prepr_scalarmult [OF Q(1) l] ep_of_mult [OF Q(2) n] unfolding limbs_of_def by blast
  moreover have "limbs_of (scalarbase s) (smul (nat (le_val s)) base_point)"
    using prepr_scalarbase [OF l] ep_of_mult [OF ep_of_base n] unfolding limbs_of_def by blast
  moreover have "case unpackneg key of
       None \<Rightarrow> \<not> (\<exists>C. enc C = le_val key \<and> smul 8 C \<noteq> 0)
     | Some r \<Rightarrow> \<exists>C. enc C = le_val key \<and> smul 8 C \<noteq> 0 \<and> limbs_of r (- C)"
    by (rule unpackneg_points [OF assms(4)])
  ultimately show ?thesis
    using ed_pack_spec [OF P(1)] ep_of_encode [OF P(2)] by (simp add: enc_inject)
qed

text \<open>The base point the code has.\<close>

lemma limbs_of_base: "limbs_of (gf_X, gf_Y, gf1, fM gf_X gf_Y) base_point"
  using prepr_base ep_of_base unfolding limbs_of_def by blast

lemma point_programs_in_group_witness:
  "limbs_of (ed_add (gf_X, gf_Y, gf1, fM gf_X gf_Y) (gf_X, gf_Y, gf1, fM gf_X gf_Y)) (base_point + base_point)"
  using point_programs_in_group [OF limbs_of_base limbs_of_base, of "replicate 32 0" "replicate 32 0"] by simp

text \<open>C6. The signature check decides the verification equation of RFC 8032, 5.1.7, in the group of the
  curve: for every signature, key and message shorter than 2^64 - 64 bytes, it returns 1 exactly if S is
  below the group order and the key is the encoding of a point A of the curve, not of small order, such
  that the encoding of [S]B - [h]A is R, where h is the SHA-512 of R, the key and the message modulo
  that order, and it returns 0 in every other case.\<close>

theorem ed25519_verify_decides:
  assumes "length sg = 64" and "length key = 32" and "msg = None \<longrightarrow> n = 0" and "length (msg_bytes msg n) < 2 ^ 64 - 64"
  shows "vl_ed25519_verify (Some sg) msg n (Some key) =
    (if eddsa_accepts (le_val (take 32 sg)) (le_val (drop 32 sg)) (le_val key)
        (le_val (fips512 (take 32 sg @ key @ msg_bytes msg n)) mod ed_order) then 1 else 0)"
  by (rule verify_eddsa [OF assms])

text \<open>The all-zero key, whose y is 0, has order four: nothing verifies under it.\<close>

lemma y_zero_order:
  assumes "py A = 0"
  shows "smul 8 A = 0"
proof -
  have "px (A + A) = 0" by (simp add: plus_coords add_x_def assms)
  then have "A + A + (A + A) = 0" by (rule x_zero_double)
  then show ?thesis by (simp add: smul_8)
qed

lemma zero_key_rejected: "\<not> eddsa_accepts R S 0 h"
proof -
  have "smul 8 A = 0" if "enc A = 0" for A
  proof (rule y_zero_order)
    show "py A = 0" using enc_eq [of 0 A] that by simp
  qed
  then show ?thesis by (auto simp: eddsa_accepts_def)
qed

lemma ed25519_verify_decides_witness:
  "vl_ed25519_verify (Some (replicate 64 0)) (Some [1, 2, 3]) 3 (Some (replicate 32 0)) = 0"
proof -
  have "le_val (replicate n 0) = 0" for n by (induction n) simp_all
  then show ?thesis by (subst ed25519_verify_decides) (simp_all add: msg_bytes_def zero_key_rejected)
qed

end
