(* ===== verification/VL_Field_Bounds.thy ===== *)
theory VL_Field_Bounds
  imports VL_Field_Correct "HOL-Library.Monad_Syntax"
begin

text \<open>
  The limbs of \<open>VL_Field\<close> are integers where the code has \<^verbatim>\<open>i64\<close>, whose
  overflow is undefined. Here the carry and the product are evaluated a second time with every
  sum, difference and product of the C expressions checked: \<open>None\<close> is an overflow
  somewhere on the way. On operands within the bound of the group formulas the checked
  versions return what the unchecked ones compute.
\<close>

definition i64_chk :: "int \<Rightarrow> int option" where
  "i64_chk v = (if - (2 ^ 63) \<le> v \<and> v < 2 ^ 63 then Some v else None)"

lemma i64_chk_Some [simp]: "\<bar>v\<bar> < 2 ^ 63 \<Longrightarrow> i64_chk v = Some v"
  by (auto simp: i64_chk_def)

text \<open>A checked loop: the first overflow ends it.\<close>

definition foldc :: "('a \<Rightarrow> 'b \<Rightarrow> 'b option) \<Rightarrow> 'a list \<Rightarrow> 'b \<Rightarrow> 'b option" where
  "foldc f xs s = fold (\<lambda>x so. so \<bind> f x) xs (Some s)"

lemma foldc_upt:
  assumes "P m s" and "\<And>k s. m \<le> k \<Longrightarrow> k < n \<Longrightarrow> P k s \<Longrightarrow> f k s = Some (g k s) \<and> P (Suc k) (g k s)" and "m \<le> n"
  shows "foldc f [m..<n] s = Some (fold g [m..<n] s) \<and> P n (fold g [m..<n] s)"
proof -
  have "m + d \<le> n \<Longrightarrow> foldc f [m..<m + d] s = Some (fold g [m..<m + d] s) \<and> P (m + d) (fold g [m..<m + d] s)" for d
  proof (induction d)
    case 0
    then show ?case using assms(1) by (simp add: foldc_def)
  next
    case (Suc d)
    then have ih: "foldc f [m..<m + d] s = Some (fold g [m..<m + d] s)" "P (m + d) (fold g [m..<m + d] s)" by simp_all
    from assms(2) [OF _ _ ih(2)] Suc.prems ih(1) show ?case by (simp add: foldc_def)
  qed
  from this [of "n - m"] assms(3) show ?thesis by simp
qed

section \<open>Checked carry and product\<close>

definition car_step_chk :: "nat \<Rightarrow> gf \<Rightarrow> gf option" where
  "car_step_chk i o1 =
     do { v \<leftarrow> i64_chk (o1 ! i + 65536);
          let o2 = o1[i := v];
          let c = v div 65536;
          d \<leftarrow> i64_chk (c - 1);
          e \<leftarrow> i64_chk (37 * d);
          f \<leftarrow> i64_chk (d + (if i = 15 then e else 0));
          let k = (if i < 15 then i + 1 else 0);
          u \<leftarrow> i64_chk (o2 ! k + f);
          let o3 = o2[k := u];
          w \<leftarrow> i64_chk (c * 65536);
          r \<leftarrow> i64_chk (o3 ! i - w);
          Some (o3[i := r]) }"

definition car25519_chk :: "gf \<Rightarrow> gf option" where
  "car25519_chk a = foldc car_step_chk [0..<16] a"

definition mul_row_chk :: "gf \<Rightarrow> gf \<Rightarrow> nat \<Rightarrow> gf \<Rightarrow> gf option" where
  "mul_row_chk a b i t =
     foldc (\<lambda>j t. do { m \<leftarrow> i64_chk (a ! i * b ! j); s \<leftarrow> i64_chk (t ! (i + j) + m); Some (t[i + j := s]) }) [0..<16] t"

definition fM_chk :: "gf \<Rightarrow> gf \<Rightarrow> gf option" where
  "fM_chk a b =
     do { t1 \<leftarrow> foldc (mul_row_chk a b) [0..<16] (replicate 31 0);
          t2 \<leftarrow> foldc (\<lambda>i t. do { m \<leftarrow> i64_chk (38 * t ! (i + 16)); s \<leftarrow> i64_chk (t ! i + m); Some (t[i := s]) }) [0..<15] t1;
          c \<leftarrow> car25519_chk (map (\<lambda>i. t2 ! i) [0..<16]);
          car25519_chk c }"

section \<open>No overflow\<close>

definition car_inv :: "nat \<Rightarrow> gf \<Rightarrow> bool" where
  "car_inv i a \<longleftrightarrow> length a = 16 \<and>
     (\<forall>k < 16. \<bar>a ! k\<bar> \<le> 2 ^ 62 + (if k = i then 2 ^ 47 else 0))"

lemma div_65536_bound: "\<bar>v\<bar> \<le> 65536 * b \<Longrightarrow> \<bar>v div 65536\<bar> \<le> (b :: int)"
  by linarith

lemma car_step_chk_ok:
  assumes inv: "car_inv i a" and i: "i < 16"
  shows "car_step_chk i a = Some (car_step i a) \<and> (i < 15 \<longrightarrow> car_inv (Suc i) (car_step i a))"
proof -
  define k where "k = (if i < 15 then i + 1 else 0)"
  define v c where "v = a ! i + 65536" and "c = v div 65536"
  have len: "length a = 16" and k: "k < 16" "k \<noteq> i" using inv i by (auto simp: car_inv_def k_def)
  have ai: "\<bar>a ! i\<bar> \<le> 2 ^ 62 + 2 ^ 47" and ak: "\<bar>a ! k\<bar> \<le> 2 ^ 62" using inv i k by (auto simp: car_inv_def)
  have v: "\<bar>v\<bar> \<le> 65536 * (2 ^ 46 + 2 ^ 31 + 1)" using ai by (simp add: v_def)
  have c: "\<bar>c\<bar> \<le> 2 ^ 46 + 2 ^ 31 + 1" unfolding c_def by (rule div_65536_bound [OF v])
  have r: "\<bar>v - c * 65536\<bar> < 65536" by (simp add: c_def minus_div_mult_eq_mod)
  define f where "f = c - 1 + (if i = 15 then 37 * (c - 1) else 0)"
  have f: "\<bar>f\<bar> \<le> 38 * (2 ^ 46 + 2 ^ 31 + 2)" "i < 15 \<Longrightarrow> \<bar>f\<bar> \<le> 2 ^ 47" using c by (auto simp: f_def)
  have u: "\<bar>a ! k + f\<bar> < 2 ^ 63" using ak f(1) abs_triangle_ineq [of "a ! k" f] by simp
  have chks: "i64_chk (a ! i + 65536) = Some v" "i64_chk (c - 1) = Some (c - 1)" "i64_chk (37 * (c - 1)) = Some (37 * (c - 1))"
    "i64_chk f = Some f" "i64_chk (a ! k + f) = Some (a ! k + f)" "i64_chk (c * 65536) = Some (c * 65536)"
    "i64_chk (v - c * 65536) = Some (v - c * 65536)"
    using v c f(1) u r by (simp_all add: v_def)
  have step: "car_step i a = a[i := v, k := a ! k + f, i := v - c * 65536]"
    unfolding car_step_def Let_def k_def [symmetric] v_def [symmetric]
    using len i k by (simp add: c_def f_def)
  have "car_step_chk i a = Some (car_step i a)"
    unfolding step car_step_chk_def Let_def k_def [symmetric]
    using len i k by (simp add: chks c_def [symmetric] f_def [symmetric] del: right_diff_distrib_numeral)
  moreover have "car_inv (Suc i) (car_step i a)" if "i < 15"
    unfolding car_inv_def step
  proof (intro conjI allI impI)
    fix j :: nat assume j: "j < 16"
    have "\<bar>a ! j\<bar> \<le> 2 ^ 62 + (if j = i then 2 ^ 47 else 0)" using inv j by (simp add: car_inv_def)
    then show "\<bar>a[i := v, k := a ! k + f, i := v - c * 65536] ! j\<bar> \<le> 2 ^ 62 + (if j = Suc i then 2 ^ 47 else 0)"
      using len i k r ak f(2) [OF that] that by (auto simp: nth_list_update k_def)
  qed (simp add: len)
  ultimately show ?thesis by blast
qed

lemma car_chk_ok:
  assumes "length a = 16" and "limbs_in (- (2 ^ 62)) (2 ^ 62) a"
  shows "car25519_chk a = Some (car25519 a)"
proof -
  have "car_inv 0 a" using assms by (force simp: car_inv_def limbs_in_nth abs_le_iff)
  then have f: "foldc car_step_chk [0..<15] a = Some (fold car_step [0..<15] a) \<and> car_inv 15 (fold car_step [0..<15] a)"
    by (rule foldc_upt) (simp_all add: car_step_chk_ok)
  have "foldc car_step_chk [0..<16] a = foldc car_step_chk [0..<15] a \<bind> car_step_chk 15"
    by (simp add: foldc_def upt_rec [of 0 16] eval_nat_numeral)
  also have "\<dots> = Some (fold car_step [0..<16] a)"
    using f car_step_chk_ok [of 15] by (simp add: eval_nat_numeral)
  finally show ?thesis by (simp add: car25519_chk_def car25519_def)
qed

text \<open>The product: after \<open>i\<close> rows every cell is a sum of at most \<open>i\<close> products of limbs.\<close>

definition row_bound :: "nat \<Rightarrow> int list \<Rightarrow> bool" where
  "row_bound i t \<longleftrightarrow> length t = 31 \<and> (\<forall>k < 31. \<bar>t ! k\<bar> \<le> int i * 2 ^ 36)"

lemma limb_product:
  assumes "gf_ok a" and "gf_ok b" and "i < 16" and "j < 16"
  shows "\<bar>a ! i * b ! j\<bar> \<le> 2 ^ 36"
proof -
  have "\<bar>a ! i\<bar> \<le> 262144" "\<bar>b ! j\<bar> \<le> 262144"
    using assms by (simp_all add: gf_ok_def limbs_in_nth abs_le_iff minus_le_iff)
  then have "\<bar>a ! i\<bar> * \<bar>b ! j\<bar> \<le> 262144 * 262144" by (intro mult_mono) simp_all
  then show ?thesis by (simp add: abs_mult)
qed

lemma mul_row_chk_ok:
  assumes ab: "gf_ok a" "gf_ok b" and i: "i < 16" and t: "row_bound i t"
  shows "mul_row_chk a b i t = Some (mul_row a b i t) \<and> row_bound (Suc i) (mul_row a b i t)"
proof -
  let ?f = "\<lambda>j t. do { m \<leftarrow> i64_chk (a ! i * b ! j); s \<leftarrow> i64_chk (t ! (i + j) + m); Some (t[i + j := s]) }"
  let ?g = "\<lambda>j t. t[i + j := t ! (i + j) + a ! i * b ! j]"
  define P where "P j t = (length t = 31 \<and>
    (\<forall>k < 31. \<bar>t ! k\<bar> \<le> int i * 2 ^ 36 + (if i \<le> k \<and> k < i + j then 2 ^ 36 else 0)))" for j and t :: "int list"
  have "P 0 t" using t by (auto simp: P_def row_bound_def)
  then have "foldc ?f [0..<16] t = Some (fold ?g [0..<16] t) \<and> P 16 (fold ?g [0..<16] t)"
  proof (rule foldc_upt)
    fix j s assume j: "j < 16" and p: "P j s"
    have m: "\<bar>a ! i * b ! j\<bar> \<le> 2 ^ 36" by (rule limb_product [OF ab i j])
    have pk: "k < 31 \<Longrightarrow> \<bar>s ! k\<bar> \<le> int i * 2 ^ 36 + (if i \<le> k \<and> k < i + j then 2 ^ 36 else 0)" for k
      using p unfolding P_def by blast
    have sb: "\<bar>s ! (i + j)\<bar> \<le> int i * 2 ^ 36" using pk [of "i + j"] i j by simp
    have s: "\<bar>s ! (i + j) + a ! i * b ! j\<bar> \<le> int i * 2 ^ 36 + 2 ^ 36"
      using abs_triangle_ineq [of "s ! (i + j)" "a ! i * b ! j"] m sb by linarith
    have "int i * 2 ^ 36 + 2 ^ 36 \<le> 2 ^ 40" using i by simp
    then have "i64_chk (a ! i * b ! j) = Some (a ! i * b ! j)"
      "i64_chk (s ! (i + j) + a ! i * b ! j) = Some (s ! (i + j) + a ! i * b ! j)"
      using m s by simp_all
    moreover have "P (Suc j) (?g j s)"
      unfolding P_def
    proof (intro conjI allI impI)
      fix k :: nat assume k: "k < 31"
      show "\<bar>?g j s ! k\<bar> \<le> int i * 2 ^ 36 + (if i \<le> k \<and> k < i + Suc j then 2 ^ 36 else 0)"
        using pk [OF k] s k p by (cases "k = i + j") (auto simp: P_def)
    qed (use p in \<open>simp add: P_def\<close>)
    ultimately show "?f j s = Some (?g j s) \<and> P (Suc j) (?g j s)" by simp
  qed simp
  moreover have "row_bound (Suc i) t'" if "P 16 t'" for t'
    unfolding row_bound_def
  proof (intro conjI allI impI)
    fix k :: nat assume "k < 31"
    then have "\<bar>t' ! k\<bar> \<le> int i * 2 ^ 36 + (if i \<le> k \<and> k < i + 16 then 2 ^ 36 else 0)" using that by (simp add: P_def)
    then show "\<bar>t' ! k\<bar> \<le> int (Suc i) * 2 ^ 36" by (simp split: if_splits)
  qed (use that in \<open>simp add: P_def\<close>)
  ultimately show ?thesis by (simp add: mul_row_chk_def mul_row_def)
qed

lemma fM_chk_ok:
  assumes "gf_ok a" and "gf_ok b"
  shows "fM_chk a b = Some (fM a b)"
proof -
  let ?f = "\<lambda>i t. do { m \<leftarrow> i64_chk (38 * t ! (i + 16)); s \<leftarrow> i64_chk (t ! i + m); Some (t[i := s]) }"
  let ?g = "\<lambda>i t. t[i := t ! i + 38 * t ! (i + 16)]"
  have "row_bound 0 (replicate 31 0)" by (simp add: row_bound_def)
  then have r: "foldc (mul_row_chk a b) [0..<16] (replicate 31 0) = Some (rows a b 16) \<and> row_bound 16 (rows a b 16)"
    unfolding rows_def by (rule foldc_upt) (simp_all add: mul_row_chk_ok [OF assms])
  define P where "P i t = (length t = 31 \<and> (\<forall>k < 31. \<bar>t ! k\<bar> \<le> (if k < i then 39 * 2 ^ 41 else 2 ^ 41)))" for i and t :: "int list"
  have "\<bar>rows a b 16 ! k\<bar> \<le> 2 ^ 41" if "k < 31" for k
    using r that by (force simp: row_bound_def split: if_splits)
  then have "P 0 (rows a b 16)" using r by (simp add: P_def row_bound_def)
  then have f: "foldc ?f [0..<15] (rows a b 16) = Some (fold ?g [0..<15] (rows a b 16)) \<and> P 15 (fold ?g [0..<15] (rows a b 16))"
  proof (rule foldc_upt)
    fix i s assume i: "i < 15" and p: "P i s"
    have pk: "k < 31 \<Longrightarrow> \<bar>s ! k\<bar> \<le> (if k < i then 39 * 2 ^ 41 else 2 ^ 41)" for k
      using p unfolding P_def by blast
    have hi: "\<bar>s ! (i + 16)\<bar> \<le> 2 ^ 41" and lo: "\<bar>s ! i\<bar> \<le> 2 ^ 41" using pk [of i] pk [of "i + 16"] i by simp_all
    then have s: "\<bar>s ! i + 38 * s ! (i + 16)\<bar> \<le> 39 * 2 ^ 41"
      using abs_triangle_ineq [of "s ! i" "38 * s ! (i + 16)"] by (simp add: abs_mult)
    then have "i64_chk (38 * s ! (i + 16)) = Some (38 * s ! (i + 16))"
      "i64_chk (s ! i + 38 * s ! (i + 16)) = Some (s ! i + 38 * s ! (i + 16))"
      using hi by (simp_all add: abs_mult)
    moreover have "P (Suc i) (?g i s)"
      unfolding P_def
    proof (intro conjI allI impI)
      fix k :: nat assume k: "k < 31"
      show "\<bar>?g i s ! k\<bar> \<le> (if k < Suc i then 39 * 2 ^ 41 else 2 ^ 41)"
        using pk [OF k] s k p by (cases "k = i") (auto simp: P_def)
    qed (use p in \<open>simp add: P_def\<close>)
    ultimately show "?f i s = Some (?g i s) \<and> P (Suc i) (?g i s)" by simp
  qed simp
  have c1: "car25519_chk (folded (rows a b 16)) = Some (car25519 (folded (rows a b 16)))"
    by (rule car_chk_ok [OF fM_limbs [OF assms]])
  have c2: "car25519_chk (car25519 (folded (rows a b 16))) = Some (car25519 (car25519 (folded (rows a b 16))))"
  proof (rule car_chk_ok)
    let ?c = "car25519 (folded (rows a b 16))"
    note f = fM_limbs [OF assms]
    have q: "- (2 ^ 47) \<le> gval (folded (rows a b 16)) div 2 ^ 256" "gval (folded (rows a b 16)) div 2 ^ 256 \<le> 2 ^ 47"
      using car_div_bounds [OF f, of "2 ^ 47"] by simp_all
    obtain x xs where xs: "?c = x # xs" using f(1) by (cases ?c) (auto dest: arg_cong [where f = length])
    have "- (2 ^ 62) \<le> x" "x \<le> 2 ^ 62" "limbs_in 0 65535 xs"
      using car25519_gval(3,4) [OF f(1)] q unfolding xs by simp_all
    then show "limbs_in (- (2 ^ 62)) (2 ^ 62) ?c"
      unfolding xs using limbs_in_weaken [of 0 65535 xs "- (2 ^ 62)" "2 ^ 62"] by simp
  qed (simp add: fM_limbs(1) [OF assms])
  show ?thesis
    unfolding fM_unfold using r f c1 c2 by (simp add: fM_chk_def folded_def)
qed

section \<open>Properties\<close>

text \<open>C14. The field product is exact and within its machine type: for operands whose limbs are
  within 2^18 of zero, the bound that sums and differences of earlier results keep, no sum, difference
  or product of the C expressions leaves the 64-bit range, the value is the product modulo
  2^255 - 19, and the limbs come back below 2^16 + 38.\<close>

theorem field_product_exact:
  assumes "gf_ok a" and "gf_ok b"
  shows "fM_chk a b = Some (fM a b) \<and> gval (fM a b) mod p25519 = gval a * gval b mod p25519 \<and> gf_red (fM a b)"
  using fM_chk_ok [OF assms] fM_gval [OF assms] by blast

lemma field_product_exact_witness:
  "fM_chk (replicate 16 262144) (replicate 16 (- 262144)) = Some (fM (replicate 16 262144) (replicate 16 (- 262144)))"
  using field_product_exact [of "replicate 16 262144" "replicate 16 (- 262144)"]
  by (simp add: gf_ok_def limbs_in_def)

text \<open>Packing and unpacking are inverse on the canonical encodings: 32 bytes below the prime
  are unpacked and packed to themselves, and what a limb list packs to unpacks to the same residue,
  however far from reduced its limbs were.\<close>

theorem field_encoding_roundtrip:
  assumes "length n = 32" and "le_val n < p25519" and "gf_ok a"
  shows "pack25519 (unpack25519 n) = n \<and> gval (unpack25519 (pack25519 a)) = gval a mod p25519"
proof
  have p: "p25519 < 2 ^ 255" "0 < p25519" by (simp_all add: p25519_def)
  have n: "le_val n mod 2 ^ 255 = le_val n" "le_val n mod p25519 = le_val n"
    using le_val_bounds [of n] assms(2) p by simp_all
  have ok: "gf_ok (unpack25519 n)" using unpack25519_spec(2) [OF assms(1)] gf_red_ok by blast
  show "pack25519 (unpack25519 n) = n"
    by (rule le_val_inj)
      (use pack25519_spec [OF ok] unpack25519_spec(1) [OF assms(1)] n assms(1) in simp_all)
  have "gval a mod p25519 < 2 ^ 255" using less_trans [OF pos_mod_bound [OF p(2)] p(1)] .
  then show "gval (unpack25519 (pack25519 a)) = gval a mod p25519"
    using unpack25519_spec(1) [OF pack25519_spec(2) [OF assms(3)]] pack25519_spec(1) [OF assms(3)] p(2) by simp
qed

lemma field_encoding_roundtrip_witness:
  "pack25519 (unpack25519 (9 # replicate 31 0)) = 9 # replicate 31 0 \<and>
   gval (unpack25519 (pack25519 (replicate 16 (- 1)))) = gval (replicate 16 (- 1)) mod p25519"
proof -
  have "le_val (replicate n 0) = 0" for n by (induction n) simp_all
  then have v: "le_val (9 # replicate 31 0) = 9" by simp
  show ?thesis
    by (rule field_encoding_roundtrip) (simp_all only: v, simp_all add: p25519_def gf_ok_def limbs_in_def)
qed

end
