(* ===== verification/VL_Calls.thy ===== *)
theory VL_Calls
  imports VL_Core
begin

text \<open>
  How often \<open>vl_verify\<close> calls the platform. \<open>counted\<close> is a HAL with a counter beside the
  platform state that every call moves up.
\<close>

definition counted_id :: "(u32 \<Rightarrow> bytes \<Rightarrow> 's \<Rightarrow> vl_status \<times> bytes \<times> nat \<times> 's) \<Rightarrow>
    u32 \<Rightarrow> bytes \<Rightarrow> 's \<times> nat \<Rightarrow> vl_status \<times> bytes \<times> nat \<times> 's \<times> nat" where
  "counted_id f i b = (\<lambda>(s, k). case f i b s of (st, c, n, s') \<Rightarrow> (st, c, n, s', Suc k))"

definition counted_get :: "('s \<Rightarrow> vl_status \<times> 'v \<times> 's) \<Rightarrow> 's \<times> nat \<Rightarrow> vl_status \<times> 'v \<times> 's \<times> nat" where
  "counted_get f = (\<lambda>(s, k). case f s of (st, v, s') \<Rightarrow> (st, v, s', Suc k))"

definition counted_set :: "('v \<Rightarrow> 's \<Rightarrow> vl_status \<times> 's) \<Rightarrow> 'v \<Rightarrow> 's \<times> nat \<Rightarrow> vl_status \<times> 's \<times> nat" where
  "counted_set f v = (\<lambda>(s, k). case f v s of (st, s') \<Rightarrow> (st, s', Suc k))"

definition counted :: "'s vl_hal \<Rightarrow> ('s \<times> nat) vl_hal" where
  "counted h =
     \<lparr>read_id_segment = map_option counted_id (read_id_segment h), now_epoch = map_option counted_get (now_epoch h),
      hwm_load = map_option counted_get (hwm_load h), hwm_store = map_option counted_set (hwm_store h),
      blob_load = map_option (\<lambda>f b (s, k). case f b s of (st, c, n, s') \<Rightarrow> (st, c, n, s', Suc k)) (blob_load h),
      blob_store = map_option counted_set (blob_store h),
      secure_posture = map_option (\<lambda>f p (s, k). case f p s of (st, q, s') \<Rightarrow> (st, q, s', Suc k)) (secure_posture h)\<rparr>"

lemma counted_simps [simp]:
  "read_id_segment (counted h) = map_option counted_id (read_id_segment h)"
  "now_epoch (counted h) = map_option counted_get (now_epoch h)"
  "hwm_load (counted h) = map_option counted_get (hwm_load h)"
  "hwm_store (counted h) = map_option counted_set (hwm_store h)"
  by (simp_all add: counted_def)

lemma fp_loop_counted:
  "\<exists>k'. fp_loop (counted_id rd) i ctx seg a (s, k) =
      (case fp_loop rd i ctx seg a s of (st, c, g, n, s') \<Rightarrow> (st, c, g, n, s', k')) \<and>
    k' \<le> k + (VL_ID_SEGMENT_COUNT_MAX - i)"
proof (induction "VL_ID_SEGMENT_COUNT_MAX - i" arbitrary: i ctx seg a s k)
  case 0
  then show ?case by (simp add: fp_loop.simps [of _ i])
next
  case (Suc m)
  obtain st g n s1 where r: "rd (word_of_nat i) seg s = (st, g, n, s1)" by (metis surj_pair)
  then have rc: "counted_id rd (word_of_nat i) seg (s, k) = (st, g, n, s1, Suc k)" by (simp add: counted_id_def)
  have i: "i < VL_ID_SEGMENT_COUNT_MAX" "m = VL_ID_SEGMENT_COUNT_MAX - (i + 1)" using Suc.hyps(2) by simp_all
  define c where "c = (let c = vl_sha256_update ctx (Some [word_of_nat n]) 1 in if n > 0 then vl_sha256_update c (Some g) n else c)"
  show ?case
  proof (cases "st = VL_OK \<and> \<not> n > VL_ID_SEGMENT_MAX")
    case False
    then show ?thesis using i(1) by (auto simp: fp_loop.simps [of _ i] r rc)
  next
    case True
    then have "fp_loop rd i ctx seg a s = fp_loop rd (i + 1) c g (a + 1) s1"
      "fp_loop (counted_id rd) i ctx seg a (s, k) = fp_loop (counted_id rd) (i + 1) c g (a + 1) (s1, Suc k)"
      using i(1) by (simp_all add: fp_loop.simps [of _ i] r rc c_def Let_def)
    then show ?thesis using Suc.hyps(1) [OF i(2), of c g "a + 1" s1 "Suc k"] i(1) by (auto split: prod.splits)
  qed
qed

text \<open>A run of the counting HAL: what the plain run gives, with at most \<open>n\<close> calls.\<close>

definition runs_in :: "nat \<Rightarrow> nat \<Rightarrow> 'a \<times> 'b \<times> 's \<Rightarrow> 'a \<times> 'b \<times> 's \<times> nat \<Rightarrow> bool" where
  "runs_in n k r rc \<longleftrightarrow> (\<exists>k'. rc = (case r of (st, x, s) \<Rightarrow> (st, x, s, k')) \<and> k' \<le> k + n)"

named_theorems runs

lemma runs_in_ret [runs]: "k1 \<le> k + n \<Longrightarrow> runs_in n k (st, x, s) (st, x, s, k1)"
  by (simp add: runs_in_def)

lemma runs_in_if [runs]:
  "(P \<Longrightarrow> runs_in n k a a') \<Longrightarrow> (\<not> P \<Longrightarrow> runs_in n k b b') \<Longrightarrow> runs_in n k (if P then a else b) (if P then a' else b')"
  by simp

lemma runs_in_later: "runs_in m k1 r rc \<Longrightarrow> k1 + m \<le> k + n \<Longrightarrow> runs_in n k r rc"
  by (auto simp: runs_in_def)

lemma runs_in_obtain:
  assumes "runs_in n k (st, x, s) rc"
  obtains k' where "rc = (st, x, s, k')" and "k' \<le> k + n"
  using assms by (auto simp: runs_in_def)

lemma fingerprint_counted:
  "runs_in 64 k (vl_compute_fingerprint (Some h) out s) (vl_compute_fingerprint (Some (counted h)) out (s, k))"
proof (cases "out = None \<or> read_id_segment h = None")
  case True
  then show ?thesis by (auto simp: vl_compute_fingerprint_def intro: runs split: option.split)
next
  case False
  then obtain buf rd where "out = Some buf" and "read_id_segment h = Some rd" by auto
  then show ?thesis
    using fp_loop_counted [of rd 0 "vl_sha256_update (vl_sha256_init (Some sha256_zero_ctx)) (Some VL_FP_DOMAIN) VL_FP_DOMAIN_LEN"
        "replicate VL_ID_SEGMENT_MAX 0" 0 s k]
    by (auto simp: vl_compute_fingerprint_def runs_in_def VL_ID_SEGMENT_COUNT_MAX_def Let_def split: prod.splits)
qed

lemma verify_hwm_counted: "runs_in 2 k (verify_hwm h now lic s) (verify_hwm (counted h) now lic (s, k))"
  by (auto simp: verify_hwm_def counted_get_def counted_set_def intro: runs split: option.split prod.split)

lemma verify_time_counted: "runs_in 3 k (verify_time fl h lic s) (verify_time fl (counted h) lic (s, k))"
proof (cases "now_epoch h")
  case None
  then show ?thesis by (simp add: verify_time_def) (intro conjI impI runs; simp)
next
  case (Some clk)
  obtain st t s1 where c: "clk s = (st, t, s1)" by (metis surj_pair)
  have "runs_in 3 k (verify_hwm h t l s1) (verify_hwm (counted h) t l (s1, Suc k))" for l
    by (rule runs_in_later [OF verify_hwm_counted]) simp
  then show ?thesis
    unfolding verify_time_def counted_simps Some option.map option.case counted_get_def prod.case c Let_def
    by (intro runs) simp_all
qed

lemma verify_signed_counted:
  "runs_in 67 k (verify_signed V c h bin pk s) (verify_signed V c (counted h) bin pk (s, k))"
proof -
  let ?z = "Some (replicate VL_FINGERPRINT_LEN 0)"
  obtain rc fp s1 where f: "vl_compute_fingerprint (Some h) ?z s = (rc, fp, s1)" by (metis surj_pair)
  then obtain k1 where fc: "vl_compute_fingerprint (Some (counted h)) ?z (s, k) = (rc, fp, s1, k1)" and k1: "k1 \<le> k + 64"
    using runs_in_obtain fingerprint_counted [of k h ?z s] by metis
  have t: "runs_in 67 k (verify_time fl h l s1) (verify_time fl (counted h) l (s1, k1))" for fl l
    by (rule runs_in_later [OF verify_time_counted]) (use k1 in simp)
  show ?thesis
    unfolding verify_signed_def Let_def f fc prod.case
    by (cases "revoked_serials c") (simp_all only: option.case, (intro runs t; use k1 in simp)+)
qed

lemma verify_blob_counted:
  "runs_in 67 k (verify_blob V b c h ks s) (verify_blob V b c (counted h) ks (s, k))"
proof -
  obtain n bin where d: "vl_base32_decode (Some b) (Some (replicate VL_BLOB_BIN_LEN 0)) VL_BLOB_BIN_LEN VL_BLOB_BIN_LEN = (n, bin)"
    by fastforce
  show ?thesis
    unfolding verify_blob_def d prod.case Let_def
    by (cases "find_key ks (the bin ! OFF_KEY_ID)") (simp_all only: option.case, (intro runs verify_signed_counted; simp)+)
qed

section \<open>Property\<close>

text \<open>C10. Verification ends, whatever the platform answers: for every blob, configuration and set of
  callbacks, also ones that never report the end of the identity segments, \<open>vl_verify\<close> returns after
  at most 67 calls of the platform, 64 for the identity, one of the clock and two of the mark, and the
  counting changes nothing of what it returns or leaves.\<close>

theorem verify_calls_bounded:
  "\<exists>k'. vl_verify_with V blob c (map_option counted h) out (s, k) =
      (case vl_verify_with V blob c h out s of (st, lic, s') \<Rightarrow> (st, lic, s', k')) \<and>
    k' \<le> k + 67"
proof (cases "blob = None \<or> c = None \<or> h = None")
  case True
  then show ?thesis by (auto simp: vl_verify_with_def Let_def split: option.split)
next
  case False
  then obtain b cfg hal where a: "blob = Some b" "c = Some cfg" "h = Some hal" by auto
  have v: "runs_in 67 k (case verify_blob V b cfg hal ks s of (rc, lic, s1) \<Rightarrow> if rc = VL_OK then (VL_OK, f lic, s1) else (rc, g lic, s1))
    (case verify_blob V b cfg (counted hal) ks (s, k) of (rc, lic, s1) \<Rightarrow> if rc = VL_OK then (VL_OK, f lic, s1) else (rc, g lic, s1))"
    for ks and f g :: "vl_license \<Rightarrow> vl_license option"
    using verify_blob_counted [of k V b cfg hal ks s] by (auto simp: runs_in_def split: prod.splits)
  have "runs_in 67 k (vl_verify_with V blob c h out s) (vl_verify_with V blob c (map_option counted h) out (s, k))"
    unfolding a vl_verify_with_def Let_def prod.case option.case option.map counted_simps option.map_disc_iff map_option_is_None
    by (cases "keys cfg") (simp_all only: option.case, (intro runs v; simp)+)
  then show ?thesis by (simp add: runs_in_def)
qed

end
