(* ===== verification/VL_Order_Cert.thy ===== *)
theory VL_Order_Cert
  imports VL_Hex VL_Prime
begin

text \<open>
  The multiple of the base point by the order of its group, as a chain of doublings and of additions
  of the base point and of its negative, with the coordinates of every point on the way. A step is
  checked by the equations that the coordinates of a sum satisfy, modulo \<open>2 ^ 255 - 19\<close>; that they
  mean the sum of the group is shown in \<open>VL_Order\<close>.
\<close>

section \<open>Residues\<close>

definition len64 :: nat where "len64 = 64"

lemma len64_Suc:
  "len64 =
   Suc (Suc (Suc (Suc (Suc (Suc (Suc (Suc (Suc (Suc (Suc (Suc (Suc (Suc (Suc (Suc (Suc (Suc (Suc (Suc (Suc (Suc (Suc (Suc (Suc (Suc (Suc (Suc (Suc (
   Suc (Suc (Suc (Suc (Suc (Suc (Suc (Suc (Suc (Suc (Suc (Suc (Suc (Suc (Suc (Suc (Suc (Suc (Suc (Suc (Suc (Suc (Suc (Suc (Suc (Suc (Suc (Suc (Suc (
   Suc (Suc (Suc (Suc (Suc (Suc 0)))))))))))))))))))))))))))))))))))))))))))))))))))))))))))))))"
  by (simp add: len64_def)

definition len65 :: nat where "len65 = 65"

lemma len65_Suc:
  "len65 =
   Suc (Suc (Suc (Suc (Suc (Suc (Suc (Suc (Suc (Suc (Suc (Suc (Suc (Suc (Suc (Suc (Suc (Suc (Suc (Suc (Suc (Suc (Suc (Suc (Suc (Suc (Suc (Suc (Suc (
   Suc (Suc (Suc (Suc (Suc (Suc (Suc (Suc (Suc (Suc (Suc (Suc (Suc (Suc (Suc (Suc (Suc (Suc (Suc (Suc (Suc (Suc (Suc (Suc (Suc (Suc (Suc (Suc (Suc (
   Suc (Suc (Suc (Suc (Suc (Suc (Suc 0))))))))))))))))))))))))))))))))))))))))))))))))))))))))))))))))"
  by (simp add: len65_def)

definition len130 :: nat where "len130 = 130"

lemma len130_Suc:
  "len130 =
   Suc (Suc (Suc (Suc (Suc (Suc (Suc (Suc (Suc (Suc (Suc (Suc (Suc (Suc (Suc (Suc (Suc (Suc (Suc (Suc (Suc (Suc (Suc (Suc (Suc (Suc (Suc (Suc (Suc (
   Suc (Suc (Suc (Suc (Suc (Suc (Suc (Suc (Suc (Suc (Suc (Suc (Suc (Suc (Suc (Suc (Suc (Suc (Suc (Suc (Suc (Suc (Suc (Suc (Suc (Suc (Suc (Suc (Suc (
   Suc (Suc (Suc (Suc (Suc (Suc (Suc (Suc (Suc (Suc (Suc (Suc (Suc (Suc (Suc (Suc (Suc (Suc (Suc (Suc (Suc (Suc (Suc (Suc (Suc (Suc (Suc (Suc (Suc (
   Suc (Suc (Suc (Suc (Suc (Suc (Suc (Suc (Suc (Suc (Suc (Suc (Suc (Suc (Suc (Suc (Suc (Suc (Suc (Suc (Suc (Suc (Suc (Suc (Suc (Suc (Suc (Suc (Suc (
   Suc (Suc (Suc (Suc (Suc (Suc (Suc (Suc (Suc (Suc (Suc (Suc (Suc (Suc 0
   )))))))))))))))))))))))))))))))))))))))))))))))))))))))))))))))))))))))))))))))))))))))))))))))))))))))))))))))))))))))))))))))))"
  by (simp add: len130_def)

definition times38 :: "nat \<Rightarrow> nat" where "times38 h = 38 * h"

definition times19 :: "nat \<Rightarrow> nat" where "times19 h = 19 * h"

lemma times38_sum: "times38 h = times19 (HA h h)"
  by (simp add: times38_def times19_def HA_def)

lemma times19_sum: "times19 h = HA (d0 h) (HA (HA h h) h)"
  by (simp add: times19_def HA_def d0_def dg_def)

text \<open>The part above 256 bits folded down, twice.\<close>

definition fold256 :: "nat \<Rightarrow> nat" where "fold256 x = HA (dlo len64 x) (times38 (dhi len64 x))"

definition res :: "nat \<Rightarrow> nat" where "res x = fold256 (fold256 x)"

text \<open>Differences, for a subtrahend of at most 65 or 130 digits.\<close>

definition sb65 :: "nat \<Rightarrow> nat \<Rightarrow> nat" where
  "sb65 x y = HA x (HA (ng p255 len65 y) 57896044618658097711785492504343953926634992332820282019728792003956564819342)"

definition sb130 :: "nat \<Rightarrow> nat \<Rightarrow> nat" where
  "sb130 x y = HA x (HA (ng p255 len130 y) 57896044618658097711785492504343953926634992332820282019728792003956564450286)"

definition vanishes :: "nat \<Rightarrow> bool" where "vanishes x \<longleftrightarrow> p255 dvd x"

lemma vanishes_multiples:
  "vanishes 57896044618658097711785492504343953926634992332820282019728792003956564819949"
  "vanishes 115792089237316195423570985008687907853269984665640564039457584007913129639898"
  by (simp_all add: vanishes_def p255_def)

section \<open>Steps\<close>

text \<open>For the square of x and y and of their sum, and for the products of the coordinates of two points.\<close>

definition double_eqs :: "nat \<Rightarrow> nat \<Rightarrow> nat \<Rightarrow> nat \<Rightarrow> nat \<Rightarrow> nat \<Rightarrow> bool" where
  "double_eqs f xx yy ss x' y' \<longleftrightarrow>
     vanishes (res (sb130 (HA (HM x' f) (HA xx yy)) ss)) \<and> vanishes (res (sb130 (HM y' (sb65 (d2 0) f)) (HA xx yy)))"

definition double_squares :: "nat \<Rightarrow> nat \<Rightarrow> nat \<Rightarrow> nat \<Rightarrow> nat \<Rightarrow> bool" where
  "double_squares xx yy ss x' y' \<longleftrightarrow> double_eqs (res (sb130 yy xx)) xx yy ss x' y'"

definition double_ok :: "nat \<Rightarrow> nat \<Rightarrow> nat \<Rightarrow> nat \<Rightarrow> bool" where
  "double_ok x y x' y' \<longleftrightarrow> double_squares (HM x x) (HM y y) (HM (HA x y) (HA x y)) x' y'"

definition add_eqs :: "nat \<Rightarrow> nat \<Rightarrow> nat \<Rightarrow> nat \<Rightarrow> nat \<Rightarrow> nat \<Rightarrow> bool" where
  "add_eqs k xx yy ss x' y' \<longleftrightarrow>
     vanishes (res (sb130 (HA (HM x' (HA (d1 0) k)) (HA xx yy)) ss)) \<and> vanishes (res (sb130 (HM y' (sb65 (d1 0) k)) (HA xx yy)))"

definition add_products :: "nat \<Rightarrow> nat \<Rightarrow> nat \<Rightarrow> nat \<Rightarrow> nat \<Rightarrow> bool" where
  "add_products xx yy ss x' y' \<longleftrightarrow>
     add_eqs (res (HM 37095705934669439343138083508754565189542113879843219016388785533085940283555
       (res (HM (res xx) (res yy))))) xx yy ss x' y'"

definition add_ok :: "nat \<Rightarrow> nat \<Rightarrow> nat \<Rightarrow> nat \<Rightarrow> nat \<Rightarrow> nat \<Rightarrow> bool" where
  "add_ok a b x y x' y' \<longleftrightarrow> add_products (HM x a) (HM y b) (HM (HA x y) (HA a b)) x' y'"

datatype move = Double | Plus | Minus

primrec step_ok :: "move \<Rightarrow> nat \<Rightarrow> nat \<Rightarrow> nat \<Rightarrow> nat \<Rightarrow> bool" where
  "step_ok Double x y x' y' \<longleftrightarrow> double_ok x y x' y'"

| "step_ok Plus x y x' y' \<longleftrightarrow>
     add_ok 15112221349535400772501151409588531511454012693041857206046113283949847762202
       46316835694926478169428394003475163141307993866256225615783033603165251855960 x y x' y'"
| "step_ok Minus x y x' y' \<longleftrightarrow>
     add_ok 42783823269122696939284341094755422415180979639778424813682678720006717057747
       46316835694926478169428394003475163141307993866256225615783033603165251855960 x y x' y'"

text \<open>From the point x, y by the moves through the points listed to the point a, b.\<close>

primrec chain_ok :: "nat \<Rightarrow> nat \<Rightarrow> move list \<Rightarrow> (nat \<times> nat) list \<Rightarrow> nat \<Rightarrow> nat \<Rightarrow> bool" where
  "chain_ok x y [] ps a b \<longleftrightarrow> x = a \<and> y = b"
| "chain_ok x y (m # ms) ps a b \<longleftrightarrow>
     (case ps of [] \<Rightarrow> False | p # ps' \<Rightarrow> (case p of (x', y') \<Rightarrow> step_ok m x y x' y' \<and> chain_ok x' y' ms ps' a b))"

lemma chain_ok_step:
  "chain_ok x y (m # ms) ((x', y') # ps) a b \<longleftrightarrow> step_ok m x y x' y' \<and> chain_ok x' y' ms ps a b"
  by simp

lemma chain_ok_end: "chain_ok x y [] [] x y \<longleftrightarrow> True" "(True \<and> P) \<longleftrightarrow> P"
  by simp_all

lemmas chain_rules =
  chain_ok_step chain_ok_end step_ok.simps double_ok_def double_squares_def double_eqs_def add_ok_def add_products_def add_eqs_def
  res_def fold256_def times38_sum times19_sum sb65_def sb130_def vanishes_multiples [unfolded numeral_hex numeral_top]
  len64_Suc len65_Suc len130_Suc split_rules mul_rules numeral_hex numeral_top

section \<open>The chain\<close>

lemma chain_1:
  "chain_ok 15112221349535400772501151409588531511454012693041857206046113283949847762202
    46316835694926478169428394003475163141307993866256225615783033603165251855960
    [Double, Double, Double, Double, Double, Double, Double, Double, Double, Double]
    [(24727413235106541002554574571675588834622768167397638456726423682521233608206,
      15549675580280190176352668710449542251549572066445060580507079593062643049417),
     (14582954232372986451776170844943001818709880559417862259286374126315108956272,
      32483318716863467900234833297694612235682047836132991208333042722294373421359),
     (46706390780465557264338673484185971070529246228527338942042475661633188627656,
      15299170165656271974649334809062094114079726227711063015095704409550798436788),
     (16121637619009607773439840283436156467545443443832420589584197780484295031288,
      50925107901044861941301590032293890690813323578124472818968980802518735333355),
     (26148317933504540005443173402042326458672162458767831815669826413036406984486,
      30850316547316149219369061290562558254923949145644564178378051444253659681385),
     (2703967047724422927942795606844806438471095130334849099131707700624039388171,
      27636351750987415494008535949645960827550590090960186204735008729987540453670),
     (25155917782814837260398069725241853231864729763246304429004555936282046356871,
      18508826420441071939750277538143617204571229748311242415842946762595677996796),
     (42740085206947573681423002599456489563927820004573071834350074001818321593686,
      6935684722522267618220753829624209639984359598320562595061366101608187623111),
     (21224688672439988911666787158810613738323773477623112347883957939967013762058,
      38366836778969845606589656703794235990595431744668605526092433715493688021992),
     (48427913736837608266186835246980452511660467837864105011084951035203551898472,
      12175353081024358281744367214419414005476983323671937693306148471852937756989)]
    48427913736837608266186835246980452511660467837864105011084951035203551898472
    12175353081024358281744367214419414005476983323671937693306148471852937756989"
  by (simp only: chain_rules)

lemma chain_2:
  "chain_ok 48427913736837608266186835246980452511660467837864105011084951035203551898472
    12175353081024358281744367214419414005476983323671937693306148471852937756989
    [Double, Double, Double, Double, Double, Double, Double, Double, Double, Double]
    [(27186305465236551749842573802124445331552679641832078930108365447931276498935,
      2312041997451586708872587523550236508157965803316305389071105927566014363214),
     (56574002287690562566387008107654176112985293065528815433473093068153251878634,
      40555259698712479228142211631679471073561232444601298047972603499607234388181),
     (10780707225527799223727042055056551995903319194379151477081117380874163309022,
      52019749602470059668344983068026172384793681144736228079710257376320252456841),
     (3464320599267112696879288753247079893959896359625474425290602150960671705994,
      51694133746787581571724731688211103718833232899104586370422228323317173487873),
     (41301554414245700419639718923570458390119154231634759147665520927567584100098,
      29364674778601018936997556626806786174514088488710242926018946766714482756934),
     (42474966419402231471674152001358115696747244471432888578155981280875302200677,
      20182938281251249849712136486927848134532420155649429100890386875073412000822),
     (52869748631960986034856376238747990075784338722812323924650009680084842073895,
      3796174517710171698598804855217198428321733657889201949428151222167600506353),
     (48142588613070057936665739918694510016346910601601381787709232357287830656052,
      10385474060292222039643213821294435966838835008701008210657350549376377214577),
     (16394032366096881154453202042718985456910765089875944486157716261812202804788,
      25091281840661552205135748393579341584120703124592003105179293019326456324854),
     (3030652980257820293954590240644581873411659236202283991563565950415750739437,
      3449896845806921515373747351251070124616437120332303971385432452490848855288)]
    3030652980257820293954590240644581873411659236202283991563565950415750739437
    3449896845806921515373747351251070124616437120332303971385432452490848855288"
  by (simp only: chain_rules)

lemma chain_3:
  "chain_ok 3030652980257820293954590240644581873411659236202283991563565950415750739437
    3449896845806921515373747351251070124616437120332303971385432452490848855288
    [Double, Double, Double, Double, Double, Double, Double, Double, Double, Double]
    [(32641263228758150355667687431806095122956256108730064648049172982697192869757,
      52273704419139405159775014317290835933664475552332708366394330415164319248459),
     (26993053454492735757774095526931594398941435313067218024451801426996192317244,
      20756573878643363325793821026438350840612369149764266371668034898098235986297),
     (31520167665919384194696730538735098277674977480128774019718915946563876798036,
      48871947419602552330465379555019735272161840172752412330071639916632071437120),
     (4953187230743962930662113245944254306680232166954327932822645132912059759223,
      14955570584878506545981286824704959560776362796341363640094685063311756888261),
     (19657949635683093185289569710211585343964433529222332533539288290160154185011,
      56892661656082980073316383795158683496393820909924608301927348333889896713218),
     (46976510156322507137269201780554059652401452413839958562844701649608332008299,
      25448670393978825583576233442397517457541692536451699283561630611656102572950),
     (18958742773298937073755619970621164217249748928981220693078384958060703810681,
      49060669014889618634034845030820105181036997350936347239322049348217814945797),
     (13692443628628542482398138298848103782249043847728748207160598387591474036267,
      6535661448952062909216951562535374120699607245381865810845630213621355776630),
     (44073126145632928819502260833325828264688543470827754699842109261297194996573,
      25708642289863751966302024225237904726630733908921048717331198880892436709901),
     (32998196372564612992359818786763423324015994136376432300157753889179321890705,
      22310901527710631603180993315816672899331474004376446475717230095796374000992)]
    32998196372564612992359818786763423324015994136376432300157753889179321890705
    22310901527710631603180993315816672899331474004376446475717230095796374000992"
  by (simp only: chain_rules)

lemma chain_4:
  "chain_ok 32998196372564612992359818786763423324015994136376432300157753889179321890705
    22310901527710631603180993315816672899331474004376446475717230095796374000992
    [Double, Double, Double, Double, Double, Double, Double, Double, Double, Double]
    [(54882909907635354958311263340029521311980981711637644057731212095996500430552,
      42932185445836734984879765196158360688663229692937278561535355964359997581186),
     (34881215023217925273427507880129132732978197777830040111026122875038460546235,
      49417579777138232809020590461442191010157021293872759678974198530760482863386),
     (34085450069500794510152409520807677869950508039913904939590977699961040436501,
      52278291416665193925925829527972181593462278765769350530558236265859287513035),
     (23406589806172960174851795884335653806454241620752476244917220156478142938335,
      37854925133430588252830311134599570623631025784885083249593544768206604501465),
     (30886537925985998524254955874096819652783119677955825045199375216769416949702,
      54037904725904619508111005987774813902206702994070596763696498304265167397445),
     (19639451821147740670698624700272734820894813909735291580470206199768700605392,
      57494903421850047051437277431621495081848935660098712752929417894600320224466),
     (12469452200683121609960440379957844757586634886744101850068664139886892025012,
      10489147278187110362134995111963226564141046001348941075622680658741593532648),
     (549689331659327561605194692422602825769416452111816234011461274565005995655,
      51469744701391552480837245041655791053255331145812797331218148961728035441779),
     (45113617814944202352153583642261178502360614596484279216729123193977391993714,
      1980278042691965713981149139930452264163076071667628639090250557504770174587),
     (6975916580616431138430993573433071747917420592434172169347774209021880766693,
      27729946105412964655112236315850267932468036882545041507320998583854342562650)]
    6975916580616431138430993573433071747917420592434172169347774209021880766693
    27729946105412964655112236315850267932468036882545041507320998583854342562650"
  by (simp only: chain_rules)

lemma chain_5:
  "chain_ok 6975916580616431138430993573433071747917420592434172169347774209021880766693
    27729946105412964655112236315850267932468036882545041507320998583854342562650
    [Double, Double, Double, Double, Double, Double, Double, Double, Double, Double]
    [(26721402367527682574942110461580517411213448744716771766358148163877301105728,
      9288387344892172799170744310978976179910527092723579902952158489343272868948),
     (10988524301762373242246727351929902921498129982664316002800509126742121162784,
      28440719635374571293396157229875541269413226941353902928329788578666889313331),
     (40716425138725944745186331899970009610267626729218118393270956274853491203124,
      46769152930682528968583401401235025295039214644177585564512426226384755878073),
     (37510741031459341378829814964903502667912927266993467424549080808057139144766,
      57303500313920857781889356400330248464357243021787478340933447880777082073539),
     (36241354563762173459705108462830400635564419268406145900966660417613821977637,
      21485101354679558701669270959816344644464678765615788190638683578533731429966),
     (20584796599643323532861987265526248228488799407283500188808238372131189701480,
      26478740800733269288198131365468684670960535144929794027484143547518195267108),
     (39134758420864184254969116302644788663556954029588642642423917089530226989597,
      5124259569483350729196958378822907526496602783247669422492733697864938451662),
     (37386868568128681599499830859763869162133292900805977973436494315455022169426,
      36563616321823734465666870349235432940379598201907262626645125270466793116054),
     (28582163575878071020286779611073458927627633926762077980797377317166201949523,
      29517287490576008752010229265386725675942288741512148107897703457428460766064),
     (6664938945656958224937745274414537263586471401885907820916253978327430063844,
      2126634075982654318590492885153132310981526013601685661016577258450272533730)]
    6664938945656958224937745274414537263586471401885907820916253978327430063844
    2126634075982654318590492885153132310981526013601685661016577258450272533730"
  by (simp only: chain_rules)

lemma chain_6:
  "chain_ok 6664938945656958224937745274414537263586471401885907820916253978327430063844
    2126634075982654318590492885153132310981526013601685661016577258450272533730
    [Double, Double, Double, Double, Double, Double, Double, Double, Double, Double]
    [(26893906638378427820269402226975745300041457754729633179574373243303786072539,
      23888113636819035429926907107258444263090323522691660954731306854220582218409),
     (189355175404241672738129259114556965478340615081311091777345303360588540836,
      51767299105794865359908754261640899704919154549996018629901376258684159289317),
     (14160459449409432346176007562822108240728702992215244509282193488000767962072,
      40953833938605278231697173707354259912669188943485919940833211413684494670284),
     (4068261697406638961935849621742963533803537470089883744480903389537982658853,
      17740693327176817854801454122587194558819032432129012706849247534385017891832),
     (11823766772564295466429875255239566661981081448176083546584427805840615152756,
      54040755356101629851791062456974045253014690287858169301317937866514626344693),
     (51502639449004291622700088031154688719483163480862436225495097465744471100900,
      25964330211653062987717188781243886463821901684982951650673786718455132103697),
     (21734724549841690193090842476809076716419456331211857741265759957945129922704,
      29304975373538996048835671269729647815982116853415896625128567603603329907841),
     (30001687184291412988809724842551122044758922095287536204847335704949115767033,
      50835770704986724242436677611718431048705647431520755367710246538243619075335),
     (48882273411393669122044540803817352985557027118982854238955416614908556491266,
      11407218847596422755991434262659321162615585973279975075808294900032260014207),
     (39468567782001629845469931291703114351231301360810771182933666088696363117813,
      48520602033621835552297087477366344329736087438136796734023135166735240273716)]
    39468567782001629845469931291703114351231301360810771182933666088696363117813
    48520602033621835552297087477366344329736087438136796734023135166735240273716"
  by (simp only: chain_rules)

lemma chain_7:
  "chain_ok 39468567782001629845469931291703114351231301360810771182933666088696363117813
    48520602033621835552297087477366344329736087438136796734023135166735240273716
    [Double, Double, Double, Double, Double, Double, Double, Double, Double, Double]
    [(14634154268926673608900308779686697918188551795673908169701089186353020356853,
      22635139240448021868201029866848773426210620100937671088354264929878430660010),
     (40334547811194980222132355507048888492367411465942395326465999366654848330295,
      30141215867806221944935945054462736214036523470954538064480540475644488758752),
     (1858744241653336215343795677286102722518125133862047495966642301222759149346,
      51688159461706094879304629140765766764511202268320054417312410136779795003785),
     (44388040078108422381599858079345000847427885062711346041771517276226329616898,
      1423604317745427322790381226394774763053130405907994130724317794966956167955),
     (1010247752756362260881243234901448331704228065985397871388404881884689704343,
      34905110436806704375115117043721051740842418404017689336019589974414716422638),
     (49444157831517844751255683186086055092391671187830014667142777982061391761769,
      38325651754372413483217343763106935496036760575967773049932675282070249514007),
     (48577842308630573365019333121847151099247213871386595032531930153824808034985,
      11698818496297094926714371527533498792080572905846263409223249541482347665093),
     (51416308261230323791972553180748498853602467457543596950952167188234310296102,
      26500516396956780220658887122604521806411632574870530108424521362596479422245),
     (15426476579153824640063748107939638128818377676814173710932605230473017653035,
      54874201845107823946446372651255629171375058352614330916365376676602781150596),
     (12712558393922043510311116546282894497829799292545297912541506421626765270056,
      39685799954857566999031473139583267673043941812564928655249869908845569230293)]
    12712558393922043510311116546282894497829799292545297912541506421626765270056
    39685799954857566999031473139583267673043941812564928655249869908845569230293"
  by (simp only: chain_rules)

lemma chain_8:
  "chain_ok 12712558393922043510311116546282894497829799292545297912541506421626765270056
    39685799954857566999031473139583267673043941812564928655249869908845569230293
    [Double, Double, Double, Double, Double, Double, Double, Double, Double, Double]
    [(35966709613487039836771455641568151899303686490727459701589928757130906345287,
      4590715909301946484670322652103488894781039724476604802293138388114824244525),
     (14209203893922473311723595664823042609383238336090280855951284872268697714335,
      54096248485646036580969450637608332943982160324686939405543494070853926149657),
     (50225331128728478106780859889537807505048902429356838599409066831481056211564,
      48567226733225781276449566422287543329128010889111409895804967816670485558982),
     (14277504181738407774235093378032955288190316525985673811547794837958257411428,
      44871378086723879356737413210653521226866440740474535279860816276104559603579),
     (32418571708367977452352489589045334204504079160877254915429124079150328663559,
      18387148233383658620287056230463085911877635595024572348568551271925735393572),
     (15779270961168218795229828090701533240215204226023372799860239005869904877004,
      44830166261951740603279398495576682241725607809926503424472229723689170610363),
     (11934888751358376585367388605542262864084187912753477682625882954803615290685,
      14214449243666306908341928066213895894989764915988732118960193112150360243653),
     (24745401508182352002952447462187517145313719592095512250459315231990663674346,
      12605203304109359736839575646170095420028150170075032505021828813425976392506),
     (7139742008745815782467698207918707217570867389629573492211592981809669859250,
      10391024330052931068916219853641704524060189883573610974407450960946334497572),
     (43672721813094808158322153823698981319419680095264823938511427045013292716276,
      26774469600843634339468622105851699981555180542412972644232493480876266571002)]
    43672721813094808158322153823698981319419680095264823938511427045013292716276
    26774469600843634339468622105851699981555180542412972644232493480876266571002"
  by (simp only: chain_rules)

lemma chain_9:
  "chain_ok 43672721813094808158322153823698981319419680095264823938511427045013292716276
    26774469600843634339468622105851699981555180542412972644232493480876266571002
    [Double, Double, Double, Double, Double, Double, Double, Double, Double, Double]
    [(3989370560455708984633793475698444523747174347184717690382157232120584787329,
      32505703979076959151485506556792486289027941138272760644562679672175933443866),
     (5059886806144239654386250234132239322534981646959530787642810205204823263599,
      44781990901350621119000479168942884261150661419375333506507720470732519651804),
     (5034499113101539419171195675489016129397586213000300161297322761474792468007,
      38984291250628169793609367006953049629309747617110716218706415095166866209475),
     (28701589195663402661877848408121388944364705228705833837290335451947214372354,
      7204387230095814289155112784314167486479491389461677700039482462117900149790),
     (4043104448796842162745666493312998641829351915822871392692138036596732345587,
      25583947464430871653586840964872231498494354583644780039898113211018348195426),
     (16967413801548701797242886843680090165318588349974756792262810250234279035069,
      44697289841450513164033704384247986028022748316827147885385602092788632953231),
     (2579649274306548849837733000395332723289589758529702916422942026934274000925,
      15903853772550703579537912563242422228297542773675645660330868481778530607407),
     (47877216812782924174466763867175181383956969618415943364604849026510454529253,
      28112003636980376946454994616205437214785284325558286572284790568403397987982),
     (44624650523877827989751820302168351134993681066479444271153806569668535957209,
      27714478525736819310693039843449131161995095049081766735341612278922679271227),
     (35329897255136253373431638007078284535646557446689786639069168126562061520510,
      48102472413184753722918898271017592259334671993463580839736558443832467501512)]
    35329897255136253373431638007078284535646557446689786639069168126562061520510
    48102472413184753722918898271017592259334671993463580839736558443832467501512"
  by (simp only: chain_rules)

lemma chain_10:
  "chain_ok 35329897255136253373431638007078284535646557446689786639069168126562061520510
    48102472413184753722918898271017592259334671993463580839736558443832467501512
    [Double, Double, Double, Double, Double, Double, Double, Double, Double, Double]
    [(57854637032597121065424460477283781507211162156907553379809587845807142677871,
      8595708305423838218427337239184970131694134488607489845436010670114592093907),
     (13661732206155304631473207485375887840040863051006406460921523783662717752866,
      18702667302471406267943646186561629076477578914690077859029294500205891615865),
     (34678801872141263131717568048919688293891458498596049038512335591958388269398,
      14051700864432503195603174423174243178139259455397278969489826247036072519711),
     (56271287709999114249430521279143619599708294450613804315340758418615759138947,
      26709183970593361440546052460951843372876673094798344582055628577437062451),
     (4941794609987678981879188000114348043986995390085707309908914207158224370220,
      11393072468401385903230649060352828887982933982104030268046685519118680025095),
     (37070215148198071430799085968753265750032279687669442199535644547659159008720,
      24277510719184982406390712670096807578634110983235809048632298767886642985665),
     (39149621700212626749621435400351405351231184907008598760301451381081013983041,
      34503224398479003962600496102980592214075457369331528461237883842917276072424),
     (23185922985978961765525879604265755828711139395011139482900477285540574790618,
      36367764535089816925445391884049081669258296710246889978535540710889807755205),
     (23334028275166191184164139591657077754376896079733520656064186218287653342618,
      41978652946500496924928875394389872458253357230394695728294241695963720135571),
     (28796363583862847668812044605178507244825877227342242014774155208318462834757,
      55234959353662462202983325031925176159492936554011128458548182362800408727260)]
    28796363583862847668812044605178507244825877227342242014774155208318462834757
    55234959353662462202983325031925176159492936554011128458548182362800408727260"
  by (simp only: chain_rules)

lemma chain_11:
  "chain_ok 28796363583862847668812044605178507244825877227342242014774155208318462834757
    55234959353662462202983325031925176159492936554011128458548182362800408727260
    [Double, Double, Double, Double, Double, Double, Double, Double, Double, Double]
    [(22152377815713073885123024134220181662013025517934765653685593051807730951109,
      20210740406512502967027943336656788111164148198915921899551468572151061000341),
     (43620949520144324161844112921540314179791160756548604822571317354672290688656,
      55960850383955117084497078728968100220583635988916106362750056582565381170825),
     (13910242112313529748247338058346265735204793031963188360415155111564876935229,
      28026033346964984143781324810989054090462624756509060308165423548333335784666),
     (11371879162373812903597632893053130771100210169456679508604354695621139343631,
      5678923034335803499854193512949185707312411812586470592763075824256665264606),
     (18362839244894279592215249911553963787851060777743113998886545263569847927955,
      4210807820446419651105742493190316853815492326276504789502512130186582234685),
     (23921107455925441612550629086478938150848187330668405596858230151041390475098,
      12599238266398634998434556842240768274292438963378237556139324609460374067494),
     (34696320127735655402512265767697602636168153659137920083789137692959599647944,
      42120638134327975966011272240411516459099234670144041314385743337890494036069),
     (33227521516354605999830589514515865710822327852925376114255137871690735587244,
      22681039011760707337500602565057111277108423406256855863837270100715275112616),
     (45816511225176877996140255040609219587091107439457578341038316968132283752617,
      36549853415134963004198791385929027950142848447981419764990803009399724054934),
     (4109725613230504426324669336546893204699348150375590650961079986402263006479,
      13548220015390787328262599706228652778399536104956932282542935971617933593799)]
    4109725613230504426324669336546893204699348150375590650961079986402263006479
    13548220015390787328262599706228652778399536104956932282542935971617933593799"
  by (simp only: chain_rules)

lemma chain_12:
  "chain_ok 4109725613230504426324669336546893204699348150375590650961079986402263006479
    13548220015390787328262599706228652778399536104956932282542935971617933593799
    [Double, Double, Double, Double, Double, Double, Double, Double, Double, Double]
    [(31674252996734707212481088088643240141425643801543286253248344469973004656554,
      6786196619175573608309283443380719738877074976577908471831120085453336700494),
     (30407400204072033917609480172618297228059702465168718418817308450301417256315,
      49315877793598952090227901245738270288685983126601288875006392048674637302542),
     (44417092014879103586055534704850737242542372632022894149816268053224964424171,
      28092835439062208164608941398448814112137896638247692330991965419364853280613),
     (55913645708648454082380885333952414587415523972517829512720425474171989429039,
      4170341877731070479064719941590894238873155105706772330803492495594024043916),
     (57358306754892087581061482960601343272150180511706384027111409727530014615872,
      7501227636099754662821696917164574092234190941956901631865902241653090361542),
     (48782782515836871628938299209492917508321674529612667649282153140637733656059,
      20014236295691833912353873433172840618145541540180033958100959161035845143094),
     (11618050754323719385443732951567856244563825728122233676622712000620990083402,
      42578444816027188744577909552774348432010679314070739170427174452067063733643),
     (31547400550276104307900899036819671847265416450370273588479799778844560833009,
      37367989165521616201930780541222369146292023138676617257266389707008216833638),
     (25956985989161136316235961527236916457717926829394295299028523314216733689351,
      50364565591067077996626372578228644798066456462962263809084137884269951378152),
     (35118750000941396177384144572236461584765045922296921590426241445782749078564,
      22276559719444846469370701617737789620267379936674566170770241509797286014565)]
    35118750000941396177384144572236461584765045922296921590426241445782749078564
    22276559719444846469370701617737789620267379936674566170770241509797286014565"
  by (simp only: chain_rules)

lemma chain_13:
  "chain_ok 35118750000941396177384144572236461584765045922296921590426241445782749078564
    22276559719444846469370701617737789620267379936674566170770241509797286014565
    [Double, Double, Double, Double, Double, Double, Double, Double, Plus, Double]
    [(15495667847963519095070902975254013254054297059438951355864834066532640060236,
      44548947909159043917403409442457288878516759169055680620236387754235369409972),
     (1871107102280547590065037923261765627391729441701934941391723968422325914548,
      2197280331012323570322413448915527766660864684378650497684553118254920260348),
     (45090698995977474290632961691477301097024747374015152515190560720018468165568,
      12254579022675596810231884862276069575540423112673550018377525848277481401878),
     (5054797618327281071443738716493596768237980643463800357794684862056619267462,
      32528688704343641313631911710448027152095479374942741660511292005602282822378),
     (3116396207800974126741352651042756943303008617071878591507809562704911510205,
      51997965663228500457050430249387147003714475761347555819390336249670266088570),
     (14055490458127722535889980752338964994832593866234835702288268286656839412260,
      46226773486422651493508693434203867574287052738705572908570241545752789081928),
     (13255665929656146281080449887007641909509999304849491744738638209813853897619,
      55705207129829464869897097349416518624188726193119147708421062336186161442401),
     (34445898214599204196824587830670445739267303633182408050117152659121903233060,
      43048524062920118298805915568484795959327268000798232147099016825120495085163),
     (49932680846730765880533179156762681844729764660303290282431838816456080660122,
      25436089807757778647346428845003824853559812566485633362966320115826425843867),
     (45845635456993680877874570622767193015359724682723034542109229243268624991385,
      14906051268862452619194289072522337966404639265274421987706965009373385014011)]
    45845635456993680877874570622767193015359724682723034542109229243268624991385
    14906051268862452619194289072522337966404639265274421987706965009373385014011"
  by (simp only: chain_rules)

lemma chain_14:
  "chain_ok 45845635456993680877874570622767193015359724682723034542109229243268624991385
    14906051268862452619194289072522337966404639265274421987706965009373385014011
    [Double, Plus, Double, Double, Plus, Double, Double, Double, Minus, Double]
    [(50412905269872468201606962024865812625821008958274146366492674513135294034459,
      41340301024210643977268782884999423105620272384844862766448241307131736671351),
     (57287386626394774113138642367524579237642912431093605397008543154920470742987,
      53034412112453024451555980813444223768796676148163660906444619035861838582367),
     (19116843779388832953239487290352966440392542320173648942287117641758470389515,
      25488289157064646651594096343608121960962033258311311893140349779412757921655),
     (18498329282623250392098226507012794913375033583563504655804061550556098950901,
      41279984179417285780657987301543487999306998951695814509490041373997411205442),
     (9471425765305187524097309978404583465011842941333151533464021383285357485123,
      5045477314353432312731902063553324326066766339390030489603453228970545053357),
     (35662184431001997116512779685732056827458528078008843692867340176858391811869,
      33743618605392996158906220092497752127946894457161282718855038202328448298612),
     (854185216323331134513085531121402937827026550055151697246481100402622702698,
      42037927840597709183349358756715625581202839182918773908787163569567551294784),
     (40766314902746914210423592541434731373084852885809174539584292520160876448986,
      12180037496135271881706039551023922488255932143318928231188006740511270996241),
     (44398288786203781983053159572623444409115530869143514146101423558759843794236,
      57529989619765276436394400989939723355311958355956465524766142395916217403670),
     (31837647459555696626027972537081590745656096717066628554346817298891036192212,
      21026681404212845655015629075359549045651972077073262352456540002676709449119)]
    31837647459555696626027972537081590745656096717066628554346817298891036192212
    21026681404212845655015629075359549045651972077073262352456540002676709449119"
  by (simp only: chain_rules)

lemma chain_15:
  "chain_ok 31837647459555696626027972537081590745656096717066628554346817298891036192212
    21026681404212845655015629075359549045651972077073262352456540002676709449119
    [Double, Double, Double, Double, Minus, Double, Double, Double, Double, Double]
    [(107930570905703446532746033087243636016757412916093068475369474166291163963,
      53894416281538793502662236739940987650207291058171438767176982086223791159817),
     (34747720072098764698612282617830062326339742177619943851229761049659645865134,
      31274157175796983689271198250998817570491049015457059087335528920713166579900),
     (23467948509283176099068292486193997471674399193054746035606537303546691210715,
      25673262566735418773226538276521098424010548617493490219529014616310921608671),
     (7079424282141148261581743037280643328071867137025778430865036010030281375216,
      5766279229904612420262514053608580605162978082818875733874902024854369734056),
     (27469381076728451091506158102024203372561545493037186193786819681542373267573,
      12920713329943980156952846658728209233193905489865771165721383773520941894112),
     (24653354346402506498248179059651853097848176386851190125161729933119727154205,
      32973666869501401809700199857542893186833233642040037884481322103083466522383),
     (4618164877634587978858599559667074436676265487621239773081140500423823495891,
      51904834231209594094844533192106816297515805173795129174185039669251611600109),
     (15790925599137951554199038402417501447115156114931775300969917784740049337612,
      13123937866295982490967919569273171020238910751569913888280431064193803412470),
     (51384480276287132933389616480404847601506438702237648231399799431511601936448,
      372527600788577077746172934411286902232416794621338354654425411318767297453),
     (20000315257745636423759740760907272353199970651844496435915750481523234198715,
      52621472151029891335960050001012301097545128892676850005904830320416976232562)]
    20000315257745636423759740760907272353199970651844496435915750481523234198715
    52621472151029891335960050001012301097545128892676850005904830320416976232562"
  by (simp only: chain_rules)

lemma chain_16:
  "chain_ok 20000315257745636423759740760907272353199970651844496435915750481523234198715
    52621472151029891335960050001012301097545128892676850005904830320416976232562
    [Minus, Double, Double, Plus, Double, Double, Double, Double, Minus, Double]
    [(9236868749522475433794884665054858661075400880844910072807125839065565934169,
      53534573944258633740297998628247868840752349263625163209795551774449998643276),
     (32807492278451714518024242747678992964510574890744187687700940251621586338769,
      40453238950094755533905636755029630710955410361198424601326306779390904129628),
     (3173557203866977758930918142168074842609526964066679682373632983669999625528,
      8954205231232762621913306626095315593824658619748111029230214390750799667638),
     (29531915991436878039152008267471468236947036962107646083354175079720355537456,
      36723953475992017507091143656956834240181117018213899894515680761225323870099),
     (11097367144750409983477424575458464554637158535017269618143393266926179249853,
      802186837841543885768628484032047234758276800341569353603110067170889299072),
     (16965822965125310193575862724848225991375043608854703005340212865251235491997,
      42971614984805240507290338279003936283769867148962466972591816101008796892032),
     (34776285429937253656671683339276379805678788941305973097508995121944959342778,
      56479655528300944065098036350780498124930142657334781259361955511946508143105),
     (11188061481254510645006765336505558847614263350283710738438060877586499453281,
      53293633470177818903440460459201658966818099553368556307045860761175176761081),
     (16189521827542134963044598107373270975963894277954135243220872597893190453346,
      11668165053150171145439132344343336026889997557734226281881497468771812891718),
     (23990788198342128268965756368215129263336202733281276281205752060445071423423,
      2981160128041593153082854947218241332399557184746747098473306069073381975585)]
    23990788198342128268965756368215129263336202733281276281205752060445071423423
    2981160128041593153082854947218241332399557184746747098473306069073381975585"
  by (simp only: chain_rules)

lemma chain_17:
  "chain_ok 23990788198342128268965756368215129263336202733281276281205752060445071423423
    2981160128041593153082854947218241332399557184746747098473306069073381975585
    [Double, Double, Double, Minus, Double, Double, Plus, Double, Double, Plus]
    [(26035932680120221431476496692624412196235052193969768369789539665841487961002,
      30657484702592376754865101989409150457541505442475388848340204152272233913505),
     (29289905649435936087389545118346874817815790723244988995448186445652327184641,
      31804957045517156106457665915256111283433444217085821422583154905205954264010),
     (11957287731687079186205944448730510119409907790284728224102009812336615689857,
      35326057346988185362609777775228362179195320458908742177561921850749639339204),
     (47644912502939530382359701638589880653790537994592361529115457060242217249769,
      37284250659358192310948175616937262349477083080106127936244343020712085663572),
     (16141687387880132514068786843488823486526529975638266225420353395087229188939,
      51374989975681168649272189396038456273500400051367613109295671102719039749130),
     (18274922276918964952578507571894065478826777477480902085797603658111838472277,
      53383320646283222191225385821786623071157441667112969733967699327836746093139),
     (4421209796543816737945832095169827929321829883655335141629864975900701071152,
      18881394321546789232653723012706754561547162527590205182188611750345511727587),
     (37233243637644635886484444231942479829511118969561751824492630132131652594808,
      35716134568041981073915865194045950335392175990310485314945566560269182124760),
     (24096867884023311703676343571826367693095074372676533961657325893634564663022,
      48840458543553667040747453853382823868399279356356279314183331141507991866416),
     (7101013764181857221469411635023371419982929742177865615485145664565034020814,
      25100303233440515294907358208048928369648285879095887028887101799012100541157)]
    7101013764181857221469411635023371419982929742177865615485145664565034020814
    25100303233440515294907358208048928369648285879095887028887101799012100541157"
  by (simp only: chain_rules)

lemma chain_18:
  "chain_ok 7101013764181857221469411635023371419982929742177865615485145664565034020814
    25100303233440515294907358208048928369648285879095887028887101799012100541157
    [Double, Double, Double, Plus, Double, Double, Minus, Double, Double, Double]
    [(53408905309115804121594073890693190338668643613776928652792734171959268815793,
      26483783170820254269247772943573845581745577449426428630935316615510250579427),
     (11204901660007146097635782991627139458299335402172885422977940875802867618905,
      36942444326890742571743156249884644698204962760366454599975305440929898478453),
     (51048747630529511839803579679101694524274710854628509194748325267846176738410,
      34785133162986051122207142014404093044404547312893108922996096204964038334053),
     (54697675209593779790950119078985110807570374027636608235653398933310261039095,
      36509702817458711123508857561180813282318398484833872447374579548177441691117),
     (41345707421167987280731784836231591725470177258255569031788745595064651914221,
      19867401905650676272636170031427455099502162179545046127676650889973559802994),
     (20868549833647098832588450194936204416441800056221658146073811498150192051720,
      44018485511096614984820942015249661053660534101260571613872354309206267953552),
     (45372901685722095497206032613106628726104952347013795384860939793451097857539,
      45453025932333844064389406150840433302888174456688176091042482707224643391050),
     (28272801968682783355518692242423157517901382975879828048557250245174708464114,
      50800578959597496811301623245616596472791185653547304189579525710184716076140),
     (2483443141728890527691194566888229962409363037166353505198215836864732546370,
      10236894993251620898515187832110067424013957432412757932371936159870175839060),
     (38673733831136400103959585952007509735615811438549426863773249792427697222212,
      19783177704594043790195407660262167031388453981725716129340630632089350031884)]
    38673733831136400103959585952007509735615811438549426863773249792427697222212
    19783177704594043790195407660262167031388453981725716129340630632089350031884"
  by (simp only: chain_rules)

lemma chain_19:
  "chain_ok 38673733831136400103959585952007509735615811438549426863773249792427697222212
    19783177704594043790195407660262167031388453981725716129340630632089350031884
    [Double, Double, Minus, Double, Double, Double, Double, Minus, Double, Double]
    [(6728819394816016817410113347244583332172405710981445483773346670152064277632,
      53408618835456456592712808352838907540877742394600708123102718219942763024301),
     (33759807726663336076823444229364071823938105352982913905936498568918761493702,
      5149482308127292913920045733773666604070225548940334145376420393280492507731),
     (1768430589858084186637220050642964069147829227927002308268118505378990278280,
      15112031355971535663625790974003614032663619860770070504193692207929502488255),
     (2114530644139404572640896730939959847210745725664115360538082071806087768021,
      18602128719244016616728322822172544541821795732244747185515094615924692507118),
     (35553164748613984396708061008550615318651415659874229276191129526053292300369,
      25584241417763036873422998931007743901861632417066442934196161803633002633473),
     (2802543258441610483561486897030745576437115691649666871253690925576590718512,
      40747876114255574675895634857192026007698722166388397019306672249974885697699),
     (16156512174816608866164688698217433821034445772444805996078506290161479734329,
      55668833066787078226230768993202897700328102780811486537601090202668379660042),
     (25642617154688694782683584096778241258047849052791524465859825264430943054453,
      11944319465707052963627734564822561830341555968206873257523078761283489919070),
     (49626519104615782636461673506839644991766269466049547832608512919430059762862,
      5497443879606017388126645566956597823844182433267009051391897920469032444321),
     (31480752397025564694247816226876651691785264586090852770071192750515267479274,
      55116015393685266842364943097694836093668791922548169601515429150914097604109)]
    31480752397025564694247816226876651691785264586090852770071192750515267479274
    55116015393685266842364943097694836093668791922548169601515429150914097604109"
  by (simp only: chain_rules)

lemma chain_20:
  "chain_ok 31480752397025564694247816226876651691785264586090852770071192750515267479274
    55116015393685266842364943097694836093668791922548169601515429150914097604109
    [Plus, Double, Double, Double, Minus, Double, Double, Plus, Double, Double]
    [(52131327646877776295431919521343595097771484591519613762004404956787452025444,
      2600756152904496800878921960876817649489752142638580342033073656753150502510),
     (51034108571597279640814313898224547139995309066114918255543228424837994448134,
      17756452329255929476507081398342312985211772010894063140675592204857787099866),
     (24950227638133318368102233197354859423359086609497394955119143763033301438486,
      7570568406487365188645743129620492377668355355818210710125057642188556677698),
     (15024825656302223084363865897220170448189564073885745145740092955188879101411,
      19869311249014483959337917770209003959313467823592186133975025514464572138087),
     (22099117863755106538735530764060004613157866850517076057667690246164956557830,
      785495364037636087310003685321122387638403543618727422741813996180127394678),
     (31026703742185374618485082949821731230709165413863141516654419053735671792272,
      37241772735327170643246908160350648444781752334006528059498772819509655010622),
     (39118270552832779624660189756944654802583303827645786142883129881328360291615,
      56369328790041725851357775274451092705729152700639970495966246858166523159832),
     (52342083792158370374727614144872667608985689009002321038294873356803200841972,
      55811525377971219868548330785624638807768048401024190156512133777517412559660),
     (34368776107823229272490151058211553403914843873009983247026538306844044089604,
      30802838765254136538103687456503152082522312361399994775853572848231904271463),
     (25999098604963715969723761973529063686482484967588841074550200647415173860469,
      37707281366768834079514881291858995741742037412946872097703410484561549448676)]
    25999098604963715969723761973529063686482484967588841074550200647415173860469
    37707281366768834079514881291858995741742037412946872097703410484561549448676"
  by (simp only: chain_rules)

lemma chain_21:
  "chain_ok 25999098604963715969723761973529063686482484967588841074550200647415173860469
    37707281366768834079514881291858995741742037412946872097703410484561549448676
    [Double, Minus, Double, Double, Minus, Double, Double, Minus, Double, Double]
    [(55595124298588292038986338635685663030502671456868991809220044198621644713492,
      50533305968062166658912014674466410774619257693970498741045574515245379197037),
     (43431076874807381327556601874219833526643838230460303525317306822354018632089,
      23806348433737579458261355552778025867762351277838783084535599300806587561649),
     (24320633971040616034691937556392250238342149619596774354190930659203188748020,
      29850086641312293849931154743110393339462275290071399899466799183165438758096),
     (40519817549133935161245839714606260934299755597381956110082035887616232816838,
      16067805406040477596117018176594879014725460697198124486087566574163252089352),
     (29512117818980054966164366389194530276977880034392605972525135590641765714400,
      48720646955262615510228533909916877084436988487448476128989087890232120183656),
     (38501662460899080783353028524347923947431523437931085312867623409113308768338,
      39912145381529002312510894120062048023828710437502838618309473654528153444257),
     (57473099001502131146641676095325293178985367804021270138183186200665245965966,
      4395757245430422621566561297898075021306699285705698606484301526391348304904),
     (48225605231701453106823918160491809341169977847209719186338761785639688200030,
      30288425779799683707918205956190588053803212843770298177904220309486244324014),
     (18485897695379219479251896618958576321301971785790935937486305432984567540853,
      5135115013356098684513319122605950125998461865111178353048299996305560522489),
     (16339528236496691939590721682649823247685028605055816977317060602486908857975,
      46912073065785929873180278986697487381563322510766422184469136375330933898906)]
    16339528236496691939590721682649823247685028605055816977317060602486908857975
    46912073065785929873180278986697487381563322510766422184469136375330933898906"
  by (simp only: chain_rules)

lemma chain_22:
  "chain_ok 16339528236496691939590721682649823247685028605055816977317060602486908857975
    46912073065785929873180278986697487381563322510766422184469136375330933898906
    [Plus, Double, Double, Minus, Double, Double, Minus, Double, Double, Double]
    [(27076940086259304088497255005472002329870343122472410744616316976793400064688,
      34171842007243426668715883776398827066179168756121775900756080515293489349729),
     (53851423988763201458234771516090507022935397624632157107007139480276275121757,
      23058130175782942892634133808030049606008586645637088255257623201675665724459),
     (53666692663674465996937021660083933580190865272076756750785862603679466779592,
      10064959780439503620783871876322220230593941131289925868653548018213633348471),
     (45137262569092025284729414407301427882809532068362679563485489742184618539877,
      39152969427083560789298481934482707913540559726239501343983559296144699483742),
     (45089517112505075978640451850454745490178237018656704739240861834600348426651,
      49246093414043092771711312349812257935996994109832119067476990502046567192654),
     (28392298714652158348398447396463955975955151760889252272866592097251260457906,
      32032600345213664135875957330331845248633518078279657783099818162099784295291),
     (46516069351215928195723824531537446578796494241378432717070545182826119238584,
      2593572258169826836315182778159545680380166261027146287436179586520916660317),
     (32080808650729089712689836685165055626969319743689461596394593581647775563400,
      22322086262095604931589943350594634795260992548807119827695177526400995207186),
     (50904227614069973077619089724579555230659690712761492275383683064085126711148,
      24337072882872450992312182431122328840252124559719762743561524975961913237673),
     (34282795379400204901608762835670460043884582036916316514833081028176241702263,
      24497205706531260742345875906375877421980725255924459479322111501730016531675)]
    34282795379400204901608762835670460043884582036916316514833081028176241702263
    24497205706531260742345875906375877421980725255924459479322111501730016531675"
  by (simp only: chain_rules)

lemma chain_23:
  "chain_ok 34282795379400204901608762835670460043884582036916316514833081028176241702263
    24497205706531260742345875906375877421980725255924459479322111501730016531675
    [Double, Double, Double, Double, Plus, Double, Double, Double, Plus, Double]
    [(45207237250579875287010383350935072580776376899334672728075445674857248128957,
      39496403936422486459992131965206754953856236350836269560288891189196379720652),
     (9892520292109483162572564166578499435656583822902843799552226239812497413752,
      9008749611818964087347399449852483827934081256811672802427903721465208423428),
     (26450955390802645953664691021712693689080146882962175223139059409733634075108,
      7029650407934620676104484191732264441212876711085723728871113250616960456461),
     (53225446781400123981637113255338407782598344362863930321378839546324471726739,
      27503260717915990209811022232029524814432321788172091784122867413129178028382),
     (47638900093209241086500703960377163963752889572894534682165132697181666283116,
      9414796038546579272882302064801099789234076811809801703463649773311016487315),
     (52707699458219734912636431914815688423041032854204147085330656849257502128785,
      52586691772534450039728846841482686455362345716854665075727080296838771706547),
     (2673402932148531547107587101725952916967954612901684150676566424992611920626,
      31655839118409182644619130518795716063027509376645458296855566994938982546265),
     (26931898706660821378425676654164295381909143220003310721896831866299589966997,
      27161039048821407706094934906532111534963157263474457588061893131751394556670),
     (6007178557758863974497699739583902112067564387995961943234209455561371622117,
      48542331631091881365046212303379963747331365514249702488391522452460280112193),
     (30379295610005895885873551476443218142662634496355608369107386881925725826212,
      15711646161003209074385637007322689994056268571472675329254925485257620334900)]
    30379295610005895885873551476443218142662634496355608369107386881925725826212
    15711646161003209074385637007322689994056268571472675329254925485257620334900"
  by (simp only: chain_rules)

lemma chain_24:
  "chain_ok 30379295610005895885873551476443218142662634496355608369107386881925725826212
    15711646161003209074385637007322689994056268571472675329254925485257620334900
    [Double, Plus, Double, Double, Minus, Double, Double, Double, Plus, Double]
    [(19618558156598118238544061018918908007199299033605490404590045955165031735621,
      55108462981749255908326986482108205328185594408017535509722063598025571702263),
     (40607336287149882059233436819356922560318926159436954488453122907476383117181,
      9102989576445597735614823794522991070391696370821259724366866913952227833694),
     (55932327260281331226979564077952868032826845595079660474905055803074791252563,
      41393341954190845909352392893739525739537259912798307046605680990253798775434),
     (3079401760129421825744237631154536411154406880113160097566248947099968672285,
      3428286166857322759336987760143780022442471723427131601239118589720769004239),
     (27691254005517608749097760316010025698746731598567634159107660816925038401567,
      48096188549525518152463405152899299260784975857470836686159698307190462908230),
     (4183424385098056479091527886468513445986396722568748155859335171152264882143,
      56859640691828592856089311954044441851848874316674061461239559209907989611052),
     (16543882880562123313899933023136451188033879104484481943921987163200044858969,
      26240645358455929895830302924190089779128465020963339268628074434922973607409),
     (48354901946900536552788200233915163657251902760056735011531930345400365880798,
      10379905066273012143075641691220052577901014669586258503183312161873057363892),
     (30838875703047328271605377848048645622138183887449717218448730213550565555287,
      44971630138747742161250746971656665587566196584598196205727920538192474703697),
     (29235153281986707010969463877939792635611307925160471741265481946235679235350,
      38429229678620852158999924375883379205076499546835082607919800957384984514992)]
    29235153281986707010969463877939792635611307925160471741265481946235679235350
    38429229678620852158999924375883379205076499546835082607919800957384984514992"
  by (simp only: chain_rules)

lemma chain_25:
  "chain_ok 29235153281986707010969463877939792635611307925160471741265481946235679235350
    38429229678620852158999924375883379205076499546835082607919800957384984514992
    [Double, Minus, Double, Double, Double, Plus, Double, Double, Minus, Double]
    [(50089981317178748964006572503882754851790960991506644160009066295021251152855,
      23636088700298724941525309571760808180403075266573383647802776865575272358914),
     (25850291702385039089705815863301593243824270257295058013194416816645428824643,
      52862340791569726939521175492245091512308466285024913160457364284197473719333),
     (47668506025256424057880501778284614458459873968470420885894048734073685034598,
      22777209261683400770356490794144172479419291288539475263999903657459202638785),
     (39203128155213677977345552687042741019723081864488185449160336017169539406297,
      53429556324878822811492669075039719846484716734628412067323585715668216287328),
     (17179928634608776335855279116398590624439681128104293081511127752604250091313,
      2065434119168113416192914070849982498875745002896447428818405040074261326135),
     (4144922353117243152810480408899562994955323705171970824172305814756201596517,
      2829004528134661083772855981646226030625109754227862692841122858179441063664),
     (11290844305464778430505968359496401908321422622234106461688449197121500229096,
      38590562874107096040961191645500081027934982577447786864555804237371547507423),
     (10488332957866169121738356383839611895324727341840951803155367298234446934922,
      11471620648009501897677254869258894001649104266904105945223917740386487597194),
     (10298583590938875153164971391064236052137420539887998460421844841791697024261,
      39721747537701931533897904886531262321975515991640029014413414299453786492482),
     (41624762869133589161707553839250387869259934796874863605569802240756500874970,
      34359104419271605801232395358121429974130969143944266532131005602166841500771)]
    41624762869133589161707553839250387869259934796874863605569802240756500874970
    34359104419271605801232395358121429974130969143944266532131005602166841500771"
  by (simp only: chain_rules)

lemma chain_26:
  "chain_ok 41624762869133589161707553839250387869259934796874863605569802240756500874970
    34359104419271605801232395358121429974130969143944266532131005602166841500771
    [Double, Plus, Double, Double, Plus, Double, Double, Minus, Double, Double]
    [(18771153336795610656729609871300248964384786801083351631412664812400623823017,
      527216025600113533795188917339950037295425176681845975472807790961107518504),
     (57291545147455937577630001586804989029099866304158534730175833414665057309549,
      52947328827721870730609407849680071456032189476974766600300213089895134876974),
     (46563948444541997288735240497800228441980342344995145248860956090451607482341,
      10029233439667061374595826967338523812887179514540457251339864559030767171290),
     (33683050213653020648278182468628761847364229033008629272528878908605765257871,
      37331029606741395365081079808422202610273205539470024307491581876433078389304),
     (24706218523086177483376787112725115949551995206763126460012533124774579217280,
      16489137866514228407917156360534865176084263267134786334576325840491693478501),
     (36981774452467045385117098650633043288910689518082239044216482262736714874733,
      10457742446208556931005227453590167176425996730164101287900983535459651560435),
     (20666902780287737379370935554202471935483944778878017462682229622886569996080,
      51620140242624960089184522843741335177448156146867758769380456554584863727226),
     (53207391497420779303079938693427577517702022631923726325750166037879516786781,
      57065364574989135176430307331811571222442264437874195103256844406985263915556),
     (1316250719756923422830572472409747296309658676524987440425169822677859212295,
      37823303424710859050747522507363274352645897388754807496268317955753391302417),
     (7135125029905771767710134118309785799929784643599267084515348010656546781915,
      49494294059925382365092494675890298747253804554845323806768780255456948112422)]
    7135125029905771767710134118309785799929784643599267084515348010656546781915
    49494294059925382365092494675890298747253804554845323806768780255456948112422"
  by (simp only: chain_rules)

lemma chain_27:
  "chain_ok 7135125029905771767710134118309785799929784643599267084515348010656546781915
    49494294059925382365092494675890298747253804554845323806768780255456948112422
    [Double, Minus, Double, Double, Plus, Double, Double, Double, Double, Double]
    [(19986882111358637076300240101878798667296098899055361031236553346520116406150,
      48768977865243154693778023562999936598821469685458327999463304266499015120122),
     (35659851890152512044796678277464580590585547479394426467727999487167010446979,
      57673746985498339841710763531772135533147976006905136807480650877135249691020),
     (20332050815655288025906297227560576373010587982413805215759228307698247796721,
      53922350819820610022582763428601644454111909928749845684575526777602540373518),
     (50242507862864045129014291616323898158028095038543557661265311507345511726180,
      28738936282848908552861297545615226914652032367012226095504241913487766328668),
     (51702643371336371161939708395248694056347134341350576930762055438271086540371,
      48242965942179732910521430787956089344901091917752867039077043128242980821076),
     (8651337233544864614937655472113651019921269529458161366270069715644371699291,
      9513613536782091358683734180362181818288744463129558168522066271302872726919),
     (32197685276361829824604905291361220295704803294271279814561968878211555301465,
      2627240033194254675555597294107318677155105585192393090173519720417794200252),
     (46784621587752003245117152598076975058730245813552556502364641709241665402927,
      17022539436504819287074713117774828992182172788633842282301488410488334939900),
     (16007215767515088180686667376325939398390661326182462518126900592613215166471,
      27540378749031888863141978900139580445792391880792312328405955025935968010376),
     (35277440766735136797845164038567392119520199369432431197333177684008269576342,
      48688536337347979463439820811494259769079011055972139512558912024153776514921)]
    35277440766735136797845164038567392119520199369432431197333177684008269576342
    48688536337347979463439820811494259769079011055972139512558912024153776514921"
  by (simp only: chain_rules)

lemma chain_28:
  "chain_ok 35277440766735136797845164038567392119520199369432431197333177684008269576342
    48688536337347979463439820811494259769079011055972139512558912024153776514921
    [Minus, Double, Double, Minus, Double, Double, Double, Minus, Double, Double]
    [(46666459176753131046823676944565659094785201724482621282193245285095012709790,
      21600689085119449609658389880917413595780475183376123151717112044743399973196),
     (36097318395395426498420127765880383055870772808296753240717799665490471158375,
      3579563169629665160287959413185451624763586891394058358931156536848764407592),
     (31210942055399756483061352522857582198362990008873110167309680058946414672026,
      38631041007188221059882063615127315677000573782200300853599221112128117953740),
     (30532382206583154910861244602140910674309197985832262580923834240905871911720,
      51384440294373870157723758376059751049563161051155382540105461351501894186963),
     (45834785362565108037072354119729275029888105761131959257183920166138956862473,
      39848980673887148179480713504000441049812340902295764813057730778374202691133),
     (4762769154787163016519790307827192863242971148833355907155375070005920789481,
      34740637264365280925674591759960905974053628634017297013213219529028976476259),
     (50436187183327803155011694245889673347557365056432847656244176517690553417358,
      51953374768860733733050005603273648285184788399260001160808294149727041553316),
     (28842322866662695101697430760900425762679659409644402323439306366411147837946,
      9761178027016640074682791369973620950860201088524020599458394503989755496560),
     (37506276807084222626353825328018893399078232438955536360852282380883455200981,
      2492126853213382445177156677230850023112426627203254834806236867597778582191),
     (22847219772423635185681153393094833246866319033157594545808682649676972131368,
      24427505239755214185516880459940309536382996784490331653087388143460021280905)]
    22847219772423635185681153393094833246866319033157594545808682649676972131368
    24427505239755214185516880459940309536382996784490331653087388143460021280905"
  by (simp only: chain_rules)

lemma chain_29:
  "chain_ok 22847219772423635185681153393094833246866319033157594545808682649676972131368
    24427505239755214185516880459940309536382996784490331653087388143460021280905
    [Plus, Double, Double, Plus, Double, Double, Double, Double, Double, Double]
    [(15607491374204947381801637572098982197401030839946607366513930992352658701411,
      26091167286181408863558197301785676569014798891055641832243596720412745066288),
     (8339407891475578256109406314033389688077825897931079265545181224721380128309,
      14411104097030611677840457467204474875789736621984749864130968427849626073984),
     (39264564646777584416147252555802575144227215801683492967450929427167060917054,
      40065731243285388296861411513965264594756594454614871647746646604496551058896),
     (46593435495744715020672664888063754677993725040539838165700912006484118999523,
      6184207146829393320394584432233839903776734660939432435863767701989619860799),
     (57165895793437084695106801787495665366194723920169385179659507313863933360681,
      2989231151106557323982520276596353899206967617558656518042853229188330413083),
     (31895624473291123789018220802293711050144479056784563026429867190475105641006,
      10771926440484484757887302271287764388906999730202865354578275059380596751778),
     (21999094793999771565690834225182121988801615151105967779963700019436819994720,
      10133810452888289922893253400723087250371289048390072583944583886702317124654),
     (28786071305638695160677707531849877709691692688162054374745056235267179585971,
      44888880574965070969680288195525954947174928981308784880215663154269506631135),
     (5202743647293514483676765421618058157834534870746705589527087815911609681896,
      49107268058472917811282127073517535025996065872035105402974338299116709798514),
     (18748045528636256697629217925261555933660640282100232904828998061424062624473,
      17160921120821895255030203167060008450563231210343029997626087076301211088155)]
    18748045528636256697629217925261555933660640282100232904828998061424062624473
    17160921120821895255030203167060008450563231210343029997626087076301211088155"
  by (simp only: chain_rules)

lemma chain_30:
  "chain_ok 18748045528636256697629217925261555933660640282100232904828998061424062624473
    17160921120821895255030203167060008450563231210343029997626087076301211088155
    [Minus, Double, Double, Minus, Double, Double, Plus]
    [(49429005612403924726939794817851603115489248478926998584507420813685747816467,
      2427239828737618402503645699226164544756310857301524096666599454616175945838),
     (37766767977155717542642740447647637732772135193385368181881340430509329139017,
      36933429072305127679812476707465846911169323454076736822020666927087165964181),
     (43873730497058157105841696072259217378872788258232669999924523087714562184740,
      19454761042872811306052411244413606800503572537069278762382333313170400441105),
     (51872155851566556063538290990191317148460249988409666650861039146474861596918,
      11802273043629714068065006270029927896359548511386885817262733898970000288062),
     (21899774947921560910852297759271069639382909542664740987399982237893057430496,
      50991681853204441562074798379791702070647292781544839766488688163191875246508),
     (42783823269122696939284341094755422415180979639778424813682678720006717057747,
      46316835694926478169428394003475163141307993866256225615783033603165251855960),
     (0,
      1)]
    0
    1"
  by (simp only: chain_rules)

end
