(* ===== verification/VL_Order_Prime.thy ===== *)
theory VL_Order_Prime
  imports VL_Hex VL_Prime
begin

text \<open>
  The order of the group of the signatures, \<open>2 ^ 252 + 27742317777372353535851937790883648493\<close>, is
  prime: a chain of certificates as in \<open>VL_Prime\<close>, its powers of two computed digit by digit, with
  the quotients of the reduction estimated from the digits above.
\<close>

section \<open>Squares modulo a number\<close>

definition times_bit :: "bool \<Rightarrow> nat \<Rightarrow> nat" where "times_bit b s = (if b then s + s else s)"

text \<open>Takes off the leading digit that the complement has put above n digits.\<close>

definition strip :: "nat \<Rightarrow> nat \<Rightarrow> nat \<Rightarrow> nat \<Rightarrow> nat \<Rightarrow> nat" where
  "strip m n h l v = (if h = 1 then l else v + (m - 1) * 16 ^ n)"

definition barrett_strip :: "nat \<Rightarrow> nat \<Rightarrow> nat \<Rightarrow> nat" where
  "barrett_strip m n v = strip m n (dhi n v) (dlo n v) v"

definition barrett_sub :: "nat \<Rightarrow> nat \<Rightarrow> nat \<Rightarrow> nat \<Rightarrow> nat" where
  "barrett_sub m n s y = barrett_strip m n (HA s (HA (ng m n y) (d1 0)))"

definition barrett :: "nat \<Rightarrow> nat \<Rightarrow> nat \<Rightarrow> nat \<Rightarrow> nat \<Rightarrow> nat \<Rightarrow> nat" where
  "barrett m rc a b n s = barrett_sub m n s (HM (dhi b (HM (dhi a s) rc)) m)"

definition barrett_sq :: "nat \<Rightarrow> nat \<Rightarrow> nat \<Rightarrow> nat \<Rightarrow> nat \<Rightarrow> bool \<Rightarrow> nat \<Rightarrow> nat" where
  "barrett_sq m rc a b n c x = barrett m rc a b n (times_bit c (HM x x))"

primrec squares :: "(bool \<Rightarrow> nat \<Rightarrow> nat) \<Rightarrow> bool list \<Rightarrow> nat \<Rightarrow> nat" where
  "squares f [] x = x"
| "squares f (b # bs) x = squares f bs (f b x)"

primrec exponent :: "bool list \<Rightarrow> nat \<Rightarrow> nat" where
  "exponent [] e = e"
| "exponent (b # bs) e = exponent bs (if b then 2 * e + 1 else 2 * e)"

lemma mod_add_cancel:
  assumes "0 < m" and "(a + c) mod m = (b + c) mod m"
  shows "a mod m = b mod (m :: nat)"
proof -
  have "(a + c + (m - 1) * c) mod m = (b + c + (m - 1) * c) mod m" by (rule mod_add_cong [OF assms(2) refl])
  moreover have "a + c + (m - 1) * c = a + m * c" "b + c + (m - 1) * c = b + m * c" using assms(1) by (cases m; simp)+
  ultimately show ?thesis by (simp only: mod_mult_self2)
qed

lemma barrett_mod:
  assumes "0 < m"
  shows "barrett m rc a b n s mod m = s mod m"
proof -
  define q where "q = dhi b (HM (dhi a s) rc)"
  define v where "v = s + (ng m n (q * m) + 1)"
  have "(ng m n (q * m) + q * m + 1) mod m = 16 ^ n mod m" by (rule ng_cong [OF assms])
  moreover have "ng m n (q * m) + q * m + 1 = ng m n (q * m) + 1 + q * m" by simp
  ultimately have "(ng m n (q * m) + 1) mod m = 16 ^ n mod m" by (metis mod_mult_self3 add.commute)
  then have v: "v mod m = (s + 16 ^ n) mod m" unfolding v_def by (rule mod_add_cong [OF refl])
  have b: "barrett m rc a b n s = strip m n (dhi n v) (dlo n v) v"
    by (simp add: barrett_def barrett_sub_def barrett_strip_def q_def v_def HA_def HM_def d1_def dg_def)
  show ?thesis
  proof (cases "dhi n v = 1")
    case True
    then have "dlo n v + 16 ^ n = v" using dlo_dhi [of n v] by simp
    then have "(dlo n v + 16 ^ n) mod m = (s + 16 ^ n) mod m" using v by simp
    then have "dlo n v mod m = s mod m" by (rule mod_add_cancel [OF assms])
    then show ?thesis by (simp add: b strip_def True)
  next
    case False
    have "(v + (m - 1) * 16 ^ n) mod m = (s + 16 ^ n + (m - 1) * 16 ^ n) mod m" by (rule mod_add_cong [OF v refl])
    also have "s + 16 ^ n + (m - 1) * 16 ^ n = s + m * 16 ^ n" using assms by (cases m) simp_all
    finally have "(v + (m - 1) * 16 ^ n) mod m = s mod m" by (simp only: mod_mult_self2)
    moreover have "barrett m rc a b n s = v + (m - 1) * 16 ^ n" unfolding b strip_def using False by (rule if_not_P)
    ultimately show ?thesis by simp
  qed
qed

text \<open>What a modulus needs to be used: its squares stay in the class of the square, doubled for a
  bit that is set.\<close>

definition squares_mod :: "nat \<Rightarrow> (bool \<Rightarrow> nat \<Rightarrow> nat) \<Rightarrow> bool" where
  "squares_mod m f \<longleftrightarrow> (\<forall>c x. f c x mod m = times_bit c (x * x) mod m)"

lemma squares_mod_barrett: "0 < m \<Longrightarrow> squares_mod m (barrett_sq m rc a b n)"
  by (simp add: squares_mod_def barrett_sq_def barrett_mod HM_def)

definition pow2 :: "nat \<Rightarrow> nat \<Rightarrow> nat \<Rightarrow> bool" where "pow2 m e x \<longleftrightarrow> x mod m = 2 ^ e mod m"

lemma pow2_squares:
  assumes "squares_mod m f"
  shows "pow2 m e x \<Longrightarrow> pow2 m (exponent bs e) (squares f bs x)"
proof (induction bs arbitrary: e x)
  case (Cons b bs)
  have "x * x mod m = 2 ^ e * 2 ^ e mod m" using Cons.prems by (metis mod_mult_cong pow2_def)
  then have "times_bit b (x * x) mod m = times_bit b (2 ^ e * 2 ^ e) mod m"
    by (auto simp: times_bit_def intro: mod_add_cong)
  moreover have "times_bit b (2 ^ e * 2 ^ e) = 2 ^ (if b then 2 * e + 1 else 2 * e)"
    by (simp add: times_bit_def mult_2 power_add)
  ultimately have "pow2 m (if b then 2 * e + 1 else 2 * e) (f b x)"
    using assms by (simp add: pow2_def squares_mod_def)
  from Cons.IH [OF this] show ?case by simp
qed simp

lemma pow2_chunk:
  assumes "pow2 m e x" and "squares_mod m f" and "exponent bs e = e'" and "squares f bs x = y"
  shows "pow2 m e' y"
  using pow2_squares [OF assms(2,1), of bs] assms(3,4) by simp

lemma pow2_pw: "pow2 m e x \<Longrightarrow> pw (int m) e (int x)"
  unfolding pow2_def pw_def by (metis zmod_int of_nat_numeral of_nat_power)

lemma pow2_pocklington:
  assumes "is_prime r" and "n = r * R + 1" and "R div r + 1 < R mod r"
    and "pow2 n (r * R) x" and "x mod n = 1" and "pow2 n R v" and "1 \<le> v" and "(v - 1) * u mod n = 1"
  shows "is_prime n"
proof (rule pw_pocklington [OF assms(1-3)])
  have "pw (int n) (r * R) (int x)" by (rule pow2_pw [OF assms(4)])
  moreover have "int x mod int n = 1 mod int n" using assms(5) by (metis mod_mod_trivial of_nat_1 zmod_int)
  ultimately show "pw (int n) (r * R) 1" by (simp add: pw_def)
  show "pw (int n) R (int v)" by (rule pow2_pw [OF assms(6)])
  have "int ((v - 1) * u) mod int n = 1" using assms(8) by (metis of_nat_1 zmod_int)
  then show "(int v - 1) * int u mod int n = 1" using assms(7) by (simp add: of_nat_diff)
qed

text \<open>The rules of an evaluation.\<close>

lemma bit_rules: "times_bit True s = HA s s" "times_bit False s = s" "strip m n (d1 0) l v = l"
  by (simp_all add: times_bit_def strip_def HA_def d1_def dg_def)

lemmas square_rules =
  squares.simps barrett_sq_def barrett_def barrett_sub_def barrett_strip_def bit_rules split_rules mul_rules numeral_hex numeral_top

text \<open>Numbers of digits.\<close>

definition digits5 :: nat where "digits5 = 5"

lemma digits5_Suc:
  "digits5 =
   Suc (Suc (Suc (Suc (Suc 0))))"
  by (simp add: digits5_def)

definition digits7 :: nat where "digits7 = 7"

lemma digits7_Suc:
  "digits7 =
   Suc (Suc (Suc (Suc (Suc (Suc (Suc 0))))))"
  by (simp add: digits7_def)

definition digits13 :: nat where "digits13 = 13"

lemma digits13_Suc:
  "digits13 =
   Suc (Suc (Suc (Suc (Suc (Suc (Suc (Suc (Suc (Suc (Suc (Suc (Suc 0))))))))))))"
  by (simp add: digits13_def)

definition digits15 :: nat where "digits15 = 15"

lemma digits15_Suc:
  "digits15 =
   Suc (Suc (Suc (Suc (Suc (Suc (Suc (Suc (Suc (Suc (Suc (Suc (Suc (Suc (Suc 0))))))))))))))"
  by (simp add: digits15_def)

definition digits16 :: nat where "digits16 = 16"

lemma digits16_Suc:
  "digits16 =
   Suc (Suc (Suc (Suc (Suc (Suc (Suc (Suc (Suc (Suc (Suc (Suc (Suc (Suc (Suc (Suc 0)))))))))))))))"
  by (simp add: digits16_def)

definition digits18 :: nat where "digits18 = 18"

lemma digits18_Suc:
  "digits18 =
   Suc (Suc (Suc (Suc (Suc (Suc (Suc (Suc (Suc (Suc (Suc (Suc (Suc (Suc (Suc (Suc (Suc (Suc 0)))))))))))))))))"
  by (simp add: digits18_def)

definition digits22 :: nat where "digits22 = 22"

lemma digits22_Suc:
  "digits22 =
   Suc (Suc (Suc (Suc (Suc (Suc (Suc (Suc (Suc (Suc (Suc (Suc (Suc (Suc (Suc (Suc (Suc (Suc (Suc (Suc (Suc (Suc 0)))))))))))))))))))))"
  by (simp add: digits22_def)

definition digits24 :: nat where "digits24 = 24"

lemma digits24_Suc:
  "digits24 =
   Suc (Suc (Suc (Suc (Suc (Suc (Suc (Suc (Suc (Suc (Suc (Suc (Suc (Suc (Suc (Suc (Suc (Suc (Suc (Suc (Suc (Suc (Suc (Suc 0)))))))))))))))))))))))"
  by (simp add: digits24_def)

definition digits29 :: nat where "digits29 = 29"

lemma digits29_Suc:
  "digits29 =
   Suc (Suc (Suc (Suc (Suc (Suc (Suc (Suc (Suc (Suc (Suc (Suc (Suc (Suc (Suc (Suc (Suc (Suc (Suc (Suc (Suc (Suc (Suc (Suc (Suc (Suc (Suc (Suc (Suc 0
   ))))))))))))))))))))))))))))"
  by (simp add: digits29_def)

definition digits34 :: nat where "digits34 = 34"

lemma digits34_Suc:
  "digits34 =
   Suc (Suc (Suc (Suc (Suc (Suc (Suc (Suc (Suc (Suc (Suc (Suc (Suc (Suc (Suc (Suc (Suc (Suc (Suc (Suc (Suc (Suc (Suc (Suc (Suc (Suc (Suc (Suc (Suc (
   Suc (Suc (Suc (Suc (Suc 0)))))))))))))))))))))))))))))))))"
  by (simp add: digits34_def)

definition digits35 :: nat where "digits35 = 35"

lemma digits35_Suc:
  "digits35 =
   Suc (Suc (Suc (Suc (Suc (Suc (Suc (Suc (Suc (Suc (Suc (Suc (Suc (Suc (Suc (Suc (Suc (Suc (Suc (Suc (Suc (Suc (Suc (Suc (Suc (Suc (Suc (Suc (Suc (
   Suc (Suc (Suc (Suc (Suc (Suc 0))))))))))))))))))))))))))))))))))"
  by (simp add: digits35_def)

definition digits36 :: nat where "digits36 = 36"

lemma digits36_Suc:
  "digits36 =
   Suc (Suc (Suc (Suc (Suc (Suc (Suc (Suc (Suc (Suc (Suc (Suc (Suc (Suc (Suc (Suc (Suc (Suc (Suc (Suc (Suc (Suc (Suc (Suc (Suc (Suc (Suc (Suc (Suc (
   Suc (Suc (Suc (Suc (Suc (Suc (Suc 0)))))))))))))))))))))))))))))))))))"
  by (simp add: digits36_def)

definition digits37 :: nat where "digits37 = 37"

lemma digits37_Suc:
  "digits37 =
   Suc (Suc (Suc (Suc (Suc (Suc (Suc (Suc (Suc (Suc (Suc (Suc (Suc (Suc (Suc (Suc (Suc (Suc (Suc (Suc (Suc (Suc (Suc (Suc (Suc (Suc (Suc (Suc (Suc (
   Suc (Suc (Suc (Suc (Suc (Suc (Suc (Suc 0))))))))))))))))))))))))))))))))))))"
  by (simp add: digits37_def)

definition digits47 :: nat where "digits47 = 47"

lemma digits47_Suc:
  "digits47 =
   Suc (Suc (Suc (Suc (Suc (Suc (Suc (Suc (Suc (Suc (Suc (Suc (Suc (Suc (Suc (Suc (Suc (Suc (Suc (Suc (Suc (Suc (Suc (Suc (Suc (Suc (Suc (Suc (Suc (
   Suc (Suc (Suc (Suc (Suc (Suc (Suc (Suc (Suc (Suc (Suc (Suc (Suc (Suc (Suc (Suc (Suc (Suc 0))))))))))))))))))))))))))))))))))))))))))))))"
  by (simp add: digits47_def)

definition digits63 :: nat where "digits63 = 63"

lemma digits63_Suc:
  "digits63 =
   Suc (Suc (Suc (Suc (Suc (Suc (Suc (Suc (Suc (Suc (Suc (Suc (Suc (Suc (Suc (Suc (Suc (Suc (Suc (Suc (Suc (Suc (Suc (Suc (Suc (Suc (Suc (Suc (Suc (
   Suc (Suc (Suc (Suc (Suc (Suc (Suc (Suc (Suc (Suc (Suc (Suc (Suc (Suc (Suc (Suc (Suc (Suc (Suc (Suc (Suc (Suc (Suc (Suc (Suc (Suc (Suc (Suc (Suc (
   Suc (Suc (Suc (Suc (Suc 0))))))))))))))))))))))))))))))))))))))))))))))))))))))))))))))"
  by (simp add: digits63_def)

definition digits65 :: nat where "digits65 = 65"

lemma digits65_Suc:
  "digits65 =
   Suc (Suc (Suc (Suc (Suc (Suc (Suc (Suc (Suc (Suc (Suc (Suc (Suc (Suc (Suc (Suc (Suc (Suc (Suc (Suc (Suc (Suc (Suc (Suc (Suc (Suc (Suc (Suc (Suc (
   Suc (Suc (Suc (Suc (Suc (Suc (Suc (Suc (Suc (Suc (Suc (Suc (Suc (Suc (Suc (Suc (Suc (Suc (Suc (Suc (Suc (Suc (Suc (Suc (Suc (Suc (Suc (Suc (Suc (
   Suc (Suc (Suc (Suc (Suc (Suc (Suc 0))))))))))))))))))))))))))))))))))))))))))))))))))))))))))))))))"
  by (simp add: digits65_def)

definition digits71 :: nat where "digits71 = 71"

lemma digits71_Suc:
  "digits71 =
   Suc (Suc (Suc (Suc (Suc (Suc (Suc (Suc (Suc (Suc (Suc (Suc (Suc (Suc (Suc (Suc (Suc (Suc (Suc (Suc (Suc (Suc (Suc (Suc (Suc (Suc (Suc (Suc (Suc (
   Suc (Suc (Suc (Suc (Suc (Suc (Suc (Suc (Suc (Suc (Suc (Suc (Suc (Suc (Suc (Suc (Suc (Suc (Suc (Suc (Suc (Suc (Suc (Suc (Suc (Suc (Suc (Suc (Suc (
   Suc (Suc (Suc (Suc (Suc (Suc (Suc (Suc (Suc (Suc (Suc (Suc (Suc 0))))))))))))))))))))))))))))))))))))))))))))))))))))))))))))))))))))))"
  by (simp add: digits71_def)

definition digits73 :: nat where "digits73 = 73"

lemma digits73_Suc:
  "digits73 =
   Suc (Suc (Suc (Suc (Suc (Suc (Suc (Suc (Suc (Suc (Suc (Suc (Suc (Suc (Suc (Suc (Suc (Suc (Suc (Suc (Suc (Suc (Suc (Suc (Suc (Suc (Suc (Suc (Suc (
   Suc (Suc (Suc (Suc (Suc (Suc (Suc (Suc (Suc (Suc (Suc (Suc (Suc (Suc (Suc (Suc (Suc (Suc (Suc (Suc (Suc (Suc (Suc (Suc (Suc (Suc (Suc (Suc (Suc (
   Suc (Suc (Suc (Suc (Suc (Suc (Suc (Suc (Suc (Suc (Suc (Suc (Suc (Suc (Suc 0))))))))))))))))))))))))))))))))))))))))))))))))))))))))))))))))))))))))"
  by (simp add: digits73_def)

definition digits129 :: nat where "digits129 = 129"

lemma digits129_Suc:
  "digits129 =
   Suc (Suc (Suc (Suc (Suc (Suc (Suc (Suc (Suc (Suc (Suc (Suc (Suc (Suc (Suc (Suc (Suc (Suc (Suc (Suc (Suc (Suc (Suc (Suc (Suc (Suc (Suc (Suc (Suc (
   Suc (Suc (Suc (Suc (Suc (Suc (Suc (Suc (Suc (Suc (Suc (Suc (Suc (Suc (Suc (Suc (Suc (Suc (Suc (Suc (Suc (Suc (Suc (Suc (Suc (Suc (Suc (Suc (Suc (
   Suc (Suc (Suc (Suc (Suc (Suc (Suc (Suc (Suc (Suc (Suc (Suc (Suc (Suc (Suc (Suc (Suc (Suc (Suc (Suc (Suc (Suc (Suc (Suc (Suc (Suc (Suc (Suc (Suc (
   Suc (Suc (Suc (Suc (Suc (Suc (Suc (Suc (Suc (Suc (Suc (Suc (Suc (Suc (Suc (Suc (Suc (Suc (Suc (Suc (Suc (Suc (Suc (Suc (Suc (Suc (Suc (Suc (Suc (
   Suc (Suc (Suc (Suc (Suc (Suc (Suc (Suc (Suc (Suc (Suc (Suc (Suc 0
   ))))))))))))))))))))))))))))))))))))))))))))))))))))))))))))))))))))))))))))))))))))))))))))))))))))))))))))))))))))))))))))))))"
  by (simp add: digits129_def)

lemmas digits_Suc =
  digits5_Suc digits7_Suc digits13_Suc digits15_Suc digits16_Suc digits18_Suc digits22_Suc digits24_Suc digits29_Suc digits34_Suc digits35_Suc
  digits36_Suc digits37_Suc digits47_Suc digits63_Suc digits65_Suc digits71_Suc digits73_Suc digits129_Suc

definition ord20 :: nat where "ord20 = 531581"

definition ord51 :: nat where "ord51 = 1257559732178653"

definition ord62 :: nat where "ord62 = 4434155615661930479"

definition ord88 :: nat where "ord88 = 172054593956031949258510691"

definition ord134 :: nat where "ord134 = 19757330305831588566944191468367130476339"

definition ord138 :: nat where "ord138 = 276602624281642239937218680557139826668747"

definition ord253 :: nat where "ord253 = 7237005577332262213973186563042994240857116359379907606001950938285454250989"

lemma is_prime_3797: "is_prime 3797"
proof (rule is_prime_trial [where k = 62])
  have "list_all (\<lambda>d. 3797 mod d \<noteq> (0 :: nat)) [2..<62]" by (simp add: upt_rec)
  then show "3797 mod d \<noteq> 0" if "d \<in> {2..<62}" for d :: nat using that unfolding list_all_iff set_upt by blast
qed simp_all

section \<open>The prime of 20 bits\<close>

definition square_ord20 :: "bool \<Rightarrow> nat \<Rightarrow> nat" where
  "square_ord20 = barrett_sq ord20
    529505337 digits5 digits7 digits13"

lemma squares_mod_ord20: "squares_mod ord20 square_ord20"
  unfolding square_ord20_def by (rule squares_mod_barrett) (simp add: ord20_def)

lemmas rules_ord20 = square_ord20_def digits_Suc ord20_def square_rules

lemma ord20_low_1:
  assumes "pow2 ord20 17 131072"
  shows "pow2 ord20 140 1095463"
proof (rule pow2_chunk [OF assms squares_mod_ord20])
  let ?bs = "[True, False, False]"
  show "exponent ?bs 17 = 140" by simp
  show "squares square_ord20 ?bs 131072 = 1095463"
    by (simp only: rules_ord20)
qed

lemma ord20_low: "pow2 ord20 140 1095463"
proof -
  have "pow2 ord20 17 131072" by (simp add: pow2_def)
  from ord20_low_1 [OF this] show ?thesis .
qed

lemma ord20_high_1:
  assumes "pow2 ord20 16 65536"
  shows "pow2 ord20 531580 1063163"
proof (rule pow2_chunk [OF assms squares_mod_ord20])
  let ?bs = "[False, False, True, True, True, False, False, False, True, True, True, True, True, False, False]"
  show "exponent ?bs 16 = 531580" by simp
  show "squares square_ord20 ?bs 65536 = 1063163"
    by (simp only: rules_ord20)
qed

lemma ord20_high: "pow2 ord20 531580 1063163"
proof -
  have "pow2 ord20 16 65536" by (simp add: pow2_def)
  from ord20_high_1 [OF this] show ?thesis .
qed

theorem is_prime_ord20: "is_prime ord20"
proof (rule pow2_pocklington [OF is_prime_3797])
  have e: "3797 * 140 = (531580 :: nat)" by (simp)
  show "ord20 = 3797 * 140 + 1" by (simp only: e) (simp add: ord20_def)
  show "140 div 3797 + 1 < 140 mod (3797 :: nat)" by (simp)
  show "pow2 ord20 (3797 * 140) 1063163" unfolding e by (rule ord20_high)
  show "1063163 mod ord20 = 1" by (simp add: ord20_def)
  show "pow2 ord20 140 1095463" by (rule ord20_low)
  have e: "(1095463 - 1) * 50673 = 104425 * ord20 + (1 :: nat)" by (simp add: ord20_def)
  show "(1095463 - 1) * 50673 mod ord20 = 1" unfolding e by (simp add: ord20_def)
qed simp

section \<open>The prime of 51 bits\<close>

definition square_ord51 :: "bool \<Rightarrow> nat \<Rightarrow> nat" where
  "square_ord51 = barrett_sq ord51
    4128866983947918869 digits13 digits15 digits29"

lemma squares_mod_ord51: "squares_mod ord51 square_ord51"
  unfolding square_ord51_def by (rule squares_mod_barrett) (simp add: ord51_def)

lemmas rules_ord51 = square_ord51_def digits_Suc ord51_def square_rules

lemma ord51_low_1:
  assumes "pow2 ord51 17 131072"
  shows "pow2 ord51 2365697292 2397401766761877"
proof (rule pow2_chunk [OF assms squares_mod_ord51])
  let ?bs = "[True, False, True, False, False, False, False, False, False, False, True, True, False, True, False, True, True, False, True, False, False,
      False, False, True, True, False, False]"
  show "exponent ?bs 17 = 2365697292" by simp
  show "squares square_ord51 ?bs 131072 = 2397401766761877"
    by (simp only: rules_ord51)
qed

lemma ord51_low: "pow2 ord51 2365697292 2397401766761877"
proof -
  have "pow2 ord51 17 131072" by (simp add: pow2_def)
  from ord51_low_1 [OF this] show ?thesis .
qed

lemma ord51_high_1:
  assumes "pow2 ord51 17 131072"
  shows "pow2 ord51 1257559732178652 3772679196535960"
proof (rule pow2_chunk [OF assms squares_mod_ord51])
  let ?bs = "[True, True, False, True, True, True, True, False, True, True, True, True, True, False, False, True, True, True, False, False, False, True,
      False, False, False, True, True, True, True, False, True, True, False, False, True, True, True, False, True, True, False, True, True, True,
      False, False]"
  show "exponent ?bs 17 = 1257559732178652" by simp
  show "squares square_ord51 ?bs 131072 = 3772679196535960"
    by (simp only: rules_ord51)
qed

lemma ord51_high: "pow2 ord51 1257559732178652 3772679196535960"
proof -
  have "pow2 ord51 17 131072" by (simp add: pow2_def)
  from ord51_high_1 [OF this] show ?thesis .
qed

theorem is_prime_ord51: "is_prime ord51"
proof (rule pow2_pocklington [OF is_prime_ord20])
  have e: "ord20 * 2365697292 = (1257559732178652 :: nat)" by (simp add: ord20_def)
  show "ord51 = ord20 * 2365697292 + 1" by (simp only: e) (simp add: ord51_def)
  show "2365697292 div ord20 + 1 < 2365697292 mod (ord20 :: nat)" by (simp add: ord20_def)
  show "pow2 ord51 (ord20 * 2365697292) 3772679196535960" unfolding e by (rule ord51_high)
  show "3772679196535960 mod ord51 = 1" by (simp add: ord51_def)
  show "pow2 ord51 2365697292 2397401766761877" by (rule ord51_low)
  have e: "(2397401766761877 - 1) * 212927577457398 = 405923422424099 * ord51 + (1 :: nat)" by (simp add: ord51_def)
  show "(2397401766761877 - 1) * 212927577457398 mod ord51 = 1" unfolding e by (simp add: ord51_def)
qed simp

section \<open>The prime of 62 bits\<close>

definition square_ord62 :: "bool \<Rightarrow> nat \<Rightarrow> nat" where
  "square_ord62 = barrett_sq ord62
    19645743966240149632804 digits16 digits18 digits35"

lemma squares_mod_ord62: "squares_mod ord62 square_ord62"
  unfolding square_ord62_def by (rule squares_mod_barrett) (simp add: ord62_def)

lemmas rules_ord62 = square_ord62_def digits_Suc ord62_def square_rules

lemma ord62_low_1:
  assumes "pow2 ord62 27 134217728"
  shows "pow2 ord62 3526 4849943428298212246"
proof (rule pow2_chunk [OF assms squares_mod_ord62])
  let ?bs = "[True, False, False, False, True, True, False]"
  show "exponent ?bs 27 = 3526" by simp
  show "squares square_ord62 ?bs 134217728 = 4849943428298212246"
    by (simp only: rules_ord62)
qed

lemma ord62_low: "pow2 ord62 3526 4849943428298212246"
proof -
  have "pow2 ord62 27 134217728" by (simp add: pow2_def)
  from ord62_low_1 [OF this] show ?thesis .
qed

lemma ord62_high_1:
  assumes "pow2 ord62 30 1073741824"
  shows "pow2 ord62 1082557523354963 7882889396476176968"
proof (rule pow2_chunk [OF assms squares_mod_ord62])
  let ?bs = "[True, True, False, False, False, True, False, False, True, False, True, False, False, True, False, False, True, False, False, False, False,
      True, False, True, False, False, False, False, False, True, True, True, False, False, True, False, True, False, True, False, True, False, False,
      True, True]"
  show "exponent ?bs 30 = 1082557523354963" by simp
  show "squares square_ord62 ?bs 1073741824 = 7882889396476176968"
    by (simp only: rules_ord62)
qed

lemma ord62_high_2:
  assumes "pow2 ord62 1082557523354963 7882889396476176968"
  shows "pow2 ord62 4434155615661930478 17736622462647721917"
proof (rule pow2_chunk [OF assms squares_mod_ord62])
  let ?bs = "[False, True, True, True, True, True, True, False, True, True, True, False]"
  show "exponent ?bs 1082557523354963 = 4434155615661930478" by simp
  show "squares square_ord62 ?bs 7882889396476176968 = 17736622462647721917"
    by (simp only: rules_ord62)
qed

lemma ord62_high: "pow2 ord62 4434155615661930478 17736622462647721917"
proof -
  have "pow2 ord62 30 1073741824" by (simp add: pow2_def)
  from ord62_high_2 [OF ord62_high_1 [OF this]] show ?thesis .
qed

theorem is_prime_ord62: "is_prime ord62"
proof (rule pow2_pocklington [OF is_prime_ord51])
  have e: "ord51 * 3526 = (4434155615661930478 :: nat)" by (simp add: ord51_def)
  show "ord62 = ord51 * 3526 + 1" by (simp only: e) (simp add: ord62_def)
  show "3526 div ord51 + 1 < 3526 mod (ord51 :: nat)" by (simp add: ord51_def)
  show "pow2 ord62 (ord51 * 3526) 17736622462647721917" unfolding e by (rule ord62_high)
  show "17736622462647721917 mod ord62 = 1" by (simp add: ord62_def)
  show "pow2 ord62 3526 4849943428298212246" by (rule ord62_low)
  have e: "(4849943428298212246 - 1) * 1010501025739283171 = 1105255032494216386 * ord62 + (1 :: nat)" by (simp add: ord62_def)
  show "(4849943428298212246 - 1) * 1010501025739283171 mod ord62 = 1" unfolding e by (simp add: ord62_def)
qed simp

section \<open>The prime of 88 bits\<close>

definition square_ord88 :: "bool \<Rightarrow> nat \<Rightarrow> nat" where
  "square_ord88 = barrett_sq ord88
    142512490309443397593644975125 digits22 digits24 digits47"

lemma squares_mod_ord88: "squares_mod ord88 square_ord88"
  unfolding square_ord88_def by (rule squares_mod_barrett) (simp add: ord88_def)

lemmas rules_ord88 = square_ord88_def digits_Suc ord88_def square_rules

lemma ord88_low_1:
  assumes "pow2 ord88 18 262144"
  shows "pow2 ord88 38802110 254036831575839004028408398"
proof (rule pow2_chunk [OF assms squares_mod_ord88])
  let ?bs = "[True, False, False, False, False, False, False, False, True, False, False, True, False, True, False, True, True, True, True, True, False]"
  show "exponent ?bs 18 = 38802110" by simp
  show "squares square_ord88 ?bs 262144 = 254036831575839004028408398"
    by (simp only: rules_ord88)
qed

lemma ord88_low: "pow2 ord88 38802110 254036831575839004028408398"
proof -
  have "pow2 ord88 18 262144" by (simp add: pow2_def)
  from ord88_low_1 [OF this] show ?thesis .
qed

lemma ord88_high_1:
  assumes "pow2 ord88 17 131072"
  shows "pow2 ord88 152815177362 57861796522635521682388178"
proof (rule pow2_chunk [OF assms squares_mod_ord88])
  let ?bs = "[True, True, False, False, True, False, True, False, False, False, True, True, True, True, True, True, False, True, False, False, False, True,
      True, True, False, True, False, False, True, False, False, True, False]"
  show "exponent ?bs 17 = 152815177362" by simp
  show "squares square_ord88 ?bs 131072 = 57861796522635521682388178"
    by (simp only: rules_ord88)
qed

lemma ord88_high_2:
  assumes "pow2 ord88 152815177362 57861796522635521682388178"
  shows "pow2 ord88 1312672378204589456623 51166245551536598435041902"
proof (rule pow2_chunk [OF assms squares_mod_ord88])
  let ?bs = "[False, False, False, False, False, False, True, True, True, True, True, False, False, False, True, False, False, True, True, True, True, True,
      True, False, False, True, True, True, False, True, True, True, True]"
  show "exponent ?bs 152815177362 = 1312672378204589456623" by simp
  show "squares square_ord88 ?bs 57861796522635521682388178 = 51166245551536598435041902"
    by (simp only: rules_ord88)
qed

lemma ord88_high_3:
  assumes "pow2 ord88 1312672378204589456623 51166245551536598435041902"
  shows "pow2 ord88 172054593956031949258510690 172054593956031949258510692"
proof (rule pow2_chunk [OF assms squares_mod_ord88])
  let ?bs = "[False, False, True, False, True, False, False, False, True, False, True, True, False, False, False, True, False]"
  show "exponent ?bs 1312672378204589456623 = 172054593956031949258510690" by simp
  show "squares square_ord88 ?bs 51166245551536598435041902 = 172054593956031949258510692"
    by (simp only: rules_ord88)
qed

lemma ord88_high: "pow2 ord88 172054593956031949258510690 172054593956031949258510692"
proof -
  have "pow2 ord88 17 131072" by (simp add: pow2_def)
  from ord88_high_3 [OF ord88_high_2 [OF ord88_high_1 [OF this]]] show ?thesis .
qed

theorem is_prime_ord88: "is_prime ord88"
proof (rule pow2_pocklington [OF is_prime_ord62])
  have e: "ord62 * 38802110 = (172054593956031949258510690 :: nat)" by (simp add: ord62_def)
  show "ord88 = ord62 * 38802110 + 1" by (simp only: e) (simp add: ord88_def)
  show "38802110 div ord62 + 1 < 38802110 mod (ord62 :: nat)" by (simp add: ord62_def)
  show "pow2 ord88 (ord62 * 38802110) 172054593956031949258510692" unfolding e by (rule ord88_high)
  show "172054593956031949258510692 mod ord88 = 1" by (simp add: ord88_def)
  show "pow2 ord88 38802110 254036831575839004028408398" by (rule ord88_low)
  have e: "(254036831575839004028408398 - 1) * 154275350521713489305385904 = 227785962209200647372791557 * ord88 + (1 :: nat)" by (simp add: ord88_def)
  show "(254036831575839004028408398 - 1) * 154275350521713489305385904 mod ord88 = 1" unfolding e by (simp add: ord88_def)
qed simp

section \<open>The prime of 134 bits\<close>

definition square_ord134 :: "bool \<Rightarrow> nat \<Rightarrow> nat" where
  "square_ord134 = barrett_sq ord134
    98326487544338389196647570734575398510280966 digits34 digits36 digits71"

lemma squares_mod_ord134: "squares_mod ord134 square_ord134"
  unfolding square_ord134_def by (rule squares_mod_barrett) (simp add: ord134_def)

lemmas rules_ord134 = square_ord134_def digits_Suc ord134_def square_rules

lemma ord134_low_1:
  assumes "pow2 ord134 26 67108864"
  shows "pow2 ord134 54756045 95940182575463747301998448306390505611612"
proof (rule pow2_chunk [OF assms squares_mod_ord134])
  let ?bs = "[False, False, False, True, True, True, False, False, False, False, False, True, False, True, True, False, False, True, True, False, True]"
  show "exponent ?bs 26 = 54756045" by simp
  show "squares square_ord134 ?bs 67108864 = 95940182575463747301998448306390505611612"
    by (simp only: rules_ord134)
qed

lemma ord134_low_2:
  assumes "pow2 ord134 54756045 95940182575463747301998448306390505611612"
  shows "pow2 ord134 114831751082918 28906088783969799768716163045465730664511"
proof (rule pow2_chunk [OF assms squares_mod_ord134])
  let ?bs = "[True, True, False, True, True, False, True, True, True, False, False, True, True, True, False, True, False, False, True, True, False]"
  show "exponent ?bs 54756045 = 114831751082918" by simp
  show "squares square_ord134 ?bs 95940182575463747301998448306390505611612 = 28906088783969799768716163045465730664511"
    by (simp only: rules_ord134)
qed

lemma ord134_low: "pow2 ord134 114831751082918 28906088783969799768716163045465730664511"
proof -
  have "pow2 ord134 26 67108864" by (simp add: pow2_def)
  from ord134_low_2 [OF ord134_low_1 [OF this]] show ?thesis .
qed

lemma ord134_high_1:
  assumes "pow2 ord134 29 536870912"
  shows "pow2 ord134 60881974 42414378144440663947635479114829902033639"
proof (rule pow2_chunk [OF assms squares_mod_ord134])
  let ?bs = "[False, False, False, False, False, True, True, True, True, True, True, False, False, False, False, True, True, False, True, True, False]"
  show "exponent ?bs 29 = 60881974" by simp
  show "squares square_ord134 ?bs 536870912 = 42414378144440663947635479114829902033639"
    by (simp only: rules_ord134)
qed

lemma ord134_high_2:
  assumes "pow2 ord134 60881974 42414378144440663947635479114829902033639"
  shows "pow2 ord134 127678754568673 4954415581713227535779016964535582331476"
proof (rule pow2_chunk [OF assms squares_mod_ord134])
  let ?bs = "[False, True, True, True, True, True, False, True, True, True, False, False, True, True, True, True, False, False, False, False, True]"
  show "exponent ?bs 60881974 = 127678754568673" by simp
  show "squares square_ord134 ?bs 42414378144440663947635479114829902033639 = 4954415581713227535779016964535582331476"
    by (simp only: rules_ord134)
qed

lemma ord134_high_3:
  assumes "pow2 ord134 127678754568673 4954415581713227535779016964535582331476"
  shows "pow2 ord134 267761755501203800726 59707696025645112604797733535642825245417"
proof (rule pow2_chunk [OF assms squares_mod_ord134])
  let ?bs = "[True, True, True, True, True, True, True, False, False, False, False, True, False, True, False, False, True, False, True, True, False]"
  show "exponent ?bs 127678754568673 = 267761755501203800726" by simp
  show "squares square_ord134 ?bs 4954415581713227535779016964535582331476 = 59707696025645112604797733535642825245417"
    by (simp only: rules_ord134)
qed

lemma ord134_high_4:
  assumes "pow2 ord134 267761755501203800726 59707696025645112604797733535642825245417"
  shows "pow2 ord134 561537101072860553101241733 15698305665419561451471649839745897023568"
proof (rule pow2_chunk [OF assms squares_mod_ord134])
  let ?bs = "[True, False, False, False, False, True, True, True, False, True, True, False, True, True, False, False, False, False, True, False, True]"
  show "exponent ?bs 267761755501203800726 = 561537101072860553101241733" by simp
  show "squares square_ord134 ?bs 59707696025645112604797733535642825245417 = 15698305665419561451471649839745897023568"
    by (simp only: rules_ord134)
qed

lemma ord134_high_5:
  assumes "pow2 ord134 561537101072860553101241733 15698305665419561451471649839745897023568"
  shows "pow2 ord134 1177628654589151654657375304005571 14863274210456896743096292734764081646874"
proof (rule pow2_chunk [OF assms squares_mod_ord134])
  let ?bs = "[True, False, False, False, True, True, False, True, True, False, True, True, True, True, True, False, False, False, False, True, True]"
  show "exponent ?bs 561537101072860553101241733 = 1177628654589151654657375304005571" by simp
  show "squares square_ord134 ?bs 15698305665419561451471649839745897023568 = 14863274210456896743096292734764081646874"
    by (simp only: rules_ord134)
qed

lemma ord134_high_6:
  assumes "pow2 ord134 1177628654589151654657375304005571 14863274210456896743096292734764081646874"
  shows "pow2 ord134 2469666288228948570868023933545891309542 34601486429836439295281066867834652647539"
proof (rule pow2_chunk [OF assms squares_mod_ord134])
  let ?bs = "[False, False, False, False, True, False, False, True, False, False, True, True, True, True, True, True, False, False, True, True, False]"
  show "exponent ?bs 1177628654589151654657375304005571 = 2469666288228948570868023933545891309542" by simp
  show "squares square_ord134 ?bs 14863274210456896743096292734764081646874 = 34601486429836439295281066867834652647539"
    by (simp only: rules_ord134)
qed

lemma ord134_high_7:
  assumes "pow2 ord134 2469666288228948570868023933545891309542 34601486429836439295281066867834652647539"
  shows "pow2 ord134 19757330305831588566944191468367130476338 19757330305831588566944191468367130476340"
proof (rule pow2_chunk [OF assms squares_mod_ord134])
  let ?bs = "[False, True, False]"
  show "exponent ?bs 2469666288228948570868023933545891309542 = 19757330305831588566944191468367130476338" by simp
  show "squares square_ord134 ?bs 34601486429836439295281066867834652647539 = 19757330305831588566944191468367130476340"
    by (simp only: rules_ord134)
qed

lemma ord134_high: "pow2 ord134 19757330305831588566944191468367130476338 19757330305831588566944191468367130476340"
proof -
  have "pow2 ord134 29 536870912" by (simp add: pow2_def)
  from ord134_high_7 [OF ord134_high_6 [OF ord134_high_5 [OF ord134_high_4 [OF ord134_high_3 [OF ord134_high_2 [OF ord134_high_1 [OF this]]]]]]] show ?thesis .
qed

theorem is_prime_ord134: "is_prime ord134"
proof (rule pow2_pocklington [OF is_prime_ord88])
  have e: "ord88 * 114831751082918 = (19757330305831588566944191468367130476338 :: nat)" by (simp add: ord88_def)
  show "ord134 = ord88 * 114831751082918 + 1" by (simp only: e) (simp add: ord134_def)
  show "114831751082918 div ord88 + 1 < 114831751082918 mod (ord88 :: nat)" by (simp add: ord88_def)
  show "pow2 ord134 (ord88 * 114831751082918) 19757330305831588566944191468367130476340" unfolding e by (rule ord134_high)
  show "19757330305831588566944191468367130476340 mod ord134 = 1" by (simp add: ord134_def)
  show "pow2 ord134 114831751082918 28906088783969799768716163045465730664511" by (rule ord134_low)
  have e: "(28906088783969799768716163045465730664511 - 1) * 16371654433361644093796961727196399386194 = 23952653990480811309120016050312939017401 * ord134 + (1 :: nat)" by (simp add: ord134_def)
  show "(28906088783969799768716163045465730664511 - 1) * 16371654433361644093796961727196399386194 mod ord134 = 1" unfolding e by (simp add: ord134_def)
qed simp

section \<open>The prime of 138 bits\<close>

definition square_ord138 :: "bool \<Rightarrow> nat \<Rightarrow> nat" where
  "square_ord138 = barrett_sq ord138
    1797970057953616259595841293432235858473702610 digits35 digits37 digits73"

lemma squares_mod_ord138: "squares_mod ord138 square_ord138"
  unfolding square_ord138_def by (rule squares_mod_barrett) (simp add: ord138_def)

lemmas rules_ord138 = square_ord138_def digits_Suc ord138_def square_rules

lemma ord138_low: "pow2 ord138 14 16384"
proof -
  have "pow2 ord138 14 16384" by (simp add: pow2_def)
  from this show ?thesis .
qed

lemma ord138_high_1:
  assumes "pow2 ord138 25 33554432"
  shows "pow2 ord138 53271727 419647324050079871939293567859285000027355"
proof (rule pow2_chunk [OF assms squares_mod_ord138])
  let ?bs = "[False, True, True, False, False, True, True, False, True, True, True, False, False, True, False, True, False, True, True, True, True]"
  show "exponent ?bs 25 = 53271727" by simp
  show "squares square_ord138 ?bs 33554432 = 419647324050079871939293567859285000027355"
    by (simp only: rules_ord138)
qed

lemma ord138_high_2:
  assumes "pow2 ord138 53271727 419647324050079871939293567859285000027355"
  shows "pow2 ord138 111718910247589 1184214121526531476096228549001337913638737"
proof (rule pow2_chunk [OF assms squares_mod_ord138])
  let ?bs = "[True, False, True, False, True, True, True, False, False, False, False, True, False, True, False, True, False, False, True, False, True]"
  show "exponent ?bs 53271727 = 111718910247589" by simp
  show "squares square_ord138 ?bs 419647324050079871939293567859285000027355 = 1184214121526531476096228549001337913638737"
    by (simp only: rules_ord138)
qed

lemma ord138_high_3:
  assumes "pow2 ord138 111718910247589 1184214121526531476096228549001337913638737"
  shows "pow2 ord138 234291536063553325635 515647911641694509333715007226316359894882"
proof (rule pow2_chunk [OF assms squares_mod_ord138])
  let ?bs = "[True, False, True, True, True, True, True, False, False, True, False, True, False, False, True, False, False, False, False, True, True]"
  show "exponent ?bs 111718910247589 = 234291536063553325635" by simp
  show "squares square_ord138 ?bs 1184214121526531476096228549001337913638737 = 515647911641694509333715007226316359894882"
    by (simp only: rules_ord138)
qed

lemma ord138_high_4:
  assumes "pow2 ord138 234291536063553325635 515647911641694509333715007226316359894882"
  shows "pow2 ord138 491344963438752983963586516 169915272418767322633817820212166746864043"
proof (rule pow2_chunk [OF assms squares_mod_ord138])
  let ?bs = "[True, False, True, True, False, True, True, False, False, True, True, True, True, True, True, False, True, False, True, False, False]"
  show "exponent ?bs 234291536063553325635 = 491344963438752983963586516" by simp
  show "squares square_ord138 ?bs 515647911641694509333715007226316359894882 = 169915272418767322633817820212166746864043"
    by (simp only: rules_ord138)
qed

lemma ord138_high_5:
  assumes "pow2 ord138 491344963438752983963586516 169915272418767322633817820212166746864043"
  shows "pow2 ord138 1030425072765507697825203391004874 208690569172743372983426134170549995406933"
proof (rule pow2_chunk [OF assms squares_mod_ord138])
  let ?bs = "[True, True, False, True, True, True, False, False, False, False, False, False, False, True, True, False, False, True, False, True, False]"
  show "exponent ?bs 491344963438752983963586516 = 1030425072765507697825203391004874" by simp
  show "squares square_ord138 ?bs 169915272418767322633817820212166746864043 = 208690569172743372983426134170549995406933"
    by (simp only: rules_ord138)
qed

lemma ord138_high_6:
  assumes "pow2 ord138 1030425072765507697825203391004874 208690569172743372983426134170549995406933"
  shows "pow2 ord138 2160958002200329999509520941852654895849 390666702437968675111460398036761489502069"
proof (rule pow2_chunk [OF assms squares_mod_ord138])
  let ?bs = "[True, False, True, False, True, False, False, False, False, False, False, True, False, True, True, True, False, True, False, False, True]"
  show "exponent ?bs 1030425072765507697825203391004874 = 2160958002200329999509520941852654895849" by simp
  show "squares square_ord138 ?bs 208690569172743372983426134170549995406933 = 390666702437968675111460398036761489502069"
    by (simp only: rules_ord138)
qed

lemma ord138_high_7:
  assumes "pow2 ord138 2160958002200329999509520941852654895849 390666702437968675111460398036761489502069"
  shows "pow2 ord138 276602624281642239937218680557139826668746 1383013121408211199686093402785699133343736"
proof (rule pow2_chunk [OF assms squares_mod_ord138])
  let ?bs = "[True, False, False, True, False, True, False]"
  show "exponent ?bs 2160958002200329999509520941852654895849 = 276602624281642239937218680557139826668746" by simp
  show "squares square_ord138 ?bs 390666702437968675111460398036761489502069 = 1383013121408211199686093402785699133343736"
    by (simp only: rules_ord138)
qed

lemma ord138_high: "pow2 ord138 276602624281642239937218680557139826668746 1383013121408211199686093402785699133343736"
proof -
  have "pow2 ord138 25 33554432" by (simp add: pow2_def)
  from ord138_high_7 [OF ord138_high_6 [OF ord138_high_5 [OF ord138_high_4 [OF ord138_high_3 [OF ord138_high_2 [OF ord138_high_1 [OF this]]]]]]] show ?thesis .
qed

theorem is_prime_ord138: "is_prime ord138"
proof (rule pow2_pocklington [OF is_prime_ord134])
  have e: "ord134 * 14 = (276602624281642239937218680557139826668746 :: nat)" by (simp add: ord134_def)
  show "ord138 = ord134 * 14 + 1" by (simp only: e) (simp add: ord138_def)
  show "14 div ord134 + 1 < 14 mod (ord134 :: nat)" by (simp add: ord134_def)
  show "pow2 ord138 (ord134 * 14) 1383013121408211199686093402785699133343736" unfolding e by (rule ord138_high)
  show "1383013121408211199686093402785699133343736 mod ord138 = 1" by (simp add: ord138_def)
  show "pow2 ord138 14 16384" by (rule ord138_low)
  have e: "(16384 - 1) * 94074944912245044309966580483695483989395 = 5572 * ord138 + (1 :: nat)" by (simp add: ord138_def)
  show "(16384 - 1) * 94074944912245044309966580483695483989395 mod ord138 = 1" unfolding e by (simp add: ord138_def)
qed simp

section \<open>The prime of 253 bits\<close>

definition square_ord253 :: "bool \<Rightarrow> nat \<Rightarrow> nat" where
  "square_ord253 = barrett_sq ord253
    1852673427797059126777135760139006525645217721299241702126143248052143860224795 digits63 digits65 digits129"

lemma squares_mod_ord253: "squares_mod ord253 square_ord253"
  unfolding square_ord253_def by (rule squares_mod_barrett) (simp add: ord253_def)

lemmas rules_ord253 = square_ord253_def digits_Suc ord253_def square_rules

lemma ord253_low_1:
  assumes "pow2 ord253 20 1048576"
  shows "pow2 ord253 82558 8347081845131574463576281080001330975742984139126290974479713269464601633994"
proof (rule pow2_chunk [OF assms squares_mod_ord253])
  let ?bs = "[False, False, True, False, False, True, True, True, True, True, True, False]"
  show "exponent ?bs 20 = 82558" by simp
  show "squares square_ord253 ?bs 1048576 = 8347081845131574463576281080001330975742984139126290974479713269464601633994"
    by (simp only: rules_ord253)
qed

lemma ord253_low_2:
  assumes "pow2 ord253 82558 8347081845131574463576281080001330975742984139126290974479713269464601633994"
  shows "pow2 ord253 338160583 2120568748155080600683797443334754342602943838034801786544658958258975621911"
proof (rule pow2_chunk [OF assms squares_mod_ord253])
  let ?bs = "[True, False, True, True, True, True, False, False, False, True, True, True]"
  show "exponent ?bs 82558 = 338160583" by simp
  show "squares square_ord253 ?bs 8347081845131574463576281080001330975742984139126290974479713269464601633994 = 2120568748155080600683797443334754342602943838034801786544658958258975621911"
    by (simp only: rules_ord253)
qed

lemma ord253_low_3:
  assumes "pow2 ord253 338160583 2120568748155080600683797443334754342602943838034801786544658958258975621911"
  shows "pow2 ord253 1385105749489 12928397733276698048283811721194156430838108580474804694115457817450879902843"
proof (rule pow2_chunk [OF assms squares_mod_ord253])
  let ?bs = "[False, True, False, True, True, True, True, True, False, False, False, True]"
  show "exponent ?bs 338160583 = 1385105749489" by simp
  show "squares square_ord253 ?bs 2120568748155080600683797443334754342602943838034801786544658958258975621911 = 12928397733276698048283811721194156430838108580474804694115457817450879902843"
    by (simp only: rules_ord253)
qed

lemma ord253_low_4:
  assumes "pow2 ord253 1385105749489 12928397733276698048283811721194156430838108580474804694115457817450879902843"
  shows "pow2 ord253 5673393149910259 5975209018297670150835835507217814336139647884744445701348654352110231987021"
proof (rule pow2_chunk [OF assms squares_mod_ord253])
  let ?bs = "[True, True, False, False, True, True, True, True, False, False, True, True]"
  show "exponent ?bs 1385105749489 = 5673393149910259" by simp
  show "squares square_ord253 ?bs 12928397733276698048283811721194156430838108580474804694115457817450879902843 = 5975209018297670150835835507217814336139647884744445701348654352110231987021"
    by (simp only: rules_ord253)
qed

lemma ord253_low_5:
  assumes "pow2 ord253 5673393149910259 5975209018297670150835835507217814336139647884744445701348654352110231987021"
  shows "pow2 ord253 23238218342032421341 11941807621636025750132733466352625595047746907073372811993722966237740232844"
proof (rule pow2_chunk [OF assms squares_mod_ord253])
  let ?bs = "[False, False, False, True, True, True, False, True, True, True, False, True]"
  show "exponent ?bs 5673393149910259 = 23238218342032421341" by simp
  show "squares square_ord253 ?bs 5975209018297670150835835507217814336139647884744445701348654352110231987021 = 11941807621636025750132733466352625595047746907073372811993722966237740232844"
    by (simp only: rules_ord253)
qed

lemma ord253_low_6:
  assumes "pow2 ord253 23238218342032421341 11941807621636025750132733466352625595047746907073372811993722966237740232844"
  shows "pow2 ord253 95183742328964797815304 7025378486590662371498458191466820183502228385479041901486335420701066215995"
proof (rule pow2_chunk [OF assms squares_mod_ord253])
  let ?bs = "[True, False, True, False, False, False, False, False, True, False, False, False]"
  show "exponent ?bs 23238218342032421341 = 95183742328964797815304" by simp
  show "squares square_ord253 ?bs 11941807621636025750132733466352625595047746907073372811993722966237740232844 = 7025378486590662371498458191466820183502228385479041901486335420701066215995"
    by (simp only: rules_ord253)
qed

lemma ord253_low_7:
  assumes "pow2 ord253 95183742328964797815304 7025378486590662371498458191466820183502228385479041901486335420701066215995"
  shows "pow2 ord253 389872608579439811851488909 3691870950161008658652252554906113387575407324212104503671413285072087556241"
proof (rule pow2_chunk [OF assms squares_mod_ord253])
  let ?bs = "[True, True, True, False, True, False, False, False, True, True, False, True]"
  show "exponent ?bs 95183742328964797815304 = 389872608579439811851488909" by simp
  show "squares square_ord253 ?bs 7025378486590662371498458191466820183502228385479041901486335420701066215995 = 3691870950161008658652252554906113387575407324212104503671413285072087556241"
    by (simp only: rules_ord253)
qed

lemma ord253_low_8:
  assumes "pow2 ord253 389872608579439811851488909 3691870950161008658652252554906113387575407324212104503671413285072087556241"
  shows "pow2 ord253 1596918204741385469343698571826 7306130206233452268579923588601680008642362142079461082923493384714774511696"
proof (rule pow2_chunk [OF assms squares_mod_ord253])
  let ?bs = "[False, False, True, False, False, False, True, True, False, False, True, False]"
  show "exponent ?bs 389872608579439811851488909 = 1596918204741385469343698571826" by simp
  show "squares square_ord253 ?bs 3691870950161008658652252554906113387575407324212104503671413285072087556241 = 7306130206233452268579923588601680008642362142079461082923493384714774511696"
    by (simp only: rules_ord253)
qed

lemma ord253_low_9:
  assumes "pow2 ord253 1596918204741385469343698571826 7306130206233452268579923588601680008642362142079461082923493384714774511696"
  shows "pow2 ord253 6540976966620714882431789350202001 7602985517569411570581274549557855889562231950838973310778528145329996686259"
proof (rule pow2_chunk [OF assms squares_mod_ord253])
  let ?bs = "[True, False, True, False, True, False, False, True, False, False, False, True]"
  show "exponent ?bs 1596918204741385469343698571826 = 6540976966620714882431789350202001" by simp
  show "squares square_ord253 ?bs 7306130206233452268579923588601680008642362142079461082923493384714774511696 = 7602985517569411570581274549557855889562231950838973310778528145329996686259"
    by (simp only: rules_ord253)
qed

lemma ord253_low_10:
  assumes "pow2 ord253 6540976966620714882431789350202001 7602985517569411570581274549557855889562231950838973310778528145329996686259"
  shows "pow2 ord253 26163907866482859529727157400808004 10212536702465385333622066020606275509977819763538520741197739846379027923630"
proof (rule pow2_chunk [OF assms squares_mod_ord253])
  let ?bs = "[False, False]"
  show "exponent ?bs 6540976966620714882431789350202001 = 26163907866482859529727157400808004" by simp
  show "squares square_ord253 ?bs 7602985517569411570581274549557855889562231950838973310778528145329996686259 = 10212536702465385333622066020606275509977819763538520741197739846379027923630"
    by (simp only: rules_ord253)
qed

lemma ord253_low: "pow2 ord253 26163907866482859529727157400808004 10212536702465385333622066020606275509977819763538520741197739846379027923630"
proof -
  have "pow2 ord253 20 1048576" by (simp add: pow2_def)
  from ord253_low_10 [OF ord253_low_9 [OF ord253_low_8 [OF ord253_low_7 [OF ord253_low_6 [OF ord253_low_5 [OF ord253_low_4 [OF ord253_low_3 [OF ord253_low_2 [OF ord253_low_1 [OF this]]]]]]]]]] show ?thesis .
qed

lemma ord253_high_1:
  assumes "pow2 ord253 16 65536"
  shows "pow2 ord253 65536 4784498346523861356500353588357029728336905222471856861391858715160818914763"
proof (rule pow2_chunk [OF assms squares_mod_ord253])
  let ?bs = "[False, False, False, False, False, False, False, False, False, False, False, False]"
  show "exponent ?bs 16 = 65536" by simp
  show "squares square_ord253 ?bs 65536 = 4784498346523861356500353588357029728336905222471856861391858715160818914763"
    by (simp only: rules_ord253)
qed

lemma ord253_high_2:
  assumes "pow2 ord253 65536 4784498346523861356500353588357029728336905222471856861391858715160818914763"
  shows "pow2 ord253 268435456 5038801569111668581892234830961465457736391435301653445755125023933941548947"
proof (rule pow2_chunk [OF assms squares_mod_ord253])
  let ?bs = "[False, False, False, False, False, False, False, False, False, False, False, False]"
  show "exponent ?bs 65536 = 268435456" by simp
  show "squares square_ord253 ?bs 4784498346523861356500353588357029728336905222471856861391858715160818914763 = 5038801569111668581892234830961465457736391435301653445755125023933941548947"
    by (simp only: rules_ord253)
qed

lemma ord253_high_3:
  assumes "pow2 ord253 268435456 5038801569111668581892234830961465457736391435301653445755125023933941548947"
  shows "pow2 ord253 1099511627776 9236264426534625904285427866750468183311147088672657113702624665314963454159"
proof (rule pow2_chunk [OF assms squares_mod_ord253])
  let ?bs = "[False, False, False, False, False, False, False, False, False, False, False, False]"
  show "exponent ?bs 268435456 = 1099511627776" by simp
  show "squares square_ord253 ?bs 5038801569111668581892234830961465457736391435301653445755125023933941548947 = 9236264426534625904285427866750468183311147088672657113702624665314963454159"
    by (simp only: rules_ord253)
qed

lemma ord253_high_4:
  assumes "pow2 ord253 1099511627776 9236264426534625904285427866750468183311147088672657113702624665314963454159"
  shows "pow2 ord253 4503599627370496 5763231549419467457229453942902837224864886132638133070154463182617758709112"
proof (rule pow2_chunk [OF assms squares_mod_ord253])
  let ?bs = "[False, False, False, False, False, False, False, False, False, False, False, False]"
  show "exponent ?bs 1099511627776 = 4503599627370496" by simp
  show "squares square_ord253 ?bs 9236264426534625904285427866750468183311147088672657113702624665314963454159 = 5763231549419467457229453942902837224864886132638133070154463182617758709112"
    by (simp only: rules_ord253)
qed

lemma ord253_high_5:
  assumes "pow2 ord253 4503599627370496 5763231549419467457229453942902837224864886132638133070154463182617758709112"
  shows "pow2 ord253 18446744073709551616 10349740353765252176528820682554864380739406732893315941275063683889301386957"
proof (rule pow2_chunk [OF assms squares_mod_ord253])
  let ?bs = "[False, False, False, False, False, False, False, False, False, False, False, False]"
  show "exponent ?bs 4503599627370496 = 18446744073709551616" by simp
  show "squares square_ord253 ?bs 5763231549419467457229453942902837224864886132638133070154463182617758709112 = 10349740353765252176528820682554864380739406732893315941275063683889301386957"
    by (simp only: rules_ord253)
qed

lemma ord253_high_6:
  assumes "pow2 ord253 18446744073709551616 10349740353765252176528820682554864380739406732893315941275063683889301386957"
  shows "pow2 ord253 75557863725914323419136 8757309068080132149201423653297876741844968220526515458615231297377479920235"
proof (rule pow2_chunk [OF assms squares_mod_ord253])
  let ?bs = "[False, False, False, False, False, False, False, False, False, False, False, False]"
  show "exponent ?bs 18446744073709551616 = 75557863725914323419136" by simp
  show "squares square_ord253 ?bs 10349740353765252176528820682554864380739406732893315941275063683889301386957 = 8757309068080132149201423653297876741844968220526515458615231297377479920235"
    by (simp only: rules_ord253)
qed

lemma ord253_high_7:
  assumes "pow2 ord253 75557863725914323419136 8757309068080132149201423653297876741844968220526515458615231297377479920235"
  shows "pow2 ord253 309485009821345068724781056 10637268915159851965811125521082828731707450815158912956428804218764785685482"
proof (rule pow2_chunk [OF assms squares_mod_ord253])
  let ?bs = "[False, False, False, False, False, False, False, False, False, False, False, False]"
  show "exponent ?bs 75557863725914323419136 = 309485009821345068724781056" by simp
  show "squares square_ord253 ?bs 8757309068080132149201423653297876741844968220526515458615231297377479920235 = 10637268915159851965811125521082828731707450815158912956428804218764785685482"
    by (simp only: rules_ord253)
qed

lemma ord253_high_8:
  assumes "pow2 ord253 309485009821345068724781056 10637268915159851965811125521082828731707450815158912956428804218764785685482"
  shows "pow2 ord253 1267650600228229401496703205376 1931248268365753333736857532558533744453485878739627763729407197811129808376"
proof (rule pow2_chunk [OF assms squares_mod_ord253])
  let ?bs = "[False, False, False, False, False, False, False, False, False, False, False, False]"
  show "exponent ?bs 309485009821345068724781056 = 1267650600228229401496703205376" by simp
  show "squares square_ord253 ?bs 10637268915159851965811125521082828731707450815158912956428804218764785685482 = 1931248268365753333736857532558533744453485878739627763729407197811129808376"
    by (simp only: rules_ord253)
qed

lemma ord253_high_9:
  assumes "pow2 ord253 1267650600228229401496703205376 1931248268365753333736857532558533744453485878739627763729407197811129808376"
  shows "pow2 ord253 5192296858534827628530496329220096 5100257159183706229215089334335782924459993721664035483404757240320570395078"
proof (rule pow2_chunk [OF assms squares_mod_ord253])
  let ?bs = "[False, False, False, False, False, False, False, False, False, False, False, False]"
  show "exponent ?bs 1267650600228229401496703205376 = 5192296858534827628530496329220096" by simp
  show "squares square_ord253 ?bs 1931248268365753333736857532558533744453485878739627763729407197811129808376 = 5100257159183706229215089334335782924459993721664035483404757240320570395078"
    by (simp only: rules_ord253)
qed

lemma ord253_high_10:
  assumes "pow2 ord253 5192296858534827628530496329220096 5100257159183706229215089334335782924459993721664035483404757240320570395078"
  shows "pow2 ord253 21267647932558653966460912964485513216 7056929592589063046722350420976464130419380011782753640540668979178346765302"
proof (rule pow2_chunk [OF assms squares_mod_ord253])
  let ?bs = "[False, False, False, False, False, False, False, False, False, False, False, False]"
  show "exponent ?bs 5192296858534827628530496329220096 = 21267647932558653966460912964485513216" by simp
  show "squares square_ord253 ?bs 5100257159183706229215089334335782924459993721664035483404757240320570395078 = 7056929592589063046722350420976464130419380011782753640540668979178346765302"
    by (simp only: rules_ord253)
qed

lemma ord253_high_11:
  assumes "pow2 ord253 21267647932558653966460912964485513216 7056929592589063046722350420976464130419380011782753640540668979178346765302"
  shows "pow2 ord253 87112285931760246646623899502532662133069 11184855243931810439211549471546977462343706015374889778182623692419050042345"
proof (rule pow2_chunk [OF assms squares_mod_ord253])
  let ?bs = "[False, False, False, True, False, True, False, False, True, True, False, True]"
  show "exponent ?bs 21267647932558653966460912964485513216 = 87112285931760246646623899502532662133069" by simp
  show "squares square_ord253 ?bs 7056929592589063046722350420976464130419380011782753640540668979178346765302 = 11184855243931810439211549471546977462343706015374889778182623692419050042345"
    by (simp only: rules_ord253)
qed

lemma ord253_high_12:
  assumes "pow2 ord253 87112285931760246646623899502532662133069 11184855243931810439211549471546977462343706015374889778182623692419050042345"
  shows "pow2 ord253 356811923176489970264571492362373784097054457 7082787551485719860928746024825626570827483468978847186476820330330034176001"
proof (rule pow2_chunk [OF assms squares_mod_ord253])
  let ?bs = "[True, True, True, False, True, True, True, True, True, False, False, True]"
  show "exponent ?bs 87112285931760246646623899502532662133069 = 356811923176489970264571492362373784097054457" by simp
  show "squares square_ord253 ?bs 11184855243931810439211549471546977462343706015374889778182623692419050042345 = 7082787551485719860928746024825626570827483468978847186476820330330034176001"
    by (simp only: rules_ord253)
qed

lemma ord253_high_13:
  assumes "pow2 ord253 356811923176489970264571492362373784097054457 7082787551485719860928746024825626570827483468978847186476820330330034176001"
  shows "pow2 ord253 1461501637330902918203684832716283019661535059434 8440834608481740383296962815773041824175637220569765793527105062333354743824"
proof (rule pow2_chunk [OF assms squares_mod_ord253])
  let ?bs = "[True, True, False, True, True, True, True, False, True, False, True, False]"
  show "exponent ?bs 356811923176489970264571492362373784097054457 = 1461501637330902918203684832716283019661535059434" by simp
  show "squares square_ord253 ?bs 7082787551485719860928746024825626570827483468978847186476820330330034176001 = 8440834608481740383296962815773041824175637220569765793527105062333354743824"
    by (simp only: rules_ord253)
qed

lemma ord253_high_14:
  assumes "pow2 ord253 1461501637330902918203684832716283019661535059434 8440834608481740383296962815773041824175637220569765793527105062333354743824"
  shows "pow2 ord253 5986310706507378352962293074805895248533647603442423 8848447684948395519153691863673395344455793021984475712897894919411319034216"
proof (rule pow2_chunk [OF assms squares_mod_ord253])
  let ?bs = "[False, False, True, False, True, True, True, True, False, True, True, True]"
  show "exponent ?bs 1461501637330902918203684832716283019661535059434 = 5986310706507378352962293074805895248533647603442423" by simp
  show "squares square_ord253 ?bs 8440834608481740383296962815773041824175637220569765793527105062333354743824 = 8848447684948395519153691863673395344455793021984475712897894919411319034216"
    by (simp only: rules_ord253)
qed

lemma ord253_high_15:
  assumes "pow2 ord253 5986310706507378352962293074805895248533647603442423 8848447684948395519153691863673395344455793021984475712897894919411319034216"
  shows "pow2 ord253 24519928653854221733733552434404946937993820583700167117 8149023011754728316454752596385647811685539767156318402937085329244322354582"
proof (rule pow2_chunk [OF assms squares_mod_ord253])
  let ?bs = "[True, False, False, True, True, True, False, False, True, True, False, True]"
  show "exponent ?bs 5986310706507378352962293074805895248533647603442423 = 24519928653854221733733552434404946937993820583700167117" by simp
  show "squares square_ord253 ?bs 8848447684948395519153691863673395344455793021984475712897894919411319034216 = 8149023011754728316454752596385647811685539767156318402937085329244322354582"
    by (simp only: rules_ord253)
qed

lemma ord253_high_16:
  assumes "pow2 ord253 24519928653854221733733552434404946937993820583700167117 8149023011754728316454752596385647811685539767156318402937085329244322354582"
  shows "pow2 ord253 100433627766186892221372630771322662658022689110835884512856 9161374953226161079538702368549055713771418151357070794661122594573667588199"
proof (rule pow2_chunk [OF assms squares_mod_ord253])
  let ?bs = "[False, True, True, False, False, True, False, True, True, False, False, False]"
  show "exponent ?bs 24519928653854221733733552434404946937993820583700167117 = 100433627766186892221372630771322662658022689110835884512856" by simp
  show "squares square_ord253 ?bs 8149023011754728316454752596385647811685539767156318402937085329244322354582 = 9161374953226161079538702368549055713771418151357070794661122594573667588199"
    by (simp only: rules_ord253)
qed

lemma ord253_high_17:
  assumes "pow2 ord253 100433627766186892221372630771322662658022689110835884512856 9161374953226161079538702368549055713771418151357070794661122594573667588199"
  shows "pow2 ord253 411376139330301510538742295639337626247260934597983782964658470 9192082594816530773498525834907199327980834077638219565349741386654241641164"
proof (rule pow2_chunk [OF assms squares_mod_ord253])
  let ?bs = "[False, False, False, True, False, False, True, False, False, True, True, False]"
  show "exponent ?bs 100433627766186892221372630771322662658022689110835884512856 = 411376139330301510538742295639337626247260934597983782964658470" by simp
  show "squares square_ord253 ?bs 9161374953226161079538702368549055713771418151357070794661122594573667588199 = 9192082594816530773498525834907199327980834077638219565349741386654241641164"
    by (simp only: rules_ord253)
qed

lemma ord253_high_18:
  assumes "pow2 ord253 411376139330301510538742295639337626247260934597983782964658470 9192082594816530773498525834907199327980834077638219565349741386654241641164"
  shows "pow2 ord253 1684996666696914987166688442938726917108780788113341575023241093914 10683547668953853611476643915302212060406639711047840161094500700065173552399"
proof (rule pow2_chunk [OF assms squares_mod_ord253])
  let ?bs = "[False, False, True, True, False, False, False, True, True, False, True, False]"
  show "exponent ?bs 411376139330301510538742295639337626247260934597983782964658470 = 1684996666696914987166688442938726917108780788113341575023241093914" by simp
  show "squares square_ord253 ?bs 9192082594816530773498525834907199327980834077638219565349741386654241641164 = 10683547668953853611476643915302212060406639711047840161094500700065173552399"
    by (simp only: rules_ord253)
qed

lemma ord253_high_19:
  assumes "pow2 ord253 1684996666696914987166688442938726917108780788113341575023241093914 10683547668953853611476643915302212060406639711047840161094500700065173552399"
  shows "pow2 ord253 6901746346790563787434755862277025452477566108112247091295195520673231 14218822950494779038177953059474029240380753465297791189873354839675357628521"
proof (rule pow2_chunk [OF assms squares_mod_ord253])
  let ?bs = "[False, True, False, True, True, True, False, False, True, True, True, True]"
  show "exponent ?bs 1684996666696914987166688442938726917108780788113341575023241093914 = 6901746346790563787434755862277025452477566108112247091295195520673231" by simp
  show "squares square_ord253 ?bs 10683547668953853611476643915302212060406639711047840161094500700065173552399 = 14218822950494779038177953059474029240380753465297791189873354839675357628521"
    by (simp only: rules_ord253)
qed

lemma ord253_high_20:
  assumes "pow2 ord253 6901746346790563787434755862277025452477566108112247091295195520673231 14218822950494779038177953059474029240380753465297791189873354839675357628521"
  shows "pow2 ord253 28269553036454149273332760011886696253348110778827764085945120852677555667 9280263919121232061437039212608700923013124610779494491606715641588996722484"
proof (rule pow2_chunk [OF assms squares_mod_ord253])
  let ?bs = "[False, True, False, True, True, True, False, True, False, False, True, True]"
  show "exponent ?bs 6901746346790563787434755862277025452477566108112247091295195520673231 = 28269553036454149273332760011886696253348110778827764085945120852677555667" by simp
  show "squares square_ord253 ?bs 14218822950494779038177953059474029240380753465297791189873354839675357628521 = 9280263919121232061437039212608700923013124610779494491606715641588996722484"
    by (simp only: rules_ord253)
qed

lemma ord253_high_21:
  assumes "pow2 ord253 28269553036454149273332760011886696253348110778827764085945120852677555667 9280263919121232061437039212608700923013124610779494491606715641588996722484"
  shows "pow2 ord253 7237005577332262213973186563042994240857116359379907606001950938285454250988 7237005577332262213973186563042994240857116359379907606001950938285454250990"
proof (rule pow2_chunk [OF assms squares_mod_ord253])
  let ?bs = "[True, True, True, False, True, True, False, False]"
  show "exponent ?bs 28269553036454149273332760011886696253348110778827764085945120852677555667 = 7237005577332262213973186563042994240857116359379907606001950938285454250988" by simp
  show "squares square_ord253 ?bs 9280263919121232061437039212608700923013124610779494491606715641588996722484 = 7237005577332262213973186563042994240857116359379907606001950938285454250990"
    by (simp only: rules_ord253)
qed

lemma ord253_high: "pow2 ord253 7237005577332262213973186563042994240857116359379907606001950938285454250988 7237005577332262213973186563042994240857116359379907606001950938285454250990"
proof -
  have "pow2 ord253 16 65536" by (simp add: pow2_def)
  from ord253_high_21 [OF ord253_high_20 [OF ord253_high_19 [OF ord253_high_18 [OF ord253_high_17 [OF ord253_high_16 [OF ord253_high_15 [OF ord253_high_14 [OF ord253_high_13 [OF ord253_high_12 [OF ord253_high_11 [OF ord253_high_10 [OF ord253_high_9 [OF ord253_high_8 [OF ord253_high_7 [OF ord253_high_6 [OF ord253_high_5 [OF ord253_high_4 [OF ord253_high_3 [OF ord253_high_2 [OF ord253_high_1 [OF this]]]]]]]]]]]]]]]]]]]]] show ?thesis .
qed

theorem is_prime_ord253: "is_prime ord253"
proof (rule pow2_pocklington [OF is_prime_ord138])
  have e: "ord138 * 26163907866482859529727157400808004 = (7237005577332262213973186563042994240857116359379907606001950938285454250988 :: nat)" by (simp add: ord138_def)
  show "ord253 = ord138 * 26163907866482859529727157400808004 + 1" by (simp only: e) (simp add: ord253_def)
  show "26163907866482859529727157400808004 div ord138 + 1 < 26163907866482859529727157400808004 mod (ord138 :: nat)" by (simp add: ord138_def)
  show "pow2 ord253 (ord138 * 26163907866482859529727157400808004) 7237005577332262213973186563042994240857116359379907606001950938285454250990" unfolding e by (rule ord253_high)
  show "7237005577332262213973186563042994240857116359379907606001950938285454250990 mod ord253 = 1" by (simp add: ord253_def)
  show "pow2 ord253 26163907866482859529727157400808004 10212536702465385333622066020606275509977819763538520741197739846379027923630" by (rule ord253_low)
  have e: "(10212536702465385333622066020606275509977819763538520741197739846379027923630 - 1) * 2233364593245673852815932892735013076939656528578070433728021143254617821614 = 3151623642511524238647231142946772089479018819627294655777100958564855734345 * ord253 + (1 :: nat)" by (simp add: ord253_def)
  show "(10212536702465385333622066020606275509977819763538520741197739846379027923630 - 1) * 2233364593245673852815932892735013076939656528578070433728021143254617821614 mod ord253 = 1" unfolding e by (simp add: ord253_def)
qed simp

end
