(* ===== verification/VL_Order.thy ===== *)
theory VL_Order
  imports VL_Order_Cert VL_Order_Prime VL_Ed25519_Curve
begin

text \<open>
  The base point generates a group whose order is the prime the code reduces scalars by: the
  certified chain ends in the neutral point, so multiples of the base point are equal exactly if the
  factors are congruent modulo that order.
\<close>

section \<open>What a step of the chain checks\<close>

lemma of_nat_mod_fp: "v mod p255 = w mod p255 \<Longrightarrow> (of_nat v :: fp) = of_nat w"
  by (simp only: of_nat_fp_eq)

lemma vanishes_iff: "vanishes x \<longleftrightarrow> (of_nat x :: fp) = 0"
  using of_nat_fp_eq [of x 0] by (simp add: vanishes_def mod_eq_0_iff_dvd)

lemma of_nat_HA: "(of_nat (HA x y) :: fp) = of_nat x + of_nat y"
  by (simp add: HA_def)

lemma of_nat_HM: "(of_nat (HM x y) :: fp) = of_nat x * of_nat y"
  by (simp add: HM_def)

lemma of_nat_fold256: "(of_nat (fold256 x) :: fp) = of_nat x"
proof -
  have "(of_nat (16 ^ len64) :: fp) = of_nat 38"
    by (rule of_nat_mod_fp) (simp add: len64_def p255_def)
  then have "(of_nat (16 ^ len64 * dhi len64 x) :: fp) = of_nat (times38 (dhi len64 x))"
    by (simp add: times38_def)
  moreover have "(of_nat (dlo len64 x + 16 ^ len64 * dhi len64 x) :: fp) = of_nat x" by (simp only: dlo_dhi)
  ultimately show ?thesis by (simp add: fold256_def of_nat_HA)
qed

lemma of_nat_res: "(of_nat (res x) :: fp) = of_nat x"
  by (simp add: res_def of_nat_fold256)

lemma of_nat_ng: "(of_nat (ng p255 n y) :: fp) = of_nat (16 ^ n) - of_nat y - 1"
proof -
  have "(ng p255 n y + y + 1) mod p255 = 16 ^ n mod p255" by (rule ng_cong) (simp add: p255_def)
  from of_nat_mod_fp [OF this] show ?thesis by (simp add: algebra_simps)
qed

lemma of_nat_complement:
  assumes "(16 ^ n + k) mod p255 = 1 mod p255"
  shows "(of_nat (HA x (HA (ng p255 n y) k)) :: fp) = of_nat x - of_nat y"
proof -
  have "(of_nat (16 ^ n) :: fp) + of_nat k = 1" using of_nat_mod_fp [OF assms] by simp
  then show ?thesis by (simp add: of_nat_HA of_nat_ng algebra_simps)
qed

lemma of_nat_sb: "(of_nat (sb65 x y) :: fp) = of_nat x - of_nat y" "(of_nat (sb130 x y) :: fp) = of_nat x - of_nat y"
  unfolding sb65_def sb130_def by (rule of_nat_complement, simp add: len65_def len130_def p255_def)+

lemma of_nat_digits: "(of_nat (d1 0) :: fp) = 1" "(of_nat (d2 0) :: fp) = 2"
  by (simp_all add: d1_def d2_def dg_def)

lemmas chain_meaning = vanishes_iff of_nat_res of_nat_sb of_nat_HA of_nat_HM of_nat_digits

definition coords :: "nat \<Rightarrow> nat \<Rightarrow> curve \<Rightarrow> bool" where
  "coords x y P \<longleftrightarrow> px P = of_nat x \<and> py P = of_nat y"

lemma double_ok_coords:
  assumes "coords x y P" and "double_ok x y x' y'"
  shows "coords x' y' (P + P)"
proof -
  let ?e = "fp_d * px P * px P * py P * py P"
  note s = sum_eqs [OF curve_coords curve_coords, of P P]
  note d = denominators [OF curve_coords curve_coords, of P P]
  have "py P * py P - px P * px P = 1 + ?e" using curve_coords [of P] by (simp add: on_curve_def ac_simps)
  then have f: "of_nat y * of_nat y - of_nat x * of_nat x = 1 + ?e" using assms(1) by (simp add: coords_def)
  have p: "px P = of_nat x" "py P = of_nat y" using assms(1) by (simp_all add: coords_def)
  have "of_nat x' * (of_nat y * of_nat y - of_nat x * of_nat x) + (of_nat x * of_nat x + of_nat y * of_nat y) -
      (of_nat x + of_nat y) * (of_nat x + of_nat y) = (0 :: fp)"
    "of_nat y' * (2 - (of_nat y * of_nat y - of_nat x * of_nat x)) - (of_nat x * of_nat x + of_nat y * of_nat y) = (0 :: fp)"
    using assms(2) unfolding double_ok_def double_squares_def double_eqs_def chain_meaning by blast+
  then have "of_nat x' * (1 + ?e) = px P * py P + px P * py P" "of_nat y' * (1 - ?e) = py P * py P + px P * px P"
    unfolding f unfolding p by algebra+
  then have "px (P + P) * (1 + ?e) = of_nat x' * (1 + ?e)" "py (P + P) * (1 - ?e) = of_nat y' * (1 - ?e)"
    using s by (simp_all only: plus_coords)
  then show ?thesis using d unfolding coords_def by simp
qed

definition fp_d_nat :: nat where "fp_d_nat = 37095705934669439343138083508754565189542113879843219016388785533085940283555"

lemma of_nat_d: "(of_nat fp_d_nat :: fp) = fp_d"
proof -
  have "(of_int (int fp_d_nat) :: fp) = of_int ed_d"
    by (rule of_int_fp_eq [THEN iffD2]) (simp add: fp_d_nat_def ed_d_def)
  then show ?thesis by (simp add: fp_d_def)
qed

lemma add_ok_coords:
  assumes "coords x y P" and "coords a b Q" and "add_ok a b x y x' y'"
  shows "coords x' y' (P + Q)"
proof -
  let ?e = "fp_d * px P * px Q * py P * py Q"
  note s = sum_eqs [OF curve_coords curve_coords, of P Q]
  note d = denominators [OF curve_coords curve_coords, of P Q]
  have p: "px P = of_nat x" "py P = of_nat y" "px Q = of_nat a" "py Q = of_nat b"
    using assms(1,2) by (simp_all add: coords_def)
  have e: "of_nat fp_d_nat * (of_nat x * of_nat a * (of_nat y * of_nat b)) = ?e"
    by (simp add: p of_nat_d ac_simps)
  have "of_nat x' * (1 + ?e) + (of_nat x * of_nat a + of_nat y * of_nat b) - (of_nat x + of_nat y) * (of_nat a + of_nat b) = (0 :: fp)"
    "of_nat y' * (1 - ?e) - (of_nat x * of_nat a + of_nat y * of_nat b) = (0 :: fp)"
    using assms(3) unfolding add_ok_def add_products_def add_eqs_def fp_d_nat_def [symmetric] chain_meaning e by blast+
  then have "of_nat x' * (1 + ?e) = px P * py Q + px Q * py P" "of_nat y' * (1 - ?e) = py P * py Q + px P * px Q"
    unfolding p by algebra+
  then have "px (P + Q) * (1 + ?e) = of_nat x' * (1 + ?e)" "py (P + Q) * (1 - ?e) = of_nat y' * (1 - ?e)"
    using s by (simp_all only: plus_coords)
  then show ?thesis using d unfolding coords_def by simp
qed

section \<open>The multiple the chain computes\<close>

lemma base_coords:
  "coords 15112221349535400772501151409588531511454012693041857206046113283949847762202
    46316835694926478169428394003475163141307993866256225615783033603165251855960 base_point"
proof -
  have "on_curve (of_int base_x) (of_int base_y)"
    using ep_of_base curve_coords [of base_point] by (simp add: ep_of_def ep_base_def)
  then have "px base_point = of_int base_x" "py base_point = of_int base_y" by (simp_all add: base_point_def)
  then show ?thesis by (simp add: coords_def base_x_def base_y_def)
qed

lemma minus_base_coords:
  "coords 42783823269122696939284341094755422415180979639778424813682678720006717057747
    46316835694926478169428394003475163141307993866256225615783033603165251855960 (- base_point)"
proof -
  have "(of_nat 42783823269122696939284341094755422415180979639778424813682678720006717057747 :: fp) +
      of_nat 15112221349535400772501151409588531511454012693041857206046113283949847762202 = of_nat 0"
    unfolding of_nat_add [symmetric] by (rule of_nat_mod_fp) (simp add: p255_def)
  then have "(of_nat 42783823269122696939284341094755422415180979639778424813682678720006717057747 :: fp) =
      - of_nat 15112221349535400772501151409588531511454012693041857206046113283949847762202"
    by (simp add: eq_neg_iff_add_eq_0)
  then show ?thesis using base_coords unfolding coords_def uminus_coords by metis
qed

primrec move_by :: "move \<Rightarrow> nat \<Rightarrow> nat" where
  "move_by Double n = 2 * n"
| "move_by Plus n = n + 1"
| "move_by Minus n = n - 1"

primrec chain_by :: "move list \<Rightarrow> nat \<Rightarrow> nat" where
  "chain_by [] n = n"
| "chain_by (m # ms) n = chain_by ms (move_by m n)"

lemma smul_pred: "0 < n \<Longrightarrow> smul n P + - P = smul (n - Suc 0) P"
  by (cases n) simp_all

lemma step_ok_coords:
  assumes "coords x y (smul n base_point)" and "step_ok m x y x' y'" and "0 < n"
  shows "coords x' y' (smul (move_by m n) base_point)"
proof (cases m)
  case Double
  then show ?thesis using double_ok_coords [OF assms(1)] assms(2) by (simp add: smul_double)
next
  case Plus
  then show ?thesis using add_ok_coords [OF assms(1) base_coords] assms(2) by (simp add: add.commute)
next
  case Minus
  then show ?thesis using add_ok_coords [OF assms(1) minus_base_coords] assms(2,3) by (simp only: step_ok.simps move_by.simps smul_pred One_nat_def)
qed

text \<open>A number greater than the count of the moves back is not exhausted on the way.\<close>

primrec moves_back :: "move list \<Rightarrow> nat" where
  "moves_back [] = 0"
| "moves_back (m # ms) = (case m of Minus \<Rightarrow> Suc (moves_back ms) | _ \<Rightarrow> moves_back ms)"

lemma chain_coords:
  assumes "coords x y (smul n base_point)" and "chain_ok x y ms ps a b" and "moves_back ms < n"
  shows "coords a b (smul (chain_by ms n) base_point)"
  using assms
proof (induction ms arbitrary: x y n ps)
  case (Cons m ms)
  obtain x' y' ps' where s: "step_ok m x y x' y'" "chain_ok x' y' ms ps' a b"
    using Cons.prems(2) by (auto split: list.splits)
  have "coords x' y' (smul (move_by m n) base_point)"
    using step_ok_coords [OF Cons.prems(1) s(1)] Cons.prems(3) by simp
  moreover have "moves_back ms < move_by m n" using Cons.prems(3) by (cases m) simp_all
  ultimately show ?case using Cons.IH [of x' y' "move_by m n"] s(2) by simp
qed simp

lemma multiple_1:
  "coords 15112221349535400772501151409588531511454012693041857206046113283949847762202
    46316835694926478169428394003475163141307993866256225615783033603165251855960 (smul 1 base_point)"
  using base_coords by simp

lemmas order_chain_1 = chain_coords [OF multiple_1 chain_1, simplified]
lemmas order_chain_2 = chain_coords [OF order_chain_1 chain_2, simplified]
lemmas order_chain_3 = chain_coords [OF order_chain_2 chain_3, simplified]
lemmas order_chain_4 = chain_coords [OF order_chain_3 chain_4, simplified]
lemmas order_chain_5 = chain_coords [OF order_chain_4 chain_5, simplified]
lemmas order_chain_6 = chain_coords [OF order_chain_5 chain_6, simplified]
lemmas order_chain_7 = chain_coords [OF order_chain_6 chain_7, simplified]
lemmas order_chain_8 = chain_coords [OF order_chain_7 chain_8, simplified]
lemmas order_chain_9 = chain_coords [OF order_chain_8 chain_9, simplified]
lemmas order_chain_10 = chain_coords [OF order_chain_9 chain_10, simplified]
lemmas order_chain_11 = chain_coords [OF order_chain_10 chain_11, simplified]
lemmas order_chain_12 = chain_coords [OF order_chain_11 chain_12, simplified]
lemmas order_chain_13 = chain_coords [OF order_chain_12 chain_13, simplified]
lemmas order_chain_14 = chain_coords [OF order_chain_13 chain_14, simplified]
lemmas order_chain_15 = chain_coords [OF order_chain_14 chain_15, simplified]
lemmas order_chain_16 = chain_coords [OF order_chain_15 chain_16, simplified]
lemmas order_chain_17 = chain_coords [OF order_chain_16 chain_17, simplified]
lemmas order_chain_18 = chain_coords [OF order_chain_17 chain_18, simplified]
lemmas order_chain_19 = chain_coords [OF order_chain_18 chain_19, simplified]
lemmas order_chain_20 = chain_coords [OF order_chain_19 chain_20, simplified]
lemmas order_chain_21 = chain_coords [OF order_chain_20 chain_21, simplified]
lemmas order_chain_22 = chain_coords [OF order_chain_21 chain_22, simplified]
lemmas order_chain_23 = chain_coords [OF order_chain_22 chain_23, simplified]
lemmas order_chain_24 = chain_coords [OF order_chain_23 chain_24, simplified]
lemmas order_chain_25 = chain_coords [OF order_chain_24 chain_25, simplified]
lemmas order_chain_26 = chain_coords [OF order_chain_25 chain_26, simplified]
lemmas order_chain_27 = chain_coords [OF order_chain_26 chain_27, simplified]
lemmas order_chain_28 = chain_coords [OF order_chain_27 chain_28, simplified]
lemmas order_chain_29 = chain_coords [OF order_chain_28 chain_29, simplified]
lemmas order_chain_30 = chain_coords [OF order_chain_29 chain_30, simplified]

section \<open>The order of the base point\<close>

lemma ed_order_nat: "ed_order = int ord253" "nat ed_order = ord253"
  by (simp_all add: ed_order_def ord253_def)

lemma smul_mult: "smul (m * n) P = smul m (smul n P)"
  by (induction m) (simp_all add: smul_add)

lemma smul_zero: "smul n (0 :: curve) = 0"
  by (induction n) simp_all

lemma smul_order_base: "smul ord253 base_point = 0"
  using order_chain_30 by (simp add: coords_def ord253_def curve_eq_iff)

lemma base_point_nz: "base_point \<noteq> 0"
proof
  assume "base_point = 0"
  then have "(of_int base_x :: fp) = of_int 0" using base_coords by (simp add: coords_def base_x_def)
  then show False unfolding of_int_fp_eq by (simp add: base_x_def p25519_def)
qed

theorem smul_base_zero: "smul n base_point = 0 \<longleftrightarrow> ord253 dvd n"
proof
  assume z: "smul n base_point = 0"
  show "ord253 dvd n"
  proof (rule ccontr)
    assume no: "\<not> ord253 dvd n"
    then have "n \<noteq> 0" by (cases n) auto
    from bezout_nat [OF this, of ord253] obtain x y where "n * x = ord253 * y + gcd n ord253" by blast
    moreover have "gcd n ord253 = 1"
      using is_prime_coprime [OF is_prime_ord253 no] by (simp add: coprime_iff_gcd_eq_1 gcd.commute)
    ultimately have "x * n = Suc (y * ord253)" by (simp add: ac_simps)
    then have "smul x (smul n base_point) = base_point + smul y (smul ord253 base_point)"
      by (simp only: smul_mult [symmetric] smul_simps)
    then show False using base_point_nz by (simp add: z smul_order_base smul_zero)
  qed
next
  assume "ord253 dvd n"
  then obtain k where "n = k * ord253" by (metis dvd_def mult.commute)
  then show "smul n base_point = 0" by (simp add: smul_mult smul_order_base smul_zero)
qed

lemma smul_base_mod: "smul (n mod ord253) base_point = smul n base_point"
proof -
  have "smul n base_point = smul (n div ord253 * ord253 + n mod ord253) base_point" by simp
  also have "\<dots> = smul (n mod ord253) base_point"
    unfolding smul_add smul_mult by (simp add: smul_order_base smul_zero)
  finally show ?thesis by simp
qed

lemma smul_base_inject:
  assumes "m < ord253" and "n < ord253" and "smul m base_point = smul n base_point"
  shows "m = n"
proof -
  have eq: "a = b" if "a \<le> b" "b < ord253" "smul a base_point = smul b base_point" for a b
  proof -
    have "smul b base_point = smul (b - a) base_point + smul a base_point" using that(1) by (simp flip: smul_add)
    then have "ord253 dvd b - a" using that(3) by (simp flip: smul_base_zero)
    then show ?thesis using that(1,2) by (auto dest: dvd_imp_le)
  qed
  show ?thesis using eq [of m n] eq [of n m] assms by (cases "m \<le> n") auto
qed

lemma smul_base_low_order: "smul 8 (smul n base_point) = 0 \<longleftrightarrow> ord253 dvd n"
proof -
  have "\<not> ord253 dvd 8" by (rule nat_dvd_not_less) (simp_all add: ord253_def)
  then have "ord253 dvd 8 * n \<longleftrightarrow> ord253 dvd n" using is_prime_dvd_mult [OF is_prime_ord253, of 8 n] by simp
  then show ?thesis by (simp only: smul_base_zero smul_mult [symmetric])
qed

end
