(* ===== verification/VL_Sign.thy ===== *)
theory VL_Sign
  imports VL_Order
begin

text \<open>
  Signing as RFC 8032, 5.1.5 and 5.1.6, states it, over the group of the curve and SHA-512: the
  reference for what the vendor's tool asks its Ed25519 library for. The secret scalar is never a multiple
  of the order, so what is signed with any seed verifies; and of the signatures that verify, no two
  differ only in S.
\<close>

section \<open>Bytes of a number\<close>

primrec le_bytes :: "nat \<Rightarrow> int \<Rightarrow> bytes" where
  "le_bytes 0 v = []"
| "le_bytes (Suc n) v = word_of_int v # le_bytes n (v div 256)"

lemma length_le_bytes [simp]: "length (le_bytes n v) = n"
  by (induction n arbitrary: v) simp_all

lemma le_val_le_bytes: "le_val (le_bytes n v) = v mod 256 ^ n"
proof (induction n arbitrary: v)
  case (Suc n)
  have "le_val (le_bytes (Suc n) v) = v mod 256 + 256 * (v div 256 mod 256 ^ n)"
    by (simp add: Suc.IH uint_word_of_int)
  also have "\<dots> = v mod 256 ^ Suc n" by (simp add: zmod_zmult2_eq)
  finally show ?case .
qed simp

lemma le_val_le_bytes_32: "0 \<le> v \<Longrightarrow> v < 2 ^ 256 \<Longrightarrow> le_val (le_bytes 32 v) = v"
  by (simp add: le_val_le_bytes)

section \<open>Keys and signatures\<close>

definition rfc_secret :: "bytes \<Rightarrow> nat" where
  "rfc_secret seed = nat (8 * (le_val (take 32 (fips512 seed)) mod 2 ^ 254 div 8) + 2 ^ 254)"

definition rfc_public :: "bytes \<Rightarrow> bytes" where
  "rfc_public seed = le_bytes 32 (enc (smul (rfc_secret seed) base_point))"

definition rfc_nonce :: "bytes \<Rightarrow> bytes \<Rightarrow> nat" where
  "rfc_nonce seed msg = nat (le_val (fips512 (drop 32 (fips512 seed) @ msg)) mod ed_order)"

definition rfc_sign :: "bytes \<Rightarrow> bytes \<Rightarrow> bytes" where
  "rfc_sign seed msg =
     (let r = rfc_nonce seed msg; R = le_bytes 32 (enc (smul r base_point));
          h = le_val (fips512 (R @ rfc_public seed @ msg)) mod ed_order
      in R @ le_bytes 32 ((int r + h * int (rfc_secret seed)) mod ed_order))"

lemma length_rfc [simp]: "length (rfc_public seed) = 32" "length (rfc_sign seed msg) = 64"
  by (simp_all add: rfc_public_def rfc_sign_def Let_def)

lemma rfc_secret_unit: "\<not> ord253 dvd rfc_secret seed"
proof
  define k where "k = nat (le_val (take 32 (fips512 seed)) mod 2 ^ 254 div 8 + 2 ^ 251)"
  have "0 \<le> le_val (take 32 (fips512 seed)) mod 2 ^ 254" "le_val (take 32 (fips512 seed)) mod 2 ^ 254 < 2 ^ 254" by simp_all
  then have "0 \<le> le_val (take 32 (fips512 seed)) mod 2 ^ 254 div 8" "le_val (take 32 (fips512 seed)) mod 2 ^ 254 div 8 < 2 ^ 251"
    by simp_all
  then have k: "rfc_secret seed = 8 * k" "0 < k" "k < ord253" by (simp_all add: rfc_secret_def k_def ord253_def nat_add_distrib nat_mult_distrib)
  assume "ord253 dvd rfc_secret seed"
  then have "ord253 dvd 8 \<or> ord253 dvd k" using is_prime_dvd_mult [OF is_prime_ord253] by (simp add: k(1))
  moreover have "\<not> ord253 dvd 8" by (rule nat_dvd_not_less) (simp_all add: ord253_def)
  ultimately show False using k(2,3) by (auto dest: dvd_imp_le)
qed

lemma rfc_sign_accepted:
  "eddsa_accepts (le_val (take 32 (rfc_sign seed msg))) (le_val (drop 32 (rfc_sign seed msg))) (le_val (rfc_public seed))
     (le_val (fips512 (take 32 (rfc_sign seed msg) @ rfc_public seed @ msg)) mod ed_order)"
proof -
  define a r where "a = rfc_secret seed" and "r = rfc_nonce seed msg"
  define R h S where "R = le_bytes 32 (enc (smul r base_point))"
    and "h = le_val (fips512 (R @ rfc_public seed @ msg)) mod ed_order" and "S = (int r + h * int a) mod ed_order"
  have sg: "rfc_sign seed msg = R @ le_bytes 32 S"
    by (simp add: rfc_sign_def Let_def R_def h_def S_def a_def r_def)
  have len: "length R = 32" by (simp add: R_def)
  have v: "le_val R = enc (smul r base_point)" "le_val (rfc_public seed) = enc (smul a base_point)"
    unfolding R_def rfc_public_def a_def by (rule le_val_le_bytes_32 [OF enc_bounds])+
  have h: "0 \<le> h" and S: "0 \<le> S" "S < ed_order" by (simp_all add: h_def S_def ed_order_def)
  have "S < 2 ^ 256" using S(2) by (simp add: ed_order_def)
  then have vS: "le_val (le_bytes 32 S) = S" using S(1) by (rule le_val_le_bytes_32 [rotated])
  have "nat S = (r + nat h * a) mod ord253"
    using h by (simp add: S_def ed_order_nat(1) nat_mod_distrib nat_add_distrib nat_mult_distrib)
  then have "smul (nat S) base_point = smul r base_point + smul (nat h) (smul a base_point)"
    by (simp only: smul_base_mod smul_add smul_mult)
  then have "enc (smul (nat S) base_point - smul (nat h) (smul a base_point)) = enc (smul r base_point)" by simp
  moreover have "smul 8 (smul a base_point) \<noteq> 0" unfolding smul_base_low_order a_def by (rule rfc_secret_unit)
  ultimately have "eddsa_accepts (enc (smul r base_point)) S (enc (smul a base_point)) h"
    using S(2) by (auto simp: eddsa_accepts_def)
  then show ?thesis by (simp add: sg len vS v) (simp only: h_def)
qed

text \<open>S is determined by the rest: the difference of two would be a multiple of the order.\<close>

lemma eddsa_S_unique:
  assumes "eddsa_accepts R S K h" and "eddsa_accepts R S' K h" and "0 \<le> S" and "0 \<le> S'"
  shows "S = S'"
proof -
  obtain A B where A: "enc A = K" "enc (smul (nat S) base_point - smul (nat h) A) = R"
    and B: "enc B = K" "enc (smul (nat S') base_point - smul (nat h) B) = R"
    and lt: "S < ed_order" "S' < ed_order"
    using assms(1,2) by (auto simp: eddsa_accepts_def)
  have "B = A" using A(1) B(1) by (simp flip: enc_inject)
  then have "smul (nat S) base_point = smul (nat S') base_point"
    using A(2) B(2) by (metis enc_inject diff_add_cancel)
  then have "nat S = nat S'" by (rule smul_base_inject [rotated 2]) (use lt assms(3,4) in \<open>simp_all add: ed_order_nat nat_less_iff\<close>)
  then show ?thesis using assms(3,4) by simp
qed

end
