(* ===== verification/VL_Mint.thy ===== *)
theory VL_Mint
  imports VL_Sign VL_Demo
begin

text \<open>
  The vendor's side, and what it means for the device: \<^verbatim>\<open>tools/vl_mint.py\<close> lays out the payload, has it
  signed by a library and spells the result; a licence minted for a device is accepted by it, and nothing
  can be changed in an accepted licence while its payload stays the same.
\<close>

section \<open>Minting\<close>

definition mint_payload :: "u8 \<Rightarrow> u8 \<Rightarrow> u32 \<Rightarrow> bytes \<Rightarrow> u32 \<Rightarrow> u32 \<Rightarrow> u32 \<Rightarrow> bytes" where
  "mint_payload kid fam feats dev nb na ser =
     [0x56, 1, kid, fam] @ put_le32 feats @ dev @ put_le32 nb @ put_le32 na @ put_le32 ser"

definition mint_message :: "bytes \<Rightarrow> bytes" where
  "mint_message p = VL_SIGN_PREFIX @ 0 # p"

text \<open>The Ed25519 library: the public key of a seed, signing, and verifying.\<close>

record crypto =
  pubkey_of :: "bytes \<Rightarrow> bytes"
  sign_with :: "bytes \<Rightarrow> bytes \<Rightarrow> bytes"
  verifies :: "bytes \<Rightarrow> bytes \<Rightarrow> bytes \<Rightarrow> bool"

text \<open>\<^verbatim>\<open>cmd_issue\<close>, from the arguments as they have been parsed to the 160 characters; \<open>None\<close> is an exit
  with an error message.\<close>

definition mint_issue :: "crypto \<Rightarrow> bytes \<Rightarrow> u8 \<Rightarrow> u8 \<Rightarrow> u32 \<Rightarrow> bytes \<Rightarrow> u32 \<Rightarrow> u32 \<Rightarrow> u32 \<Rightarrow> bytes option" where
  "mint_issue lib seed kid fam feats dev nb na ser =
     (if length dev \<noteq> 16 then None
      else if nb \<noteq> 0 \<and> na \<noteq> 0 \<and> na < nb then None
      else
        let p = mint_payload kid fam feats dev nb na ser; sig = sign_with lib seed (mint_message p) in
        if \<not> verifies lib (pubkey_of lib seed) sig (mint_message p) then None
        else let blob = b32_text (p @ sig) in if length blob \<noteq> 160 then None else Some blob)"

text \<open>What both libraries document: the keys and signatures are those of RFC 8032, and a signature
  made with a seed verifies under its public key.\<close>

definition rfc_library :: "crypto \<Rightarrow> bool" where
  "rfc_library lib \<longleftrightarrow> pubkey_of lib = rfc_public \<and> sign_with lib = rfc_sign \<and>
     (\<forall>seed msg. verifies lib (rfc_public seed) (rfc_sign seed msg) msg)"

lemma mint_issue_some:
  assumes "rfc_library lib" and "mint_issue lib seed kid fam feats dev nb na ser = Some blob"
  shows "length dev = 16" and
    "blob = b32_text (mint_payload kid fam feats dev nb na ser @
       rfc_sign seed (mint_message (mint_payload kid fam feats dev nb na ser)))"
  using assms by (auto simp: mint_issue_def rfc_library_def Let_def split: if_splits)

lemma mint_issue_total:
  assumes "rfc_library lib" and "length dev = 16" and "nb = 0 \<or> na = 0 \<or> nb \<le> na"
  shows "\<exists>blob. mint_issue lib seed kid fam feats dev nb na ser = Some blob"
  using assms b32_text_spec [of "mint_payload kid fam feats dev nb na ser @
       rfc_sign seed (mint_message (mint_payload kid fam feats dev nb na ser))"]
  by (auto simp: mint_issue_def rfc_library_def Let_def mint_payload_def VL_BASE32_CHARS_def)

lemma mint_payload_fields:
  assumes "length dev = 16" and "bin = mint_payload kid fam feats dev nb na ser @ sg"
  shows "parse_license bin = \<lparr>version = 1, key_id = kid, family = fam, features = feats, device_id = dev,
      not_before = nb, not_after = na, serial = ser, checked = 0\<rparr>"
    and "bin ! 2 = kid" "take 36 bin = mint_payload kid fam feats dev nb na ser" "take 16 (drop 8 bin) = dev"
    and "header_ok cfg bin \<longleftrightarrow> cfg_family cfg = fam" "drop 36 bin = sg"
proof -
  have "length (mint_payload kid fam feats dev nb na ser) = 36" using assms(1) by (simp add: mint_payload_def)
  then show "take 36 bin = mint_payload kid fam feats dev nb na ser" "drop 36 bin = sg" by (simp_all add: assms(2))
  have b: "bin = [0x56, 1, kid, fam] @ put_le32 feats @ dev @ put_le32 nb @ put_le32 na @ put_le32 ser @ sg"
    by (simp add: assms(2) mint_payload_def)
  show "bin ! 2 = kid" "take 16 (drop 8 bin) = dev" "header_ok cfg bin \<longleftrightarrow> cfg_family cfg = fam"
    using assms(1) by (auto simp: b header_ok_def)
  have "drop 4 bin = put_le32 feats @ dev @ put_le32 nb @ put_le32 na @ put_le32 ser @ sg"
    "drop 24 bin = put_le32 nb @ put_le32 na @ put_le32 ser @ sg" "drop 28 bin = put_le32 na @ put_le32 ser @ sg"
    "drop 32 bin = put_le32 ser @ sg" "take 16 (drop 8 bin) = dev"
    using assms(1) by (simp_all add: b)
  then show "parse_license bin = \<lparr>version = 1, key_id = kid, family = fam, features = feats, device_id = dev,
      not_before = nb, not_after = na, serial = ser, checked = 0\<rparr>"
    by (simp add: parse_license_def zero_license_def vl_offsets vl_sizes) (simp add: b)
qed

section \<open>What the signature of a licence is checked to be\<close>

definition licence_signed :: "bytes \<Rightarrow> bytes \<Rightarrow> bool" where
  "licence_signed key bin \<longleftrightarrow>
     eddsa_accepts (le_val (take 32 (drop 36 bin))) (le_val (drop 68 bin)) (le_val key)
       (le_val (fips512 (take 32 (drop 36 bin) @ key @ mint_message (take 36 bin))) mod ed_order)"

lemma signed_by_eddsa:
  assumes "length bin = 100" and "length (pk_key pk) = 32"
  shows "signed_by vl_ed25519_verify bin pk \<longleftrightarrow> licence_signed (pk_key pk) bin"
proof -
  have m: "length (mint_message (take 36 bin)) = 52" using assms(1) by (simp add: mint_message_def VL_SIGN_PREFIX_def)
  then have mb: "msg_bytes (Some (mint_message (take 36 bin))) 52 = mint_message (take 36 bin)" by (simp add: msg_bytes_def)
  have "drop 32 (drop 36 bin) = drop 68 bin" by simp
  then show ?thesis
    using verify_eddsa [of "drop 36 bin" "pk_key pk" "Some (mint_message (take 36 bin))" 52] assms m
    by (simp add: signed_by_def licence_signed_def mb flip: mint_message_def)
qed

definition keys_ok :: "vl_config \<Rightarrow> bool" where
  "keys_ok cfg \<longleftrightarrow> (\<forall>k \<in> set (case keys cfg of None \<Rightarrow> [] | Some ks \<Rightarrow> ks). length (pk_key k) = 32)"

lemma selects_length:
  assumes "keys_ok cfg" and "args_ok cfg hal" and "selects (the (keys cfg)) kid pk"
  shows "length (pk_key pk) = 32"
  using assms by (auto simp: keys_ok_def args_ok_def selects_def)

lemma admits_eddsa:
  assumes "keys_ok cfg"
  shows "admits vl_ed25519_verify b cfg hal s bin \<longleftrightarrow>
    args_ok cfg hal \<and> length bin = 100 \<and> b32_spells b bin \<and> header_ok cfg bin \<and>
    (\<exists>pk. selects (the (keys cfg)) (bin ! 2) pk \<and> licence_signed (pk_key pk) bin) \<and>
    (\<exists>segs s1. id_segments (the (read_id_segment hal)) 0 s = (Inr segs, s1) \<and> bound_to bin segs \<and>
       serial (parse_license bin) \<notin> denied cfg \<and> clock_ok cfg hal (parse_license bin) s1)"
  using signed_by_eddsa selects_length [OF assms] unfolding admits_def by blast

lemma vl_verify_ok_iff:
  assumes "id_source rd" and "read_id_segment hal = Some rd"
  shows "fst (vl_verify (Some b) (Some cfg) (Some hal) out s) = VL_OK \<longleftrightarrow> (\<exists>bin. admits vl_ed25519_verify b cfg hal s bin)"
proof -
  obtain st out' s' where v: "vl_verify_with vl_ed25519_verify (Some b) (Some cfg) (Some hal) out s = (st, out', s')"
    by (metis surj_pair)
  show ?thesis using id_source.vl_verify_spec(1) [OF assms(1) v assms(2)] v by (simp add: vl_verify_def)
qed

text \<open>A minted licence, on a device that has been given the vendor's key.\<close>

lemma minted_admitted:
  assumes lib: "rfc_library lib" and issue: "mint_issue lib seed kid fam feats dev nb na ser = Some b"
    and a: "args_ok cfg hal" "keys_ok cfg" "selects (the (keys cfg)) kid \<lparr>pk_key_id = kid, pk_key = rfc_public seed\<rparr>" "cfg_family cfg = fam"
    and ids: "id_segments (the (read_id_segment hal)) 0 s = (Inr segs, s1)" "segs \<noteq> []" "dev = take 16 (fingerprint_of segs)"
    and ok: "ser \<notin> denied cfg" "clock_ok cfg hal \<lparr>version = 1, key_id = kid, family = fam, features = feats, device_id = dev,
      not_before = nb, not_after = na, serial = ser, checked = 0\<rparr> s1"
  defines "p \<equiv> mint_payload kid fam feats dev nb na ser"
  shows "admits vl_ed25519_verify b cfg hal s (p @ rfc_sign seed (mint_message p))"
proof -
  let ?bin = "p @ rfc_sign seed (mint_message p)"
  have dev: "length dev = 16" and b: "b = b32_text ?bin" using mint_issue_some [OF lib issue] by (simp_all add: p_def)
  note f = mint_payload_fields [OF dev, of ?bin kid fam feats nb na ser, folded p_def, OF refl]
  have len: "length ?bin = 100" using dev by (simp add: p_def mint_payload_def)
  have sp: "b32_spells b ?bin" using text_spells [of ?bin] len by (simp add: b)
  have "take 32 (drop 36 ?bin) = take 32 (rfc_sign seed (mint_message p))"
    "drop 68 ?bin = drop 32 (rfc_sign seed (mint_message p))" "take 36 ?bin = p"
    using dev by (simp_all add: p_def mint_payload_def)
  then have "licence_signed (rfc_public seed) ?bin"
    using rfc_sign_accepted [of seed "mint_message p"] by (simp only: licence_signed_def)
  moreover have "bound_to ?bin segs" using ids(2,3) f(4) by (simp add: bound_to_def)
  moreover have "header_ok cfg ?bin" "selects (the (keys cfg)) (?bin ! 2) \<lparr>pk_key_id = kid, pk_key = rfc_public seed\<rparr>"
    using f(2,5) a(3,4) by simp_all
  moreover have "serial (parse_license ?bin) \<notin> denied cfg" "clock_ok cfg hal (parse_license ?bin) s1"
    using ok unfolding f(1) by simp_all
  ultimately show ?thesis unfolding admits_eddsa [OF a(2)] using a(1) len sp ids(1) by (metis vl_pubkey.select_convs(2))
qed

text \<open>What an accepted licence is signed for.\<close>

lemma admitted_unique:
  assumes "keys_ok cfg" and "keys cfg' = keys cfg" and "admits vl_ed25519_verify b cfg hal s bin"
    and "admits vl_ed25519_verify b' cfg' hal' t bin'" and "take 68 bin = take 68 bin'"
  shows "bin = bin'"
proof -
  have ok': "keys_ok cfg'" using assms(1,2) by (simp add: keys_ok_def)
  obtain pk where pk: "selects (the (keys cfg)) (bin ! 2) pk" "licence_signed (pk_key pk) bin" and len: "length bin = 100"
    using assms(3) unfolding admits_eddsa [OF assms(1)] by blast
  obtain pk' where pk': "selects (the (keys cfg)) (bin' ! 2) pk'" "licence_signed (pk_key pk') bin'" and len': "length bin' = 100"
    using assms(4) unfolding admits_eddsa [OF ok'] assms(2) by blast
  have "bin ! 2 = take 68 bin ! 2" "bin' ! 2 = take 68 bin' ! 2" by simp_all
  then have "bin' ! 2 = bin ! 2" by (simp only: assms(5))
  then have "pk' = pk" using pk(1) pk'(1) by (simp flip: find_key_selects)
  have "take 32 (drop 36 bin') = take 32 (drop 36 bin)" "take 36 bin' = take 36 bin"
    using arg_cong [OF assms(5), of "drop 36"] arg_cong [OF assms(5), of "take 36"] by (simp_all add: drop_take)
  then have "eddsa_accepts (le_val (take 32 (drop 36 bin))) (le_val (drop 68 bin')) (le_val (pk_key pk))
      (le_val (fips512 (take 32 (drop 36 bin) @ pk_key pk @ mint_message (take 36 bin))) mod ed_order)"
    using pk'(2) by (simp only: licence_signed_def \<open>pk' = pk\<close>)
  then have "le_val (drop 68 bin) = le_val (drop 68 bin')"
    by (rule eddsa_S_unique [OF pk(2) [unfolded licence_signed_def]]) (use le_val_bounds in auto)
  then have "drop 68 bin = drop 68 bin'" by (rule le_val_inj [rotated]) (simp add: len len')
  then show ?thesis using assms(5) by (metis append_take_drop_id)
qed

section \<open>A licence minted for a Linux machine\<close>

definition demo_library :: crypto where
  "demo_library = \<lparr>pubkey_of = rfc_public, sign_with = rfc_sign,
     verifies = (\<lambda>key sg msg. vl_ed25519_verify (Some sg) (Some msg) (length msg) (Some key) = 1 \<or> 2 ^ 63 < length msg)\<rparr>"

lemma demo_library_rfc: "rfc_library demo_library"
proof -
  have "vl_ed25519_verify (Some (rfc_sign seed msg)) (Some msg) (length msg) (Some (rfc_public seed)) = 1"
    if "length msg \<le> 2 ^ 63" for seed msg
    using verify_eddsa [of "rfc_sign seed msg" "rfc_public seed" "Some msg" "length msg"] rfc_sign_accepted [of seed msg] that
    by (simp add: msg_bytes_def)
  then show ?thesis by (auto simp: rfc_library_def demo_library_def not_less)
qed

definition mint_cfg :: "u32 \<Rightarrow> vl_config" where
  "mint_cfg fl = (demo_cfg fl)\<lparr>keys := Some [\<lparr>pk_key_id = 1, pk_key = rfc_public (replicate 32 7)\<rparr>]\<rparr>"

lemma mint_cfg_facts:
  "args_ok (mint_cfg fl) px_hal" "keys_ok (mint_cfg fl)" "cfg_family (mint_cfg fl) = 3" "denied (mint_cfg fl) = {}"
  "selects (the (keys (mint_cfg fl))) 1 \<lparr>pk_key_id = 1, pk_key = rfc_public (replicate 32 7)\<rparr>"
  by (simp_all add: mint_cfg_def demo_cfg_def args_ok_def px_hal_def keys_ok_def denied_def find_key_def flip: find_key_selects)

lemma demo_issue:
  obtains b where "mint_issue demo_library (replicate 32 7) 1 3 5 (take 16 (fingerprint_of px_segs)) 50 200 7 = Some b"
  using mint_issue_total [OF demo_library_rfc, of "take 16 (fingerprint_of px_segs)" 50 200] by fastforce

lemma demo_mint_clock:
  "not_before lic = 50 \<Longrightarrow> not_after lic = 200 \<Longrightarrow> clock_ok cfg px_hal lic (demo_px 100)"
  by (rule demo_px_clock) (simp_all add: in_window_def)

lemma px_segs_ids: "id_segments (the (read_id_segment px_hal)) 0 (demo_px 100) = (Inr px_segs, demo_px 100)" "px_segs \<noteq> []"
  using demo_px_ids by (simp_all add: px_hal_def px_segs_def)

lemma demo_minted:
  obtains b bin where "admits vl_ed25519_verify b (mint_cfg 2) px_hal (demo_px 100) bin"
proof -
  obtain b where "mint_issue demo_library (replicate 32 7) 1 3 5 (take 16 (fingerprint_of px_segs)) 50 200 7 = Some b"
    by (rule demo_issue)
  from minted_admitted [OF demo_library_rfc this mint_cfg_facts(1,2,5,3) px_segs_ids refl, of 2]
  show ?thesis using that mint_cfg_facts(4) demo_mint_clock by auto
qed

section \<open>Properties\<close>

text \<open>C1. \<open>vl_verify\<close> with the code's own signature check, end to end: on a device whose identity
  callback keeps its contract, it returns \<open>VL_OK\<close> if and only if the blob spells a hundred bytes with the right
  header, the first configured key of their key id is the encoding of a point A of the curve, not of
  small order, with S below the group order and [S]B - [h]A encoded by R, where h is the SHA-512 of R, the key,
  the domain string and the payload, and the bytes are bound to the device's fingerprint, not denied, and
  in time.\<close>

theorem vl_verify_genuine:
  assumes "id_source rd" and "read_id_segment hal = Some rd" and "keys_ok cfg"
  shows "fst (vl_verify (Some b) (Some cfg) (Some hal) out s) = VL_OK \<longleftrightarrow>
    (\<exists>bin pk segs s1. args_ok cfg hal \<and> length bin = 100 \<and> b32_spells b bin \<and> header_ok cfg bin \<and>
       selects (the (keys cfg)) (bin ! 2) pk \<and>
       eddsa_accepts (le_val (take 32 (drop 36 bin))) (le_val (drop 68 bin)) (le_val (pk_key pk))
         (le_val (fips512 (take 32 (drop 36 bin) @ pk_key pk @ str_bytes ''vectilicense:v1'' @ 0 # take 36 bin)) mod ed_order) \<and>
       id_segments rd 0 s = (Inr segs, s1) \<and> bound_to bin segs \<and>
       serial (parse_license bin) \<notin> denied cfg \<and> clock_ok cfg hal (parse_license bin) s1)"
proof -
  have "VL_SIGN_PREFIX = str_bytes ''vectilicense:v1''" by (simp add: VL_SIGN_PREFIX_def)
  then have "licence_signed key bin \<longleftrightarrow>
      eddsa_accepts (le_val (take 32 (drop 36 bin))) (le_val (drop 68 bin)) (le_val key)
        (le_val (fips512 (take 32 (drop 36 bin) @ key @ str_bytes ''vectilicense:v1'' @ 0 # take 36 bin)) mod ed_order)" for key bin
    by (simp add: licence_signed_def mint_message_def)
  then show ?thesis
    unfolding vl_verify_ok_iff [OF assms(1,2)] admits_eddsa [OF assms(3)] assms(2) option.sel by blast
qed

lemma vl_verify_genuine_witness:
  "\<exists>b. fst (vl_verify (Some b) (Some (mint_cfg 2)) (Some px_hal) None (demo_px 100)) = VL_OK"
proof -
  obtain b bin where "admits vl_ed25519_verify b (mint_cfg 2) px_hal (demo_px 100) bin" by (rule demo_minted)
  then show ?thesis
    using vl_verify_genuine [OF px_id_source px_hal_simps(1) mint_cfg_facts(2), of b 2 None "demo_px 100"]
    unfolding admits_eddsa [OF mint_cfg_facts(2)] licence_signed_def mint_message_def VL_SIGN_PREFIX_def px_hal_simps(1) option.sel
    by blast
qed

text \<open>C2. What the vendor mints, the device accepts. For every seed, key id, family, features, window and
  serial: the licence that \<^verbatim>\<open>vl_mint.py issue\<close> signs, as RFC 8032 signs, for the sixteen bytes
  a device reports passes \<open>vl_verify\<close> on that device, if the device has the public key first for its key id, the family, and
  the serial is not denied and the clock is good; and what the device then reads is what was minted.\<close>

theorem minted_licence_accepted:
  assumes "rfc_library lib" and "mint_issue lib seed kid fam feats dev nb na ser = Some b"
    and "id_source rd" and "read_id_segment hal = Some rd"
    and "args_ok cfg hal" and "keys_ok cfg"
    and "selects (the (keys cfg)) kid \<lparr>pk_key_id = kid, pk_key = rfc_public seed\<rparr>" and "cfg_family cfg = fam"
    and "id_segments rd 0 s = (Inr segs, s1)" and "segs \<noteq> []" and "dev = take 16 (fingerprint_of segs)"
    and "ser \<notin> denied cfg"
    and "clock_ok cfg hal \<lparr>version = 1, key_id = kid, family = fam, features = feats, device_id = dev,
      not_before = nb, not_after = na, serial = ser, checked = 0\<rparr> s1"
  shows "\<exists>s'. vl_verify (Some b) (Some cfg) (Some hal) (Some out) s =
    (VL_OK, Some \<lparr>version = 1, key_id = kid, family = fam, features = feats, device_id = dev,
      not_before = nb, not_after = na, serial = ser, checked = checks_run cfg hal\<rparr>, s')"
proof -
  define p where "p = mint_payload kid fam feats dev nb na ser"
  have a: "admits vl_ed25519_verify b cfg hal s (p @ rfc_sign seed (mint_message p))"
    unfolding p_def by (rule minted_admitted [OF assms(1,2,5-8) _ assms(10-13)]) (simp add: assms(4,9))
  obtain st out' s' where v: "vl_verify_with vl_ed25519_verify (Some b) (Some cfg) (Some hal) (Some out) s = (st, out', s')"
    by (metis surj_pair)
  note spec = id_source.vl_verify_spec [OF assms(3) v assms(4)]
  have "length dev = 16" by (rule mint_issue_some(1) [OF assms(1,2)])
  note f = mint_payload_fields(1) [OF this refl, of kid fam feats nb na ser "rfc_sign seed (mint_message p)", folded p_def]
  have "st = VL_OK" using spec(1) a by blast
  then show ?thesis using spec(2) [OF _ a] v by (simp add: vl_verify_def f mark_checked_def)
qed

lemma minted_licence_accepted_witness:
  "\<exists>b s'. vl_verify (Some b) (Some (mint_cfg 2)) (Some px_hal) (Some zero_license) (demo_px 100) =
    (VL_OK, Some \<lparr>version = 1, key_id = 1, family = 3, features = 5, device_id = take 16 (fingerprint_of px_segs),
      not_before = 50, not_after = 200, serial = 7, checked = checks_run (mint_cfg 2) px_hal\<rparr>, s')"
proof -
  obtain b where "mint_issue demo_library (replicate 32 7) 1 3 5 (take 16 (fingerprint_of px_segs)) 50 200 7 = Some b"
    by (rule demo_issue)
  from minted_licence_accepted [OF demo_library_rfc this px_id_source px_hal_simps(1) mint_cfg_facts(1,2,5,3) demo_px_ids px_segs_ids(2) refl,
      of 2 100 zero_license]
  show ?thesis using mint_cfg_facts(4) demo_mint_clock by (metis empty_iff vl_license.select_convs(6,7))
qed

text \<open>C3. Nobody makes a second licence out of one: if \<open>vl_verify\<close> accepts two blobs, on any two devices with the
  same keys, and they spell bytes with the same payload and the same R, then they spell the same bytes. (S is
  below the order of the base point, which is prime, so no other S has the same multiple.)\<close>

theorem licence_not_malleable:
  assumes "id_source rd" and "read_id_segment hal = Some rd" and "id_source rd'" and "read_id_segment hal' = Some rd'"
    and "keys_ok cfg" and "keys cfg' = keys cfg"
    and "fst (vl_verify (Some b) (Some cfg) (Some hal) out s) = VL_OK"
    and "fst (vl_verify (Some b') (Some cfg') (Some hal') out' s') = VL_OK"
    and "b32_spells b bin" and "b32_spells b' bin'" and "length bin = 100" and "length bin' = 100" and "take 68 bin = take 68 bin'"
  shows "bin = bin'"
proof -
  obtain x x' where x: "admits vl_ed25519_verify b cfg hal s x" "admits vl_ed25519_verify b' cfg' hal' s' x'"
    using assms(7,8) unfolding vl_verify_ok_iff [OF assms(1,2)] vl_verify_ok_iff [OF assms(3,4)] by blast
  then have "b32_spells b x" "b32_spells b' x'" "length x = 100" "length x' = 100" by (simp_all add: admits_def)
  then have "x = bin" "x' = bin'" using assms(9-12) b32_spells_unique by metis+
  then show ?thesis using admitted_unique [OF assms(5,6)] x assms(13) by metis
qed

lemma licence_not_malleable_witness:
  "\<exists>b bin S. fst (vl_verify (Some b) (Some (mint_cfg 2)) (Some px_hal) None (demo_px 100)) = VL_OK \<and> b32_spells b bin \<and>
     length S = 32 \<and> S \<noteq> drop 68 bin \<and>
     fst (vl_verify (Some (b32_text (take 68 bin @ S))) (Some (mint_cfg 2)) (Some px_hal) None (demo_px 100)) \<noteq> VL_OK"
proof -
  obtain b bin where a: "admits vl_ed25519_verify b (mint_cfg 2) px_hal (demo_px 100) bin" by (rule demo_minted)
  then have ok: "fst (vl_verify (Some b) (Some (mint_cfg 2)) (Some px_hal) None (demo_px 100)) = VL_OK"
    unfolding vl_verify_ok_iff [OF px_id_source px_hal_simps(1)] by blast
  have sp: "b32_spells b bin" "length bin = 100" using a by (simp_all add: admits_def)
  define S :: bytes where "S = (if drop 68 bin = replicate 32 0 then replicate 32 1 else replicate 32 0)"
  have S: "length S = 32" "S \<noteq> drop 68 bin" by (auto simp: S_def numeral_eq_Suc)
  have "b32_spells (b32_text (take 68 bin @ S)) (take 68 bin @ S)" using text_spells [of "take 68 bin @ S"] sp(2) S(1) by simp
  moreover have "bin \<noteq> take 68 bin @ S" using S(2) by (metis append_take_drop_id same_append_eq)
  ultimately have "fst (vl_verify (Some (b32_text (take 68 bin @ S))) (Some (mint_cfg 2)) (Some px_hal) None (demo_px 100)) \<noteq> VL_OK"
    using licence_not_malleable [OF px_id_source px_hal_simps(1) px_id_source px_hal_simps(1) mint_cfg_facts(2) refl ok _ sp(1) _ sp(2), of
        "b32_text (take 68 bin @ S)" None "demo_px 100" "take 68 bin @ S"] sp(2) S(1) by auto
  then show ?thesis using ok sp(1) S by blast
qed

end
