(* ===== verification/Spec2Isabelle.thy ===== *)
theory Spec2Isabelle
  imports VL_Device VL_Activate VL_Hal_Mac VL_Rollback VL_Fips VL_Chunk VL_Ed25519_Curve VL_Field_Bounds VL_Calls VL_Mint
begin

text \<open>
  VectiLicense verifies offline licences on small devices: a vendor signs a 36-byte payload with
  Ed25519, the customer types the hundred bytes in as 160 base32 characters, and the firmware
  decides on every boot whether the licence is good for this device, now. This development models
  the C code of the library, its platform layers, the Arduino bridge with its front ends, and the three
  example programs.

  \<^bold>\<open>How the parts fit.\<close> A transport (\<^verbatim>\<open>transport/vl_line.c\<close>, \<^verbatim>\<open>transport/vl_chunk.c\<close>)
  delivers the string; \<open>vl_verify\<close> in \<^verbatim>\<open>core/vl_core.c\<close> decodes it (\<^verbatim>\<open>core/vl_base32.c\<close>), checks
  the header and the signature (\<^verbatim>\<open>core/vl_ed25519.c\<close> on \<^verbatim>\<open>core/vl_sha512.c\<close>), compares the
  device fingerprint (\<^verbatim>\<open>core/vl_sha256.c\<close>), the deny-list, the window and the high-water mark.
  Everything about the device goes through \<open>vl_hal_t\<close>, a struct of callbacks that one file per
  platform provides. \<^verbatim>\<open>bridge/vl_bridge.h\<close> keeps the verdict for an application and hands blobs
  from one task to another, and four front ends (console, portal, dashboard, updates) bring blobs to it
  and carry the verdict out; \<^verbatim>\<open>examples/esp32-arduino\<close> is an application of all of them,
  \<^verbatim>\<open>examples/baremetal/vl_gate.c\<close> one without the bridge, \<^verbatim>\<open>examples/posix/vl_activate.c\<close> a
  command-line tool.

  \<^bold>\<open>Theories, in the order the code has them.\<close>
  \<^item> \<open>VL_Prelude\<close>: bytes and words, \<open>overlay\<close> for \<^verbatim>\<open>memcpy\<close>, bit lists.
  \<^item> \<open>VL_Util\<close>, \<open>VL_Base32\<close>, \<open>VL_Sha256\<close>, \<open>VL_Sha512\<close>: the helpers of \<^verbatim>\<open>core/\<close>. The hashes
    share \<open>VL_Stream\<close>, whose locale \<open>md_hash\<close> proves once that a block hash fed in pieces hashes
    the concatenation; \<open>VL_Fips\<close> states FIPS 180-4 and proves that both compute it, and that the constant
    tables are the roots the standard defines them by.
  \<^item> \<open>VL_Field\<close>, \<open>VL_Ed25519\<close>: the TweetNaCl-derived arithmetic and the verification equation, limb
    by limb; \<open>VL_Field_Correct\<close> and \<open>VL_Ed25519_Correct\<close> relate the limbs to integers modulo
    \<open>2^255 - 19\<close> and bound them; \<open>VL_Field_Bounds\<close> runs the carry and the product with every 64-bit
    operation checked. \<open>VL_Ed25519_Group\<close> refines the limb programs for points to operations on
    coordinates modulo \<open>p\<close> (addition, multiple, encoding, decoding, the eightfold), \<open>VL_Ed25519_Scalar\<close>
    the scalar reduction to arithmetic modulo the group order, and \<open>VL_Ed25519_Verify\<close> states over
    these what the verification accepts.
  \<^item> The mathematics behind it: \<open>VL_Primes\<close>, \<open>VL_Modexp\<close> and \<open>VL_Prime\<close> certify that \<open>2^255 - 19\<close> is prime,
    \<open>VL_Fp\<close> is its field as a type, \<open>VL_Curve\<close> the points of the curve as a type, with the group law proved
    (completeness of the addition, associativity), and \<open>VL_Ed25519_Curve\<close> carries the coordinates of
    \<open>VL_Ed25519_Group\<close> to its points, so that what the code decides is the equation of RFC 8032 in a group.
    \<open>VL_Hex\<close> computes with long numbers by rewriting; \<open>VL_Order_Prime\<close> and \<open>VL_Order_Cert\<close> use it to certify that
    the order is prime and that it annihilates the base point, \<open>VL_Order\<close> concludes that it is the base point's order.
    \<open>VL_Sign\<close> is signing as the RFC defines it, and \<open>VL_Mint\<close> the vendor's tool: what it issues is
    accepted by the device it was issued for.
  \<^item> \<open>VL_Types\<close>: \<^verbatim>\<open>include/vectilicense/vectilicense.h\<close>. The HAL struct is the record \<open>vl_hal\<close> over
    a platform state \<open>'s\<close>; a NULL callback is \<open>None\<close>, and every callback is a function of that state.
  \<^item> \<open>VL_Core\<close>: \<^verbatim>\<open>core/vl_core.c\<close>. The platform state is threaded through the callbacks in the
    order the code calls them, so that equality of states says which callbacks had an effect.
    \<open>VL_Fingerprint\<close> holds the locale \<open>id_source\<close> (the contract of \<open>read_id_segment\<close>) and the
    meaning of the fingerprint loop; \<open>VL_Verify\<close> the meaning of \<open>vl_verify\<close>: \<open>admits\<close> is the
    condition under which a blob is good, stated without the order of the steps.
  \<^item> \<open>VL_Line\<close>, \<open>VL_Chunk\<close>: the transports, as state machines that refine the splitting of a stream
    into lines and a map of pieces.
  \<^item> \<open>VL_Hal\<close>: the locales \<open>hwm_device\<close> and \<open>blob_storage\<close>, the contracts of the storage callbacks;
    \<open>VL_Hal_Posix\<close>, \<open>VL_Hal_Esp32\<close>, \<open>VL_Hal_Rp2040\<close>, \<open>VL_Hal_Mcu\<close> model \<^verbatim>\<open>hal/*\<close> and interpret them.
    \<open>VL_Rollback\<close> follows a machine through a history of checks and finds the one way in which the clocks it
    accepts can go back.
    \<open>VL_Hal_Mac\<close> is the macOS half of the POSIX file; \<open>VL_Effects\<close> carries a condition on the platform
    state through \<open>vl_verify\<close>; \<open>VL_Calls\<close> counts the calls of the platform that a check makes.
  \<^item> \<open>VL_Bridge\<close>, \<open>VL_Gate\<close>: the object and the bare-metal gate, as step relations with their invariants.
  \<^item> \<open>VL_Text\<close> (what \<^verbatim>\<open>printf\<close> writes), \<open>VL_Frontends\<close>, \<open>VL_Sketch\<close>, \<open>VL_Activate\<close>: the front ends of
    the bridge, the Arduino sketch and the command-line tool, operation by operation.
  \<^item> \<open>VL_Persistence\<close>: what survives a power cycle; \<open>VL_Applications\<close>: the object and the gate end to
    end; \<open>VL_Device\<close>: the front ends and a device running the sketch, over all the states it can reach.
  \<^item> \<open>VL_Demo\<close>: concrete devices and licences on which the theorems are instantiated.

  \<^bold>\<open>Conventions.\<close> A pointer argument that may be NULL is an option; an output buffer is passed in
  with its contents and returned; a capacity is a number beside it. \<^verbatim>\<open>uint8_t\<close>, \<^verbatim>\<open>uint32_t\<close> and
  \<^verbatim>\<open>uint64_t\<close> values are words of that width. \<^verbatim>\<open>size_t\<close> lengths and loop counters, which the code
  bounds by constants, are natural numbers. The limbs of the field arithmetic are integers. Error
  returns are the constructors of \<open>vl_status\<close>, with their C values in \<open>status_code\<close>. Uninitialised
  buffers start as arbitrary contents or zeros, which no statement depends on.

  \<^bold>\<open>Parameters.\<close> Code that is not in the repository is a parameter: the clock, files and directory
  listing of a Linux machine (the record \<open>posix\<close>, where any file may be unreadable, unwritable or on
  a full disk), the ESP-IDF and NVS calls (\<open>esp_idf\<close>, with the documented laws of NVS as the locale
  \<open>esp_nvs\<close>), the flash and id calls of the pico-sdk (\<open>rp_sdk\<close>), the registers of the STM32 and NXP
  parts, the board support of the example (\<open>board\<close>), the interface list and registry of a Mac
  (\<open>macos\<close>), the serial port and NVS partition of the sketch (\<open>arduino\<close>). The four Arduino libraries
  behind the front ends appear as what they are handed: log lines, form parameters, cards, switches. \<open>vl_verify_with\<close> takes the signature check as an
  argument, and \<open>vl_verify\<close> is its instance at \<open>vl_ed25519_verify\<close>: what is proved of the former for
  every signature check holds of the latter.

  \<^bold>\<open>Bounds.\<close> The fingerprint loop stops at 64 segments and the decoder at 1024 characters, as the
  code does, so a check calls the platform at most 67 times whatever the platform answers; no fuel is used
  anywhere, every loop is a terminating function.

  \<^bold>\<open>Not modelled.\<close> The unity build (only \<^verbatim>\<open>#include\<close> lines) and the tests; of the minting tool, the
  key files, dates, QR codes and its other commands, which are input and output. That signatures cannot be forged
  and hashes do not collide are assumptions of the design and are not stated. Secrecy in time and the effect of wiping dead
  buffers are outside functional semantics.
\<close>

section \<open>Verification\<close>

text \<open>C4. \<open>vl_verify\<close> accepts exactly what it should. On a device whose identity callback keeps
  its contract, the call returns \<open>VL_OK\<close> if and only if the blob spells one hundred bytes with the
  right magic, version and family, signed by the first configured key of its key id, bound to the
  device's fingerprint, not on the deny-list, inside its window and not behind the high-water mark;
  then the licence handed back has the fields of those bytes and the bits of exactly the checks that
  ran. In every other case the status is an error and the licence is all zero.\<close>

theorem vl_verify_decides:
  assumes "id_source rd" and "read_id_segment hal = Some rd"
  shows "\<exists>st out' s'. vl_verify_with V (Some b) (Some cfg) (Some hal) out s = (st, out', s') \<and>
    (if \<exists>bin. admits V b cfg hal s bin
     then st = VL_OK \<and> (\<exists>bin. admits V b cfg hal s bin \<and>
       out' = map_option (\<lambda>_. mark_checked (checks_run cfg hal) (parse_license bin)) out)
     else st \<noteq> VL_OK \<and> out' = map_option (\<lambda>_. zero_license) out)"
proof -
  obtain st out' s' where v: "vl_verify_with V (Some b) (Some cfg) (Some hal) out s = (st, out', s')"
    by (metis surj_pair)
  note spec = id_source.vl_verify_spec [OF assms(1) v assms(2)]
  show ?thesis using v spec vl_verify_fails_zero [OF v] by auto
qed

lemma vl_verify_decides_witness:
  "\<exists>s'. vl_verify_with yes_check (Some (demo_text px_segs 50 200)) (Some (demo_cfg 2)) (Some px_hal) (Some zero_license) (demo_px 100) =
    (VL_OK, Some (mark_checked 0x17 (parse_license (demo_bin px_segs 50 200))), s')"
proof -
  have a: "admits yes_check (demo_text px_segs 50 200) (demo_cfg 2) px_hal (demo_px 100) (demo_bin px_segs 50 200)"
    by (rule demo_px_admits) simp_all
  have "checks_run (demo_cfg 2) px_hal = 0x17"
    by (simp add: checks_run_def demo_cfg_def denied_def px_hal_def vl_bits_defs)
  moreover have "read_id_segment px_hal = Some px_read_id_segment" by (simp add: px_hal_def)
  from vl_verify_decides [OF px_id_source this, of yes_check "demo_text px_segs 50 200" "demo_cfg 2" "Some zero_license" "demo_px 100"]
  obtain out' s' bin where "vl_verify_with yes_check (Some (demo_text px_segs 50 200)) (Some (demo_cfg 2)) (Some px_hal)
      (Some zero_license) (demo_px 100) = (VL_OK, out', s')"
    "admits yes_check (demo_text px_segs 50 200) (demo_cfg 2) px_hal (demo_px 100) bin"
    "out' = Some (mark_checked (checks_run (demo_cfg 2) px_hal) (parse_license bin))"
    using a by (metis option.map(2))
  ultimately show ?thesis using admits_unique [OF a] by auto
qed

text \<open>C9. Nothing happens for an unsigned blob: unless the blob spells bytes with the right header
  that a configured key has signed, no callback of the platform changes anything, whatever callbacks
  the platform has, and the status is one of the seven that say what was wrong with the arguments
  or the blob.\<close>

theorem vl_verify_unauthentic:
  assumes v: "vl_verify_with V (Some b) (Some cfg) hal out s = (st, out', s')"
    and "\<And>bin. \<not> authentic V b cfg bin"
  shows "s' = s \<and> st \<in> {VL_ERR_INVALID_ARG, VL_ERR_BAD_FORMAT, VL_ERR_BAD_MAGIC, VL_ERR_BAD_VERSION,
    VL_ERR_BAD_FAMILY, VL_ERR_UNKNOWN_KEY, VL_ERR_BAD_SIGNATURE} \<and> out' = map_option (\<lambda>_. zero_license) out"
proof -
  let ?bad = "{VL_ERR_INVALID_ARG, VL_ERR_BAD_FORMAT, VL_ERR_BAD_MAGIC, VL_ERR_BAD_VERSION,
    VL_ERR_BAD_FAMILY, VL_ERR_UNKNOWN_KEY, VL_ERR_BAD_SIGNATURE}"
  have blob: "s1 = s \<and> rc \<in> ?bad" if r: "verify_blob V b cfg h (the (keys cfg)) s = (rc, lic, s1)" for h rc lic s1
  proof (cases rule: blob_decode_cases [of b])
    case (good bin)
    have "verify_signed V cfg h bin pk s = (VL_ERR_BAD_SIGNATURE, parse_license bin, s)"
      if "header_ok cfg bin" and "find_key (the (keys cfg)) (bin ! 2) = Some pk" for pk
    proof -
      have "\<not> signed_by V bin pk"
        using assms(2) [of bin] good that by (auto simp: authentic_def simp flip: find_key_selects)
      then show ?thesis
        using good by (simp add: verify_signed_def signed_by_def sign_msg_eq VL_PAYLOAD_LEN_def vl_offsets)
    qed
    then show ?thesis
      using r good unfolding verify_blob_def blob_decode_def [symmetric]
      by (auto simp: vl_offsets VL_MAGIC_def VL_FORMAT_VERSION_def header_ok_def vl_sizes split: if_splits option.splits)
  next
    case (bad bin')
    then show ?thesis
      using r unfolding verify_blob_def blob_decode_def [symmetric] by (auto simp: vl_sizes)
  qed
  have "s' = s \<and> st \<in> ?bad"
    using v blob by (auto simp: vl_verify_with_def Let_def split: option.splits if_splits prod.splits)
  moreover have "st \<noteq> VL_OK" using calculation by auto
  ultimately show ?thesis using vl_verify_fails_zero [OF v] by simp
qed

lemma vl_verify_unauthentic_witness:
  "\<exists>st. vl_verify_with (\<lambda>_ _ _ _. 0) (Some (demo_text px_segs 50 200)) (Some (demo_cfg 2)) (Some px_hal) (Some zero_license) (demo_px 100) =
    (st, Some zero_license, demo_px 100) \<and> st \<noteq> VL_OK"
proof -
  obtain st out' s' where v: "vl_verify_with (\<lambda>_ _ _ _. 0) (Some (demo_text px_segs 50 200)) (Some (demo_cfg 2))
      (Some px_hal) (Some zero_license) (demo_px 100) = (st, out', s')" by (metis surj_pair)
  have "\<not> authentic (\<lambda>_ _ _ _. 0) (demo_text px_segs 50 200) (demo_cfg 2) bin" for bin
    by (simp add: authentic_def signed_by_def)
  from vl_verify_unauthentic [OF v this] show ?thesis using v by auto
qed

text \<open>C5. The order of the checks decides the status. For a blob with a good signature, on a
  device whose segments and clock answer and whose mark can be read, the status is
  \<open>DEVICE_MISMATCH\<close> if the fingerprint differs, else \<open>REVOKED\<close> if the serial is denied, else
  \<open>NOT_YET_VALID\<close> or \<open>EXPIRED\<close> by the window, else (when the mark is enforced)
  \<open>CLOCK_ROLLBACK\<close> if the clock is behind it or \<open>PLATFORM\<close> if moving it up fails, else
  \<open>VL_OK\<close>; a bound that is zero is no bound.\<close>

theorem vl_verify_first_failure:
  assumes "id_source rd" and hal: "read_id_segment hal = Some rd" "now_epoch hal = Some clk"
    "hwm_load hal = Some load" "hwm_store hal = Some store"
    and a: "args_ok cfg hal" and auth: "authentic V b cfg bin"
    and ids: "id_segments rd 0 s = (Inr segs, s1)" "segs \<noteq> []"
    and clk: "clk s1 = (VL_OK, now, s2)" and ld: "load s2 = (VL_OK, mark, s3)"
  shows "fst (vl_verify_with V (Some b) (Some cfg) (Some hal) out s) =
    (let lic = parse_license bin in
     if \<not> bound_to bin segs then VL_ERR_DEVICE_MISMATCH
     else if serial lic \<in> denied cfg then VL_ERR_REVOKED
     else if not_before lic \<noteq> 0 \<and> now < not_before lic then VL_ERR_NOT_YET_VALID
     else if not_after lic \<noteq> 0 \<and> not_after lic < now then VL_ERR_EXPIRED
     else if flags cfg AND VL_FLAG_ENFORCE_HWM = 0 then VL_OK
     else if now < mark then VL_ERR_CLOCK_ROLLBACK
     else if mark < now \<and> fst (store now s3) \<noteq> VL_OK then VL_ERR_PLATFORM
     else VL_OK)"
  by (rule id_source.authentic_status [OF assms])

lemma vl_verify_first_failure_witness:
  "fst (vl_verify_with yes_check (Some (demo_text px_segs 50 200)) (Some (demo_cfg 2)) (Some px_hal) None (demo_px 300)) =
    VL_ERR_EXPIRED"
proof -
  have ne: "px_segs \<noteq> []" by (simp add: px_segs_def)
  have now: "px_now_epoch (demo_px 300) = (VL_OK, 300, demo_px 300)" by (simp add: px_now_epoch_def demo_px_def)
  from vl_verify_first_failure [OF px_id_source px_hal_simps px_hal_args [of 2] demo_authentic [of px_segs 50 200 2]
      demo_px_ids [of 300] ne now demo_px_mark [of 300], of None]
  show ?thesis unfolding Let_def demo_bin_fields demo_denied using demo_bin_bound [OF ne, of 50 200] by simp
qed

text \<open>C24. What was pasted does not matter, only what it spells: two spellings of the same hundred
  bytes, whatever their case, confusable letters and grouping, get the same answer from any
  platform: the same status, the same licence and the same effects.\<close>

theorem vl_verify_spelling_independent:
  assumes "b32_spells b bin" and "b32_spells b' bin" and "length bin = 100"
  shows "vl_verify_with V (Some b) cfg hal out s = vl_verify_with V (Some b') cfg hal out s"
  by (rule vl_verify_respelled [OF assms])

lemma vl_verify_spelling_independent_witness:
  "vl_verify_with yes_check (Some (demo_text px_segs 0 0 @ [0x20])) (Some (demo_cfg 0)) (Some px_hal) None (demo_px 9) =
   vl_verify_with yes_check (Some (demo_text px_segs 0 0)) (Some (demo_cfg 0)) (Some px_hal) None (demo_px 9)"
proof -
  let ?t = "demo_text px_segs 0 0"
  have c: "canon ?t" "length ?t = 160" using b32_text_spec [of "demo_bin px_segs 0 0"]
    by (simp_all add: demo_text_def VL_BASE32_CHARS_def)
  have "cstr (?t @ [0x20]) = ?t @ [0x20]"
    using canon_cstr' [OF c(1)] by (auto simp: cstr_def takeWhile_eq_all_conv)
  then have "b32_spells (?t @ [0x20]) (demo_bin px_segs 0 0)"
    using demo_spells [of px_segs 0 0] canon_cstr' [OF c(1)] c(2)
    by (auto simp: b32_spells_def b32_sig_def VL_BASE32_MAX_INPUT_def b32_val_def)
  then show ?thesis by (rule vl_verify_spelling_independent [OF _ demo_spells]) simp
qed

section \<open>The fingerprint\<close>

text \<open>C16. The fingerprint is SHA-256 (FIPS 180-4) of the domain string and the length-prefixed
  segments of the device, as far as its source reports them and at most sixty-four; an error of the
  source is returned, no segment at all is a platform error, and every failure wipes the caller's
  buffer.\<close>

theorem fingerprint_is_hash:
  assumes "id_source rd" and "read_id_segment h = Some rd" and "length out = 32"
  shows "vl_compute_fingerprint (Some h) (Some out) s =
    (case id_segments rd 0 s of
       (Inl e, s') \<Rightarrow> (e, Some (replicate 32 0), s')
     | (Inr xs, s') \<Rightarrow>
         if xs = [] then (VL_ERR_PLATFORM, Some (replicate 32 0), s')
         else (VL_OK, Some (fips256 (str_bytes ''vectilicense:fingerprint:v1'' @
           concat (map (\<lambda>x. word_of_nat (length x) # x) xs))), s'))"
  using id_source.fingerprint_spec [OF assms(1,2)] assms(3)
  by (simp add: VL_FINGERPRINT_LEN_def fingerprint_of_def frame_segments_def frame_segment_def [abs_def] VL_FP_DOMAIN_def
      sha256_spec_fips split: prod.split sum.split)

lemma fingerprint_is_hash_witness:
  "vl_compute_fingerprint (Some px_hal) (Some (replicate 32 7)) (demo_px 0) =
    (VL_OK, Some (fips256 (str_bytes ''vectilicense:fingerprint:v1'' @
      concat (map (\<lambda>x. word_of_nat (length x) # x) px_segs))), demo_px 0)"
proof -
  have "read_id_segment px_hal = Some px_read_id_segment" by (simp add: px_hal_def)
  from fingerprint_is_hash [OF px_id_source this, of "replicate 32 7" "demo_px 0"] show ?thesis
    by (simp only: demo_px_ids length_replicate) (simp add: px_segs_def)
qed

text \<open>C25. One licence, one identity. If one blob is accepted on two devices, whatever their platforms,
  keys, configurations and states, then the strings their fingerprints hash, the domain followed by each
  segment with its length before it, have SHA-256 values that agree in the first sixteen bytes, and these
  strings are the same only if the devices reported the same segments: two devices of different identity
  share a licence only through a collision of the truncated hash.\<close>

theorem licence_names_one_identity:
  assumes src: "id_source rd" "read_id_segment h = Some rd" "id_source rd'" "read_id_segment h' = Some rd'"
    and v: "vl_verify_with V (Some b) (Some cfg) (Some h) out s = (VL_OK, lic, s1)"
    and v': "vl_verify_with V' (Some b) (Some cfg') (Some h') out' t = (VL_OK, lic', t1)"
  shows "\<exists>xs ys. fst (id_segments rd 0 s) = Inr xs \<and> fst (id_segments rd' 0 t) = Inr ys \<and>
    (let hashed = (\<lambda>zs. str_bytes ''vectilicense:fingerprint:v1'' @ concat (map (\<lambda>z. word_of_nat (length z) # z) zs))
     in take 16 (fips256 (hashed xs)) = take 16 (fips256 (hashed ys)) \<and> (hashed xs = hashed ys \<longleftrightarrow> xs = ys))"
proof -
  obtain bin bin' where a: "admits V b cfg h s bin" "admits V' b cfg' h' t bin'"
    using id_source.vl_verify_spec(1) [OF src(1) v src(2)] id_source.vl_verify_spec(1) [OF src(3) v' src(4)] by auto
  have "bin' = bin" using a b32_spells_unique [of b bin bin'] by (simp add: admits_def)
  then obtain xs s2 ys t2 where ids: "id_segments rd 0 s = (Inr xs, s2)" "id_segments rd' 0 t = (Inr ys, t2)"
    and bound: "bound_to bin xs" "bound_to bin ys"
    using a src(2,4) by (auto simp: admits_def)
  have hashed: "str_bytes ''vectilicense:fingerprint:v1'' @ concat (map (\<lambda>z. word_of_nat (length z) # z) zs) =
      VL_FP_DOMAIN @ frame_segments zs" for zs
    by (simp add: VL_FP_DOMAIN_def frame_segments_def frame_segment_def [abs_def])
  have "take 16 (fips256 (VL_FP_DOMAIN @ frame_segments xs)) = take 16 (fips256 (VL_FP_DOMAIN @ frame_segments ys))"
    using bound by (simp add: bound_to_def fingerprint_of_def sha256_spec_fips)
  moreover have "frame_segments xs = frame_segments ys \<longleftrightarrow> xs = ys"
    using id_segments_lengths [OF ids(1)] id_segments_lengths [OF ids(2)] frame_segments_inj by auto
  ultimately show ?thesis
    by (intro exI [of _ xs] exI [of _ ys]) (simp only: ids fst_conv hashed Let_def same_append_eq simp_thms)
qed

lemma licence_names_one_identity_witness:
  "\<exists>l1 s1 l2 s2.
    vl_verify_with yes_check (Some (demo_text px_segs 0 0)) (Some (demo_cfg 0)) (Some px_hal) None (demo_px 9) = (VL_OK, l1, s1) \<and>
    vl_verify_with yes_check (Some (demo_text px_segs 0 0)) (Some (demo_cfg 2)) (Some px_hal) None (demo_unread 7 None) = (VL_OK, l2, s2) \<and>
    (\<exists>xs ys. fst (id_segments px_read_id_segment 0 (demo_px 9)) = Inr xs \<and>
       fst (id_segments px_read_id_segment 0 (demo_unread 7 None)) = Inr ys \<and> xs = ys)"
proof -
  let ?b = "demo_text px_segs 0 0"
  have px: "read_id_segment px_hal = Some px_read_id_segment" by (simp add: px_hal_def)
  obtain st1 l1 s1 where v1: "vl_verify_with yes_check (Some ?b) (Some (demo_cfg 0)) (Some px_hal) None (demo_px 9) = (st1, l1, s1)"
    by (metis surj_pair)
  obtain st2 l2 s2 where v2: "vl_verify_with yes_check (Some ?b) (Some (demo_cfg 2)) (Some px_hal) None (demo_unread 7 None) = (st2, l2, s2)"
    by (metis surj_pair)
  have "admits yes_check ?b (demo_cfg 0) px_hal (demo_px 9) (demo_bin px_segs 0 0)" by (rule demo_px_admits) simp_all
  then have st1: "st1 = VL_OK" using px_id.vl_verify_spec(1) [OF v1 px] by blast
  have "admits yes_check ?b (demo_cfg 2) px_hal (demo_unread 7 None) (demo_bin px_segs 0 0)"
    by (rule demo_unread_admits) simp_all
  then have st2: "st2 = VL_OK" using px_id.vl_verify_spec(1) [OF v2 px] by blast
  from licence_names_one_identity [OF px_id_source px px_id_source px v1 [unfolded st1] v2 [unfolded st2]]
  show ?thesis using v1 v2 st1 st2 demo_px_ids [of 9] demo_unread_ids [of 7 None] by auto
qed

section \<open>The clock and its high-water mark\<close>

text \<open>C11. When accepted clocks go back. On a Linux machine with the mark enforced and the interface
  known, over any history of checks of any blobs, between which the clock, the files, their permissions,
  the room on the disk and the network interfaces change in any way, except that only the checks write the
  mark file: if a check accepts a clock earlier than one accepted before it, then after that one a check
  (this or one in between) accepted such an earlier clock while the mark file was there and could not be
  opened for reading. So the accepted clocks are in order as long as the mark file can be opened, however
  full or read-only the disk is; the witness shows that without that they need not be, since
  \<open>hwm_load\<close> answers \<open>VL_OK\<close> and no mark for a file it cannot open.\<close>

theorem px_clock_back_needs_unread_mark:
  assumes "px_path_ok s" and "px_iface s \<noteq> []" and "flags cfg AND VL_FLAG_ENFORCE_HWM \<noteq> 0"
    and h: "h = px_history V cfg es s" and "i < j" and "j < length h"
    and "snd (h ! i) = VL_OK" and "snd (h ! j) = VL_OK" and "px_time (fst (h ! j)) < px_time (fst (h ! i))"
  shows "\<exists>k. i < k \<and> k \<le> j \<and> snd (h ! k) = VL_OK \<and> px_time (fst (h ! k)) < px_time (fst (h ! i)) \<and>
    px_files (fst (h ! k)) (px_state s @ str_bytes ''.hwm'') \<noteq> None \<and>
    \<not> px_readable (fst (h ! k)) (px_state s @ str_bytes ''.hwm'')"
  using px_history_back [OF assms(1-3) assms(5-9) [unfolded h]] by (simp add: h mark_unread_def)

lemma px_clock_back_needs_unread_mark_witness:
  "\<exists>s1 s2. px_history yes_check (demo_cfg 2)
      [(demo_unread 100 None, demo_text px_segs 0 0), (demo_unread 90 None, demo_text px_segs 0 0)] (demo_px 0) =
      [(s1, VL_OK), (s2, VL_OK)] \<and> px_time s1 = 100 \<and> px_time s2 = 90 \<and>
    px_files s2 (str_bytes ''/s.hwm'') \<noteq> None \<and> \<not> px_readable s2 (str_bytes ''/s.hwm'')"
proof -
  let ?b = "demo_text px_segs 0 0" and ?p = "str_bytes ''/s.hwm''"
  have path: "px_path_ok (demo_px 0)" and st: "px_state (demo_px 0) @ str_bytes ''.hwm'' = ?p"
    using demo_px_ok [of 0] by (simp_all add: px_ok_def demo_px_def str_bytes_def)
  have fl: "flags (demo_cfg 2) AND VL_FLAG_ENFORCE_HWM \<noteq> 0" by (simp add: demo_cfg_def VL_FLAG_ENFORCE_HWM_def)
  obtain o1 s1' where v1: "vl_verify_with yes_check (Some ?b) (Some (demo_cfg 2)) (Some px_hal) None (demo_unread 100 None) = (VL_OK, o1, s1')"
    "px_iface s1' = px_iface (demo_px 0)" "px_state s1' = px_state (demo_px 0)" using demo_unread_accepts [of 100 None] by auto
  obtain o2 s2' where v2: "vl_verify_with yes_check (Some ?b) (Some (demo_cfg 2)) (Some px_hal) None
      (demo_unread 90 (px_files s1' ?p)) = (VL_OK, o2, s2')" using demo_unread_accepts [of 90 "px_files s1' ?p"] by auto
  define h where "h = px_history yes_check (demo_cfg 2) [(demo_unread 100 None, ?b), (demo_unread 90 None, ?b)] (demo_px 0)"
  have none: "px_files (demo_px 0) ?p = None" by (simp add: demo_px_def str_bytes_def)
  have hist: "h = [(demo_unread 100 None, VL_OK), (demo_unread 90 (px_files s1' ?p), VL_OK)]"
    using v1 v2 by (simp add: h_def demo_unread_env none)
  have t: "px_time (demo_unread a m) = a" for a m by (simp add: demo_unread_def demo_px_def)
  have "\<exists>k. 0 < k \<and> k \<le> 1 \<and> snd (h ! k) = VL_OK \<and> px_time (fst (h ! k)) < px_time (fst (h ! 0)) \<and>
      px_files (fst (h ! k)) (px_state (demo_px 0) @ str_bytes ''.hwm'') \<noteq> None \<and>
      \<not> px_readable (fst (h ! k)) (px_state (demo_px 0) @ str_bytes ''.hwm'')"
    by (rule px_clock_back_needs_unread_mark [OF path demo_px_iface fl h_def]) (simp_all add: hist t)
  then obtain k where "k = 1" "px_files (fst (h ! k)) ?p \<noteq> None" "\<not> px_readable (fst (h ! k)) ?p"
    unfolding st by (metis One_nat_def le_Suc_eq le_zero_eq less_numeral_extra(3))
  then show ?thesis unfolding h_def [symmetric] by (auto simp: hist t)
qed

text \<open>C26. An expired check leaves nothing behind: the mark moves up only when a check is accepted,
  so after a check at a time past the end of the window has answered \<open>EXPIRED\<close>, setting the clock
  back gives, for every later check, the answer it would have given had the later time never been
  seen. (The documentation describes the mark as the highest timestamp ever seen.)\<close>

theorem px_expired_not_remembered:
  assumes "px_iface s \<noteq> []"
    and "vl_verify_with V (Some b) (Some cfg) (Some px_hal) out (s\<lparr>px_time := late\<rparr>) = (VL_ERR_EXPIRED, out', s')"
  shows "vl_verify_with V (Some b2) (Some cfg2) (Some px_hal) out2 (s'\<lparr>px_time := t\<rparr>) =
    vl_verify_with V (Some b2) (Some cfg2) (Some px_hal) out2 (s\<lparr>px_time := t\<rparr>)"
proof -
  have "pure_reads px_hal (s\<lparr>px_time := late\<rparr>)" using assms(1) by (intro px_pure) simp
  from vl_verify_refusal_pure [OF this assms(2)] have "s' = s\<lparr>px_time := late\<rparr>" by simp
  then show ?thesis by simp
qed

lemma px_expired_not_remembered_witness:
  "\<exists>out1 s1 out2 s2 out3 s3.
    vl_verify_with yes_check (Some (demo_text px_segs 50 200)) (Some (demo_cfg 2)) (Some px_hal) None (demo_px 300) = (VL_ERR_EXPIRED, out1, s1) \<and>
    vl_verify_with yes_check (Some (demo_text px_segs 50 200)) (Some (demo_cfg 2)) (Some px_hal) None (s1\<lparr>px_time := 150\<rparr>) = (VL_OK, out2, s2)"
proof -
  let ?b = "demo_text px_segs 50 200"
  have px: "read_id_segment px_hal = Some px_read_id_segment" by (simp add: px_hal_def)
  have time: "(demo_px a)\<lparr>px_time := c\<rparr> = demo_px c" for a c by (simp add: demo_px_def)
  obtain st1 out1 s1 where v1: "vl_verify_with yes_check (Some ?b) (Some (demo_cfg 2)) (Some px_hal) None (demo_px 300) = (st1, out1, s1)"
    by (metis surj_pair)
  then have "st1 = VL_ERR_EXPIRED" using demo_px_status [of 300 50 200 2 None] by simp
  then have e: "vl_verify_with yes_check (Some ?b) (Some (demo_cfg 2)) (Some px_hal) None ((demo_px 0)\<lparr>px_time := 300\<rparr>) = (VL_ERR_EXPIRED, out1, s1)"
    using v1 by (simp add: time)
  obtain st2 out2 s2 where v2: "vl_verify_with yes_check (Some ?b) (Some (demo_cfg 2)) (Some px_hal) None (demo_px 150) = (st2, out2, s2)"
    by (metis surj_pair)
  have "admits yes_check ?b (demo_cfg 2) px_hal (demo_px 150) (demo_bin px_segs 50 200)"
    by (rule demo_px_admits) simp_all
  then have "st2 = VL_OK" using px_id.vl_verify_spec(1) [OF v2 px] by blast
  then show ?thesis
    using px_expired_not_remembered [OF demo_px_iface e, of ?b "demo_cfg 2" None 150] e v2 by (simp add: time)
qed

end
